(* ===== verification/Prelude.thy ===== *)
theory Prelude
  imports Main "HOL-Library.Word" "HOL-Library.Signed_Division"
    "HOL-Library.List_Lexorder" "HOL-Library.Char_ord" "HOL-Library.Multiset"
begin

text \<open>
  Shared vocabulary of the development: the model's names for Go's machine integers, the
  collections of simplification rules the component theories extend, and the generic lemmas on
  sums, lists and signed words that several components use.

  \<^item> \<open>i64\<close> and \<open>i32\<close> are Go's \<open>int64\<close> and \<open>int32\<close>: words whose \<open>+\<close>, \<open>-\<close> and
    \<open>*\<close> wrap, read as signed through \<open>sint\<close>.
  \<^item> \<open>uuid\<close> is \<open>uuid.UUID\<close>, an opaque identifier; its textual form is a parameter where the
    code needs one.
  \<^item> \<open>time\<close> is an instant or a duration in nanoseconds.
  \<^item> A Go string is a byte string, i.e. a HOL \<open>string\<close>; \<open><\<close> on it is the byte-wise
    lexicographic order.
\<close>

type_synonym i64 = "64 word"
type_synonym i32 = "32 word"
type_synonym uuid = nat
type_synonym time = int

named_theorems go_const \<open>definitions of the Go constants\<close>
named_theorems db_query \<open>definitions of the SQL queries\<close>
named_theorems db_frame \<open>which tables an operation leaves alone\<close>

section \<open>Signed words\<close>

definition i64_max :: int where
  "i64_max = 2 ^ 63 - 1"

definition i64_min :: int where
  "i64_min = - (2 ^ 63)"

definition in_i64 :: "int \<Rightarrow> bool" where
  "in_i64 k \<longleftrightarrow> - (2 ^ 63) \<le> k \<and> k < 2 ^ 63"

lemma in_i64_small: "0 \<le> k \<Longrightarrow> k < 1000 \<Longrightarrow> in_i64 k"
  by (simp add: in_i64_def)

lemma sint_in_i64 [simp]: "in_i64 (sint (x :: i64))"
  using sint_ge [of x] sint_lt [of x] by (simp add: in_i64_def)

lemma sint_i64_bounds: "- (2 ^ 63) \<le> sint (x :: i64)" "sint (x :: i64) < 2 ^ 63"
  using sint_ge [of x] sint_lt [of x] by simp_all

lemma sint_of_int_i64: "in_i64 k \<Longrightarrow> sint (word_of_int k :: i64) = k"
  by (simp add: in_i64_def signed_of_int signed_take_bit_int_eq_self)

lemma i64_eq_iff: "(x :: i64) = y \<longleftrightarrow> sint x = sint y"
  by (rule word_eq_iff_signed)
    
lemma of_int_sint_i64 [simp]: "word_of_int (sint x) = (x :: i64)"
  by simp

lemma sint_add_i64: "in_i64 (sint x + sint y) \<Longrightarrow> sint (x + y :: i64) = sint x + sint y"
  by (metis sint_of_int_i64 wi_hom_add of_int_sint_i64)

lemma sint_diff_i64: "in_i64 (sint x - sint y) \<Longrightarrow> sint (x - y :: i64) = sint x - sint y"
  by (metis sint_of_int_i64 wi_hom_sub of_int_sint_i64)

lemma sint_minus_i64: "in_i64 (- sint x) \<Longrightarrow> sint (- x :: i64) = - sint x"
  by (metis sint_of_int_i64 wi_hom_neg of_int_sint_i64)

lemma sint_zero_iff [simp]: "sint (x :: i64) = 0 \<longleftrightarrow> x = 0"
  by (metis signed_0 i64_eq_iff)

text \<open>Go's \<open>/\<close> and \<open>%\<close> on \<open>int64\<close> truncate towards zero.\<close>

definition go_div :: "i64 \<Rightarrow> i64 \<Rightarrow> i64" where
  "go_div x y = word_of_int (sint x sdiv sint y)"

definition go_mod :: "i64 \<Rightarrow> i64 \<Rightarrow> i64" where
  "go_mod x y = word_of_int (sint x smod sint y)"

section \<open>Sums and lists\<close>

lemma sum_list_filter_le:
  "(\<And>x. x \<in> set xs \<Longrightarrow> 0 \<le> f x) \<Longrightarrow> sum_list (map f (filter P xs)) \<le> sum_list (map f xs)"
  for f :: "'a \<Rightarrow> int"
  by (induction xs) (auto simp: add_increasing add_mono)

lemma sum_list_filter_nonneg:
  "(\<And>x. x \<in> set xs \<Longrightarrow> 0 \<le> f x) \<Longrightarrow> 0 \<le> sum_list (map f (filter P xs))"
  for f :: "'a \<Rightarrow> int"
  by (induction xs) auto

lemma distinct_map_snoc:
  "distinct (map f (xs @ [x])) \<longleftrightarrow> distinct (map f xs) \<and> f x \<notin> f ` set xs"
  by auto

lemma find_Some_mem: "List.find P xs = Some x \<Longrightarrow> x \<in> set xs \<and> P x"
  by (metis find_Some_iff nth_mem)

lemma find_None_all: "List.find P xs = None \<longleftrightarrow> (\<forall>x \<in> set xs. \<not> P x)"
  by (auto simp: find_None_iff)

lemma find_append:
  "List.find P (xs @ ys) = (case List.find P xs of Some x \<Rightarrow> Some x | None \<Rightarrow> List.find P ys)"
  by (induction xs) auto

text \<open>With distinct keys, looking a key up finds the one element that has it.\<close>

lemma find_distinct_key:
  "distinct (map f xs) \<Longrightarrow> x \<in> set xs \<Longrightarrow> List.find (\<lambda>y. f y = f x) xs = Some x"
  by (induction xs) auto

text \<open>Updating every element with a given key: what an SQL \<open>UPDATE .. WHERE key = k\<close> does.\<close>

definition update_where :: "('a \<Rightarrow> bool) \<Rightarrow> ('a \<Rightarrow> 'a) \<Rightarrow> 'a list \<Rightarrow> 'a list" where
  "update_where P f xs = map (\<lambda>x. if P x then f x else x) xs"

lemma update_where_Nil [simp]: "update_where P f [] = []"
  by (simp add: update_where_def)

lemma update_where_Cons [simp]:
  "update_where P f (x # xs) = (if P x then f x else x) # update_where P f xs"
  by (simp add: update_where_def)

lemma update_where_append [simp]:
  "update_where P f (xs @ ys) = update_where P f xs @ update_where P f ys"
  by (simp add: update_where_def)

lemma length_update_where [simp]: "length (update_where P f xs) = length xs"
  by (simp add: update_where_def)

lemma set_update_where:
  "set (update_where P f xs) = {x \<in> set xs. \<not> P x} \<union> f ` {x \<in> set xs. P x}"
  by (induction xs) auto

lemma map_update_where:
  "(\<And>x. P x \<Longrightarrow> g (f x) = g x) \<Longrightarrow> map g (update_where P f xs) = map g xs"
  by (induction xs) auto

lemma find_update_where:
  "(\<And>x. P x \<Longrightarrow> Q (f x) = Q x) \<Longrightarrow>
   List.find Q (update_where P f xs) =
     map_option (\<lambda>x. if P x then f x else x) (List.find Q xs)"
  by (induction xs) auto

section \<open>Results\<close>

text \<open>\<open>'e + 'a\<close> is a Go pair \<open>(value, error)\<close>: \<open>Inl\<close> the non-nil error.\<close>

fun is_ok :: "'e + 'a \<Rightarrow> bool" where
  "is_ok (Inr _) = True"
| "is_ok (Inl _) = False"

lemma is_ok_iff: "is_ok r \<longleftrightarrow> (\<exists>a. r = Inr a)"
  by (cases r) auto

end
