(* ===== verification/GoError.thy ===== *)
theory GoError
  imports Prelude
begin

text \<open>
  Go error values. An error is a chain: sentinels (\<open>errors.New\<close> values compared by identity),
  the errors the infrastructure raises (a Postgres error with its SQLSTATE, a broken connection, a
  cancelled context), a gRPC status, a formatted message, a wrap (\<open>fmt.Errorf\<close> with
  \<open>%w\<close>, here with the text before and after the wrapped error) and a join
  (\<open>errors.Join\<close>). \<open>errors_is\<close>, \<open>errors_as_pg\<close> and \<open>errors_as_grpc\<close> walk the chain as
  \<open>errors.Is\<close> and \<open>errors.As\<close> do, depth first.
\<close>

datatype sentinel =
    ErrTooFewEntries | ErrUnbalanced | ErrMixedCurrency | ErrNonPositiveEntry | ErrUnknownAccount
  | ErrSerializationExhausted
  | ErrIllegalTransition
  | ErrMissingIdempotencyKey | ErrNonPositiveAmount | ErrUnknownCurrency | ErrMissingField
  | ErrNotFound | ErrIdempotencyConflict | ErrInProgress
  | ErrInvalidJSONBody
  | ErrMalformedRow | ErrMissingColumn | ErrUnknownStatus
  | ErrNoRows | ErrEOF

datatype grpc_code =
    GrpcOK | GrpcCanceled | GrpcUnknown | GrpcInvalidArgument | GrpcDeadlineExceeded | GrpcNotFound
  | GrpcInternal | GrpcUnavailable

datatype infra_err =
    PgError string string
  | ConnError string
  | CtxCanceled
  | CtxDeadlineExceeded

datatype err =
    Sentinel sentinel
  | Infra infra_err
  | GrpcStatus grpc_code string
  | ErrMsg string
  | Wrap string err string
  | Join err err

definition sentinel_msg :: "sentinel \<Rightarrow> string" where
  "sentinel_msg s = (case s of
      ErrTooFewEntries \<Rightarrow> ''ledger: transaction needs at least two entries''
    | ErrUnbalanced \<Rightarrow> ''ledger: transaction is unbalanced''
    | ErrMixedCurrency \<Rightarrow> ''ledger: transaction mixes currencies''
    | ErrNonPositiveEntry \<Rightarrow> ''ledger: entry amount must be positive''
    | ErrUnknownAccount \<Rightarrow> ''ledger: unknown account''
    | ErrSerializationExhausted \<Rightarrow> ''ledger: serialization retries exhausted''
    | ErrIllegalTransition \<Rightarrow> ''transfer: illegal state transition''
    | ErrMissingIdempotencyKey \<Rightarrow> ''transfer: idempotency-key header required''
    | ErrNonPositiveAmount \<Rightarrow> ''transfer: amount_minor must be positive''
    | ErrUnknownCurrency \<Rightarrow> ''transfer: unsupported currency''
    | ErrMissingField \<Rightarrow> ''transfer: required field missing''
    | ErrNotFound \<Rightarrow> ''transfer: not found''
    | ErrIdempotencyConflict \<Rightarrow> ''transfer: idempotency-key reused with a different request''
    | ErrInProgress \<Rightarrow> ''transfer: a request with this idempotency-key is in progress''
    | ErrInvalidJSONBody \<Rightarrow> ''transfer: invalid JSON body''
    | ErrMalformedRow \<Rightarrow> ''reconcile: malformed row''
    | ErrMissingColumn \<Rightarrow> ''reconcile: missing required column''
    | ErrUnknownStatus \<Rightarrow> ''reconcile: unknown status''
    | ErrNoRows \<Rightarrow> ''no rows in result set''
    | ErrEOF \<Rightarrow> ''EOF'')"

fun infra_msg :: "infra_err \<Rightarrow> string" where
  "infra_msg (PgError code msg) = msg @ '' (SQLSTATE '' @ code @ '')''"
| "infra_msg (ConnError msg) = msg"
| "infra_msg CtxCanceled = ''context canceled''"
| "infra_msg CtxDeadlineExceeded = ''context deadline exceeded''"

fun errors_is :: "err \<Rightarrow> sentinel \<Rightarrow> bool" where
  "errors_is (Sentinel s) t \<longleftrightarrow> s = t"
| "errors_is (Wrap _ e _) t \<longleftrightarrow> errors_is e t"
| "errors_is (Join e f) t \<longleftrightarrow> errors_is e t \<or> errors_is f t"
| "errors_is (Infra _) t \<longleftrightarrow> False"
| "errors_is (GrpcStatus _ _) t \<longleftrightarrow> False"
| "errors_is (ErrMsg _) t \<longleftrightarrow> False"

fun errors_is_deadline :: "err \<Rightarrow> bool" where
  "errors_is_deadline (Infra i) \<longleftrightarrow> i = CtxDeadlineExceeded"
| "errors_is_deadline (Wrap _ e _) \<longleftrightarrow> errors_is_deadline e"
| "errors_is_deadline (Join e f) \<longleftrightarrow> errors_is_deadline e \<or> errors_is_deadline f"
| "errors_is_deadline _ \<longleftrightarrow> False"

fun errors_as_pg :: "err \<Rightarrow> string option" where
  "errors_as_pg (Infra (PgError code _)) = Some code"
| "errors_as_pg (Wrap _ e _) = errors_as_pg e"
| "errors_as_pg (Join e f) =
     (case errors_as_pg e of Some c \<Rightarrow> Some c | None \<Rightarrow> errors_as_pg f)"
| "errors_as_pg _ = None"

fun errors_as_grpc :: "err \<Rightarrow> grpc_code option" where
  "errors_as_grpc (GrpcStatus code _) = Some code"
| "errors_as_grpc (Wrap _ e _) = errors_as_grpc e"
| "errors_as_grpc (Join e f) =
     (case errors_as_grpc e of Some c \<Rightarrow> Some c | None \<Rightarrow> errors_as_grpc f)"
| "errors_as_grpc _ = None"

text \<open>The text of a gRPC status error, as the client library renders it.\<close>

definition grpc_code_name :: "grpc_code \<Rightarrow> string" where
  "grpc_code_name c = (case c of
      GrpcOK \<Rightarrow> ''OK'' | GrpcCanceled \<Rightarrow> ''Canceled'' | GrpcUnknown \<Rightarrow> ''Unknown''
    | GrpcInvalidArgument \<Rightarrow> ''InvalidArgument'' | GrpcDeadlineExceeded \<Rightarrow> ''DeadlineExceeded''
    | GrpcNotFound \<Rightarrow> ''NotFound'' | GrpcInternal \<Rightarrow> ''Internal''
    | GrpcUnavailable \<Rightarrow> ''Unavailable'')"

fun err_text :: "err \<Rightarrow> string" where
  "err_text (Sentinel s) = sentinel_msg s"
| "err_text (Infra i) = infra_msg i"
| "err_text (GrpcStatus c msg) = ''rpc error: code = '' @ grpc_code_name c @ '' desc = '' @ msg"
| "err_text (ErrMsg m) = m"
| "err_text (Wrap pre e post) = pre @ err_text e @ post"
| "err_text (Join e f) = err_text e @ [CHR 0x0A] @ err_text f"

end
