(* ===== verification/Strconv.thy ===== *)
theory Strconv
  imports GoError
begin

text \<open>
  The parts of Go's \<open>strconv\<close>, \<open>fmt\<close> and \<open>strings\<close> the program uses: decimal rendering
  (\<open>FormatInt\<close>, \<open>%d\<close>, \<open>%02d\<close>, \<open>%06d\<close>), decimal parsing with its range check
  (\<open>ParseInt\<close>), trimming and case folding of ASCII text. The main facts are that parsing reads
  back what formatting wrote and that formatting is injective.
\<close>

section \<open>Decimal digits\<close>

definition digit_char :: "nat \<Rightarrow> char" where
  "digit_char d = char_of (48 + d)"

definition is_digit :: "char \<Rightarrow> bool" where
  "is_digit c \<longleftrightarrow> 48 \<le> (of_char c :: nat) \<and> (of_char c :: nat) \<le> 57"

definition digit_val :: "char \<Rightarrow> nat" where
  "digit_val c = of_char c - 48"

lemma of_char_digit: "d < 10 \<Longrightarrow> (of_char (digit_char d) :: nat) = 48 + d"
  by (simp add: digit_char_def of_char_of)

lemma is_digit_digit_char [simp]: "d < 10 \<Longrightarrow> is_digit (digit_char d)"
  by (simp add: is_digit_def of_char_digit)

lemma digit_val_digit_char [simp]: "d < 10 \<Longrightarrow> digit_val (digit_char d) = d"
  by (simp add: digit_val_def of_char_digit)

fun dec_nat :: "nat \<Rightarrow> string" where
  "dec_nat n = (if n < 10 then [digit_char n] else dec_nat (n div 10) @ [digit_char (n mod 10)])"

declare dec_nat.simps [simp del]

lemma dec_nat_small: "n < 10 \<Longrightarrow> dec_nat n = [digit_char n]"
  by (simp add: dec_nat.simps)

lemma dec_nat_big: "10 \<le> n \<Longrightarrow> dec_nat n = dec_nat (n div 10) @ [digit_char (n mod 10)]"
  by (simp add: dec_nat.simps [of n])

lemma dec_nat_nonempty [simp]: "dec_nat n \<noteq> []"
  by (subst dec_nat.simps) simp

lemma dec_nat_nonempty' [simp]: "[] \<noteq> dec_nat n"
  by (metis dec_nat_nonempty)

lemma dec_nat_digits: "c \<in> set (dec_nat n) \<Longrightarrow> is_digit c"
proof (induction n rule: dec_nat.induct)
  case (1 n)
  then show ?case
    by (cases "n < 10") (auto simp: dec_nat_small dec_nat_big)
qed

section \<open>Formatting\<close>

definition dec_int :: "int \<Rightarrow> string" where
  "dec_int k = (if k < 0 then CHR ''-'' # dec_nat (nat (- k)) else dec_nat (nat k))"

definition FormatInt :: "i64 \<Rightarrow> string" where
  "FormatInt v = dec_int (sint v)"

text \<open>\<open>%0wd\<close>: zeros after the sign until the whole text has width \<open>w\<close>.\<close>

definition pad_zero :: "nat \<Rightarrow> int \<Rightarrow> string" where
  "pad_zero w k =
     (if k < 0
      then CHR ''-'' # replicate (w - 1 - length (dec_nat (nat (- k)))) (CHR ''0'') @ dec_nat (nat (- k))
      else replicate (w - length (dec_nat (nat k))) (CHR ''0'') @ dec_nat (nat k))"

section \<open>Parsing\<close>

datatype num_err = ErrSyntax | ErrRange

fun num_err_msg :: "num_err \<Rightarrow> string" where
  "num_err_msg ErrSyntax = ''invalid syntax''"
| "num_err_msg ErrRange = ''value out of range''"

text \<open>\<open>ParseUint\<close> in base 10 for 64 bits: it stops at the first character that is not a digit
  and at the first prefix that does not fit, whichever comes first.\<close>

fun parse_uint :: "nat \<Rightarrow> string \<Rightarrow> num_err + nat" where
  "parse_uint n [] = Inr n"
| "parse_uint n (c # cs) =
     (if \<not> is_digit c then Inl ErrSyntax
      else if n * 10 + digit_val c \<ge> 2 ^ 64 then Inl ErrRange
      else parse_uint (n * 10 + digit_val c) cs)"

fun split_sign :: "string \<Rightarrow> bool \<times> string" where
  "split_sign [] = (False, [])"
| "split_sign (c # cs) =
     (if c = CHR ''-'' then (True, cs) else if c = CHR ''+'' then (False, cs) else (False, c # cs))"

definition ParseInt :: "string \<Rightarrow> num_err + i64" where
  "ParseInt s = (case split_sign s of (neg, ds) \<Rightarrow>
     if ds = [] then Inl ErrSyntax
     else (case parse_uint 0 ds of
         Inl e \<Rightarrow> Inl e
       | Inr n \<Rightarrow>
           if neg then (if n \<le> 2 ^ 63 then Inr (word_of_int (- int n)) else Inl ErrRange)
           else (if n < 2 ^ 63 then Inr (word_of_int (int n)) else Inl ErrRange)))"

lemma parse_uint_dec_nat:
  "n < 2 ^ 64 \<Longrightarrow> parse_uint 0 (dec_nat n @ cs) = parse_uint n cs"
proof (induction n arbitrary: cs rule: dec_nat.induct)
  case (1 n)
  show ?case
  proof (cases "n < 10")
    case True
    then show ?thesis by (simp add: dec_nat_small)
  next
    case False
    then have "parse_uint 0 (dec_nat (n div 10) @ digit_char (n mod 10) # cs)
        = parse_uint (n div 10) (digit_char (n mod 10) # cs)"
      using 1 by simp
    moreover have "n div 10 * 10 + n mod 10 = n" by presburger
    ultimately show ?thesis using False "1.prems" by (simp add: dec_nat_big)
  qed
qed

lemma parse_uint_dec_nat_all: "n < 2 ^ 64 \<Longrightarrow> parse_uint 0 (dec_nat n) = Inr n"
  using parse_uint_dec_nat [of n "[]"] by simp

lemma dec_nat_inj: "dec_nat m = dec_nat n \<Longrightarrow> m = n"
proof (induction m arbitrary: n rule: dec_nat.induct)
  case (1 m)
  have *: "digit_char a = digit_char b \<Longrightarrow> a < 10 \<Longrightarrow> b < 10 \<Longrightarrow> a = b" for a b
    by (metis digit_val_digit_char)
  show ?case
  proof (cases "m < 10")
    case True
    then have "n < 10"
      using "1.prems" by (cases "n < 10") (auto simp: dec_nat_small dec_nat_big append_eq_Cons_conv)
    then show ?thesis using True "1.prems" * by (simp add: dec_nat_small)
  next
    case False
    then have n: "\<not> n < 10"
      using "1.prems" by (cases "n < 10") (auto simp: dec_nat_small dec_nat_big Cons_eq_append_conv)
    have "dec_nat (m div 10) @ [digit_char (m mod 10)] = dec_nat (n div 10) @ [digit_char (n mod 10)]"
      using dec_nat_big [of m] dec_nat_big [of n] False n "1.prems" by (metis not_less)
    then have e: "dec_nat (m div 10) = dec_nat (n div 10)" "digit_char (m mod 10) = digit_char (n mod 10)"
      by auto
    have "m div 10 = n div 10" by (rule "1.IH" [OF False e(1)])
    moreover have "m mod 10 = n mod 10" by (rule * [OF e(2)]) simp_all
    ultimately show ?thesis by (metis div_mult_mod_eq)
  qed
qed

lemma digit_not_sign: "is_digit c \<Longrightarrow> c \<noteq> CHR ''-'' \<and> c \<noteq> CHR ''+'' \<and> c \<noteq> CHR ''.''"
  by (auto simp: is_digit_def)

lemma split_sign_digits: "cs \<noteq> [] \<Longrightarrow> list_all is_digit cs \<Longrightarrow> split_sign cs = (False, cs)"
  by (cases cs) (auto dest: digit_not_sign)

lemma dec_nat_list_all [simp]: "list_all is_digit (dec_nat n)"
  by (auto simp: list_all_iff dest: dec_nat_digits)

lemma ParseInt_dec_int: "in_i64 k \<Longrightarrow> ParseInt (dec_int k) = Inr (word_of_int k)"
  by (auto simp: ParseInt_def dec_int_def split_sign_digits parse_uint_dec_nat_all in_i64_def)

lemma ParseInt_FormatInt [simp]: "ParseInt (FormatInt v) = Inr v"
  by (simp add: FormatInt_def ParseInt_dec_int)

lemma ParseInt_in_range: "ParseInt s = Inr v \<Longrightarrow> in_i64 (sint v)"
  by simp

section \<open>Trimming and case\<close>

text \<open>The ASCII white space of \<open>strings.TrimSpace\<close>, and \<open>strings.ToUpper\<close> and \<open>ToLower\<close> on
  ASCII letters.\<close>

definition is_space :: "char \<Rightarrow> bool" where
  "is_space c \<longleftrightarrow> (of_char c :: nat) \<in> {9, 10, 11, 12, 13, 32}"

definition TrimSpace :: "string \<Rightarrow> string" where
  "TrimSpace s = rev (dropWhile is_space (rev (dropWhile is_space s)))"

definition upper_char :: "char \<Rightarrow> char" where
  "upper_char c = (let n = of_char c :: nat in if 97 \<le> n \<and> n \<le> 122 then char_of (n - 32) else c)"

definition lower_char :: "char \<Rightarrow> char" where
  "lower_char c = (let n = of_char c :: nat in if 65 \<le> n \<and> n \<le> 90 then char_of (n + 32) else c)"

definition ToUpper :: "string \<Rightarrow> string" where
  "ToUpper s = map upper_char s"

definition ToLower :: "string \<Rightarrow> string" where
  "ToLower s = map lower_char s"

definition EqualFold :: "string \<Rightarrow> string \<Rightarrow> bool" where
  "EqualFold s t \<longleftrightarrow> ToLower s = ToLower t"

lemma digit_not_space: "is_digit c \<Longrightarrow> \<not> is_space c"
  by (auto simp: is_digit_def is_space_def)

text \<open>Text with no white space at either end is left alone.\<close>

definition trimmed :: "string \<Rightarrow> bool" where
  "trimmed s \<longleftrightarrow> s = [] \<or> \<not> is_space (hd s) \<and> \<not> is_space (last s)"

lemma TrimSpace_trimmed: "trimmed s \<Longrightarrow> TrimSpace s = s"
proof (cases s rule: rev_cases)
  case (snoc xs x)
  assume "trimmed s"
  then have "dropWhile is_space s = s" by (auto simp: dropWhile_eq_self_iff trimmed_def)
  then show ?thesis using \<open>trimmed s\<close> snoc by (simp add: TrimSpace_def trimmed_def)
qed (simp add: TrimSpace_def)

lemma trimmed_TrimSpace [simp]: "trimmed (TrimSpace s)"
proof -
  define t where "t = dropWhile is_space s"
  have t: "t = [] \<or> \<not> is_space (hd t)"
    unfolding t_def by (metis hd_dropWhile)
  define u where "u = rev (dropWhile is_space (rev t))"
  have last_u: "u = [] \<or> \<not> is_space (last u)"
    unfolding u_def by (metis hd_dropWhile last_rev rev_is_Nil_conv)
  have "u = [] \<or> hd u = hd t"
  proof -
    have "t = u @ rev (takeWhile is_space (rev t))"
      unfolding u_def by (metis rev_append rev_rev_ident takeWhile_dropWhile_id)
    then show ?thesis by (metis hd_append2)
  qed
  moreover have "u \<noteq> [] \<Longrightarrow> t \<noteq> []" unfolding u_def by auto
  ultimately have "trimmed u" using t last_u by (auto simp: trimmed_def)
  then show ?thesis by (simp add: TrimSpace_def t_def u_def)
qed

lemma TrimSpace_idem [simp]: "TrimSpace (TrimSpace s) = TrimSpace s"
  by (rule TrimSpace_trimmed) simp

lemma FormatInt_trimmed: "trimmed (FormatInt v)"
proof -
  have "\<not> is_space (hd (dec_nat n)) \<and> \<not> is_space (last (dec_nat n))" for n
    using dec_nat_digits [of "hd (dec_nat n)" n] dec_nat_digits [of "last (dec_nat n)" n]
    by (simp add: digit_not_space)
  then show ?thesis by (auto simp: trimmed_def FormatInt_def dec_int_def is_space_def)
qed

end
