(* ===== verification/Money.thy ===== *)
theory Money
  imports Strconv
begin

text \<open>
  \<open>pkg/money/money.go\<close>: an amount is an \<open>int64\<close> count of minor units. The operations are the
  machine's, so they wrap; the lemmas say when they are exact. \<open>amount_String\<close> is the display
  form, \<open>amount_MarshalJSON\<close> and \<open>amount_UnmarshalJSON\<close> the wire form.
\<close>

type_synonym amount = i64

definition Zero :: amount where
  "Zero = 0"

definition minorPerMajor :: i64 where
  "minorPerMajor = 100"

definition FromMinor :: "i64 \<Rightarrow> amount" where
  "FromMinor m = m"

definition Minor :: "amount \<Rightarrow> i64" where
  "Minor a = a"

definition amount_Add :: "amount \<Rightarrow> amount \<Rightarrow> amount" where
  "amount_Add a b = a + b"

definition amount_Sub :: "amount \<Rightarrow> amount \<Rightarrow> amount" where
  "amount_Sub a b = a - b"

definition amount_Neg :: "amount \<Rightarrow> amount" where
  "amount_Neg a = - a"

definition amount_IsZero :: "amount \<Rightarrow> bool" where
  "amount_IsZero a \<longleftrightarrow> a = 0"

definition amount_String :: "amount \<Rightarrow> string" where
  "amount_String a =
     (let v = a; neg = sint v < 0;
          v = (if neg then - v else v);
          s = FormatInt (go_div v minorPerMajor) @ ''.'' @ pad_zero 2 (sint (go_mod v minorPerMajor))
      in if neg then ''-'' @ s else s)"

definition amount_MarshalJSON :: "amount \<Rightarrow> string" where
  "amount_MarshalJSON a = FormatInt a"

definition amount_UnmarshalJSON :: "string \<Rightarrow> err + amount" where
  "amount_UnmarshalJSON b =
     (case ParseInt b of
        Inl e \<Rightarrow> Inl (Wrap ''money: amount must be an integer of minor units: '' (ErrMsg (num_err_msg e)) [])
      | Inr v \<Rightarrow> Inr v)"

lemmas money_defs = FromMinor_def Minor_def amount_Add_def amount_Sub_def amount_Neg_def
  amount_IsZero_def Zero_def

declare FromMinor_def [simp] Minor_def [simp]

section \<open>Arithmetic\<close>

lemma amount_Add_exact:
  "in_i64 (sint a + sint b) \<Longrightarrow> sint (amount_Add a b) = sint a + sint b"
  by (simp add: amount_Add_def sint_add_i64)

lemma amount_Sub_Add [simp]: "amount_Sub (amount_Add a b) b = a"
  by (simp add: money_defs)

lemma amount_Add_Neg: "amount_Add a (amount_Neg a) = Zero"
  by (simp add: money_defs)

lemma sint_neg_i64: "a \<noteq> word_of_int (- (2 ^ 63)) \<Longrightarrow> sint (- a :: i64) = - sint a"
proof -
  assume "a \<noteq> word_of_int (- (2 ^ 63))"
  then have "sint a \<noteq> - (2 ^ 63)"
    by (metis of_int_sint_i64)
  then have "in_i64 (- sint a)"
    using sint_i64_bounds [of a] by (simp add: in_i64_def)
  then show ?thesis by (rule sint_minus_i64)
qed

section \<open>The display form\<close>

lemma go_div_100: "0 \<le> sint v \<Longrightarrow> sint (go_div v minorPerMajor) = sint v div 100"
proof -
  assume v: "0 \<le> sint v"
  then have "in_i64 (sint v div 100)"
    using sint_i64_bounds [of v] by (auto simp: in_i64_def)
  with v show ?thesis
    by (simp add: go_div_def minorPerMajor_def signed_divide_int_def sint_of_int_i64 sgn_if)
qed

lemma go_mod_100: "0 \<le> sint v \<Longrightarrow> sint (go_mod v minorPerMajor) = sint v mod 100"
proof -
  assume v: "0 \<le> sint v"
  have "in_i64 (sint v mod 100)"
    by (rule in_i64_small) (auto intro: less_trans [OF pos_mod_bound])
  with v show ?thesis
    by (simp add: go_mod_def minorPerMajor_def signed_modulo_int_def sint_of_int_i64 sgn_if)
qed

definition display_nat :: "nat \<Rightarrow> string" where
  "display_nat n =
     dec_nat (n div 100) @ ''.'' @ (if n mod 100 < 10 then ''0'' else []) @ dec_nat (n mod 100)"

lemma dec_nat_length_two: "n < 100 \<Longrightarrow> length (dec_nat n) = (if n < 10 then 1 else 2)"
  by (auto simp: dec_nat_small dec_nat_big)

lemma pad_zero_two:
  "n < 100 \<Longrightarrow> pad_zero 2 (int n) = (if n < 10 then ''0'' else []) @ dec_nat n"
  by (auto simp: pad_zero_def dec_nat_length_two)

lemma amount_String_eq:
  assumes "a \<noteq> word_of_int (- (2 ^ 63))"
  shows "amount_String a = (if sint a < 0 then ''-'' else []) @ display_nat (nat \<bar>sint a\<bar>)"
proof -
  define v where "v = (if sint a < 0 then - a else a)"
  have v: "sint v = \<bar>sint a\<bar>"
    using assms by (auto simp: v_def sint_neg_i64)
  define n where "n = nat \<bar>sint a\<bar>"
  have n: "sint v = int n" by (simp add: v n_def)
  have "FormatInt (go_div v minorPerMajor) = dec_nat (n div 100)"
    using go_div_100 [of v] by (simp add: n FormatInt_def dec_int_def nat_div_distrib)
  moreover have "pad_zero 2 (sint (go_mod v minorPerMajor))
      = (if n mod 100 < 10 then ''0'' else []) @ dec_nat (n mod 100)"
    using go_mod_100 [of v] pad_zero_two [of "n mod 100"] by (simp add: n zmod_int)
  moreover have "amount_String a = (if sint a < 0 then ''-'' else []) @
      FormatInt (go_div v minorPerMajor) @ ''.'' @ pad_zero 2 (sint (go_mod v minorPerMajor))"
    by (simp add: amount_String_def v_def Let_def)
  ultimately show ?thesis by (simp add: display_nat_def n_def)
qed

lemma filter_digits: "list_all is_digit cs \<Longrightarrow> filter (\<lambda>c. c \<noteq> CHR ''.'') cs = cs"
  by (induction cs) (auto dest: digit_not_sign)

text \<open>Reading the digits of the display form back gives the number of minor units.\<close>

lemma parse_uint_two_digits:
  assumes "m < 2 ^ 64" and "n < 100" and "m * 100 + n < 2 ^ 64"
  shows "parse_uint m ((if n < 10 then ''0'' else []) @ dec_nat n) = Inr (m * 100 + n)"
proof -
  have "digit_val (CHR ''0'') = 0" "is_digit (CHR ''0'')"
    by (simp_all add: digit_val_def is_digit_def)
  moreover have "n < 10 \<or> (10 \<le> n \<and> n div 10 < 10)" using assms(2) by auto
  moreover have "(m * 10 + n div 10) * 10 + n mod 10 = m * 100 + n" by presburger
  ultimately show ?thesis
    using assms by (auto simp: dec_nat_small dec_nat_big algebra_simps)
qed

lemma parse_display_nat:
  assumes "n < 2 ^ 64"
  shows "parse_uint 0 (filter (\<lambda>c. c \<noteq> CHR ''.'') (display_nat n)) = Inr n"
proof -
  have "filter (\<lambda>c. c \<noteq> CHR ''.'') (display_nat n)
      = dec_nat (n div 100) @ (if n mod 100 < 10 then ''0'' else []) @ dec_nat (n mod 100)"
    by (simp add: display_nat_def filter_digits)
  moreover have "parse_uint 0 (dec_nat (n div 100) @ xs) = parse_uint (n div 100) xs" for xs
    using assms by (intro parse_uint_dec_nat) simp
  ultimately show ?thesis
    using parse_uint_two_digits [of "n div 100" "n mod 100"] assms by simp
qed

lemma display_nat_digits_only:
  "filter (\<lambda>c. c \<noteq> CHR ''.'') (display_nat n) \<noteq> []
   \<and> list_all is_digit (filter (\<lambda>c. c \<noteq> CHR ''.'') (display_nat n))"
  by (simp add: display_nat_def filter_digits) (simp add: is_digit_def)

section \<open>Round trips\<close>

text \<open>The display form loses nothing: for every amount but the least \<open>int64\<close>, dropping the decimal
  point from \<open>String()\<close> and parsing the rest as an integer gives the amount back; the least one
  renders with two signs.\<close>

theorem amount_String_roundtrip:
  "(a \<noteq> word_of_int (- (2 ^ 63)) \<longrightarrow> ParseInt (filter (\<lambda>c. c \<noteq> CHR ''.'') (amount_String a)) = Inr a)
   \<and> amount_String (word_of_int (- (2 ^ 63))) = ''--92233720368547758.-8''"
proof
  show "a \<noteq> word_of_int (- (2 ^ 63)) \<longrightarrow> ParseInt (filter (\<lambda>c. c \<noteq> CHR ''.'') (amount_String a)) = Inr a"
  proof
    assume a: "a \<noteq> word_of_int (- (2 ^ 63))"
    define n where "n = nat \<bar>sint a\<bar>"
    define ds where "ds = filter (\<lambda>c. c \<noteq> CHR ''.'') (display_nat n)"
    have lt: "\<bar>sint a\<bar> < 2 ^ 63"
    proof -
      have "sint a \<noteq> - (2 ^ 63)" using a by (metis of_int_sint_i64)
      then show ?thesis using sint_i64_bounds [of a] by auto
    qed
    have n: "int n = \<bar>sint a\<bar>" "n < 2 ^ 63" using lt by (auto simp: n_def)
    have p: "parse_uint 0 ds = Inr n" using parse_display_nat [of n] n(2) by (simp add: ds_def)
    have ds: "ds \<noteq> []" "list_all is_digit ds"
      unfolding ds_def using display_nat_digits_only [of n] by blast+
    have sign: "split_sign ds = (False, ds)" by (rule split_sign_digits [OF ds])
    have f: "filter (\<lambda>c. c \<noteq> CHR ''.'') (amount_String a) = (if sint a < 0 then CHR ''-'' # ds else ds)"
      by (simp add: amount_String_eq [OF a] n_def [symmetric] ds_def)
    show "ParseInt (filter (\<lambda>c. c \<noteq> CHR ''.'') (amount_String a)) = Inr a"
    proof (cases "sint a < 0")
      case True
      then have "word_of_int (- int n) = a" by (simp add: n(1))
      then show ?thesis using True f p ds n(2) by (simp add: ParseInt_def)
    next
      case False
      then have "word_of_int (int n) = a" by (simp add: n(1))
      then show ?thesis using False f p ds n(2) sign by (simp add: ParseInt_def)
    qed
  qed
  show "amount_String (word_of_int (- (2 ^ 63))) = ''--92233720368547758.-8''"
    by (simp add: amount_String_def go_div_def go_mod_def minorPerMajor_def FormatInt_def dec_int_def pad_zero_def
        signed_divide_int_def signed_modulo_int_def dec_nat_big dec_nat_small digit_char_def char_of_def bit_0)
qed

lemma amount_String_roundtrip_witness:
  "ParseInt (filter (\<lambda>c. c \<noteq> CHR ''.'') (amount_String (word_of_int (- 5)))) = Inr (word_of_int (- 5))"
proof -
  have "(word_of_int (- 5) :: i64) \<noteq> word_of_int (- (2 ^ 63))" by simp
  then show ?thesis using amount_String_roundtrip [of "word_of_int (- 5)"] by blast
qed

text \<open>The wire form loses nothing, for every amount: unmarshalling what was marshalled gives the
  amount back.\<close>

theorem amount_json_roundtrip: "amount_UnmarshalJSON (amount_MarshalJSON a) = Inr a"
  by (simp add: amount_UnmarshalJSON_def amount_MarshalJSON_def ParseInt_FormatInt)

end
