(* ===== verification/Canonical.thy ===== *)
theory Canonical
  imports Money
begin

text \<open>
  \<open>pkg/canonical/transaction.go\<close>: the record both sides of reconciliation share, with the
  constants of its string-typed fields. \<open>Type\<close> and \<open>Status\<close> are Go string types: any text can
  be converted to them, so the model keeps them as strings and names the constants.
\<close>

definition TypeTransfer :: string where [go_const]: "TypeTransfer = ''transfer''"
definition TypeReversal :: string where [go_const]: "TypeReversal = ''reversal''"
definition TypeFee :: string where [go_const]: "TypeFee = ''fee''"

definition StatusPending :: string where [go_const]: "StatusPending = ''pending''"
definition StatusDebited :: string where [go_const]: "StatusDebited = ''debited''"
definition StatusSettled :: string where [go_const]: "StatusSettled = ''settled''"
definition StatusFailed :: string where [go_const]: "StatusFailed = ''failed''"
definition StatusTimedOut :: string where [go_const]: "StatusTimedOut = ''timed_out''"
definition StatusReversed :: string where [go_const]: "StatusReversed = ''reversed''"

record canonical_record =
  r_transaction_id :: string
  r_reference :: string
  r_source :: string
  r_destination :: string
  r_amount :: amount
  r_currency :: string
  r_type :: string
  r_status :: string
  r_initiated_at :: time
  r_settled_at :: "time option"
  r_metadata :: "(string \<times> string) list"

text \<open>Go's zero \<open>time.Time\<close> (what \<open>IsZero\<close> tests) is an instant of its own: year 1, long before
  the Unix epoch the model counts from.\<close>

definition zero_time :: time where
  "zero_time = - 62135596800000000000"

lemma type_distinct [simp]:
  "TypeTransfer \<noteq> TypeReversal" "TypeReversal \<noteq> TypeTransfer" "TypeTransfer \<noteq> TypeFee"
  "TypeFee \<noteq> TypeTransfer" "TypeReversal \<noteq> TypeFee" "TypeFee \<noteq> TypeReversal"
  by (simp_all add: go_const)

lemma canonical_status_distinct [simp]:
  "StatusPending \<noteq> StatusDebited" "StatusPending \<noteq> StatusSettled" "StatusPending \<noteq> StatusFailed"
  "StatusPending \<noteq> StatusTimedOut" "StatusPending \<noteq> StatusReversed" "StatusDebited \<noteq> StatusSettled"
  "StatusDebited \<noteq> StatusFailed" "StatusDebited \<noteq> StatusTimedOut" "StatusDebited \<noteq> StatusReversed"
  "StatusSettled \<noteq> StatusFailed" "StatusSettled \<noteq> StatusTimedOut" "StatusSettled \<noteq> StatusReversed"
  "StatusFailed \<noteq> StatusTimedOut" "StatusFailed \<noteq> StatusReversed" "StatusTimedOut \<noteq> StatusReversed"
  by (simp_all add: go_const)

section \<open>JSON objects\<close>

text \<open>
  The JSON the program stores in \<open>JSONB\<close> columns: flat objects, as association lists with
  distinct keys. Text is assumed to be valid UTF-8 without NUL, as \<open>TEXT\<close> and \<open>JSONB\<close> require.
\<close>

datatype json = JNull | JBool bool | JNum int | JStr string

type_synonym jsonb = "(string \<times> json) list"

definition json_has_key :: "jsonb \<Rightarrow> string \<Rightarrow> bool" where
  "json_has_key j k \<longleftrightarrow> map_of j k \<noteq> None"

definition json_concat :: "jsonb \<Rightarrow> jsonb \<Rightarrow> jsonb" where
  "json_concat a b = filter (\<lambda>(k, _). map_of b k = None) a @ b"

lemma map_of_json_concat: "map_of (json_concat a b) k = (case map_of b k of Some v \<Rightarrow> Some v | None \<Rightarrow> map_of a k)"
proof -
  have "map_of b k = None \<Longrightarrow> map_of (filter (\<lambda>(k, _). map_of b k = None) a) k = map_of a k"
    by (induction a) auto
  moreover have "map_of b k \<noteq> None \<Longrightarrow> map_of (filter (\<lambda>(k, _). map_of b k = None) a) k = None"
    by (induction a) auto
  ultimately show ?thesis
    by (auto simp: json_concat_def map_add_def split: option.split)
qed

end
