(* ===== verification/Tables.thy ===== *)
theory Tables
  imports Canonical
begin

text \<open>
  The Postgres database the ledger and the switch share (\<open>db/schema.sql\<close> with its migrations; the
  row types are the structs of \<open>ledgerdb/models.go\<close> and \<open>switchdb/models.go\<close>). A table is the list
  of its rows in insertion order; \<open>account_balances\<close>, written by upserts alone, is a map.
  Constraint violations are Postgres errors with their SQLSTATE.
\<close>

record account =
  a_id :: uuid
  a_code :: string
  a_name :: string
  a_type :: string
  a_currency :: string
  a_created_at :: time

record account_balance =
  b_account_id :: uuid
  b_balance_minor :: i64
  b_currency :: string
  b_updated_at :: time

record entry =
  e_id :: uuid
  e_transaction_id :: uuid
  e_account_id :: uuid
  e_direction :: string
  e_amount_minor :: i64
  e_currency :: string
  e_created_at :: time

record tx_row =
  t_id :: uuid
  t_reference :: string
  t_type :: string
  t_status :: string
  t_idempotency_key :: "string option"
  t_parent :: "uuid option"
  t_currency :: string
  t_initiated_at :: time
  t_settled_at :: "time option"
  t_metadata :: jsonb

record idem_row =
  k_key :: string
  k_fingerprint :: string
  k_transaction_id :: "uuid option"
  k_response :: "jsonb option"
  k_status :: string
  k_created_at :: time
  k_expires_at :: "time option"

record outbox_row =
  o_id :: nat
  o_aggregate_type :: string
  o_aggregate_id :: uuid
  o_event_type :: string
  o_payload :: jsonb
  o_created_at :: time
  o_published_at :: "time option"
  o_attempts :: i32
  o_next_attempt_at :: time
  o_last_error :: "string option"
  o_dead_letter :: bool

record db =
  accounts :: "account list"
  transactions :: "tx_row list"
  entries :: "entry list"
  balances :: "uuid \<Rightarrow> account_balance option"
  idem_keys :: "idem_row list"
  outbox :: "outbox_row list"
  outbox_seq :: nat

section \<open>SQLSTATEs and column constraints\<close>

definition sql_serialization_failure :: string where [go_const]: "sql_serialization_failure = ''40001''"
definition sql_unique_violation :: string where [go_const]: "sql_unique_violation = ''23505''"
definition sql_check_violation :: string where [go_const]: "sql_check_violation = ''23514''"
definition sql_foreign_key_violation :: string where [go_const]: "sql_foreign_key_violation = ''23503''"
definition sql_out_of_range :: string where [go_const]: "sql_out_of_range = ''22003''"
definition sql_string_too_long :: string where [go_const]: "sql_string_too_long = ''22001''"
definition sql_raise_exception :: string where [go_const]: "sql_raise_exception = ''P0001''"

definition pg_error :: "string \<Rightarrow> err" where
  "pg_error code = Infra (PgError code [])"

lemma pg_error_chain [simp]:
  "errors_as_pg (pg_error c) = Some c" "errors_is (pg_error c) s \<longleftrightarrow> False"
  "errors_as_grpc (pg_error c) = None"
  by (simp_all add: pg_error_def)

definition Debit :: string where [go_const]: "Debit = ''debit''"
definition Credit :: string where [go_const]: "Credit = ''credit''"

lemma direction_distinct [simp]: "Debit \<noteq> Credit" "Credit \<noteq> Debit" "Debit \<noteq> []" "Credit \<noteq> []"
  by (simp_all add: go_const)

definition check_tx_type :: "string \<Rightarrow> bool" where
  "check_tx_type t \<longleftrightarrow> t \<in> {''transfer'', ''reversal'', ''fee''}"

definition check_tx_status :: "string \<Rightarrow> bool" where
  "check_tx_status s \<longleftrightarrow> s \<in> {''pending'', ''debited'', ''settled'', ''failed'', ''timed_out'',
     ''reversed'', ''in_doubt'', ''reversal_pending'', ''manual_review''}"

definition check_direction :: "string \<Rightarrow> bool" where
  "check_direction d \<longleftrightarrow> d \<in> {Debit, Credit}"

text \<open>\<open>CHAR(3)\<close>: longer text is refused unless the excess is blanks, shorter text is padded.\<close>

definition char3 :: "string \<Rightarrow> string option" where
  "char3 s = (if list_all (\<lambda>c. c = CHR '' '') (drop 3 s)
     then Some (take 3 s @ replicate (3 - length s) (CHR '' '')) else None)"

lemma char3_exact: "length s = 3 \<Longrightarrow> char3 s = Some s"
  by (simp add: char3_def)

section \<open>Sums over the journal\<close>

definition entry_amount :: "entry \<Rightarrow> int" where
  "entry_amount e = sint (e_amount_minor e)"

text \<open>The total of the entries with a given direction, as the \<open>numeric\<close> Postgres sums in.\<close>

definition dir_sum :: "string \<Rightarrow> entry list \<Rightarrow> int" where
  "dir_sum d es = sum_list (map entry_amount (filter (\<lambda>e. e_direction e = d) es))"

definition account_entries :: "uuid \<Rightarrow> entry list \<Rightarrow> entry list" where
  "account_entries a es = filter (\<lambda>e. e_account_id e = a) es"

definition tx_entries :: "uuid \<Rightarrow> entry list \<Rightarrow> entry list" where
  "tx_entries t es = filter (\<lambda>e. e_transaction_id e = t) es"

lemma dir_sum_Nil [simp]: "dir_sum d [] = 0"
  by (simp add: dir_sum_def)

lemma dir_sum_Cons [simp]:
  "dir_sum d (e # es) = (if e_direction e = d then entry_amount e else 0) + dir_sum d es"
  by (simp add: dir_sum_def)

lemma dir_sum_append [simp]: "dir_sum d (xs @ ys) = dir_sum d xs + dir_sum d ys"
  by (simp add: dir_sum_def)

lemma account_entries_append [simp]:
  "account_entries a (xs @ ys) = account_entries a xs @ account_entries a ys"
  by (simp add: account_entries_def)

lemma tx_entries_append [simp]: "tx_entries t (xs @ ys) = tx_entries t xs @ tx_entries t ys"
  by (simp add: tx_entries_def)

lemma dir_sum_nonneg: "(\<And>e. e \<in> set es \<Longrightarrow> 0 \<le> entry_amount e) \<Longrightarrow> 0 \<le> dir_sum d es"
  by (induction es) auto

section \<open>The deferred balance trigger\<close>

text \<open>
  \<open>assert_transaction_balanced\<close>, the deferred constraint trigger on \<open>entries\<close>: at commit, every
  transaction that got entries must balance within every currency group.
\<close>

definition currency_balanced :: "entry list \<Rightarrow> bool" where
  "currency_balanced es \<longleftrightarrow>
     list_all (\<lambda>c. dir_sum Debit (filter (\<lambda>e. e_currency e = c) es)
                 = dir_sum Credit (filter (\<lambda>e. e_currency e = c) es))
       (remdups (map e_currency es))"

definition commit_triggers :: "db \<Rightarrow> db \<Rightarrow> err option" where
  "commit_triggers old new =
     (if list_all (\<lambda>e. currency_balanced (tx_entries (e_transaction_id e) (entries new)))
           (drop (length (entries old)) (entries new))
      then None else Some (pg_error sql_raise_exception))"

lemma currency_balanced_iff:
  "currency_balanced es \<longleftrightarrow>
     (\<forall>c. dir_sum Debit (filter (\<lambda>e. e_currency e = c) es)
        = dir_sum Credit (filter (\<lambda>e. e_currency e = c) es))"
proof -
  have none: "filter (\<lambda>e. e_currency e = c) es = []" if "c \<notin> e_currency ` set es" for c
    using that by (auto simp: filter_empty_conv)
  show ?thesis
  proof
    assume l: "currency_balanced es"
    show "\<forall>c. dir_sum Debit (filter (\<lambda>e. e_currency e = c) es)
        = dir_sum Credit (filter (\<lambda>e. e_currency e = c) es)"
    proof
      fix c
      show "dir_sum Debit (filter (\<lambda>e. e_currency e = c) es)
          = dir_sum Credit (filter (\<lambda>e. e_currency e = c) es)"
        using l none [of c] by (cases "c \<in> e_currency ` set es") (auto simp: currency_balanced_def list_all_iff)
    qed
  qed (simp add: currency_balanced_def list_all_iff)
qed

text \<open>A sum over entries is the sum of the sums of the groups any key splits them into.\<close>

lemma dir_sum_by:
  "finite C \<Longrightarrow> f ` set es \<subseteq> C \<Longrightarrow> dir_sum d es = (\<Sum>c \<in> C. dir_sum d (filter (\<lambda>e. f e = c) es))"
proof (induction es)
  case (Cons e es)
  then have e: "f e \<in> C" by simp
  have "(\<Sum>c \<in> C. dir_sum d (filter (\<lambda>e. f e = c) (e # es)))
      = (\<Sum>c \<in> C. (if c = f e then dir_sum d [e] else 0)
           + dir_sum d (filter (\<lambda>e. f e = c) es))"
    by (intro sum.cong) auto
  also have "\<dots> = dir_sum d [e] + dir_sum d es"
    using Cons e by (simp add: sum.distrib sum.delta)
  finally show ?case by simp
qed simp

lemma currency_balanced_total: "currency_balanced es \<Longrightarrow> dir_sum Debit es = dir_sum Credit es"
  using dir_sum_by [of "e_currency ` set es" e_currency es Debit]
    dir_sum_by [of "e_currency ` set es" e_currency es Credit]
  by (simp add: currency_balanced_iff)

end
