(* ===== verification/World.thy ===== *)
theory World
  imports Tables
begin

text \<open>
  The state the handlers run in and the environment they meet. The \<open>world\<close> holds the shared
  database, the process counters and a script \<open>w_env\<close> of environment choices, consumed one per
  external call (\<open>w_tick\<close> counts them): what a database call meets (a fault at begin, in a
  statement or at commit, or a commit whose acknowledgement is lost), the draws of
  \<open>gen_random_uuid()\<close> and the value of \<open>now()\<close> inside it, what the network does to an RPC, what
  the rail answers, whether the context is done during a wait. Handlers are deterministic functions
  of the world, so a theorem over all worlds covers every fault pattern, including a crash (every
  later call fails).
\<close>

datatype tx_fault =
    NoFault
  | FailBegin infra_err
  | FailExec infra_err
  | FailCommit infra_err
  | LostCommit infra_err

datatype rpc_fault = RpcOk | RpcLostRequest grpc_code string | RpcLostReply grpc_code string

datatype rail_status = RAIL_STATUS_UNSPECIFIED | RAIL_STATUS_SUCCESS | RAIL_STATUS_DECLINED

record env =
  e_fault :: tx_fault
  e_uuid :: "nat \<Rightarrow> uuid"
  e_now :: time
  e_ctx_done :: bool
  e_rpc :: rpc_fault
  e_rail :: "string \<Rightarrow> err + rail_status"

record metrics =
  m_retries :: nat
  m_exhausted :: nat
  m_outcomes :: "string \<Rightarrow> nat"
  m_reversal_latency :: "time list"
  m_dead_letters :: nat

text \<open>\<open>google/uuid\<close>: the textual form of an identifier and its parser.\<close>

record uuid_codec =
  uuid_String :: "uuid \<Rightarrow> string"
  uuid_Parse :: "string \<Rightarrow> uuid option"

definition codec_ok :: "uuid_codec \<Rightarrow> bool" where
  "codec_ok c \<longleftrightarrow> (\<forall>u. uuid_Parse c (uuid_String c u) = Some u)"

record world =
  w_db :: db
  w_env :: "nat \<Rightarrow> env"
  w_tick :: nat
  w_metrics :: metrics
  w_slept :: "time list"
  w_codec :: uuid_codec

definition take_env :: "world \<Rightarrow> env \<times> world" where
  "take_env w = (w_env w (w_tick w), w\<lparr>w_tick := Suc (w_tick w)\<rparr>)"

section \<open>Calls\<close>

text \<open>
  \<open>'a act\<close> is a Go function that returns \<open>(value, error)\<close> and changes the world; effects done
  before an error stay. \<open>'a tx\<close> is the body of a database transaction: an error discards the
  state, which is the rollback.
\<close>

type_synonym 'a act = "world \<Rightarrow> (err + 'a) \<times> world"
type_synonym 'a tx = "env \<Rightarrow> db \<Rightarrow> err + ('a \<times> db)"

definition act_return :: "'a \<Rightarrow> 'a act" where
  "act_return a w = (Inr a, w)"

definition act_fail :: "err \<Rightarrow> 'a act" where
  "act_fail e w = (Inl e, w)"

definition act_bind :: "'a act \<Rightarrow> ('a \<Rightarrow> 'b act) \<Rightarrow> 'b act" where
  "act_bind m f w = (case m w of (Inl e, w') \<Rightarrow> (Inl e, w') | (Inr a, w') \<Rightarrow> f a w')"

text \<open>\<open>if err != nil { return fmt.Errorf("prefix: %w", err) }\<close>\<close>

definition act_wrap :: "string \<Rightarrow> 'a act \<Rightarrow> 'a act" where
  "act_wrap pre m w = (case m w of (Inl e, w') \<Rightarrow> (Inl (Wrap pre e []), w') | (Inr a, w') \<Rightarrow> (Inr a, w'))"

definition tx_return :: "'a \<Rightarrow> 'a tx" where
  "tx_return a ev d = Inr (a, d)"

definition tx_fail :: "err \<Rightarrow> 'a tx" where
  "tx_fail e ev d = Inl e"

definition tx_bind :: "'a tx \<Rightarrow> ('a \<Rightarrow> 'b tx) \<Rightarrow> 'b tx" where
  "tx_bind m f ev d = (case m ev d of Inl e \<Rightarrow> Inl e | Inr (a, d') \<Rightarrow> f a ev d')"

definition tx_wrap :: "string \<Rightarrow> 'a tx \<Rightarrow> 'a tx" where
  "tx_wrap pre m ev d = (case m ev d of Inl e \<Rightarrow> Inl (Wrap pre e []) | Inr r \<Rightarrow> Inr r)"

lemma act_bind_simps [simp]:
  "act_bind (act_return a) f w = f a w"
  "act_bind (act_fail e) f w = (Inl e, w)"
  by (simp_all add: act_bind_def act_return_def act_fail_def)

text \<open>
  Running a transaction body against the database (\<open>pool.Begin\<close> .. \<open>tx.Commit\<close>; an autocommitted
  statement is the same with no deferred trigger to check). A lost commit is the case the caller
  cannot tell from an abort: the error is returned, the effects stay.
\<close>

definition run_tx :: "string \<Rightarrow> (db \<Rightarrow> db \<Rightarrow> err option) \<Rightarrow> 'a tx \<Rightarrow> 'a act" where
  "run_tx pre triggers f w =
     (case take_env w of (ev, w1) \<Rightarrow>
       (case e_fault ev of
          FailBegin i \<Rightarrow> (Inl (Wrap pre (Infra i) []), w1)
        | FailExec i \<Rightarrow> (Inl (Infra i), w1)
        | flt \<Rightarrow>
            (case f ev (w_db w1) of
               Inl e \<Rightarrow> (Inl e, w1)
             | Inr (a, d) \<Rightarrow>
                 (case triggers (w_db w1) d of
                    Some e \<Rightarrow> (Inl (Wrap ''commit: '' e []), w1)
                  | None \<Rightarrow>
                      (case flt of
                         FailCommit i \<Rightarrow> (Inl (Wrap ''commit: '' (Infra i) []), w1)
                       | LostCommit i \<Rightarrow> (Inl (Wrap ''commit: '' (Infra i) []), w1\<lparr>w_db := d\<rparr>)
                       | _ \<Rightarrow> (Inr a, w1\<lparr>w_db := d\<rparr>))))))"

definition no_triggers :: "db \<Rightarrow> db \<Rightarrow> err option" where
  "no_triggers old new = None"

text \<open>A transaction whose body only touches tables without deferred triggers, or one statement.\<close>

definition run_stmt :: "'a tx \<Rightarrow> 'a act" where
  "run_stmt = run_tx [] no_triggers"

text \<open>
  The one rule every proof about a transaction uses: afterwards the database is the old one, or
  the body succeeded, its triggers passed and the database is the one it left; success means the
  latter.
\<close>

lemma run_tx_cases:
  assumes "run_tx pre trg f w = (r, w')"
  obtains
    (unchanged) e where "r = Inl e" "w_db w' = w_db w"
  | (committed) a d where "f (w_env w (w_tick w)) (w_db w) = Inr (a, d)" "trg (w_db w) d = None"
      "w_db w' = d" "r = Inr a \<or> (\<exists>e. r = Inl e)"
  using assms
  by (fastforce simp: run_tx_def take_env_def
      split: tx_fault.splits sum.splits prod.splits option.splits)

text \<open>What a transaction returns and leaves depends on its environment and the database alone, whatever the
  tables.\<close>

definition tx_outcome ::
  "string \<Rightarrow> ('d \<Rightarrow> 'd \<Rightarrow> err option) \<Rightarrow> (env \<Rightarrow> 'd \<Rightarrow> err + ('a \<times> 'd)) \<Rightarrow> env \<Rightarrow> 'd \<Rightarrow> (err + 'a) \<times> 'd" where
  "tx_outcome pre triggers f ev d =
     (case e_fault ev of
        FailBegin i \<Rightarrow> (Inl (Wrap pre (Infra i) []), d)
      | FailExec i \<Rightarrow> (Inl (Infra i), d)
      | flt \<Rightarrow>
          (case f ev d of
             Inl e \<Rightarrow> (Inl e, d)
           | Inr (a, d') \<Rightarrow>
               (case triggers d d' of
                  Some e \<Rightarrow> (Inl (Wrap ''commit: '' e []), d)
                | None \<Rightarrow>
                    (case flt of
                       FailCommit i \<Rightarrow> (Inl (Wrap ''commit: '' (Infra i) []), d)
                     | LostCommit i \<Rightarrow> (Inl (Wrap ''commit: '' (Infra i) []), d')
                     | _ \<Rightarrow> (Inr a, d')))))"

lemma run_tx_outcome:
  "tx_outcome pre triggers f (w_env w (w_tick w)) (w_db w) = (r, d) \<Longrightarrow>
   run_tx pre triggers f w = (r, w\<lparr>w_tick := Suc (w_tick w), w_db := d\<rparr>)"
  by (auto simp: tx_outcome_def run_tx_def take_env_def
      split: tx_fault.splits sum.splits prod.splits option.splits)

lemma tx_outcome_no_fault:
  "e_fault ev = NoFault \<Longrightarrow> f ev d = Inr (a, d') \<Longrightarrow> triggers d d' = None \<Longrightarrow>
   tx_outcome pre triggers f ev d = (Inr a, d')"
  "e_fault ev = NoFault \<Longrightarrow> f ev d = Inl e \<Longrightarrow> tx_outcome pre triggers f ev d = (Inl e, d)"
  by (simp_all add: tx_outcome_def)

lemma run_tx_frame:
  assumes "run_tx pre trg f w = (r, w')"
  shows "w_codec w' = w_codec w" "w_metrics w' = w_metrics w" "w_slept w' = w_slept w"
    "w_env w' = w_env w" "w_tick w' = Suc (w_tick w)"
  using assms
  by (auto simp: run_tx_def take_env_def
      split: tx_fault.splits sum.splits prod.splits option.splits)

lemma run_tx_no_fault:
  assumes "e_fault (w_env w (w_tick w)) = NoFault"
    and "f (w_env w (w_tick w)) (w_db w) = Inr (a, d)" and "trg (w_db w) d = None"
  shows "run_tx pre trg f w = (Inr a, w\<lparr>w_tick := Suc (w_tick w), w_db := d\<rparr>)"
  using assms by (simp add: run_tx_def take_env_def)

section \<open>Invariants of database programs\<close>

text \<open>\<open>tx_preserves I f\<close>: a body keeps \<open>I\<close>. \<open>act_preserves I m\<close>: so does an action, whatever it
  returns.\<close>

definition tx_preserves :: "(db \<Rightarrow> bool) \<Rightarrow> 'a tx \<Rightarrow> bool" where
  "tx_preserves I f \<longleftrightarrow> (\<forall>ev d a d'. I d \<longrightarrow> f ev d = Inr (a, d') \<longrightarrow> I d')"

definition act_preserves :: "(db \<Rightarrow> bool) \<Rightarrow> 'a act \<Rightarrow> bool" where
  "act_preserves I m \<longleftrightarrow> (\<forall>w r w'. I (w_db w) \<longrightarrow> m w = (r, w') \<longrightarrow> I (w_db w'))"

lemma tx_preservesI: "(\<And>ev d a d'. I d \<Longrightarrow> f ev d = Inr (a, d') \<Longrightarrow> I d') \<Longrightarrow> tx_preserves I f"
  by (auto simp: tx_preserves_def)

lemma tx_preservesD: "tx_preserves I f \<Longrightarrow> f ev d = Inr (a, d') \<Longrightarrow> I d \<Longrightarrow> I d'"
  by (auto simp: tx_preserves_def)

lemma act_preservesI: "(\<And>w r w'. I (w_db w) \<Longrightarrow> m w = (r, w') \<Longrightarrow> I (w_db w')) \<Longrightarrow> act_preserves I m"
  by (auto simp: act_preserves_def)

lemma act_preservesD: "act_preserves I m \<Longrightarrow> m w = (r, w') \<Longrightarrow> I (w_db w) \<Longrightarrow> I (w_db w')"
  by (auto simp: act_preserves_def)

lemma tx_preserves_return [intro]: "tx_preserves I (tx_return a)"
  by (auto intro!: tx_preservesI simp: tx_return_def)

lemma tx_preserves_fail [intro]: "tx_preserves I (tx_fail e)"
  by (auto intro!: tx_preservesI simp: tx_fail_def)

lemma tx_preserves_wrap [intro]: "tx_preserves I f \<Longrightarrow> tx_preserves I (tx_wrap p f)"
  by (auto intro!: tx_preservesI dest: tx_preservesD simp: tx_wrap_def split: sum.splits)

lemma tx_preserves_bind [intro]:
  assumes m: "tx_preserves I m" and f: "\<And>a. tx_preserves I (f a)"
  shows "tx_preserves I (tx_bind m f)"
proof (rule tx_preservesI)
  fix ev d b d'
  assume I: "I d" and "tx_bind m f ev d = Inr (b, d')"
  then obtain a d1 where "m ev d = Inr (a, d1)" "f a ev d1 = Inr (b, d')"
    by (auto simp: tx_bind_def split: sum.splits)
  then show "I d'" using tx_preservesD [OF m _ I] tx_preservesD [OF f] by metis
qed

lemma act_preserves_return [intro]: "act_preserves I (act_return a)"
  by (auto intro!: act_preservesI simp: act_return_def)

lemma act_preserves_fail [intro]: "act_preserves I (act_fail e)"
  by (auto intro!: act_preservesI simp: act_fail_def)

lemma act_preserves_bind [intro]:
  assumes m: "act_preserves I m" and f: "\<And>a. act_preserves I (f a)"
  shows "act_preserves I (act_bind m f)"
proof (rule act_preservesI)
  fix w r w'
  assume I: "I (w_db w)" and run: "act_bind m f w = (r, w')"
  obtain r1 w1 where m1: "m w = (r1, w1)" by force
  have I1: "I (w_db w1)" by (rule act_preservesD [OF m m1 I])
  show "I (w_db w')"
  proof (cases r1)
    case (Inl e)
    then show ?thesis using run m1 I1 by (simp add: act_bind_def)
  next
    case (Inr a)
    then have "f a w1 = (r, w')" using run m1 by (simp add: act_bind_def)
    then show ?thesis by (rule act_preservesD [OF f _ I1])
  qed
qed

lemma act_preserves_wrap [intro]: "act_preserves I m \<Longrightarrow> act_preserves I (act_wrap p m)"
  by (fastforce intro!: act_preservesI dest: act_preservesD simp: act_wrap_def
      split: sum.splits prod.splits)

lemma act_preserves_run_tx [intro]: "tx_preserves I f \<Longrightarrow> act_preserves I (run_tx pre trg f)"
  by (rule act_preservesI, erule run_tx_cases) (auto dest: tx_preservesD)

lemma act_preserves_run_stmt [intro]: "tx_preserves I f \<Longrightarrow> act_preserves I (run_stmt f)"
  by (simp add: run_stmt_def act_preserves_run_tx)

end
