(* ===== verification/LedgerDb.thy ===== *)
theory LedgerDb
  imports World
begin

text \<open>
  The ledger's SQL queries (\<open>internal/ledger/postgres/ledgerdb/*.sql.go\<close>), one definition each,
  with the constraints of the tables they write: primary and unique keys, \<open>CHECK\<close>s, foreign keys,
  the \<open>CHAR(3)\<close> currency and the \<open>::bigint\<close> casts. A row id is the \<open>n\<close>-th draw of
  \<open>gen_random_uuid()\<close> of the transaction; nothing assumes it is fresh, a clash is a unique violation.
\<close>

section \<open>accounts.sql\<close>

record create_account_params =
  ca_code :: string
  ca_name :: string
  ca_type :: string
  ca_currency :: string

definition check_account_type :: "string \<Rightarrow> bool" where
  "check_account_type t \<longleftrightarrow> t \<in> {''asset'', ''liability'', ''equity'', ''revenue'', ''expense''}"

definition CreateAccount :: "nat \<Rightarrow> create_account_params \<Rightarrow> account tx" where
  "CreateAccount n p ev d =
     (case char3 (ca_currency p) of
        None \<Rightarrow> Inl (pg_error sql_string_too_long)
      | Some cur \<Rightarrow>
          if \<not> check_account_type (ca_type p) then Inl (pg_error sql_check_violation)
          else if list_ex (\<lambda>a. a_id a = e_uuid ev n \<or> a_code a = ca_code p) (accounts d)
          then Inl (pg_error sql_unique_violation)
          else (let a = \<lparr>a_id = e_uuid ev n, a_code = ca_code p, a_name = ca_name p, a_type = ca_type p,
                         a_currency = cur, a_created_at = e_now ev\<rparr>
                in Inr (a, d\<lparr>accounts := accounts d @ [a]\<rparr>)))"

definition find_account :: "string \<Rightarrow> db \<Rightarrow> account option" where
  "find_account code d = List.find (\<lambda>a. a_code a = code) (accounts d)"

definition GetAccountByCode :: "string \<Rightarrow> account tx" where
  "GetAccountByCode code ev d =
     (case find_account code d of Some a \<Rightarrow> Inr (a, d) | None \<Rightarrow> Inl (Sentinel ErrNoRows))"

definition GetAccountByID :: "uuid \<Rightarrow> account tx" where
  "GetAccountByID i ev d =
     (case List.find (\<lambda>a. a_id a = i) (accounts d) of
        Some a \<Rightarrow> Inr (a, d) | None \<Rightarrow> Inl (Sentinel ErrNoRows))"

section \<open>transactions.sql\<close>

record insert_transaction_params =
  it_reference :: string
  it_type :: string
  it_status :: string
  it_idempotency_key :: "string option"
  it_parent :: "uuid option"
  it_currency :: string
  it_metadata :: jsonb

text \<open>The rows a new transaction would clash with: the same id, the same non-null idempotency key
  (\<open>UNIQUE\<close>), or, for a reversal, the same non-null parent (\<open>uq_reversal_per_parent\<close>).\<close>

definition tx_clash :: "tx_row \<Rightarrow> tx_row \<Rightarrow> bool" where
  "tx_clash t u \<longleftrightarrow>
     t_id t = t_id u
     \<or> (t_idempotency_key t = t_idempotency_key u \<and> t_idempotency_key t \<noteq> None)
     \<or> (t_type t = ''reversal'' \<and> t_type u = ''reversal'' \<and> t_parent t = t_parent u \<and> t_parent t \<noteq> None)"

definition insert_tx_row :: "tx_row \<Rightarrow> tx_row tx" where
  "insert_tx_row t ev d =
     (if \<not> check_tx_type (t_type t) \<or> \<not> check_tx_status (t_status t)
      then Inl (pg_error sql_check_violation)
      else if list_ex (tx_clash t) (transactions d) then Inl (pg_error sql_unique_violation)
      else if (case t_parent t of None \<Rightarrow> False
               | Some p \<Rightarrow> \<not> list_ex (\<lambda>u. t_id u = p) (transactions d @ [t]))
      then Inl (pg_error sql_foreign_key_violation)
      else Inr (t, d\<lparr>transactions := transactions d @ [t]\<rparr>))"

definition InsertTransaction :: "nat \<Rightarrow> insert_transaction_params \<Rightarrow> tx_row tx" where
  "InsertTransaction n p ev d =
     (case char3 (it_currency p) of
        None \<Rightarrow> Inl (pg_error sql_string_too_long)
      | Some cur \<Rightarrow>
          insert_tx_row
            \<lparr>t_id = e_uuid ev n, t_reference = it_reference p, t_type = it_type p,
             t_status = it_status p, t_idempotency_key = it_idempotency_key p,
             t_parent = it_parent p, t_currency = cur, t_initiated_at = e_now ev,
             t_settled_at = None, t_metadata = it_metadata p\<rparr> ev d)"

definition find_tx :: "uuid \<Rightarrow> db \<Rightarrow> tx_row option" where
  "find_tx i d = List.find (\<lambda>t. t_id t = i) (transactions d)"

definition find_tx_by_key :: "string \<Rightarrow> db \<Rightarrow> tx_row option" where
  "find_tx_by_key k d = List.find (\<lambda>t. t_idempotency_key t = Some k) (transactions d)"

definition GetTransaction :: "uuid \<Rightarrow> tx_row tx" where
  "GetTransaction i ev d =
     (case find_tx i d of Some t \<Rightarrow> Inr (t, d) | None \<Rightarrow> Inl (Sentinel ErrNoRows))"

definition GetTransactionByIdempotencyKey :: "string option \<Rightarrow> tx_row tx" where
  "GetTransactionByIdempotencyKey key ev d =
     (case key of
        None \<Rightarrow> Inl (Sentinel ErrNoRows)
      | Some k \<Rightarrow> (case find_tx_by_key k d of Some t \<Rightarrow> Inr (t, d) | None \<Rightarrow> Inl (Sentinel ErrNoRows)))"

definition ListTransactionsByWindow :: "time \<Rightarrow> time \<Rightarrow> tx_row list tx" where
  "ListTransactionsByWindow from to ev d =
     Inr (sort_key t_initiated_at (sort_key t_id
            (filter (\<lambda>t. from \<le> t_initiated_at t \<and> t_initiated_at t < to) (transactions d))), d)"

section \<open>entries.sql\<close>

definition InsertEntry :: "nat \<Rightarrow> uuid \<Rightarrow> uuid \<Rightarrow> string \<Rightarrow> i64 \<Rightarrow> string \<Rightarrow> entry tx" where
  "InsertEntry n tx_id account_id direction amount currency ev d =
     (case char3 currency of
        None \<Rightarrow> Inl (pg_error sql_string_too_long)
      | Some cur \<Rightarrow>
          if \<not> check_direction direction \<or> sint amount \<le> 0 then Inl (pg_error sql_check_violation)
          else if list_ex (\<lambda>e. e_id e = e_uuid ev n) (entries d)
          then Inl (pg_error sql_unique_violation)
          else if \<not> list_ex (\<lambda>t. t_id t = tx_id) (transactions d)
                \<or> \<not> list_ex (\<lambda>a. a_id a = account_id) (accounts d)
          then Inl (pg_error sql_foreign_key_violation)
          else (let e = \<lparr>e_id = e_uuid ev n, e_transaction_id = tx_id, e_account_id = account_id,
                         e_direction = direction, e_amount_minor = amount, e_currency = cur,
                         e_created_at = e_now ev\<rparr>
                in Inr (e, d\<lparr>entries := entries d @ [e]\<rparr>)))"

definition order_entries :: "entry list \<Rightarrow> entry list" where
  "order_entries es = sort_key e_created_at (sort_key e_id es)"

definition ListEntriesByTransaction :: "uuid \<Rightarrow> entry list tx" where
  "ListEntriesByTransaction i ev d = Inr (order_entries (tx_entries i (entries d)), d)"

definition ListEntriesByAccount :: "uuid \<Rightarrow> entry list tx" where
  "ListEntriesByAccount i ev d = Inr (order_entries (account_entries i (entries d)), d)"

definition cast_bigint :: "int \<Rightarrow> err + i64" where
  "cast_bigint k = (if in_i64 k then Inr (word_of_int k) else Inl (pg_error sql_out_of_range))"

definition SumEntriesByAccount :: "uuid \<Rightarrow> (i64 \<times> i64) tx" where
  "SumEntriesByAccount i ev d =
     (case cast_bigint (dir_sum Debit (account_entries i (entries d))) of
        Inl e \<Rightarrow> Inl e
      | Inr dm \<Rightarrow>
          (case cast_bigint (dir_sum Credit (account_entries i (entries d))) of
             Inl e \<Rightarrow> Inl e
           | Inr cm \<Rightarrow> Inr ((dm, cm), d)))"

section \<open>balances.sql\<close>

definition GetCachedBalance :: "uuid \<Rightarrow> account_balance tx" where
  "GetCachedBalance i ev d =
     (case balances d i of Some b \<Rightarrow> Inr (b, d) | None \<Rightarrow> Inl (Sentinel ErrNoRows))"

definition UpsertCachedBalance :: "uuid \<Rightarrow> i64 \<Rightarrow> string \<Rightarrow> unit tx" where
  "UpsertCachedBalance i minor currency ev d =
     (case char3 currency of
        None \<Rightarrow> Inl (pg_error sql_string_too_long)
      | Some cur \<Rightarrow>
          if \<not> list_ex (\<lambda>a. a_id a = i) (accounts d) then Inl (pg_error sql_foreign_key_violation)
          else Inr ((), d\<lparr>balances := (balances d)(i \<mapsto>
                 \<lparr>b_account_id = i, b_balance_minor = minor, b_currency = cur,
                  b_updated_at = e_now ev\<rparr>)\<rparr>))"

section \<open>What the queries write\<close>

lemma insert_tx_row_Inr:
  assumes "insert_tx_row t ev d = Inr (u, d')"
  shows "u = t" "d' = d\<lparr>transactions := transactions d @ [t]\<rparr>"
    "list_all (\<lambda>v. \<not> tx_clash t v) (transactions d)"
    "check_tx_type (t_type t)" "check_tx_status (t_status t)"
  using assms by (auto simp: insert_tx_row_def list_ex_iff list_all_iff split: if_splits)

lemma InsertTransaction_Inr:
  assumes "InsertTransaction n p ev d = Inr (t, d')"
  shows "d' = d\<lparr>transactions := transactions d @ [t]\<rparr>" "t_id t = e_uuid ev n"
    "t_idempotency_key t = it_idempotency_key p" "t_type t = it_type p" "t_parent t = it_parent p"
    "t_reference t = it_reference p" "t_metadata t = it_metadata p" "t_status t = it_status p"
    "t_initiated_at t = e_now ev" "char3 (it_currency p) = Some (t_currency t)"
    "list_all (\<lambda>v. \<not> tx_clash t v) (transactions d)"
    "check_tx_type (t_type t)" "check_tx_status (t_status t)"
  using assms by (auto simp: InsertTransaction_def split: option.splits dest: insert_tx_row_Inr)

lemma InsertEntry_Inr:
  assumes "InsertEntry n tx_id acct dir amt cur ev d = Inr (e, d')"
  shows "d' = d\<lparr>entries := entries d @ [e]\<rparr>" "e_transaction_id e = tx_id" "e_account_id e = acct"
    "e_direction e = dir" "e_amount_minor e = amt" "char3 cur = Some (e_currency e)"
    "0 < sint amt" "dir = Debit \<or> dir = Credit" "e_id e \<notin> e_id ` set (entries d)"
    "tx_id \<in> t_id ` set (transactions d)" "acct \<in> a_id ` set (accounts d)" "e_created_at e = e_now ev"
  using assms
  by (auto simp: InsertEntry_def Let_def check_direction_def list_ex_iff split: option.splits if_splits)

lemma UpsertCachedBalance_Inr:
  assumes "UpsertCachedBalance i m cur ev d = Inr (u, d')"
  obtains c where "char3 cur = Some c"
    "d' = d\<lparr>balances := (balances d)(i \<mapsto> \<lparr>b_account_id = i, b_balance_minor = m, b_currency = c,
                                          b_updated_at = e_now ev\<rparr>)\<rparr>"
  using assms by (auto simp: UpsertCachedBalance_def split: option.splits if_splits)

lemma SumEntriesByAccount_Inr:
  assumes "SumEntriesByAccount i ev d = Inr ((dm, cm), d')"
  shows "d' = d" "sint dm = dir_sum Debit (account_entries i (entries d))"
    "sint cm = dir_sum Credit (account_entries i (entries d))"
    "in_i64 (dir_sum Debit (account_entries i (entries d)))"
    "in_i64 (dir_sum Credit (account_entries i (entries d)))"
  using assms
  by (auto simp: SumEntriesByAccount_def cast_bigint_def sint_of_int_i64 split: sum.splits if_splits)

lemma order_entries_mset [simp]: "mset (order_entries es) = mset es"
  by (simp add: order_entries_def)

lemma order_entries_set [simp]: "set (order_entries es) = set es"
  by (simp add: order_entries_def)

end
