(* ===== verification/Ledger.thy ===== *)
theory Ledger
  imports LedgerDb
begin

text \<open>
  The ledger service (\<open>internal/ledger\<close>): \<open>account.go\<close>, \<open>entry.go\<close>, \<open>transaction.go\<close>,
  \<open>service.go\<close>, \<open>retry.go\<close>, \<open>balance.go\<close> and \<open>postgres/repository.go\<close>. Definitions only; the
  facts about them are in \<open>LedgerProps\<close>.
\<close>

section \<open>account.go, entry.go, transaction.go\<close>

definition IsDebitNormal :: "string \<Rightarrow> bool" where
  "IsDebitNormal t \<longleftrightarrow> t = ''asset'' \<or> t = ''expense''"

definition DeriveBalance :: "string \<Rightarrow> i64 \<Rightarrow> i64 \<Rightarrow> amount" where
  "DeriveBalance t debitMinor creditMinor =
     (if IsDebitNormal t then FromMinor (debitMinor - creditMinor)
      else FromMinor (creditMinor - debitMinor))"

record entry_input =
  ei_account_code :: string
  ei_direction :: string
  ei_amount :: amount
  ei_currency :: string

record post_request =
  pr_reference :: string
  pr_type :: string
  pr_status :: string
  pr_entries :: "entry_input list"
  pr_metadata :: "(string \<times> string) list"
  pr_idempotency_key :: string
  pr_parent :: "uuid option"

fun totals_loop :: "amount \<Rightarrow> amount \<Rightarrow> entry_input list \<Rightarrow> amount \<times> amount" where
  "totals_loop debits credits [] = (debits, credits)"
| "totals_loop debits credits (e # es) =
     (if ei_direction e = Debit then totals_loop (amount_Add debits (ei_amount e)) credits es
      else if ei_direction e = Credit then totals_loop debits (amount_Add credits (ei_amount e)) es
      else totals_loop debits credits es)"

definition totals :: "post_request \<Rightarrow> amount \<times> amount" where
  "totals r = totals_loop Zero Zero (pr_entries r)"

section \<open>Validation\<close>

fun validate_entries :: "string \<Rightarrow> entry_input list \<Rightarrow> err option" where
  "validate_entries currency [] = None"
| "validate_entries currency (e # es) =
     (if ei_currency e \<noteq> currency then Some (Sentinel ErrMixedCurrency)
      else if sint (Minor (ei_amount e)) \<le> 0 then Some (Sentinel ErrNonPositiveEntry)
      else validate_entries currency es)"

definition validate :: "post_request \<Rightarrow> err option" where
  "validate req =
     (if length (pr_entries req) < 2 then Some (Sentinel ErrTooFewEntries)
      else (case validate_entries (ei_currency (hd (pr_entries req))) (pr_entries req) of
          Some e \<Rightarrow> Some e
        | None \<Rightarrow>
            (case totals req of (debits, credits) \<Rightarrow>
               if debits \<noteq> credits then Some (Sentinel ErrUnbalanced) else None)))"

section \<open>The body of a posting transaction\<close>

text \<open>\<open>resolveAccounts\<close>: the Go map from code to account, as the list of its bindings in the order
  they are made.\<close>

fun resolveAccounts :: "(string \<times> account) list \<Rightarrow> entry_input list \<Rightarrow> (string \<times> account) list tx" where
  "resolveAccounts accs [] ev d = Inr (accs, d)"
| "resolveAccounts accs (e # es) ev d =
     (if map_of accs (ei_account_code e) \<noteq> None then resolveAccounts accs es ev d
      else (case GetAccountByCode (ei_account_code e) ev d of
          Inl er \<Rightarrow>
            if errors_is er ErrNoRows
            then Inl (Wrap [] (Sentinel ErrUnknownAccount) ('': '' @ ei_account_code e))
            else Inl (Wrap (''resolve account '' @ ei_account_code e @ '': '') er [])
        | Inr (acct, d') \<Rightarrow> resolveAccounts (accs @ [(ei_account_code e, acct)]) es ev d'))"

definition account_id_of :: "(string \<times> account) list \<Rightarrow> string \<Rightarrow> uuid" where
  "account_id_of accs code = (case map_of accs code of Some a \<Rightarrow> a_id a | None \<Rightarrow> 0)"

fun insert_entries :: "nat \<Rightarrow> uuid \<Rightarrow> (string \<times> account) list \<Rightarrow> entry_input list \<Rightarrow> unit tx" where
  "insert_entries n tx_id accs [] ev d = Inr ((), d)"
| "insert_entries n tx_id accs (e # es) ev d =
     (case InsertEntry n tx_id (account_id_of accs (ei_account_code e)) (ei_direction e)
             (Minor (ei_amount e)) (ei_currency e) ev d of
        Inl er \<Rightarrow> Inl (Wrap ''insert entry: '' er [])
      | Inr (_, d') \<Rightarrow> insert_entries (Suc n) tx_id accs es ev d')"

fun updateCachedBalances :: "(string \<times> account) list \<Rightarrow> unit tx" where
  "updateCachedBalances [] ev d = Inr ((), d)"
| "updateCachedBalances ((_, acct) # accs) ev d =
     (case SumEntriesByAccount (a_id acct) ev d of
        Inl er \<Rightarrow> Inl (Wrap (''sum entries for '' @ a_code acct @ '': '') er [])
      | Inr ((dm, cm), d1) \<Rightarrow>
          (case UpsertCachedBalance (a_id acct) (Minor (DeriveBalance (a_type acct) dm cm))
                  (a_currency acct) ev d1 of
             Inl er \<Rightarrow> Inl (Wrap (''upsert balance for '' @ a_code acct @ '': '') er [])
           | Inr (_, d2) \<Rightarrow> updateCachedBalances accs ev d2))"

text \<open>\<open>json.Marshal\<close> of a \<open>map[string]string\<close> cannot fail.\<close>

definition marshalMetadata :: "(string \<times> string) list \<Rightarrow> jsonb" where
  "marshalMetadata m = map (\<lambda>(k, v). (k, JStr v)) m"

definition post_params :: "post_request \<Rightarrow> insert_transaction_params" where
  "post_params req =
     \<lparr>it_reference = pr_reference req, it_type = pr_type req,
      it_status = (if pr_status req = [] then StatusPending else pr_status req),
      it_idempotency_key = (if pr_idempotency_key req = [] then None else Some (pr_idempotency_key req)),
      it_parent = pr_parent req, it_currency = ei_currency (hd (pr_entries req)),
      it_metadata = marshalMetadata (pr_metadata req)\<rparr>"

definition post_body :: "post_request \<Rightarrow> uuid tx" where
  "post_body req ev d =
     (case resolveAccounts [] (pr_entries req) ev d of
        Inl er \<Rightarrow> Inl er
      | Inr (accs, d1) \<Rightarrow>
          (case InsertTransaction 0 (post_params req) ev d1 of
             Inl er \<Rightarrow> Inl (Wrap ''insert transaction: '' er [])
           | Inr (t, d2) \<Rightarrow>
               (case insert_entries 1 (t_id t) accs (pr_entries req) ev d2 of
                  Inl er \<Rightarrow> Inl er
                | Inr (_, d3) \<Rightarrow>
                    (case updateCachedBalances accs ev d3 of
                       Inl er \<Rightarrow> Inl er
                     | Inr (_, d4) \<Rightarrow> Inr (t_id t, d4)))))"

text \<open>\<open>Repository.WithSerializableTx\<close>\<close>

definition WithSerializableTx :: "'a tx \<Rightarrow> 'a act" where
  "WithSerializableTx f = run_tx ''begin serializable tx: '' commit_triggers f"

section \<open>retry.go\<close>

definition retryBaseBackoff :: time where
  "retryBaseBackoff = 5 * 1000000"

definition retryMaxBackoff :: time where
  "retryMaxBackoff = 200 * 1000000"

definition maxSerializationRetries :: nat where
  "maxSerializationRetries = 5"

definition isSerializationFailure :: "err \<Rightarrow> bool" where
  "isSerializationFailure e \<longleftrightarrow> errors_as_pg e = Some sql_serialization_failure"

definition isUniqueViolation :: "err \<Rightarrow> bool" where
  "isUniqueViolation e \<longleftrightarrow> errors_as_pg e = Some sql_unique_violation"

definition incRetry :: "world \<Rightarrow> world" where
  "incRetry w = w\<lparr>w_metrics := (w_metrics w)\<lparr>m_retries := Suc (m_retries (w_metrics w))\<rparr>\<rparr>"

definition incExhausted :: "world \<Rightarrow> world" where
  "incExhausted w = w\<lparr>w_metrics := (w_metrics w)\<lparr>m_exhausted := Suc (m_exhausted (w_metrics w))\<rparr>\<rparr>"

text \<open>The wait between tries: the context may be done first; otherwise the wait is logged.\<close>

definition backoff_wait :: "time \<Rightarrow> unit act" where
  "backoff_wait b w =
     (case take_env w of (ev, w1) \<Rightarrow>
        if e_ctx_done ev then (Inl (Infra CtxCanceled), w1)
        else (Inr (), w1\<lparr>w_slept := w_slept w1 @ [b]\<rparr>))"

text \<open>The loop of \<open>retryOnSerialization\<close> with \<open>n\<close> tries left.\<close>

fun retry_loop :: "nat \<Rightarrow> time \<Rightarrow> 'a act \<Rightarrow> 'a act" where
  "retry_loop 0 backoff fn w = (Inl (Sentinel ErrSerializationExhausted), incExhausted w)"
| "retry_loop (Suc n) backoff fn w =
     (case fn w of
        (Inr a, w1) \<Rightarrow> (Inr a, w1)
      | (Inl e, w1) \<Rightarrow>
          if \<not> isSerializationFailure e then (Inl e, w1)
          else if n = 0 then (Inl (Join (Sentinel ErrSerializationExhausted) e), incExhausted w1)
          else (case backoff_wait backoff (incRetry w1) of
              (Inl c, w2) \<Rightarrow> (Inl c, w2)
            | (Inr _, w2) \<Rightarrow>
                retry_loop n (if backoff * 2 > retryMaxBackoff then retryMaxBackoff else backoff * 2) fn w2))"

definition retryOnSerialization :: "nat \<Rightarrow> 'a act \<Rightarrow> 'a act" where
  "retryOnSerialization attempts fn = retry_loop attempts retryBaseBackoff fn"

section \<open>service.go, balance.go\<close>

definition PostTransaction :: "post_request \<Rightarrow> uuid act" where
  "PostTransaction req w =
     (case validate req of
        Some e \<Rightarrow> (Inl e, w)
      | None \<Rightarrow>
          (case retryOnSerialization maxSerializationRetries (WithSerializableTx (post_body req)) w of
             (Inr tx_id, w1) \<Rightarrow> (Inr tx_id, w1)
           | (Inl e, w1) \<Rightarrow>
               if isUniqueViolation e \<and> pr_idempotency_key req \<noteq> []
               then (case run_stmt (GetTransactionByIdempotencyKey (Some (pr_idempotency_key req))) w1 of
                   (Inr existing, w2) \<Rightarrow> (Inr (t_id existing), w2)
                 | (Inl _, w2) \<Rightarrow> (Inl e, w2))
               else (Inl e, w1)))"

definition GetAccount :: "string \<Rightarrow> account act" where
  "GetAccount code w =
     (case run_stmt (GetAccountByCode code) w of
        (Inl e, w1) \<Rightarrow>
          if errors_is e ErrNoRows
          then (Inl (Wrap [] (Sentinel ErrUnknownAccount) ('': '' @ code)), w1)
          else (Inl (Wrap (''get account '' @ code @ '': '') e []), w1)
      | (Inr acct, w1) \<Rightarrow> (Inr acct, w1))"

definition GetBalance :: "string \<Rightarrow> amount act" where
  "GetBalance accountCode w =
     (case GetAccount accountCode w of
        (Inl e, w1) \<Rightarrow> (Inl e, w1)
      | (Inr acct, w1) \<Rightarrow>
          (case run_stmt (SumEntriesByAccount (a_id acct)) w1 of
             (Inl e, w2) \<Rightarrow> (Inl (Wrap (''sum entries for '' @ accountCode @ '': '') e []), w2)
           | (Inr (dm, cm), w2) \<Rightarrow> (Inr (DeriveBalance (a_type acct) dm cm), w2)))"

definition ListEntries :: "uuid \<Rightarrow> entry list act" where
  "ListEntries txID = run_stmt (ListEntriesByTransaction txID)"

end
