(* ===== verification/LedgerProps.thy ===== *)
theory LedgerProps
  imports Ledger "HOL-Library.Sublist"
begin

text \<open>
  Facts about the ledger service: what validation accepts, what one posting writes, the invariant
  of the journal and its caches and that every posting keeps it under every fault pattern, the
  bounded retry loop, idempotent re-posting, and exact balances.
\<close>

section \<open>Validation\<close>

definition input_sum :: "string \<Rightarrow> entry_input list \<Rightarrow> int" where
  "input_sum d es = sum_list (map (\<lambda>e. sint (ei_amount e)) (filter (\<lambda>e. ei_direction e = d) es))"

lemma input_sum_simps [simp]:
  "input_sum d [] = 0"
  "input_sum d (e # es) = (if ei_direction e = d then sint (ei_amount e) else 0) + input_sum d es"
  by (simp_all add: input_sum_def)

lemma totals_loop_eq:
  "totals_loop x y es = (x + word_of_int (input_sum Debit es), y + word_of_int (input_sum Credit es))"
proof (induction es arbitrary: x y)
  case (Cons e es)
  have "word_of_int (sint (ei_amount e) + k) = ei_amount e + (word_of_int k :: i64)" for k
    by (simp add: wi_hom_add [symmetric])
  then show ?case by (auto simp: Cons amount_Add_def)
qed simp

lemma totals_eq:
  "totals r = (word_of_int (input_sum Debit (pr_entries r)), word_of_int (input_sum Credit (pr_entries r)))"
  by (simp add: totals_def totals_loop_eq Zero_def)

lemma word_of_int_eq_i64: "(word_of_int a :: i64) = word_of_int b \<longleftrightarrow> a mod 2 ^ 64 = b mod 2 ^ 64"
  by (simp add: word_of_int_eq_iff take_bit_eq_mod)

lemma validate_entries_None:
  "validate_entries c es = None \<longleftrightarrow> (\<forall>e \<in> set es. ei_currency e = c \<and> 0 < sint (ei_amount e))"
  by (induction es) auto

text \<open>The requests validation accepts, exactly: balance is tested on wrapping 64-bit totals.\<close>

lemma validate_None_iff:
  "validate req = None \<longleftrightarrow>
     2 \<le> length (pr_entries req)
     \<and> (\<forall>e \<in> set (pr_entries req).
          ei_currency e = ei_currency (hd (pr_entries req)) \<and> 0 < sint (ei_amount e))
     \<and> input_sum Debit (pr_entries req) mod 2 ^ 64 = input_sum Credit (pr_entries req) mod 2 ^ 64"
  unfolding validate_entries_None [of "ei_currency (hd (pr_entries req))", symmetric]
  by (auto simp: validate_def totals_eq word_of_int_eq_i64 split: option.splits)

lemma input_sum_nonneg: "(\<And>e. e \<in> set es \<Longrightarrow> 0 < sint (ei_amount e)) \<Longrightarrow> 0 \<le> input_sum d es"
  by (induction es) (auto simp: less_imp_le)

lemma validate_errors:
  "validate req = Some e \<Longrightarrow>
   e \<in> {Sentinel ErrTooFewEntries, Sentinel ErrMixedCurrency, Sentinel ErrNonPositiveEntry, Sentinel ErrUnbalanced}"
proof -
  have "validate_entries c es = Some e \<Longrightarrow> e \<in> {Sentinel ErrMixedCurrency, Sentinel ErrNonPositiveEntry}"
    for c es by (induction es) (auto split: if_splits)
  then show "validate req = Some e \<Longrightarrow> ?thesis"
    by (fastforce simp: validate_def split: if_splits option.splits prod.splits)
qed

section \<open>The body of a posting\<close>

lemma GetAccountByCode_Inr:
  "GetAccountByCode c ev d = Inr (a, d') \<longleftrightarrow> find_account c d = Some a \<and> d' = d"
  by (auto simp: GetAccountByCode_def split: option.splits)

lemma GetAccountByCode_Inl:
  "GetAccountByCode c ev d = Inl e \<longleftrightarrow> find_account c d = None \<and> e = Sentinel ErrNoRows"
  by (auto simp: GetAccountByCode_def split: option.splits)

definition resolved :: "db \<Rightarrow> (string \<times> account) list \<Rightarrow> bool" where
  "resolved d accs \<longleftrightarrow> (\<forall>c a. (c, a) \<in> set accs \<longrightarrow> find_account c d = Some a)"

lemma resolveAccounts_Inr:
  "resolveAccounts accs es ev d = Inr (accs', d') \<Longrightarrow> resolved d accs \<Longrightarrow>
   d' = d \<and> resolved d accs' \<and> (\<forall>c. map_of accs c \<noteq> None \<longrightarrow> map_of accs' c \<noteq> None)
   \<and> (\<forall>e \<in> set es. map_of accs' (ei_account_code e) \<noteq> None)"
proof (induction es arbitrary: accs)
  case (Cons e es)
  show ?case
  proof (cases "map_of accs (ei_account_code e)")
    case (Some a)
    then show ?thesis using Cons.IH [of accs] Cons.prems by auto
  next
    case None
    then obtain a where a: "find_account (ei_account_code e) d = Some a"
      and r: "resolveAccounts (accs @ [(ei_account_code e, a)]) es ev d = Inr (accs', d')"
      using Cons.prems(1) by (auto simp: GetAccountByCode_def split: option.splits if_splits)
    have "resolved d (accs @ [(ei_account_code e, a)])"
      using Cons.prems(2) a by (auto simp: resolved_def)
    from Cons.IH [OF r this] show ?thesis
      by (auto simp: map_add_def split: option.splits)
  qed
qed auto

text \<open>A code that names no account makes the whole posting fail with \<open>ErrUnknownAccount\<close>.\<close>

lemma resolveAccounts_Inl:
  "resolveAccounts accs es ev d = Inl er \<Longrightarrow> errors_is er ErrUnknownAccount \<and> errors_as_pg er = None"
proof (induction es arbitrary: accs)
  case (Cons e es)
  then show ?case
    by (auto simp: GetAccountByCode_def split: option.splits if_splits)
qed simp

lemma resolveAccounts_unknown:
  "e \<in> set es \<Longrightarrow> find_account (ei_account_code e) d = None \<Longrightarrow> resolved d accs \<Longrightarrow>
   \<exists>er. resolveAccounts accs es ev d = Inl er"
proof (cases "resolveAccounts accs es ev d")
  case (Inr r)
  assume e: "e \<in> set es" "find_account (ei_account_code e) d = None" "resolved d accs"
  obtain accs' d' where r: "r = (accs', d')" by force
  have "map_of accs' (ei_account_code e) \<noteq> None" "resolved d accs'"
    using resolveAccounts_Inr [OF Inr [unfolded r] e(3)] e(1) by auto
  then show ?thesis using e(2) by (fastforce simp: resolved_def dest: map_of_SomeD)
qed auto

definition entry_posts :: "uuid \<Rightarrow> (string \<times> account) list \<Rightarrow> entry_input \<Rightarrow> entry \<Rightarrow> bool" where
  "entry_posts t accs i e \<longleftrightarrow>
     e_transaction_id e = t \<and> e_account_id e = account_id_of accs (ei_account_code i)
     \<and> e_direction e = ei_direction i \<and> e_amount_minor e = ei_amount i
     \<and> char3 (ei_currency i) = Some (e_currency e)"

definition entry_wf :: "db \<Rightarrow> entry \<Rightarrow> bool" where
  "entry_wf d e \<longleftrightarrow> 0 < entry_amount e \<and> (e_direction e = Debit \<or> e_direction e = Credit)
     \<and> e_transaction_id e \<in> t_id ` set (transactions d) \<and> e_account_id e \<in> a_id ` set (accounts d)"

lemma insert_entries_Inr:
  "insert_entries n t accs es ev d = Inr (u, d') \<Longrightarrow>
   \<exists>added. d' = d\<lparr>entries := entries d @ added\<rparr> \<and> list_all2 (entry_posts t accs) es added
     \<and> (\<forall>e \<in> set added. entry_wf d e)"
proof (induction es arbitrary: n d)
  case (Cons i es)
  from Cons.prems obtain e d1 where e: "InsertEntry n t (account_id_of accs (ei_account_code i))
      (ei_direction i) (ei_amount i) (ei_currency i) ev d = Inr (e, d1)"
    and rest: "insert_entries (Suc n) t accs es ev d1 = Inr (u, d')"
    by (auto split: sum.splits)
  note e' = InsertEntry_Inr [OF e]
  from Cons.IH [OF rest] obtain added where a: "d' = d1\<lparr>entries := entries d1 @ added\<rparr>"
    "list_all2 (entry_posts t accs) es added" "\<forall>e \<in> set added. entry_wf d1 e" by blast
  have "entry_posts t accs i e" "entry_wf d e"
    using e' by (auto simp: entry_posts_def entry_wf_def entry_amount_def)
  moreover have "entry_wf d1 x \<longleftrightarrow> entry_wf d x" for x
    by (simp add: e'(1) entry_wf_def)
  ultimately show ?case
    using a by (intro exI [of _ "e # added"]) (auto simp: e'(1))
qed (auto intro: exI [of _ "[]"])

section \<open>Balances\<close>

definition signed_balance :: "string \<Rightarrow> int \<Rightarrow> int \<Rightarrow> int" where
  "signed_balance t dm cm = (if IsDebitNormal t then dm - cm else cm - dm)"

text \<open>The balance the journal gives an account, as an integer.\<close>

definition journal_balance :: "db \<Rightarrow> account \<Rightarrow> int" where
  "journal_balance d a =
     signed_balance (a_type a) (dir_sum Debit (account_entries (a_id a) (entries d)))
       (dir_sum Credit (account_entries (a_id a) (entries d)))"

definition sums_fit :: "db \<Rightarrow> account \<Rightarrow> bool" where
  "sums_fit d a \<longleftrightarrow> in_i64 (dir_sum Debit (account_entries (a_id a) (entries d)))
     \<and> in_i64 (dir_sum Credit (account_entries (a_id a) (entries d)))"

definition balance_current :: "db \<Rightarrow> account \<Rightarrow> bool" where
  "balance_current d a \<longleftrightarrow> sums_fit d a
     \<and> (\<exists>b. balances d (a_id a) = Some b \<and> sint (b_balance_minor b) = journal_balance d a)"

text \<open>Two non-negative \<open>int64\<close> sums never overflow in \<open>DeriveBalance\<close>.\<close>

lemma DeriveBalance_exact:
  "0 \<le> sint dm \<Longrightarrow> 0 \<le> sint cm \<Longrightarrow> sint (DeriveBalance t dm cm) = signed_balance t (sint dm) (sint cm)"
proof -
  assume nn: "0 \<le> sint dm" "0 \<le> sint cm"
  then have "in_i64 (sint dm - sint cm)" "in_i64 (sint cm - sint dm)"
    using sint_i64_bounds [of dm] sint_i64_bounds [of cm] by (auto simp: in_i64_def)
  then show ?thesis by (simp add: DeriveBalance_def signed_balance_def sint_diff_i64)
qed

definition positive_entries :: "db \<Rightarrow> bool" where
  "positive_entries d \<longleftrightarrow> (\<forall>e \<in> set (entries d). 0 < entry_amount e)"

lemma dir_sum_account_nonneg: "positive_entries d \<Longrightarrow> 0 \<le> dir_sum x (account_entries i (entries d))"
  by (rule dir_sum_nonneg) (auto simp: positive_entries_def account_entries_def intro: less_imp_le)

lemma updateCachedBalances_Inr:
  "updateCachedBalances accs ev d = Inr (u, d') \<Longrightarrow> positive_entries d \<Longrightarrow>
   inj_on a_id (snd ` set accs) \<Longrightarrow>
   (\<exists>bal. d' = d\<lparr>balances := bal\<rparr> \<and> (\<forall>i. i \<notin> a_id ` snd ` set accs \<longrightarrow> bal i = balances d i))
   \<and> (\<forall>a \<in> snd ` set accs. balance_current d' a)"
proof (induction accs arbitrary: d)
  case Nil
  then show ?case by (auto intro: exI [of _ "balances d"])
next
  case (Cons p accs)
  obtain c a where p: "p = (c, a)" by force
  from Cons.prems(1) p obtain dm cm d1 x d2 where
    s: "SumEntriesByAccount (a_id a) ev d = Inr ((dm, cm), d1)" and
    up: "UpsertCachedBalance (a_id a) (DeriveBalance (a_type a) dm cm) (a_currency a) ev d1 = Inr (x, d2)" and
    rest: "updateCachedBalances accs ev d2 = Inr (u, d')"
    by (auto split: sum.splits)
  note s' = SumEntriesByAccount_Inr [OF s]
  from up obtain b where d2: "d2 = d\<lparr>balances := (balances d)(a_id a \<mapsto> b)\<rparr>"
    and b: "b_balance_minor b = DeriveBalance (a_type a) dm cm"
    by (rule UpsertCachedBalance_Inr) (use s' in auto)
  have nn: "0 \<le> sint dm" "0 \<le> sint cm"
    using s' dir_sum_account_nonneg [OF Cons.prems(2)] by simp_all
  have pos2: "positive_entries d2" using Cons.prems(2) by (simp add: d2 positive_entries_def)
  from Cons.IH [OF rest pos2] Cons.prems(3)
  have IH: "\<exists>bal. d' = d2\<lparr>balances := bal\<rparr> \<and> (\<forall>i. i \<notin> a_id ` snd ` set accs \<longrightarrow> bal i = balances d2 i)"
    "\<forall>a \<in> snd ` set accs. balance_current d' a"
    by (auto intro: inj_on_subset)
  then obtain bal where bal: "d' = d2\<lparr>balances := bal\<rparr>"
    "\<forall>i. i \<notin> a_id ` snd ` set accs \<longrightarrow> bal i = balances d2 i" by blast
  have head: "balance_current d' a"
  proof (cases "a_id a \<in> a_id ` snd ` set accs")
    case True
    then obtain a' where a': "a' \<in> snd ` set accs" "a_id a' = a_id a" by (metis imageE)
    have "a \<in> snd ` set (p # accs)" "a' \<in> snd ` set (p # accs)" using p a' by auto
    then have "a' = a" using Cons.prems(3) a'(2) by (metis inj_onD)
    then show ?thesis using IH(2) a'(1) by blast
  next
    case False
    then show ?thesis
      using s' bal d2 b DeriveBalance_exact [OF nn, of "a_type a"]
      by (simp add: balance_current_def sums_fit_def journal_balance_def)
  qed
  show ?case
  proof (intro conjI ballI)
    show "\<exists>bal. d' = d\<lparr>balances := bal\<rparr> \<and> (\<forall>i. i \<notin> a_id ` snd ` set (p # accs) \<longrightarrow> bal i = balances d i)"
      using bal d2 p by (intro exI [of _ bal]) auto
  qed (use head IH(2) p in auto)
qed

section \<open>The invariant of the journal and its caches\<close>

definition accounts_wf :: "db \<Rightarrow> bool" where
  "accounts_wf d \<longleftrightarrow> distinct (map a_id (accounts d)) \<and> distinct (map a_code (accounts d))"

definition tx_unique :: "db \<Rightarrow> bool" where
  "tx_unique d \<longleftrightarrow> sorted_wrt (\<lambda>u t. \<not> tx_clash t u) (transactions d)"

definition journal_balanced :: "db \<Rightarrow> bool" where
  "journal_balanced d \<longleftrightarrow>
     (\<forall>e \<in> set (entries d). currency_balanced (tx_entries (e_transaction_id e) (entries d)))"

definition cache_coherent :: "db \<Rightarrow> bool" where
  "cache_coherent d \<longleftrightarrow>
     (\<forall>a \<in> set (accounts d).
        (balances d (a_id a) = None \<and> account_entries (a_id a) (entries d) = []) \<or> balance_current d a)"

definition ledger_inv :: "db \<Rightarrow> bool" where
  "ledger_inv d \<longleftrightarrow> accounts_wf d \<and> tx_unique d \<and> (\<forall>e \<in> set (entries d). entry_wf d e)
     \<and> journal_balanced d \<and> cache_coherent d"

lemma ledger_invD:
  assumes "ledger_inv d"
  shows "accounts_wf d" "tx_unique d" "\<And>e. e \<in> set (entries d) \<Longrightarrow> entry_wf d e"
    "journal_balanced d" "cache_coherent d" "positive_entries d"
  using assms unfolding ledger_inv_def positive_entries_def by (blast, blast, blast, blast, blast, force simp: entry_wf_def)

lemma entry_wf_mono:
  "entry_wf d e \<Longrightarrow> set (transactions d) \<subseteq> set (transactions d') \<Longrightarrow> accounts d' = accounts d \<Longrightarrow> entry_wf d' e"
  by (auto simp: entry_wf_def)

lemma account_by_id:
  "accounts_wf d \<Longrightarrow> a \<in> set (accounts d) \<Longrightarrow> b \<in> set (accounts d) \<Longrightarrow> a_id a = a_id b \<Longrightarrow> a = b"
  by (auto simp: accounts_wf_def distinct_map dest: inj_onD)

lemma find_account_mem: "find_account c d = Some a \<Longrightarrow> a \<in> set (accounts d) \<and> a_code a = c"
  unfolding find_account_def by (rule find_Some_mem)

lemma resolved_accounts: "resolved d accs \<Longrightarrow> snd ` set accs \<subseteq> set (accounts d)"
  unfolding resolved_def using find_account_mem by fastforce

lemma resolved_inj: "accounts_wf d \<Longrightarrow> resolved d accs \<Longrightarrow> inj_on a_id (snd ` set accs)"
  by (rule inj_on_subset [OF _ resolved_accounts]) (auto simp: accounts_wf_def distinct_map)

lemma account_id_of_mem:
  "map_of accs c \<noteq> None \<Longrightarrow> account_id_of accs c \<in> a_id ` snd ` set accs"
  by (force simp: account_id_of_def dest: map_of_SomeD split: option.splits)

text \<open>Everything one successful posting writes.\<close>

definition posting :: "post_request \<Rightarrow> uuid \<Rightarrow> db \<Rightarrow> db \<Rightarrow> tx_row \<Rightarrow> (string \<times> account) list \<Rightarrow> entry list \<Rightarrow> bool" where
  "posting req i d d' t accs added \<longleftrightarrow>
     resolved d accs
     \<and> (\<forall>e \<in> set (pr_entries req). map_of accs (ei_account_code e) \<noteq> None)
     \<and> t_id t = i \<and> t_idempotency_key t = it_idempotency_key (post_params req)
     \<and> t_type t = pr_type req \<and> t_parent t = pr_parent req \<and> t_reference t = pr_reference req
     \<and> t_status t = it_status (post_params req)
     \<and> t_metadata t = marshalMetadata (pr_metadata req)
     \<and> list_all (\<lambda>v. \<not> tx_clash t v) (transactions d)
     \<and> (\<exists>bal. d' = d\<lparr>transactions := transactions d @ [t], entries := entries d @ added, balances := bal\<rparr>
          \<and> (\<forall>j. j \<notin> a_id ` snd ` set accs \<longrightarrow> bal j = balances d j))
     \<and> list_all2 (entry_posts i accs) (pr_entries req) added
     \<and> (\<forall>e \<in> set added. entry_wf d' e)
     \<and> (\<forall>a \<in> snd ` set accs. balance_current d' a)"

lemma post_body_Inr:
  assumes "post_body req ev d = Inr (i, d')" and wf: "accounts_wf d" and pos: "positive_entries d"
  obtains t accs added where "posting req i d d' t accs added"
proof -
  from assms(1) obtain accs d1 t d2 u3 d3 u4 where
    r: "resolveAccounts [] (pr_entries req) ev d = Inr (accs, d1)" and
    t: "InsertTransaction 0 (post_params req) ev d1 = Inr (t, d2)" and
    e: "insert_entries 1 (t_id t) accs (pr_entries req) ev d2 = Inr (u3, d3)" and
    b: "updateCachedBalances accs ev d3 = Inr (u4, d')" and i: "i = t_id t"
    by (auto simp: post_body_def split: sum.splits prod.splits)
  have "resolved d []" by (simp add: resolved_def)
  note r' = resolveAccounts_Inr [OF r this]
  note t' = InsertTransaction_Inr [OF t]
  from insert_entries_Inr [OF e] obtain added where a: "d3 = d2\<lparr>entries := entries d2 @ added\<rparr>"
    "list_all2 (entry_posts (t_id t) accs) (pr_entries req) added" "\<forall>e \<in> set added. entry_wf d2 e"
    by blast
  have d1: "d1 = d" and res: "resolved d accs" using r' by auto
  have "positive_entries d3"
    using pos a t'(1) by (auto simp: d1 positive_entries_def entry_wf_def)
  from updateCachedBalances_Inr [OF b this resolved_inj [OF wf res]]
  obtain bal where bal: "d' = d3\<lparr>balances := bal\<rparr>"
    "\<forall>j. j \<notin> a_id ` snd ` set accs \<longrightarrow> bal j = balances d3 j"
    "\<forall>a \<in> snd ` set accs. balance_current d' a" by blast
  have "entry_wf d2 x \<longleftrightarrow> entry_wf d' x" for x
    using bal(1) a(1) by (simp add: entry_wf_def)
  then have "posting req i d d' t accs added"
    using r' t' a bal i by (auto simp: posting_def d1 post_params_def)
  then show thesis by (rule that)
qed

lemma postingD:
  assumes "posting req i d d' t accs added"
  shows "accounts d' = accounts d" "transactions d' = transactions d @ [t]"
    "entries d' = entries d @ added" "resolved d accs" "t_id t = i"
    "list_all (\<lambda>v. \<not> tx_clash t v) (transactions d)"
    "\<And>e. e \<in> set added \<Longrightarrow> entry_wf d' e" "\<And>a. a \<in> snd ` set accs \<Longrightarrow> balance_current d' a"
    "idem_keys d' = idem_keys d" "outbox d' = outbox d"
    "t_idempotency_key t = it_idempotency_key (post_params req)" "t_type t = pr_type req"
    "t_parent t = pr_parent req"
  using assms unfolding posting_def by auto

lemma posting_accounts:
  assumes "posting req i d d' t accs added" and "e \<in> set added"
  shows "e_transaction_id e = i" "e_account_id e \<in> a_id ` snd ` set accs"
proof -
  from assms obtain x where "x \<in> set (pr_entries req)" "entry_posts i accs x e"
    unfolding posting_def by (metis in_set_conv_nth list_all2_conv_all_nth)
  then show "e_transaction_id e = i" "e_account_id e \<in> a_id ` snd ` set accs"
    using assms(1) by (auto simp: posting_def entry_posts_def intro!: account_id_of_mem)
qed

lemma tx_clash_id: "\<not> tx_clash t u \<Longrightarrow> t_id t \<noteq> t_id u"
  by (simp add: tx_clash_def)

lemma posting_fresh: "posting req i d d' t accs added \<Longrightarrow> i \<notin> t_id ` set (transactions d)"
  by (auto simp: posting_def list_all_iff dest!: tx_clash_id)

lemma posting_journal_balanced:
  assumes p: "posting req i d d' t accs added" and inv: "ledger_inv d"
    and trg: "commit_triggers d d' = None"
  shows "journal_balanced d'"
proof -
  have es: "entries d' = entries d @ added" using p by (auto simp: posting_def)
  have "currency_balanced (tx_entries (e_transaction_id e) (entries d'))" if e: "e \<in> set (entries d)" for e
  proof -
    have "e_transaction_id e \<noteq> i"
      using posting_fresh [OF p] ledger_invD(3) [OF inv e] by (auto simp: entry_wf_def)
    then have "tx_entries (e_transaction_id e) added = []"
      using posting_accounts(1) [OF p] by (auto simp: tx_entries_def filter_empty_conv)
    then show ?thesis using ledger_invD(4) [OF inv] e by (simp add: es journal_balanced_def)
  qed
  moreover have "currency_balanced (tx_entries (e_transaction_id e) (entries d'))" if "e \<in> set added" for e
    using trg that by (auto simp: commit_triggers_def es list_all_iff split: if_splits)
  ultimately show ?thesis by (auto simp: journal_balanced_def es)
qed

lemma posting_cache_coherent:
  assumes p: "posting req i d d' t accs added" and inv: "ledger_inv d"
  shows "cache_coherent d'"
  unfolding cache_coherent_def
proof
  fix a
  assume "a \<in> set (accounts d')"
  then have a: "a \<in> set (accounts d)" using p by (auto simp: posting_def)
  show "(balances d' (a_id a) = None \<and> account_entries (a_id a) (entries d') = []) \<or> balance_current d' a"
  proof (cases "a_id a \<in> a_id ` snd ` set accs")
    case True
    then obtain a' where a': "a' \<in> snd ` set accs" "a_id a' = a_id a" by (metis imageE)
    then have "a' = a"
      using account_by_id [OF ledger_invD(1) [OF inv] _ a] resolved_accounts [OF postingD(4) [OF p]]
      by blast
    then show ?thesis using a' postingD(8) [OF p] by blast
  next
    case False
    then have "account_entries (a_id a) added = []"
      unfolding account_entries_def filter_empty_conv using posting_accounts(2) [OF p] by metis
    then have "account_entries (a_id a) (entries d') = account_entries (a_id a) (entries d)"
      "balances d' (a_id a) = balances d (a_id a)"
      using p False by (auto simp: posting_def)
    then show ?thesis
      using ledger_invD(5) [OF inv] a
      by (auto simp: cache_coherent_def balance_current_def sums_fit_def journal_balance_def)
  qed
qed

lemma posting_ledger_inv:
  assumes p: "posting req i d d' t accs added" and inv: "ledger_inv d"
    and trg: "commit_triggers d d' = None"
  shows "ledger_inv d'"
proof -
  have "accounts_wf d'" using p ledger_invD(1) [OF inv] by (auto simp: posting_def accounts_wf_def)
  moreover have "tx_unique d'"
    using p ledger_invD(2) [OF inv]
    by (auto simp: posting_def tx_unique_def sorted_wrt_append list_all_iff)
  moreover have "entry_wf d' e" if "e \<in> set (entries d)" for e
    by (rule entry_wf_mono [OF ledger_invD(3) [OF inv that]]) (use postingD(1,2) [OF p] in auto)
  then have "\<forall>e \<in> set (entries d'). entry_wf d' e"
    using postingD(3,7) [OF p] by auto
  ultimately show ?thesis
    using posting_journal_balanced [OF p inv trg] posting_cache_coherent [OF p inv]
    by (simp add: ledger_inv_def)
qed

lemma post_body_ledger_inv:
  assumes "post_body req ev d = Inr (i, d')" and inv: "ledger_inv d" and "commit_triggers d d' = None"
  shows "ledger_inv d'"
  using post_body_Inr [OF assms(1) ledger_invD(1,6) [OF inv]] posting_ledger_inv [OF _ inv assms(3)]
  by metis

section \<open>Every operation of the service\<close>

text \<open>The journal is append-only: rows are added, never changed or removed.\<close>

definition db_extends :: "db \<Rightarrow> db \<Rightarrow> bool" where
  "db_extends d d' \<longleftrightarrow> accounts d' = accounts d \<and> prefix (transactions d) (transactions d')
     \<and> prefix (entries d) (entries d')"

lemma db_extends_refl [simp]: "db_extends d d"
  by (simp add: db_extends_def)

lemma db_extends_trans: "db_extends a b \<Longrightarrow> db_extends b c \<Longrightarrow> db_extends a c"
  by (auto simp: db_extends_def intro: prefix_order.trans)

text \<open>\<open>act_step R m\<close>: whatever it returns, \<open>m\<close> moves the database along \<open>R\<close>.\<close>

definition act_step :: "(db \<Rightarrow> db \<Rightarrow> bool) \<Rightarrow> 'a act \<Rightarrow> bool" where
  "act_step R m \<longleftrightarrow> (\<forall>w r w'. m w = (r, w') \<longrightarrow> R (w_db w) (w_db w'))"

lemma act_stepD: "act_step R m \<Longrightarrow> m w = (r, w') \<Longrightarrow> R (w_db w) (w_db w')"
  by (simp add: act_step_def)

lemma backoff_wait_db: "backoff_wait b w = (r, w') \<Longrightarrow> w_db w' = w_db w"
  by (auto simp: backoff_wait_def take_env_def split: if_splits)

lemma retry_loop_step:
  assumes fn: "act_step R fn" and refl: "\<And>d. R d d" and trans: "\<And>a b c. R a b \<Longrightarrow> R b c \<Longrightarrow> R a c"
  shows "retry_loop n b fn w = (r, w') \<Longrightarrow> R (w_db w) (w_db w')"
proof (induction n arbitrary: b w)
  case 0
  then show ?case using refl by (auto simp: incExhausted_def)
next
  case (Suc n)
  obtain r1 w1 where f: "fn w = (r1, w1)" by force
  have R1: "R (w_db w) (w_db w1)" using act_stepD [OF fn f] .
  obtain r2 w2 where b: "backoff_wait b (incRetry w1) = (r2, w2)" by force
  have w2: "w_db w2 = w_db w1" using backoff_wait_db [OF b] by (simp add: incRetry_def)
  have again: "R (w_db w) (w_db w')" if "retry_loop n b' fn w2 = (r, w')" for b'
    using trans [OF R1] Suc.IH [OF that] w2 by simp
  show ?case
    using Suc.prems f b R1 w2 again
    by (auto simp: incExhausted_def split: sum.splits if_splits)
qed

lemma retry_step:
  "act_step R fn \<Longrightarrow> (\<And>d. R d d) \<Longrightarrow> (\<And>a b c. R a b \<Longrightarrow> R b c \<Longrightarrow> R a c) \<Longrightarrow>
   act_step R (retryOnSerialization n fn)"
  unfolding act_step_def retryOnSerialization_def by (metis act_step_def retry_loop_step)

definition ledger_step :: "db \<Rightarrow> db \<Rightarrow> bool" where
  "ledger_step d d' \<longleftrightarrow> (ledger_inv d \<longrightarrow> ledger_inv d' \<and> db_extends d d' \<and> idem_keys d' = idem_keys d
     \<and> outbox d' = outbox d)"

lemma ledger_step_refl: "ledger_step d d"
  by (simp add: ledger_step_def)

lemma ledger_step_trans: "ledger_step a b \<Longrightarrow> ledger_step b c \<Longrightarrow> ledger_step a c"
  by (auto simp: ledger_step_def intro: db_extends_trans)

lemma posting_extends: "posting req i d d' t accs added \<Longrightarrow> db_extends d d'"
  using postingD(1-3) by (auto simp: db_extends_def)

lemma post_tx_step: "act_step ledger_step (WithSerializableTx (post_body req))"
  unfolding act_step_def WithSerializableTx_def
proof (intro allI impI)
  fix w r w'
  assume "run_tx ''begin serializable tx: '' commit_triggers (post_body req) w = (r, w')"
  then show "ledger_step (w_db w) (w_db w')"
  proof (cases rule: run_tx_cases)
    case (committed i d)
    show ?thesis unfolding ledger_step_def
    proof
      assume inv: "ledger_inv (w_db w)"
      from post_body_Inr [OF committed(1) ledger_invD(1,6) [OF inv]]
      obtain t accs added where p: "posting req i (w_db w) d t accs added" .
      then show "ledger_inv (w_db w') \<and> db_extends (w_db w) (w_db w') \<and> idem_keys (w_db w') = idem_keys (w_db w)
          \<and> outbox (w_db w') = outbox (w_db w)"
        using posting_ledger_inv [OF p inv committed(2)] posting_extends [OF p] committed(3)
          postingD(9,10) [OF p] by simp
    qed
  qed (simp add: ledger_step_refl)
qed

text \<open>A read leaves the database as it is.\<close>

definition tx_reads :: "'a tx \<Rightarrow> bool" where
  "tx_reads f \<longleftrightarrow> (\<forall>ev d a d'. f ev d = Inr (a, d') \<longrightarrow> d' = d)"

lemma run_stmt_reads: "tx_reads f \<Longrightarrow> run_stmt f w = (r, w') \<Longrightarrow> w_db w' = w_db w"
  unfolding run_stmt_def by (erule run_tx_cases) (auto simp: tx_reads_def)

lemma reads [intro, simp]:
  "tx_reads (GetTransactionByIdempotencyKey k)" "tx_reads (GetAccountByCode c)" "tx_reads (GetAccountByID u)"
  "tx_reads (SumEntriesByAccount u)" "tx_reads (ListEntriesByTransaction u)"
  "tx_reads (ListTransactionsByWindow f g)" "tx_reads (GetTransaction u)" "tx_reads (GetCachedBalance u)"
  by (auto simp: tx_reads_def GetTransactionByIdempotencyKey_def GetAccountByCode_def GetAccountByID_def
      ListEntriesByTransaction_def ListTransactionsByWindow_def GetTransaction_def GetCachedBalance_def
      dest: SumEntriesByAccount_Inr split: option.splits)

lemma PostTransaction_step: "act_step ledger_step (PostTransaction req)"
  unfolding act_step_def
proof (intro allI impI)
  fix w r w'
  assume run: "PostTransaction req w = (r, w')"
  obtain r1 w1 where f: "retryOnSerialization maxSerializationRetries (WithSerializableTx (post_body req)) w = (r1, w1)"
    by force
  have s1: "ledger_step (w_db w) (w_db w1)"
    using act_stepD [OF retry_step [OF post_tx_step ledger_step_refl ledger_step_trans] f] .
  obtain r2 w2 where g: "run_stmt (GetTransactionByIdempotencyKey (Some (pr_idempotency_key req))) w1 = (r2, w2)"
    by force
  have "w_db w2 = w_db w1" by (rule run_stmt_reads [OF _ g]) simp
  then show "ledger_step (w_db w) (w_db w')"
    using run f g s1 ledger_step_refl
    by (auto simp: PostTransaction_def split: option.splits sum.splits if_splits)
qed

section \<open>Idempotent posting\<close>

text \<open>A key that is taken makes the body fail, so the database stays as it is whatever happens.\<close>

lemma taken_key_clash:
  "find_tx_by_key k d = Some u \<Longrightarrow> t_idempotency_key t = Some k \<Longrightarrow> \<not> list_all (\<lambda>v. \<not> tx_clash t v) (transactions d)"
  by (force simp: find_tx_by_key_def list_all_iff tx_clash_def dest!: find_Some_mem)

lemma post_body_taken:
  assumes "find_tx_by_key (pr_idempotency_key req) d = Some u" and "pr_idempotency_key req \<noteq> []"
  shows "post_body req ev d \<noteq> Inr r"
proof
  assume "post_body req ev d = Inr r"
  then obtain accs d1 t d2 where r: "resolveAccounts [] (pr_entries req) ev d = Inr (accs, d1)"
    and t: "InsertTransaction 0 (post_params req) ev d1 = Inr (t, d2)"
    by (auto simp: post_body_def split: sum.splits prod.splits)
  have "resolved d []" by (simp add: resolved_def)
  then have "d1 = d" using resolveAccounts_Inr [OF r] by simp
  then show False
    using InsertTransaction_Inr(3,11) [OF t] taken_key_clash [OF assms(1), of t] assms(2)
    by (simp add: post_params_def)
qed

definition keyed :: "string \<Rightarrow> tx_row \<Rightarrow> db \<Rightarrow> bool" where
  "keyed k u d \<longleftrightarrow> find_tx_by_key k d = Some u"

lemma post_tx_taken_step:
  assumes "pr_idempotency_key req \<noteq> []"
  shows "act_step (\<lambda>d d'. keyed (pr_idempotency_key req) u d \<longrightarrow> d' = d) (WithSerializableTx (post_body req))"
  unfolding act_step_def WithSerializableTx_def
proof (intro allI impI)
  fix w r w'
  assume "run_tx ''begin serializable tx: '' commit_triggers (post_body req) w = (r, w')"
    and k: "keyed (pr_idempotency_key req) u (w_db w)"
  then show "w_db w' = w_db w"
    using post_body_taken [OF k [unfolded keyed_def] assms]
    by (cases rule: run_tx_cases) auto
qed

lemma retry_taken:
  assumes "retryOnSerialization n (WithSerializableTx (post_body req)) w = (r, w')"
    and "keyed (pr_idempotency_key req) u (w_db w)" and "pr_idempotency_key req \<noteq> []"
  shows "w_db w' = w_db w"
  using act_stepD [OF retry_step [OF post_tx_taken_step [OF assms(3)]] assms(1)] assms(2) by blast

text \<open>The result of a retried call that succeeded is one that the call itself returned.\<close>

lemma retry_loop_Inr:
  "retry_loop n b fn w = (Inr a, w') \<Longrightarrow> \<exists>w0. fn w0 = (Inr a, w')"
proof (induction n arbitrary: b w)
  case (Suc n)
  then show ?case by (auto split: sum.splits prod.splits if_splits)
qed simp

text \<open>An \<open>Inr\<close> of the loop comes from a try on a database the earlier tries led to.\<close>

lemma retry_loop_Inr_step:
  assumes fn: "act_step R fn" and refl: "\<And>d. R d d" and trans: "\<And>a b c. R a b \<Longrightarrow> R b c \<Longrightarrow> R a c"
  shows "retry_loop n b fn w = (Inr a, w') \<Longrightarrow> \<exists>w0. R (w_db w) (w_db w0) \<and> fn w0 = (Inr a, w')"
proof (induction n arbitrary: b w)
  case (Suc n)
  obtain r1 w1 where f: "fn w = (r1, w1)" by force
  show ?case
  proof (cases r1)
    case (Inr x)
    then show ?thesis using Suc.prems f refl by auto
  next
    case (Inl e)
    obtain r2 w2 where b: "backoff_wait b (incRetry w1) = (r2, w2)" by force
    have w2: "w_db w2 = w_db w1" using backoff_wait_db [OF b] by (simp add: incRetry_def)
    from Suc.prems f b Inl obtain b' where "retry_loop n b' fn w2 = (Inr a, w')"
      by (auto split: sum.splits if_splits)
    from Suc.IH [OF this] show ?thesis
      using w2 trans act_stepD [OF fn f] by metis
  qed
qed simp

text \<open>Re-posting under a key that is taken never writes, and the only success it can report is the
  posting that has the key.\<close>

lemma PostTransaction_taken:
  assumes run: "PostTransaction req w = (r, w')"
    and k: "find_tx_by_key (pr_idempotency_key req) (w_db w) = Some u" and ne: "pr_idempotency_key req \<noteq> []"
  shows "w_db w' = w_db w \<and> (\<forall>i. r = Inr i \<longrightarrow> i = t_id u)"
proof (cases "validate req")
  case (Some e)
  then show ?thesis using run by (auto simp: PostTransaction_def)
next
  case None
  note k' = k [folded keyed_def]
  obtain r1 w1 where f: "retryOnSerialization maxSerializationRetries (WithSerializableTx (post_body req)) w = (r1, w1)"
    by force
  have w1: "w_db w1 = w_db w" by (rule retry_taken [OF f k' ne])
  show ?thesis
  proof (cases r1)
    case (Inr i)
    from retry_loop_Inr_step [OF post_tx_taken_step [OF ne, of u] _ _ f [unfolded retryOnSerialization_def Inr]]
    obtain w0 where w0: "w_db w0 = w_db w" "WithSerializableTx (post_body req) w0 = (Inr i, w1)"
      using k' by auto
    have False
      using w0(2) post_body_taken [of req "w_db w0" u] k ne w0(1) unfolding WithSerializableTx_def
      by (auto elim!: run_tx_cases)
    then show ?thesis ..
  next
    case (Inl e)
    obtain r2 w2 where g: "run_stmt (GetTransactionByIdempotencyKey (Some (pr_idempotency_key req))) w1 = (r2, w2)"
      by force
    have w2: "w_db w2 = w_db w1" by (rule run_stmt_reads [OF _ g]) simp
    have "t = u" if "r2 = Inr t" for t
      using g k w1 that unfolding run_stmt_def
      by (auto elim!: run_tx_cases simp: GetTransactionByIdempotencyKey_def)
    then show ?thesis
      using run f g Inl None w1 w2 by (auto simp: PostTransaction_def split: sum.splits if_splits)
  qed
qed

section \<open>The retry loop\<close>

fun backoffs :: "nat \<Rightarrow> time \<Rightarrow> time list" where
  "backoffs 0 b = []"
| "backoffs (Suc n) b = b # backoffs n (if b * 2 > retryMaxBackoff then retryMaxBackoff else b * 2)"

text \<open>A try that the database aborts with SQLSTATE 40001.\<close>

definition conflicts :: "((err + 'a) \<times> db) \<Rightarrow> db \<Rightarrow> bool" where
  "conflicts out d \<longleftrightarrow> snd out = d \<and> (case fst out of Inl e \<Rightarrow> isSerializationFailure e | Inr _ \<Rightarrow> False)"

definition retried :: "nat \<Rightarrow> metrics \<Rightarrow> metrics" where
  "retried k m = m\<lparr>m_retries := m_retries m + k\<rparr>"

lemma retry_loop_recovers:
  assumes "k < n"
    and "\<And>i. i < k \<Longrightarrow> conflicts (tx_outcome pre trg f (w_env w (w_tick w + 2 * i)) (w_db w)) (w_db w)"
    and "\<And>i. i < k \<Longrightarrow> \<not> e_ctx_done (w_env w (w_tick w + 2 * i + 1))"
    and "tx_outcome pre trg f (w_env w (w_tick w + 2 * k)) (w_db w) = (Inr a, d)"
  shows "retry_loop n b (run_tx pre trg f) w =
    (Inr a, w\<lparr>w_db := d, w_tick := w_tick w + 2 * k + 1, w_slept := w_slept w @ backoffs k b,
            w_metrics := retried k (w_metrics w)\<rparr>)"
  using assms
proof (induction k arbitrary: n b w)
  case 0
  then obtain m where n: "n = Suc m" by (cases n) auto
  have out: "tx_outcome pre trg f (w_env w (w_tick w)) (w_db w) = (Inr a, d)" using 0 by simp
  show ?case unfolding n by (simp add: run_tx_outcome [OF out] retried_def)
next
  case (Suc k)
  then obtain m where n: "n = Suc m" "k < m" by (cases n) auto
  obtain e where out: "tx_outcome pre trg f (w_env w (w_tick w)) (w_db w) = (Inl e, w_db w)"
    and e: "isSerializationFailure e"
    using Suc.prems(2) [of 0] by (auto simp: conflicts_def prod_eq_iff split: sum.splits)
  define b' where "b' = (if b * 2 > retryMaxBackoff then retryMaxBackoff else b * 2)"
  define w2 where "w2 = w\<lparr>w_tick := w_tick w + 2, w_slept := w_slept w @ [b], w_metrics := retried 1 (w_metrics w)\<rparr>"
  have wait: "backoff_wait b (incRetry (w\<lparr>w_tick := Suc (w_tick w), w_db := w_db w\<rparr>)) = (Inr (), w2)"
    using Suc.prems(3) [of 0] by (simp add: backoff_wait_def take_env_def incRetry_def w2_def retried_def)
  have "retry_loop m b' (run_tx pre trg f) w2 =
      (Inr a, w2\<lparr>w_db := d, w_tick := w_tick w2 + 2 * k + 1, w_slept := w_slept w2 @ backoffs k b',
              w_metrics := retried k (w_metrics w2)\<rparr>)"
  proof (rule Suc.IH [OF n(2)])
    fix i
    assume i: "i < k"
    show "conflicts (tx_outcome pre trg f (w_env w2 (w_tick w2 + 2 * i)) (w_db w2)) (w_db w2)"
      using Suc.prems(2) [of "Suc i"] i by (simp add: w2_def)
    show "\<not> e_ctx_done (w_env w2 (w_tick w2 + 2 * i + 1))"
      using Suc.prems(3) [of "Suc i"] i by (simp add: w2_def)
  next
    show "tx_outcome pre trg f (w_env w2 (w_tick w2 + 2 * k)) (w_db w2) = (Inr a, d)"
      using Suc.prems(4) by (simp add: w2_def)
  qed
  moreover have "retry_loop n b (run_tx pre trg f) w = retry_loop m b' (run_tx pre trg f) w2"
    unfolding n(1) using n(2) e wait by (simp add: run_tx_outcome [OF out] b'_def)
  ultimately show ?case by (simp add: w2_def retried_def b'_def)
qed

text \<open>All \<open>n\<close> tries conflict: the loop gives up with \<open>ErrSerializationExhausted\<close>, the database as it was.\<close>

lemma retry_loop_exhausts:
  assumes "0 < n"
    and "\<And>i. i < n \<Longrightarrow> conflicts (tx_outcome pre trg f (w_env w (w_tick w + 2 * i)) (w_db w)) (w_db w)"
    and "\<And>i. Suc i < n \<Longrightarrow> \<not> e_ctx_done (w_env w (w_tick w + 2 * i + 1))"
  shows "\<exists>e w'. retry_loop n b (run_tx pre trg f) w = (Inl (Join (Sentinel ErrSerializationExhausted) e), w')
    \<and> fst (tx_outcome pre trg f (w_env w (w_tick w + 2 * (n - 1))) (w_db w)) = Inl e \<and> isSerializationFailure e
    \<and> w_db w' = w_db w \<and> w_slept w' = w_slept w @ backoffs (n - 1) b
    \<and> w_tick w' = w_tick w + (2 * n - 1)
    \<and> m_retries (w_metrics w') = m_retries (w_metrics w) + (n - 1)
    \<and> m_exhausted (w_metrics w') = Suc (m_exhausted (w_metrics w))"
  using assms
proof (induction n arbitrary: b w)
  case (Suc n)
  obtain e where out: "tx_outcome pre trg f (w_env w (w_tick w)) (w_db w) = (Inl e, w_db w)"
    and e: "isSerializationFailure e"
    using Suc.prems(2) [of 0] by (auto simp: conflicts_def prod_eq_iff split: sum.splits)
  show ?case
  proof (cases n)
    case 0
    then show ?thesis using e out by (simp add: run_tx_outcome [OF out] incExhausted_def)
  next
    case (Suc m)
    define b' where "b' = (if b * 2 > retryMaxBackoff then retryMaxBackoff else b * 2)"
    define w2 where "w2 = w\<lparr>w_tick := w_tick w + 2, w_slept := w_slept w @ [b], w_metrics := retried 1 (w_metrics w)\<rparr>"
    have wait: "backoff_wait b (incRetry (w\<lparr>w_tick := Suc (w_tick w), w_db := w_db w\<rparr>)) = (Inr (), w2)"
      using Suc.prems(3) [of 0] Suc by (simp add: backoff_wait_def take_env_def incRetry_def w2_def retried_def)
    have "\<exists>e w'. retry_loop n b' (run_tx pre trg f) w2 = (Inl (Join (Sentinel ErrSerializationExhausted) e), w')
      \<and> fst (tx_outcome pre trg f (w_env w2 (w_tick w2 + 2 * (n - 1))) (w_db w2)) = Inl e \<and> isSerializationFailure e
      \<and> w_db w' = w_db w2 \<and> w_slept w' = w_slept w2 @ backoffs (n - 1) b'
      \<and> w_tick w' = w_tick w2 + (2 * n - 1)
      \<and> m_retries (w_metrics w') = m_retries (w_metrics w2) + (n - 1)
      \<and> m_exhausted (w_metrics w') = Suc (m_exhausted (w_metrics w2))"
    proof (rule Suc.IH)
      show "0 < n" using Suc by simp
    next
      fix i
      assume i: "i < n"
      show "conflicts (tx_outcome pre trg f (w_env w2 (w_tick w2 + 2 * i)) (w_db w2)) (w_db w2)"
        using Suc.prems(2) [of "Suc i"] i by (simp add: w2_def)
    next
      fix i
      assume i: "Suc i < n"
      show "\<not> e_ctx_done (w_env w2 (w_tick w2 + 2 * i + 1))"
        using Suc.prems(3) [of "Suc i"] i by (simp add: w2_def)
    qed
    moreover have "retry_loop (Suc n) b (run_tx pre trg f) w = retry_loop n b' (run_tx pre trg f) w2"
      using Suc e wait by (simp add: run_tx_outcome [OF out] b'_def)
    ultimately show ?thesis using Suc by (auto simp: w2_def retried_def b'_def)
  qed
qed simp

text \<open>Whatever fails, the loop makes at most \<open>n\<close> tries and waits the doubling, capped delays.\<close>

lemma retry_loop_bound:
  "retry_loop n b (run_tx pre trg f) w = (r, w') \<Longrightarrow>
   w_tick w' \<le> w_tick w + (2 * n - 1) \<and> (\<exists>k. w_slept w' = w_slept w @ take k (backoffs (n - 1) b))"
proof (induction n arbitrary: b w)
  case 0
  then show ?case by (auto simp: incExhausted_def)
next
  case (Suc n)
  obtain r1 w1 where f: "run_tx pre trg f w = (r1, w1)" by force
  note fr = run_tx_frame [OF f]
  obtain r2 w2 where wt: "backoff_wait b (incRetry w1) = (r2, w2)" by force
  have w2: "w_tick w2 = w_tick w + 2" "w_slept w2 = w_slept w @ (case r2 of Inl _ \<Rightarrow> [] | Inr _ \<Rightarrow> [b])"
    using wt fr by (auto simp: backoff_wait_def incRetry_def take_env_def split: if_splits)
  define b' where "b' = (if b * 2 > retryMaxBackoff then retryMaxBackoff else b * 2)"
  consider (stop) "w_tick w' = Suc (w_tick w)" "w_slept w' = w_slept w"
    | (waited) "n \<noteq> 0" "w_tick w' = w_tick w + 2" "w_slept w' = w_slept w"
    | (again) u where "n \<noteq> 0" "r2 = Inr u" "retry_loop n b' (run_tx pre trg f) w2 = (r, w')"
    using Suc.prems f wt w2 fr by (auto simp: incExhausted_def b'_def split: sum.splits if_splits)
  then show ?case
  proof cases
    case stop
    then show ?thesis by (auto intro: exI [of _ 0])
  next
    case waited
    then show ?thesis by (cases n) (auto intro: exI [of _ 0])
  next
    case again
    from Suc.IH [OF again(3)] obtain k where "w_tick w' \<le> w_tick w2 + (2 * n - 1)"
      "w_slept w' = w_slept w2 @ take k (backoffs (n - 1) b')" by blast
    moreover obtain m where "n = Suc m" using again(1) by (cases n) auto
    ultimately show ?thesis
      using w2 again(2) by (auto simp: b'_def intro!: exI [of _ "Suc k"])
  qed
qed

section \<open>Successful and repeated posts\<close>

lemma resolveAccounts_known:
  "(\<And>e. e \<in> set es \<Longrightarrow> find_account (ei_account_code e) d \<noteq> None) \<Longrightarrow>
   \<exists>accs'. resolveAccounts accs es ev d = Inr (accs', d)"
proof (induction es arbitrary: accs)
  case (Cons e es)
  then obtain a where "find_account (ei_account_code e) d = Some a" by fastforce
  then show ?case using Cons by (simp add: GetAccountByCode_def)
qed simp

lemma InsertTransaction_taken:
  assumes "find_tx_by_key k d = Some u" "it_idempotency_key p = Some k"
    and "char3 (it_currency p) \<noteq> None" "check_tx_type (it_type p)" "check_tx_status (it_status p)"
  shows "InsertTransaction n p ev d = Inl (pg_error sql_unique_violation)"
proof -
  have "u \<in> set (transactions d)" "t_idempotency_key u = Some k"
    using find_Some_mem [OF assms(1) [unfolded find_tx_by_key_def]] by simp_all
  then have clash: "list_ex (tx_clash t) (transactions d)" if "t_idempotency_key t = Some k" for t
    using that unfolding list_ex_iff tx_clash_def by (metis option.distinct(1))
  show ?thesis
    using assms(2-5) by (auto simp: InsertTransaction_def insert_tx_row_def clash)
qed

text \<open>A request that passes every check of the service and of the columns.\<close>

definition postable :: "post_request \<Rightarrow> db \<Rightarrow> bool" where
  "postable req d \<longleftrightarrow> validate req = None
     \<and> (\<forall>e \<in> set (pr_entries req). find_account (ei_account_code e) d \<noteq> None)
     \<and> char3 (ei_currency (hd (pr_entries req))) \<noteq> None
     \<and> check_tx_type (pr_type req) \<and> check_tx_status (it_status (post_params req))"

lemma post_body_duplicate:
  assumes "postable req d" "find_tx_by_key (pr_idempotency_key req) d = Some u" "pr_idempotency_key req \<noteq> []"
  shows "post_body req ev d = Inl (Wrap ''insert transaction: '' (pg_error sql_unique_violation) [])"
proof -
  obtain accs where "resolveAccounts [] (pr_entries req) ev d = Inr (accs, d)"
    using resolveAccounts_known [of "pr_entries req" d "[]" ev] assms(1) unfolding postable_def by blast
  moreover have "InsertTransaction 0 (post_params req) ev d = Inl (pg_error sql_unique_violation)"
    using assms by (intro InsertTransaction_taken) (auto simp: postable_def post_params_def)
  ultimately show ?thesis by (simp add: post_body_def)
qed

lemma PostTransaction_repost_ok:
  assumes p: "postable req (w_db w)" and k: "find_tx_by_key (pr_idempotency_key req) (w_db w) = Some u"
    and ne: "pr_idempotency_key req \<noteq> []"
    and nf: "e_fault (w_env w (w_tick w)) = NoFault" "e_fault (w_env w (Suc (w_tick w))) = NoFault"
  shows "PostTransaction req w = (Inr (t_id u), w\<lparr>w_tick := w_tick w + 2\<rparr>)"
proof -
  let ?e = "Wrap ''insert transaction: '' (pg_error sql_unique_violation) []"
  have uv: "isUniqueViolation ?e" "\<not> isSerializationFailure ?e"
    by (simp_all add: isUniqueViolation_def isSerializationFailure_def go_const)
  have "run_tx ''begin serializable tx: '' commit_triggers (post_body req) w = (Inl ?e, w\<lparr>w_tick := Suc (w_tick w)\<rparr>)"
    by (subst run_tx_outcome [OF tx_outcome_no_fault(2)]) (use nf(1) post_body_duplicate [OF p k ne] in auto)
  then have "retryOnSerialization maxSerializationRetries (WithSerializableTx (post_body req)) w
      = (Inl ?e, w\<lparr>w_tick := Suc (w_tick w)\<rparr>)"
    using uv by (simp add: retryOnSerialization_def maxSerializationRetries_def WithSerializableTx_def numeral_eq_Suc)
  moreover have "run_stmt (GetTransactionByIdempotencyKey (Some (pr_idempotency_key req))) (w\<lparr>w_tick := Suc (w_tick w)\<rparr>)
      = (Inr u, w\<lparr>w_tick := w_tick w + 2\<rparr>)"
    unfolding run_stmt_def using nf(2) k
    by (subst run_tx_no_fault) (auto simp: GetTransactionByIdempotencyKey_def no_triggers_def)
  ultimately show ?thesis
    using p ne uv by (simp add: PostTransaction_def postable_def)
qed

lemma PostTransaction_ok:
  assumes "validate req = None" "tx_outcome ''begin serializable tx: '' commit_triggers (post_body req) (w_env w (w_tick w)) (w_db w) = (Inr i, d)"
  shows "PostTransaction req w = (Inr i, w\<lparr>w_tick := Suc (w_tick w), w_db := d\<rparr>)"
  using assms
  by (simp add: PostTransaction_def retryOnSerialization_def maxSerializationRetries_def WithSerializableTx_def
      numeral_eq_Suc run_tx_outcome)

end
