(* ===== verification/LedgerBalance.thy ===== *)
theory LedgerBalance
  imports LedgerProps
begin

text \<open>
  What a successful posting leaves for later calls (its key finds it again), the exact balance of an
  account, and the conservation laws of a journal that satisfies the invariant.
\<close>

section \<open>A posting whose acknowledgement is lost\<close>

lemma post_body_key:
  assumes "post_body req ev d = Inr (i, d')" and inv: "ledger_inv d" and ne: "pr_idempotency_key req \<noteq> []"
  obtains u where "find_tx_by_key (pr_idempotency_key req) d' = Some u" "t_id u = i"
proof -
  obtain t accs added where p: "posting req i d d' t accs added"
    using post_body_Inr [OF assms(1) ledger_invD(1,6) [OF inv]] .
  have key: "t_idempotency_key t = Some (pr_idempotency_key req)"
    using postingD(11) [OF p] ne by (simp add: post_params_def)
  have "find_tx_by_key (pr_idempotency_key req) d = None"
    using taken_key_clash [OF _ key] postingD(6) [OF p] by (cases "find_tx_by_key (pr_idempotency_key req) d") auto
  then have "find_tx_by_key (pr_idempotency_key req) d' = Some t"
    using key by (simp add: find_tx_by_key_def postingD(2) [OF p] find_append)
  then show thesis using that postingD(5) [OF p] by blast
qed

lemma post_body_postable:
  assumes "validate req = None" and "post_body req ev d = Inr (i, d')"
  shows "postable req d"
proof -
  from assms(2) obtain accs d1 t d2 where
    r: "resolveAccounts [] (pr_entries req) ev d = Inr (accs, d1)" and
    t: "InsertTransaction 0 (post_params req) ev d1 = Inr (t, d2)"
    by (auto simp: post_body_def split: sum.splits prod.splits)
  have nil: "resolved d []" by (simp add: resolved_def)
  have "find_account (ei_account_code e) d \<noteq> None" if "e \<in> set (pr_entries req)" for e
    using resolveAccounts_unknown [OF that _ nil, of ev] r by auto
  then show ?thesis
    using InsertTransaction_Inr(3-10,12,13) [OF t] assms(1) by (auto simp: postable_def post_params_def)
qed

lemma postable_extends:
  "postable req d \<Longrightarrow> accounts d' = accounts d \<Longrightarrow> postable req d'"
  by (simp add: postable_def find_account_def)

section \<open>Balances\<close>

lemma GetAccount_Inr:
  assumes "GetAccount c w = (Inr a, w')"
  shows "find_account c (w_db w) = Some a" "w_db w' = w_db w"
proof -
  from assms have g: "run_stmt (GetAccountByCode c) w = (Inr a, w')"
    by (auto simp: GetAccount_def split: sum.splits prod.splits if_splits)
  then show "find_account c (w_db w) = Some a" "w_db w' = w_db w"
    unfolding run_stmt_def by (auto elim!: run_tx_cases simp: GetAccountByCode_Inr)
qed

lemma GetBalance_exact:
  assumes "GetBalance c w = (Inr b, w')" and inv: "ledger_inv (w_db w)"
  shows "\<exists>a. find_account c (w_db w) = Some a \<and> sint b = journal_balance (w_db w) a \<and> w_db w' = w_db w"
proof -
  from assms(1) obtain a w1 dm cm where a: "GetAccount c w = (Inr a, w1)"
    and s: "run_stmt (SumEntriesByAccount (a_id a)) w1 = (Inr (dm, cm), w')" and b: "b = DeriveBalance (a_type a) dm cm"
    by (auto simp: GetBalance_def split: sum.splits prod.splits)
  note a' = GetAccount_Inr [OF a]
  from s have sum: "SumEntriesByAccount (a_id a) (w_env w1 (w_tick w1)) (w_db w) = Inr ((dm, cm), w_db w')"
    unfolding run_stmt_def using a'(2) by (auto elim!: run_tx_cases)
  note s' = SumEntriesByAccount_Inr [OF sum]
  have "0 \<le> sint dm" "0 \<le> sint cm"
    using s'(2,3) dir_sum_account_nonneg [OF ledger_invD(6) [OF inv]] by simp_all
  then have "sint b = journal_balance (w_db w) a"
    by (simp add: b DeriveBalance_exact journal_balance_def s'(2,3))
  then show ?thesis using a'(1) s'(1) by blast
qed

section \<open>Conservation\<close>

lemma journal_conservation:
  assumes "journal_balanced d"
  shows "dir_sum Debit (entries d) = dir_sum Credit (entries d)"
proof -
  let ?T = "e_transaction_id ` set (entries d)"
  have split: "dir_sum x (entries d) = (\<Sum>t \<in> ?T. dir_sum x (tx_entries t (entries d)))" for x
    unfolding tx_entries_def by (rule dir_sum_by) auto
  have "dir_sum Debit (tx_entries t (entries d)) = dir_sum Credit (tx_entries t (entries d))" if "t \<in> ?T" for t
    using assms that by (auto simp: journal_balanced_def intro!: currency_balanced_total)
  then show ?thesis by (simp add: split)
qed

text \<open>The trial balance: debit-normal accounts count positively, credit-normal ones negatively.\<close>

definition trial_balance :: "db \<Rightarrow> int" where
  "trial_balance d =
     sum_list (map (\<lambda>a. if IsDebitNormal (a_type a) then journal_balance d a else - journal_balance d a) (accounts d))"

lemma trial_balance_zero:
  assumes inv: "ledger_inv d"
  shows "trial_balance d = 0"
proof -
  let ?A = "a_id ` set (accounts d)"
  have dist: "distinct (map a_id (accounts d))" using ledger_invD(1) [OF inv] by (simp add: accounts_wf_def)
  have sub: "e_account_id ` set (entries d) \<subseteq> ?A" using ledger_invD(3) [OF inv] by (auto simp: entry_wf_def)
  have split: "dir_sum x (entries d) = (\<Sum>i \<in> ?A. dir_sum x (account_entries i (entries d)))" for x
    unfolding account_entries_def by (rule dir_sum_by [OF _ sub]) simp
  have "trial_balance d = sum_list (map (\<lambda>i. dir_sum Debit (account_entries i (entries d))
      - dir_sum Credit (account_entries i (entries d))) (map a_id (accounts d)))"
    unfolding trial_balance_def map_map
    by (rule arg_cong [where f = sum_list], rule map_cong) (auto simp: journal_balance_def signed_balance_def)
  also have "\<dots> = (\<Sum>i \<in> ?A. dir_sum Debit (account_entries i (entries d))
      - dir_sum Credit (account_entries i (entries d)))"
    using sum_list_distinct_conv_sum_set [OF dist] by simp
  also have "\<dots> = 0"
    using journal_conservation [OF ledger_invD(4) [OF inv]] by (simp add: sum_subtractf split)
  finally show ?thesis .
qed

end
