(* ===== verification/LedgerGrpc.thy ===== *)
theory LedgerGrpc
  imports LedgerProps
begin

text \<open>
  The ledger's read side and its gRPC surface: \<open>internal/ledger/query.go\<close> (the canonical export)
  and \<open>internal/ledger/grpc.go\<close> (message conversion, error mapping). The generated message types
  appear as records with the fields the code reads and writes.
\<close>

section \<open>query.go: the canonical export\<close>

definition json_to_string :: "json \<Rightarrow> string option" where
  "json_to_string j = (case j of JStr s \<Rightarrow> Some s | JNull \<Rightarrow> Some [] | _ \<Rightarrow> None)"

fun unmarshal_strings :: "jsonb \<Rightarrow> (string \<times> string) list option" where
  "unmarshal_strings [] = Some []"
| "unmarshal_strings ((k, j) # m) =
     (case json_to_string j of
        None \<Rightarrow> None
      | Some s \<Rightarrow> (case unmarshal_strings m of None \<Rightarrow> None | Some r \<Rightarrow> Some ((k, s) # r)))"

definition unmarshalMetadata :: "jsonb \<Rightarrow> err + (string \<times> string) list" where
  "unmarshalMetadata b =
     (case unmarshal_strings b of
        Some m \<Rightarrow> Inr m
      | None \<Rightarrow> Inl (Wrap ''unmarshal metadata: '' (ErrMsg ''json: cannot unmarshal value into Go value of type string'') []))"

text \<open>The closure \<open>resolveCode\<close> with its memo table \<open>codes\<close>.\<close>

definition resolveCode :: "(uuid \<times> string) list \<Rightarrow> uuid \<Rightarrow> ((uuid \<times> string) list \<times> string) act" where
  "resolveCode codes i w =
     (case map_of codes i of
        Some c \<Rightarrow> (Inr (codes, c), w)
      | None \<Rightarrow>
          (case run_stmt (GetAccountByID i) w of
             (Inl e, w1) \<Rightarrow> (Inl (Wrap (''resolve account '' @ uuid_String (w_codec w) i @ '': '') e []), w1)
           | (Inr acct, w1) \<Rightarrow> (Inr ((i, a_code acct) # codes, a_code acct), w1)))"

record export_acc =
  x_codes :: "(uuid \<times> string) list"
  x_amount :: i64
  x_source :: string
  x_destination :: string

fun export_entries :: "export_acc \<Rightarrow> entry list \<Rightarrow> export_acc act" where
  "export_entries x [] w = (Inr x, w)"
| "export_entries x (e # es) w =
     (case resolveCode (x_codes x) (e_account_id e) w of
        (Inl er, w1) \<Rightarrow> (Inl er, w1)
      | (Inr (codes, code), w1) \<Rightarrow>
          export_entries
            (if e_direction e = Debit
             then x\<lparr>x_codes := codes, x_amount := x_amount x + e_amount_minor e,
                    x_destination := (if x_destination x = [] then code else x_destination x)\<rparr>
             else if x_source x = [] then x\<lparr>x_codes := codes, x_source := code\<rparr>
             else x\<lparr>x_codes := codes\<rparr>) es w1)"

definition export_record :: "uuid_codec \<Rightarrow> tx_row \<Rightarrow> export_acc \<Rightarrow> (string \<times> string) list \<Rightarrow> canonical_record" where
  "export_record c tx x meta =
     \<lparr>r_transaction_id = uuid_String c (t_id tx), r_reference = t_reference tx,
      r_source = x_source x, r_destination = x_destination x, r_amount = FromMinor (x_amount x),
      r_currency = t_currency tx, r_type = t_type tx, r_status = t_status tx,
      r_initiated_at = t_initiated_at tx, r_settled_at = t_settled_at tx, r_metadata = meta\<rparr>"

definition export_one :: "(uuid \<times> string) list \<Rightarrow> tx_row \<Rightarrow> ((uuid \<times> string) list \<times> canonical_record) act" where
  "export_one codes tx w =
     (case run_stmt (ListEntriesByTransaction (t_id tx)) w of
        (Inl e, w1) \<Rightarrow> (Inl (Wrap (''list entries for '' @ uuid_String (w_codec w) (t_id tx) @ '': '') e []), w1)
      | (Inr es, w1) \<Rightarrow>
          (case export_entries \<lparr>x_codes = codes, x_amount = 0, x_source = [], x_destination = []\<rparr> es w1 of
             (Inl e, w2) \<Rightarrow> (Inl e, w2)
           | (Inr x, w2) \<Rightarrow>
               (case unmarshalMetadata (t_metadata tx) of
                  Inl e \<Rightarrow> (Inl e, w2)
                | Inr meta \<Rightarrow> (Inr (x_codes x, export_record (w_codec w) tx x meta), w2))))"

fun export_all :: "(uuid \<times> string) list \<Rightarrow> tx_row list \<Rightarrow> canonical_record list act" where
  "export_all codes [] w = (Inr [], w)"
| "export_all codes (tx # txs) w =
     (case export_one codes tx w of
        (Inl e, w1) \<Rightarrow> (Inl e, w1)
      | (Inr (codes', r), w1) \<Rightarrow>
          (case export_all codes' txs w1 of (Inl e, w2) \<Rightarrow> (Inl e, w2) | (Inr rs, w2) \<Rightarrow> (Inr (r # rs), w2)))"

definition ExportTransactions :: "time \<Rightarrow> time \<Rightarrow> canonical_record list act" where
  "ExportTransactions from to w =
     (case run_stmt (ListTransactionsByWindow from to) w of
        (Inl e, w1) \<Rightarrow> (Inl (Wrap ''list transactions: '' e []), w1)
      | (Inr txns, w1) \<Rightarrow> export_all [] txns w1)"

section \<open>grpc.go: messages\<close>

datatype proto_direction = DIRECTION_UNSPECIFIED | DIRECTION_DEBIT | DIRECTION_CREDIT

record proto_entry_input =
  pe_account_code :: string
  pe_direction :: proto_direction
  pe_amount_minor :: i64
  pe_currency :: string

record proto_post_request =
  pp_reference :: string
  pp_type :: string
  pp_status :: string
  pp_entries :: "proto_entry_input list"
  pp_metadata :: "(string \<times> string) list"
  pp_idempotency_key :: string
  pp_parent_transaction_id :: string

record proto_balance =
  pb_account_code :: string
  pb_balance_minor :: i64
  pb_currency :: string

record proto_account =
  pa_id :: string
  pa_code :: string
  pa_name :: string
  pa_type :: string
  pa_currency :: string
  pa_created_at :: time

record proto_entry =
  pn_id :: string
  pn_transaction_id :: string
  pn_account_id :: string
  pn_direction :: proto_direction
  pn_amount_minor :: i64
  pn_currency :: string
  pn_created_at :: time

record proto_record =
  px_transaction_id :: string
  px_reference :: string
  px_source :: string
  px_destination :: string
  px_amount_minor :: i64
  px_currency :: string
  px_type :: string
  px_status :: string
  px_initiated_at :: time
  px_settled_at :: "time option"
  px_metadata :: "(string \<times> string) list"

fun directionFromProto :: "proto_direction \<Rightarrow> string" where
  "directionFromProto DIRECTION_DEBIT = Debit"
| "directionFromProto DIRECTION_CREDIT = Credit"
| "directionFromProto DIRECTION_UNSPECIFIED = []"

definition directionToProto :: "string \<Rightarrow> proto_direction" where
  "directionToProto d = (if d = Debit then DIRECTION_DEBIT else if d = Credit then DIRECTION_CREDIT
     else DIRECTION_UNSPECIFIED)"

definition accountToProto :: "uuid_codec \<Rightarrow> account \<Rightarrow> proto_account" where
  "accountToProto c a =
     \<lparr>pa_id = uuid_String c (a_id a), pa_code = a_code a, pa_name = a_name a, pa_type = a_type a,
      pa_currency = a_currency a, pa_created_at = a_created_at a\<rparr>"

definition entryToProto :: "uuid_codec \<Rightarrow> entry \<Rightarrow> proto_entry" where
  "entryToProto c e =
     \<lparr>pn_id = uuid_String c (e_id e), pn_transaction_id = uuid_String c (e_transaction_id e),
      pn_account_id = uuid_String c (e_account_id e), pn_direction = directionToProto (e_direction e),
      pn_amount_minor = e_amount_minor e, pn_currency = e_currency e, pn_created_at = e_created_at e\<rparr>"

definition canonicalToProto :: "canonical_record \<Rightarrow> proto_record" where
  "canonicalToProto r =
     \<lparr>px_transaction_id = r_transaction_id r, px_reference = r_reference r, px_source = r_source r,
      px_destination = r_destination r, px_amount_minor = Minor (r_amount r), px_currency = r_currency r,
      px_type = r_type r, px_status = r_status r, px_initiated_at = r_initiated_at r,
      px_settled_at = r_settled_at r, px_metadata = r_metadata r\<rparr>"

section \<open>grpc.go: error mapping\<close>

definition postErrToStatus :: "err \<Rightarrow> err" where
  "postErrToStatus e =
     (if errors_is e ErrUnknownAccount then GrpcStatus GrpcNotFound (err_text e)
      else if errors_is e ErrTooFewEntries \<or> errors_is e ErrUnbalanced \<or> errors_is e ErrMixedCurrency
        \<or> errors_is e ErrNonPositiveEntry then GrpcStatus GrpcInvalidArgument (err_text e)
      else if errors_is e ErrSerializationExhausted then GrpcStatus GrpcUnavailable (err_text e)
      else GrpcStatus GrpcInternal (err_text e))"

definition lookupErrToStatus :: "err \<Rightarrow> err" where
  "lookupErrToStatus e =
     (if errors_is e ErrUnknownAccount then GrpcStatus GrpcNotFound (err_text e)
      else GrpcStatus GrpcInternal (err_text e))"

section \<open>grpc.go: handlers\<close>

definition entry_from_proto :: "proto_entry_input \<Rightarrow> entry_input" where
  "entry_from_proto e =
     \<lparr>ei_account_code = pe_account_code e, ei_direction = directionFromProto (pe_direction e),
      ei_amount = FromMinor (pe_amount_minor e), ei_currency = pe_currency e\<rparr>"

definition post_from_proto :: "proto_post_request \<Rightarrow> uuid option \<Rightarrow> post_request" where
  "post_from_proto req parent =
     \<lparr>pr_reference = pp_reference req, pr_type = pp_type req, pr_status = pp_status req,
      pr_entries = map entry_from_proto (pp_entries req), pr_metadata = pp_metadata req,
      pr_idempotency_key = pp_idempotency_key req, pr_parent = parent\<rparr>"

definition grpc_Ping :: "bool act" where
  "grpc_Ping w = (Inr True, w)"

definition grpc_PostTransaction :: "proto_post_request \<Rightarrow> string act" where
  "grpc_PostTransaction req w =
     (let post = (\<lambda>parent. case PostTransaction (post_from_proto req parent) w of
            (Inl e, w1) \<Rightarrow> (Inl (postErrToStatus e), w1)
          | (Inr i, w1) \<Rightarrow> (Inr (uuid_String (w_codec w) i), w1))
      in if pp_parent_transaction_id req = [] then post None
         else (case uuid_Parse (w_codec w) (pp_parent_transaction_id req) of
             None \<Rightarrow> (Inl (GrpcStatus GrpcInvalidArgument ''invalid parent_transaction_id''), w)
           | Some p \<Rightarrow> post (Some p)))"

definition grpc_GetBalance :: "string \<Rightarrow> proto_balance act" where
  "grpc_GetBalance code w =
     (case GetAccount code w of
        (Inl e, w1) \<Rightarrow> (Inl (lookupErrToStatus e), w1)
      | (Inr acct, w1) \<Rightarrow>
          (case GetBalance code w1 of
             (Inl e, w2) \<Rightarrow> (Inl (lookupErrToStatus e), w2)
           | (Inr bal, w2) \<Rightarrow>
               (Inr \<lparr>pb_account_code = a_code acct, pb_balance_minor = Minor bal, pb_currency = a_currency acct\<rparr>, w2)))"

definition grpc_GetAccount :: "string \<Rightarrow> proto_account act" where
  "grpc_GetAccount code w =
     (case GetAccount code w of
        (Inl e, w1) \<Rightarrow> (Inl (lookupErrToStatus e), w1)
      | (Inr acct, w1) \<Rightarrow> (Inr (accountToProto (w_codec w) acct), w1))"

definition grpc_ListEntries :: "string \<Rightarrow> proto_entry list act" where
  "grpc_ListEntries tid w =
     (case uuid_Parse (w_codec w) tid of
        None \<Rightarrow> (Inl (GrpcStatus GrpcInvalidArgument ''invalid transaction_id''), w)
      | Some i \<Rightarrow>
          (case ListEntries i w of
             (Inl e, w1) \<Rightarrow> (Inl (GrpcStatus GrpcInternal (''list entries: '' @ err_text e)), w1)
           | (Inr es, w1) \<Rightarrow> (Inr (map (entryToProto (w_codec w)) es), w1)))"

text \<open>The stream: each \<open>Send\<close> may fail, which ends the call; the records sent so far stay sent.\<close>

fun send_records :: "canonical_record list \<Rightarrow> world \<Rightarrow> proto_record list \<times> err option \<times> world" where
  "send_records [] w = ([], None, w)"
| "send_records (r # rs) w =
     (case take_env w of (ev, w1) \<Rightarrow>
        (case e_rpc ev of
           RpcOk \<Rightarrow> (case send_records rs w1 of (ps, e, w2) \<Rightarrow> (canonicalToProto r # ps, e, w2))
         | RpcLostRequest c m \<Rightarrow> ([], Some (GrpcStatus c m), w1)
         | RpcLostReply c m \<Rightarrow> ([canonicalToProto r], Some (GrpcStatus c m), w1)))"

definition grpc_ExportTransactions :: "time option \<Rightarrow> time option \<Rightarrow> world \<Rightarrow> proto_record list \<times> err option \<times> world" where
  "grpc_ExportTransactions from to w =
     (case take_env w of (ev, w0) \<Rightarrow>
       (case ExportTransactions (case from of None \<Rightarrow> zero_time | Some t \<Rightarrow> t)
               (case to of None \<Rightarrow> e_now ev | Some t \<Rightarrow> t) w0 of
          (Inl e, w1) \<Rightarrow> ([], Some (GrpcStatus GrpcInternal (''export transactions: '' @ err_text e)), w1)
        | (Inr rs, w1) \<Rightarrow> send_records rs w1))"

section \<open>The export\<close>

text \<open>The code of an entry's account, and the first one that is not empty on a side of the entries.\<close>

definition entry_code :: "db \<Rightarrow> entry \<Rightarrow> string" where
  "entry_code d e = (case List.find (\<lambda>a. a_id a = e_account_id e) (accounts d) of Some a \<Rightarrow> a_code a | None \<Rightarrow> [])"

definition side_code :: "db \<Rightarrow> (entry \<Rightarrow> bool) \<Rightarrow> entry list \<Rightarrow> string" where
  "side_code d side es = (case filter (\<lambda>c. c \<noteq> []) (map (entry_code d) (filter side es)) of [] \<Rightarrow> [] | c # _ \<Rightarrow> c)"

lemma side_code_simps [simp]:
  "side_code d side [] = []"
  "side_code d side (e # es) = (if side e \<and> entry_code d e \<noteq> [] then entry_code d e else side_code d side es)"
  by (simp_all add: side_code_def)

definition codes_ok :: "db \<Rightarrow> (uuid \<times> string) list \<Rightarrow> bool" where
  "codes_ok d codes \<longleftrightarrow> (\<forall>(j, k) \<in> set codes. \<exists>a. List.find (\<lambda>a. a_id a = j) (accounts d) = Some a \<and> a_code a = k)"

lemma codes_okD:
  "codes_ok d codes \<Longrightarrow> map_of codes j = Some k \<Longrightarrow> \<exists>a. List.find (\<lambda>a. a_id a = j) (accounts d) = Some a \<and> a_code a = k"
  by (drule map_of_SomeD) (auto simp: codes_ok_def)

lemma run_read_Inr:
  assumes "run_stmt f w = (Inr a, w')" and "tx_reads f"
  shows "w_db w' = w_db w" "w_codec w' = w_codec w" "\<exists>ev. f ev (w_db w) = Inr (a, w_db w)"
proof -
  show db: "w_db w' = w_db w" by (rule run_stmt_reads [OF assms(2,1)])
  show "w_codec w' = w_codec w" using assms(1) unfolding run_stmt_def by (rule run_tx_frame)
  have "\<exists>ev. f ev (w_db w) = Inr (a, w_db w')"
    using assms(1) unfolding run_stmt_def by (auto elim!: run_tx_cases)
  then show "\<exists>ev. f ev (w_db w) = Inr (a, w_db w)" by (simp add: db)
qed

lemma resolveCode_Inr:
  assumes r: "resolveCode codes i w = (Inr (codes', c), w')" and ok: "codes_ok (w_db w) codes"
  shows "w_db w' = w_db w \<and> w_codec w' = w_codec w \<and> codes_ok (w_db w) codes'
    \<and> (\<exists>a. List.find (\<lambda>a. a_id a = i) (accounts (w_db w)) = Some a \<and> a_code a = c)"
proof (cases "map_of codes i")
  case (Some k)
  then show ?thesis using r ok codes_okD [OF ok Some] by (simp add: resolveCode_def)
next
  case None
  obtain q w1 where g: "run_stmt (GetAccountByID i) w = (q, w1)" by force
  with r None obtain acct where q: "q = Inr acct" by (cases q) (auto simp: resolveCode_def)
  then have c: "codes' = (i, a_code acct) # codes" "c = a_code acct" "w' = w1"
    using r None g by (auto simp: resolveCode_def)
  note rd = run_read_Inr [OF g [unfolded q] reads(3)]
  have "List.find (\<lambda>a. a_id a = i) (accounts (w_db w)) = Some acct"
    using rd(3) by (auto simp: GetAccountByID_def split: option.splits)
  then show ?thesis using rd(1,2) ok c by (auto simp: codes_ok_def)
qed

abbreviation is_debit :: "entry \<Rightarrow> bool" where
  "is_debit e \<equiv> e_direction e = Debit"

lemma export_entries_Inr:
  "export_entries x es w = (Inr y, w') \<Longrightarrow> codes_ok (w_db w) (x_codes x) \<Longrightarrow>
   w_db w' = w_db w \<and> w_codec w' = w_codec w \<and> codes_ok (w_db w) (x_codes y)
   \<and> x_amount y = x_amount x + word_of_int (dir_sum Debit es)
   \<and> x_destination y = (if x_destination x = [] then side_code (w_db w) is_debit es else x_destination x)
   \<and> x_source y = (if x_source x = [] then side_code (w_db w) (\<lambda>e. \<not> is_debit e) es else x_source x)"
proof (induction es arbitrary: x w)
  case (Cons e es)
  obtain q w1 where rc: "resolveCode (x_codes x) (e_account_id e) w = (q, w1)" by force
  with Cons.prems(1) obtain codes c where q: "q = Inr (codes, c)"
    by (cases q) (auto split: prod.splits)
  define x1 where "x1 = (if is_debit e
             then x\<lparr>x_codes := codes, x_amount := x_amount x + e_amount_minor e,
                    x_destination := (if x_destination x = [] then c else x_destination x)\<rparr>
             else if x_source x = [] then x\<lparr>x_codes := codes, x_source := c\<rparr>
             else x\<lparr>x_codes := codes\<rparr>)"
  have rest: "export_entries x1 es w1 = (Inr y, w')"
    using Cons.prems(1) rc q by (simp add: x1_def)
  note r = resolveCode_Inr [OF rc [unfolded q] Cons.prems(2)]
  have code: "entry_code (w_db w) e = c" using r by (auto simp: entry_code_def)
  have x1: "x_codes x1 = codes" "x_amount x1 = x_amount x + word_of_int (if is_debit e then entry_amount e else 0)"
    "x_destination x1 = (if is_debit e \<and> x_destination x = [] then c else x_destination x)"
    "x_source x1 = (if \<not> is_debit e \<and> x_source x = [] then c else x_source x)"
    by (auto simp: x1_def entry_amount_def)
  have "x_amount x1 + word_of_int (dir_sum Debit es) = x_amount x + word_of_int (dir_sum Debit (e # es))"
    by (simp add: x1(2) add.assoc)
  moreover have "codes_ok (w_db w1) (x_codes x1)" using r x1(1) by simp
  note ih = Cons.IH [OF rest this]
  moreover have db: "w_db w1 = w_db w" "w_codec w1 = w_codec w" using r by simp_all
  moreover have "x_destination y = (if x_destination x = [] then side_code (w_db w) is_debit (e # es) else x_destination x)"
    using ih unfolding db x1(3) by (simp add: code)
  moreover have "x_source y = (if x_source x = [] then side_code (w_db w) (\<lambda>e. \<not> is_debit e) (e # es) else x_source x)"
    using ih unfolding db x1(4) by (simp add: code)
  ultimately show ?case by metis
qed (simp add: codes_ok_def)

text \<open>What an exported record says of its transaction.\<close>

definition exports :: "uuid_codec \<Rightarrow> db \<Rightarrow> tx_row \<Rightarrow> canonical_record \<Rightarrow> bool" where
  "exports c d t r \<longleftrightarrow>
     r_transaction_id r = uuid_String c (t_id t) \<and> r_reference r = t_reference t \<and> r_type r = t_type t
     \<and> r_status r = t_status t \<and> r_currency r = t_currency t \<and> r_initiated_at r = t_initiated_at t
     \<and> r_settled_at r = t_settled_at t \<and> unmarshalMetadata (t_metadata t) = Inr (r_metadata r)
     \<and> r_amount r = word_of_int (dir_sum Debit (tx_entries (t_id t) (entries d)))
     \<and> r_destination r = side_code d is_debit (order_entries (tx_entries (t_id t) (entries d)))
     \<and> r_source r = side_code d (\<lambda>e. \<not> is_debit e) (order_entries (tx_entries (t_id t) (entries d)))"

lemma dir_sum_order [simp]: "dir_sum x (order_entries es) = dir_sum x es"
proof -
  have "mset (map entry_amount (filter P (order_entries es))) = mset (map entry_amount (filter P es))" for P
    by (simp add: mset_filter)
  then show ?thesis unfolding dir_sum_def by (metis sum_mset_sum_list)
qed

lemma export_one_Inr:
  assumes r: "export_one codes tx w = (Inr (codes', r), w')" and ok: "codes_ok (w_db w) codes"
  shows "w_db w' = w_db w \<and> w_codec w' = w_codec w \<and> codes_ok (w_db w) codes' \<and> exports (w_codec w) (w_db w) tx r"
proof -
  obtain q w1 where g: "run_stmt (ListEntriesByTransaction (t_id tx)) w = (q, w1)" by force
  with r obtain es where q: "q = Inr es" by (cases q) (auto simp: export_one_def)
  note rd = run_read_Inr [OF g [unfolded q] reads(5)]
  have es: "es = order_entries (tx_entries (t_id tx) (entries (w_db w)))"
    using rd(3) by (auto simp: ListEntriesByTransaction_def)
  obtain q2 w2 where x: "export_entries \<lparr>x_codes = codes, x_amount = 0, x_source = [], x_destination = []\<rparr> es w1 = (q2, w2)"
    by force
  with r g q obtain y meta where y: "q2 = Inr y" "unmarshalMetadata (t_metadata tx) = Inr meta"
    "codes' = x_codes y" "r = export_record (w_codec w) tx y meta" "w' = w2"
    by (auto simp: export_one_def rd(2) split: sum.splits)
  show ?thesis
    using export_entries_Inr [OF x [unfolded y(1)]] rd(1,2) ok es y
    by (auto simp: exports_def export_record_def)
qed

lemma export_all_Inr:
  "export_all codes txs w = (Inr rs, w') \<Longrightarrow> codes_ok (w_db w) codes \<Longrightarrow>
   w_db w' = w_db w \<and> list_all2 (exports (w_codec w) (w_db w)) txs rs"
proof (induction txs arbitrary: codes w rs)
  case (Cons tx txs)
  obtain q w1 where o: "export_one codes tx w = (q, w1)" by force
  with Cons.prems(1) obtain codes1 r where q: "q = Inr (codes1, r)" by (cases q) auto
  obtain q2 w2 where a: "export_all codes1 txs w1 = (q2, w2)" by force
  with Cons.prems(1) o q obtain rs1 where rs: "q2 = Inr rs1" "rs = r # rs1" "w2 = w'" by (cases q2) auto
  note e = export_one_Inr [OF o [unfolded q] Cons.prems(2)]
  show ?case using Cons.IH [OF a [unfolded rs(1,3)]] e rs by auto
qed simp

lemma ExportTransactions_Inr:
  assumes "ExportTransactions from to w = (Inr rs, w')"
  shows "\<exists>txs. list_all2 (exports (w_codec w) (w_db w)) txs rs \<and> w_db w' = w_db w
    \<and> mset txs = filter_mset (\<lambda>t. from \<le> t_initiated_at t \<and> t_initiated_at t < to) (mset (transactions (w_db w)))
    \<and> sorted (map t_initiated_at txs)"
proof -
  obtain q w1 where g: "run_stmt (ListTransactionsByWindow from to) w = (q, w1)" by force
  with assms obtain txs where q: "q = Inr txs" by (cases q) (auto simp: ExportTransactions_def)
  note rd = run_read_Inr [OF g [unfolded q] reads(6)]
  have "export_all [] txs w1 = (Inr rs, w')" using assms g q by (simp add: ExportTransactions_def)
  from export_all_Inr [OF this] rd(1,2) have "w_db w' = w_db w" "list_all2 (exports (w_codec w) (w_db w)) txs rs"
    by (auto simp: codes_ok_def)
  moreover have "txs = sort_key t_initiated_at (sort_key t_id
      (filter (\<lambda>t. from \<le> t_initiated_at t \<and> t_initiated_at t < to) (transactions (w_db w))))"
    using rd(3) by (auto simp: ListTransactionsByWindow_def)
  ultimately show ?thesis by (intro exI [of _ txs]) simp
qed

text \<open>A metadata object with a value that is neither text nor null makes the whole export fail.\<close>

lemma unmarshal_strings_None_iff: "unmarshal_strings m = None \<longleftrightarrow> (\<exists>(k, j) \<in> set m. json_to_string j = None)"
  by (induction m) (auto split: option.splits)

lemma unmarshal_marshal: "unmarshalMetadata (marshalMetadata m) = Inr m"
proof -
  have "unmarshal_strings (marshalMetadata m) = Some m"
    by (induction m) (auto simp: marshalMetadata_def json_to_string_def)
  then show ?thesis by (simp add: unmarshalMetadata_def)
qed

lemma export_one_bad_metadata:
  assumes "unmarshal_strings (t_metadata tx) = None"
  shows "\<exists>e w'. export_one codes tx w = (Inl e, w')"
  using assms by (auto simp: export_one_def unmarshalMetadata_def split: sum.splits prod.splits)

lemma export_all_bad_metadata:
  "tx \<in> set txs \<Longrightarrow> unmarshal_strings (t_metadata tx) = None \<Longrightarrow> \<exists>e w'. export_all codes txs w = (Inl e, w')"
proof (induction txs arbitrary: codes w)
  case (Cons u txs)
  show ?case
  proof (cases "u = tx")
    case True
    then show ?thesis using export_one_bad_metadata [OF Cons.prems(2), of codes w] by auto
  next
    case False
    then have mem: "tx \<in> set txs" using Cons.prems(1) by simp
    show ?thesis
    proof (cases "export_one codes u w")
      case (Pair q w1)
      show ?thesis
      proof (cases q)
        case (Inr p)
        obtain codes1 r where p: "p = (codes1, r)" by force
        obtain e w2 where "export_all codes1 txs w1 = (Inl e, w2)"
          using Cons.IH [OF mem Cons.prems(2), of codes1 w1] by blast
        then show ?thesis using Pair Inr p by simp
      qed (use Pair in simp)
    qed
  qed
qed simp

end
