(* ===== verification/LedgerPost.thy ===== *)
theory LedgerPost
  imports LedgerBalance LedgerGrpc
begin

text \<open>
  One keyed post as its caller sees it, whatever faults it meets: either nothing is written, or
  exactly one posting; a reported id is the one that holds the key; which errors are possible when
  the accounts are known.
\<close>

section \<open>At most one posting\<close>

definition posts_once :: "post_request \<Rightarrow> db \<Rightarrow> db \<Rightarrow> bool" where
  "posts_once req d d' \<longleftrightarrow>
     (ledger_inv d \<longrightarrow> ledger_inv d' \<and> (d' = d \<or> (\<exists>i t accs added. posting req i d d' t accs added)))"

lemma posting_twice:
  assumes "posting req i d d1 t accs added" "posting req j d1 d2 u accs' added'" "pr_idempotency_key req \<noteq> []"
  shows False
proof -
  have "t_idempotency_key t = t_idempotency_key u" "t_idempotency_key t \<noteq> None"
    using postingD(11) [OF assms(1)] postingD(11) [OF assms(2)] assms(3) by (simp_all add: post_params_def)
  moreover have "\<not> tx_clash u t"
    using postingD(6) [OF assms(2)] postingD(2) [OF assms(1)] by (simp add: list_all_iff)
  ultimately show False by (simp add: tx_clash_def)
qed

lemma posts_once_refl: "posts_once req d d"
  by (simp add: posts_once_def)

lemma posts_once_trans:
  "pr_idempotency_key req \<noteq> [] \<Longrightarrow> posts_once req a b \<Longrightarrow> posts_once req b c \<Longrightarrow> posts_once req a c"
  unfolding posts_once_def using posting_twice by metis

lemma post_tx_once: "act_step (posts_once req) (WithSerializableTx (post_body req))"
  unfolding act_step_def WithSerializableTx_def
proof (intro allI impI)
  fix w r w'
  assume "run_tx ''begin serializable tx: '' commit_triggers (post_body req) w = (r, w')"
  then show "posts_once req (w_db w) (w_db w')"
  proof (cases rule: run_tx_cases)
    case (committed i d)
    show ?thesis unfolding posts_once_def
    proof
      assume inv: "ledger_inv (w_db w)"
      from post_body_Inr [OF committed(1) ledger_invD(1,6) [OF inv]]
      obtain t accs added where p: "posting req i (w_db w) d t accs added" .
      show "ledger_inv (w_db w') \<and> (w_db w' = w_db w \<or> (\<exists>i t accs added. posting req i (w_db w) (w_db w') t accs added))"
        using p posting_ledger_inv [OF p inv committed(2)] committed(3) by blast
    qed
  qed (simp add: posts_once_refl)
qed

lemma PostTransaction_db:
  assumes "act_step R (WithSerializableTx (post_body req))" "\<And>d. R d d" "\<And>a b c. R a b \<Longrightarrow> R b c \<Longrightarrow> R a c"
  shows "act_step R (PostTransaction req)"
  unfolding act_step_def
proof (intro allI impI)
  fix w r w'
  assume run: "PostTransaction req w = (r, w')"
  obtain r1 w1 where f: "retryOnSerialization maxSerializationRetries (WithSerializableTx (post_body req)) w = (r1, w1)"
    by force
  have s1: "R (w_db w) (w_db w1)" using act_stepD [OF retry_step [OF assms] f] .
  obtain r2 w2 where g: "run_stmt (GetTransactionByIdempotencyKey (Some (pr_idempotency_key req))) w1 = (r2, w2)"
    by force
  have "w_db w2 = w_db w1" by (rule run_stmt_reads [OF _ g]) simp
  then show "R (w_db w) (w_db w')"
    using run f g s1 assms(2) by (auto simp: PostTransaction_def split: option.splits sum.splits if_splits)
qed

lemma PostTransaction_once: "pr_idempotency_key req \<noteq> [] \<Longrightarrow> act_step (posts_once req) (PostTransaction req)"
  by (rule PostTransaction_db [OF post_tx_once posts_once_refl posts_once_trans])

section \<open>The environment and the codec stay\<close>

definition act_frame :: "'a act \<Rightarrow> bool" where
  "act_frame m \<longleftrightarrow> (\<forall>w r w'. m w = (r, w') \<longrightarrow> w_env w' = w_env w \<and> w_codec w' = w_codec w)"

lemma act_frameD: "act_frame m \<Longrightarrow> m w = (r, w') \<Longrightarrow> w_env w' = w_env w \<and> w_codec w' = w_codec w"
  by (simp add: act_frame_def)

lemma act_frame_run_tx [intro, simp]: "act_frame (run_tx pre trg f)" "act_frame (run_stmt g)"
  by (auto simp: act_frame_def run_stmt_def dest: run_tx_frame)

lemma backoff_wait_frame: "act_frame (backoff_wait b)"
  by (auto simp: act_frame_def backoff_wait_def take_env_def split: if_splits)

lemma retry_loop_frame: "act_frame fn \<Longrightarrow> act_frame (retry_loop n b fn)"
proof (induction n arbitrary: b)
  case 0
  then show ?case by (auto simp: act_frame_def incExhausted_def)
next
  case (Suc n)
  show ?case unfolding act_frame_def
  proof (intro allI impI)
    fix w r w'
    assume run: "retry_loop (Suc n) b fn w = (r, w')"
    obtain r1 w1 where f: "fn w = (r1, w1)" by force
    obtain r2 w2 where g: "backoff_wait b (incRetry w1) = (r2, w2)" by force
    have w1: "w_env w1 = w_env w \<and> w_codec w1 = w_codec w" using act_frameD [OF Suc.prems f] .
    have w2: "w_env w2 = w_env w \<and> w_codec w2 = w_codec w"
      using act_frameD [OF backoff_wait_frame g] w1 by (simp add: incRetry_def)
    have "w_env w' = w_env w \<and> w_codec w' = w_codec w" if "retry_loop n b' fn w2 = (r, w')" for b'
      using act_frameD [OF Suc.IH [OF Suc.prems] that] w2 by simp
    then show "w_env w' = w_env w \<and> w_codec w' = w_codec w"
      using run f g w1 w2 by (auto simp: incExhausted_def split: sum.splits if_splits)
  qed
qed

lemma PostTransaction_frame: "act_frame (PostTransaction req)"
  unfolding act_frame_def
proof (intro allI impI)
  fix w r w'
  assume run: "PostTransaction req w = (r, w')"
  obtain r1 w1 where f: "retryOnSerialization maxSerializationRetries (WithSerializableTx (post_body req)) w = (r1, w1)"
    by force
  have "act_frame (retryOnSerialization maxSerializationRetries (WithSerializableTx (post_body req)))"
    unfolding retryOnSerialization_def WithSerializableTx_def by (intro retry_loop_frame) simp
  then have w1: "w_env w1 = w_env w \<and> w_codec w1 = w_codec w" using f by (rule act_frameD)
  obtain r2 w2 where g: "run_stmt (GetTransactionByIdempotencyKey (Some (pr_idempotency_key req))) w1 = (r2, w2)"
    by force
  have "w_env w2 = w_env w1 \<and> w_codec w2 = w_codec w1" by (rule act_frameD [OF act_frame_run_tx(2) g])
  then show "w_env w' = w_env w \<and> w_codec w' = w_codec w"
    using run f g w1 by (auto simp: PostTransaction_def split: option.splits sum.splits if_splits)
qed

section \<open>Success names the holder of the key\<close>

lemma PostTransaction_Inr:
  assumes run: "PostTransaction req w = (Inr i, w')" and inv: "ledger_inv (w_db w)"
    and ne: "pr_idempotency_key req \<noteq> []"
  shows "\<exists>u. find_tx_by_key (pr_idempotency_key req) (w_db w') = Some u \<and> t_id u = i"
proof -
  have v: "validate req = None" using run by (auto simp: PostTransaction_def split: option.splits)
  obtain r1 w1 where f: "retryOnSerialization maxSerializationRetries (WithSerializableTx (post_body req)) w = (r1, w1)"
    by force
  show ?thesis
  proof (cases r1)
    case (Inr j)
    have same: "j = i" "w1 = w'" using run v f Inr by (auto simp: PostTransaction_def)
    have "\<exists>w0. ledger_step (w_db w) (w_db w0) \<and> WithSerializableTx (post_body req) w0 = (Inr j, w1)"
      by (rule retry_loop_Inr_step [OF post_tx_step _ _ f [unfolded retryOnSerialization_def Inr]])
        (rule ledger_step_refl, erule (1) ledger_step_trans)
    then obtain w0 where w0: "ledger_step (w_db w) (w_db w0)" "WithSerializableTx (post_body req) w0 = (Inr j, w1)"
      by blast
    have inv0: "ledger_inv (w_db w0)" using w0(1) inv by (simp add: ledger_step_def)
    from w0(2) have "post_body req (w_env w0 (w_tick w0)) (w_db w0) = Inr (j, w_db w1)"
      unfolding WithSerializableTx_def by (auto elim!: run_tx_cases)
    from post_body_key [OF this inv0 ne] show ?thesis using same by metis
  next
    case (Inl e)
    obtain r2 w2 where g: "run_stmt (GetTransactionByIdempotencyKey (Some (pr_idempotency_key req))) w1 = (r2, w2)"
      by force
    obtain u where u: "r2 = Inr u" "i = t_id u" "w' = w2"
      using run v f g Inl by (auto simp: PostTransaction_def split: sum.splits if_splits)
    from run_read_Inr [OF g [unfolded u(1)] reads(1)] show ?thesis
      using u by (auto simp: GetTransactionByIdempotencyKey_def split: option.splits)
  qed
qed

section \<open>Errors when every account is known\<close>

definition transient :: "err \<Rightarrow> bool" where
  "transient e \<longleftrightarrow> (\<forall>s. errors_is e s \<longrightarrow> s = ErrSerializationExhausted)"

lemma transient_simps [simp]:
  "transient (Wrap a e b) \<longleftrightarrow> transient e" "transient (pg_error c)" "transient (Infra i)"
  "transient (Sentinel s) \<longleftrightarrow> s = ErrSerializationExhausted"
  "transient (Join e f) \<longleftrightarrow> transient e \<and> transient f"
  by (auto simp: transient_def pg_error_def)

definition codes_known :: "post_request \<Rightarrow> db \<Rightarrow> bool" where
  "codes_known req d \<longleftrightarrow> (\<forall>e \<in> set (pr_entries req). find_account (ei_account_code e) d \<noteq> None)"

lemma post_body_transient:
  assumes "codes_known req d" and "post_body req ev d = Inl e"
  shows "transient e"
proof -
  have it: "InsertTransaction n p ev d = Inl e \<Longrightarrow> transient e" for n p d e
    by (auto simp: InsertTransaction_def insert_tx_row_def split: option.splits if_splits)
  have ie: "insert_entries n t accs es ev d = Inl e \<Longrightarrow> transient e" for n t accs es d e
    by (induction n t accs es ev d rule: insert_entries.induct)
      (auto simp: InsertEntry_def Let_def split: sum.splits option.splits if_splits)
  have ub: "updateCachedBalances accs ev d = Inl e \<Longrightarrow> transient e" for accs d e
    by (induction accs ev d rule: updateCachedBalances.induct)
      (auto simp: SumEntriesByAccount_def UpsertCachedBalance_def cast_bigint_def split: sum.splits option.splits if_splits)
  obtain accs where "resolveAccounts [] (pr_entries req) ev d = Inr (accs, d)"
    using resolveAccounts_known [of "pr_entries req" d "[]" ev] assms(1) unfolding codes_known_def by blast
  then show ?thesis
    using assms(2) it ie ub by (fastforce simp: post_body_def split: sum.splits prod.splits)
qed

lemma run_post_transient:
  assumes "codes_known req (w_db w)" and "WithSerializableTx (post_body req) w = (Inl e, w')"
  shows "transient e"
  using assms(2) post_body_transient [OF assms(1)] unfolding WithSerializableTx_def
  by (auto simp: run_tx_def take_env_def commit_triggers_def
      split: tx_fault.splits sum.splits option.splits prod.splits if_splits)

lemma retry_loop_transient:
  assumes fn: "\<And>w e w'. K (w_db w) \<Longrightarrow> fn w = (Inl e, w') \<Longrightarrow> transient e"
    and step: "act_step (\<lambda>d d'. K d \<longrightarrow> K d') fn"
  shows "K (w_db w) \<Longrightarrow> retry_loop n b fn w = (Inl e, w') \<Longrightarrow> transient e"
proof (induction n arbitrary: b w)
  case (Suc n)
  obtain r1 w1 where f: "fn w = (r1, w1)" by force
  obtain r2 w2 where g: "backoff_wait b (incRetry w1) = (r2, w2)" by force
  have "w_db w2 = w_db w1" using backoff_wait_db [OF g] by (simp add: incRetry_def)
  then have K2: "K (w_db w2)" using act_stepD [OF step f] Suc.prems(1) by simp
  have c: "r2 = Inl x \<Longrightarrow> transient x" for x
    using g by (auto simp: backoff_wait_def take_env_def split: if_splits)
  have t: "r1 = Inl x \<Longrightarrow> transient x" for x using fn [OF Suc.prems(1)] f by simp
  show ?case using Suc.prems(2) f g c t Suc.IH [OF K2] by (auto split: sum.splits if_splits)
qed auto

lemma codes_known_step: "act_step (\<lambda>d d'. ledger_inv d \<and> codes_known req d \<longrightarrow> ledger_inv d' \<and> codes_known req d')
  (WithSerializableTx (post_body req))"
proof -
  have "ledger_step d d' \<Longrightarrow> ledger_inv d \<and> codes_known req d \<longrightarrow> ledger_inv d' \<and> codes_known req d'" for d d'
    by (simp add: ledger_step_def codes_known_def db_extends_def find_account_def)
  then show ?thesis using post_tx_step unfolding act_step_def by blast
qed

lemma PostTransaction_transient:
  assumes run: "PostTransaction req w = (Inl e, w')" and v: "validate req = None"
    and inv: "ledger_inv (w_db w)" and known: "codes_known req (w_db w)"
  shows "transient e"
proof -
  let ?K = "\<lambda>d. ledger_inv d \<and> codes_known req d"
  obtain r1 w1 where f: "retryOnSerialization maxSerializationRetries (WithSerializableTx (post_body req)) w = (r1, w1)"
    by force
  have t: "transient x" if "r1 = Inl x" for x
    by (rule retry_loop_transient [where K = ?K, OF _ codes_known_step _ f [unfolded retryOnSerialization_def that]])
      (use inv known run_post_transient in auto)
  then show ?thesis
    using run f v by (auto simp: PostTransaction_def split: sum.splits prod.splits if_splits)
qed

lemma postErrToStatus_transient:
  "transient e \<Longrightarrow> errors_as_grpc (postErrToStatus e) \<in> {Some GrpcUnavailable, Some GrpcInternal}"
  by (auto simp: transient_def postErrToStatus_def)

section \<open>Refused posts\<close>

lemma postErrToStatus_validation:
  "validate req = Some e \<Longrightarrow> errors_as_grpc (postErrToStatus e) = Some GrpcInvalidArgument"
  by (drule validate_errors) (auto simp: postErrToStatus_def)

lemma post_body_unknown:
  assumes "e \<in> set (pr_entries req)" "find_account (ei_account_code e) d = None"
  shows "\<exists>er. post_body req ev d = Inl er \<and> errors_is er ErrUnknownAccount \<and> errors_as_pg er = None"
proof -
  have "resolved d []" by (simp add: resolved_def)
  from resolveAccounts_unknown [OF assms this] obtain er where er: "resolveAccounts [] (pr_entries req) ev d = Inl er"
    by blast
  then show ?thesis using resolveAccounts_Inl [OF er] by (simp add: post_body_def)
qed

lemma PostTransaction_unknown:
  assumes v: "validate req = None" and m: "e \<in> set (pr_entries req)" "find_account (ei_account_code e) (w_db w) = None"
    and nf: "e_fault (w_env w (w_tick w)) = NoFault"
  shows "\<exists>er. PostTransaction req w = (Inl er, w\<lparr>w_tick := Suc (w_tick w)\<rparr>) \<and> errors_is er ErrUnknownAccount"
proof -
  obtain er where er: "post_body req (w_env w (w_tick w)) (w_db w) = Inl er" "errors_is er ErrUnknownAccount"
    "errors_as_pg er = None"
    using post_body_unknown [OF m] by blast
  have "run_tx ''begin serializable tx: '' commit_triggers (post_body req) w = (Inl er, w\<lparr>w_tick := Suc (w_tick w)\<rparr>)"
    by (subst run_tx_outcome [OF tx_outcome_no_fault(2)]) (use nf er in auto)
  then show ?thesis
    using v er(2,3)
    by (simp add: PostTransaction_def retryOnSerialization_def maxSerializationRetries_def WithSerializableTx_def
        numeral_eq_Suc isSerializationFailure_def isUniqueViolation_def)
qed

end
