(* ===== verification/Demo.thy ===== *)
theory Demo
  imports World Strconv
begin

text \<open>
  Concrete worlds and rows, the inputs the closed instances of the properties are evaluated at: three
  accounts, an environment without faults whose draws of \<open>gen_random_uuid()\<close> and whose clock grow
  with the number of calls, and a decimal codec for identifiers.
\<close>

definition demo_parse :: "string \<Rightarrow> nat" where
  "demo_parse s = foldl (\<lambda>n c. n * 10 + digit_val c) 0 s"

definition demo_codec :: uuid_codec where
  "demo_codec = \<lparr>uuid_String = dec_nat,  uuid_Parse = (\<lambda>s. Some (demo_parse s))\<rparr>"

lemma demo_parse_dec_nat: "demo_parse (dec_nat n) = n"
proof (induction n rule: dec_nat.induct)
  case (1 n)
  show ?case
  proof (cases "n < 10")
    case True
    then show ?thesis by (simp add: dec_nat_small demo_parse_def)
  next
    case False
    then have "demo_parse (dec_nat (n div 10)) = n div 10" using 1 by simp
    moreover have "n div 10 * 10 + n mod 10 = n" by presburger
    ultimately show ?thesis using False by (simp add: dec_nat_big demo_parse_def)
  qed
qed

lemma demo_codec_ok: "codec_ok demo_codec"
  by (simp add: codec_ok_def demo_codec_def demo_parse_dec_nat)

definition calm :: "nat \<Rightarrow> env" where
  "calm t = \<lparr>e_fault = NoFault, e_uuid = (\<lambda>n. 1000 * (t + 1) + n), e_now = int t, e_ctx_done = False,
     e_rpc = RpcOk, e_rail = (\<lambda>_. Inr RAIL_STATUS_SUCCESS)\<rparr>"

definition demo_account :: "uuid \<Rightarrow> string \<Rightarrow> string \<Rightarrow> account" where
  "demo_account i code ty =
     \<lparr>a_id = i, a_code = code, a_name = code, a_type = ty, a_currency = ''NGN'', a_created_at = 0\<rparr>"

definition demo_db :: db where
  "demo_db = \<lparr>accounts = [demo_account 1 ''SETTLEMENT'' ''liability'', demo_account 2 ''CUST:A'' ''liability'',
                demo_account 3 ''CUST:B'' ''liability''],
     transactions = [], entries = [], balances = (\<lambda>_. None), idem_keys = [], outbox = [], outbox_seq = 0\<rparr>"

definition zero_metrics :: metrics where
  "zero_metrics = \<lparr>m_retries = 0, m_exhausted = 0, m_outcomes = (\<lambda>_. 0), m_reversal_latency = [], m_dead_letters = 0\<rparr>"

definition world_of :: "db \<Rightarrow> (nat \<Rightarrow> env) \<Rightarrow> world" where
  "world_of d ev = \<lparr>w_db = d, w_env = ev, w_tick = 0, w_metrics = zero_metrics, w_slept = [], w_codec = demo_codec\<rparr>"

definition demo_world :: world where
  "demo_world = world_of demo_db calm"

end
