(* ===== verification/LedgerClaims.thy ===== *)
theory LedgerClaims
  imports LedgerPost LedgerBalance LedgerGrpc Demo
begin

text \<open>
  The properties of the ledger service, over its service and gRPC handlers, each with a closed
  instance at a concrete world.
\<close>

section \<open>Concrete requests\<close>

definition demo_req :: post_request where
  "demo_req = \<lparr>pr_reference = ''REF1'', pr_type = TypeTransfer, pr_status = StatusSettled,
     pr_entries = [\<lparr>ei_account_code = ''CUST:A'', ei_direction = Debit, ei_amount = 500, ei_currency = ''NGN''\<rparr>,
                   \<lparr>ei_account_code = ''SETTLEMENT'', ei_direction = Credit, ei_amount = 500, ei_currency = ''NGN''\<rparr>],
     pr_metadata = [(''leg'', ''debit'')], pr_idempotency_key = ''K1'', pr_parent = None\<rparr>"

lemma demo_ledger_inv: "ledger_inv demo_db"
  by (simp add: ledger_inv_def demo_db_def demo_account_def accounts_wf_def tx_unique_def journal_balanced_def
      cache_coherent_def account_entries_def)

section \<open>The journal invariant\<close>

text \<open>C19. Whatever a posting returns and whatever faults it meets (a failing begin, statement or
  commit, a commit whose acknowledgement is lost, retries, a crash in between), it keeps the journal
  invariant: unique ids, idempotency keys and reversals per parent, entries that are positive and
  name existing rows, every transaction balanced in every currency, every cached balance equal to
  the journal's.\<close>

theorem post_keeps_ledger_inv:
  assumes "ledger_inv (w_db w)"
  shows "ledger_inv (w_db (snd (PostTransaction req w)))"
  using act_stepD [OF PostTransaction_step surjective_pairing] assms by (auto simp: ledger_step_def)

lemma post_keeps_ledger_inv_witness:
  "ledger_inv (w_db (snd (PostTransaction demo_req demo_world)))"
  by (rule post_keeps_ledger_inv) (simp add: demo_world_def world_of_def demo_ledger_inv)

text \<open>The journal is append-only: a posting adds transactions and entries at the end and changes
  or removes none, under any faults.\<close>

theorem post_appends:
  assumes "ledger_inv (w_db w)"
  shows "prefix (entries (w_db w)) (entries (w_db (snd (PostTransaction req w))))
    \<and> prefix (transactions (w_db w)) (transactions (w_db (snd (PostTransaction req w))))
    \<and> accounts (w_db (snd (PostTransaction req w))) = accounts (w_db w)"
  using act_stepD [OF PostTransaction_step surjective_pairing] assms
  by (auto simp: ledger_step_def db_extends_def)

lemma post_appends_witness:
  "prefix (entries demo_db) (entries (w_db (snd (PostTransaction demo_req demo_world))))"
  using post_appends [of demo_world demo_req] by (simp add: demo_world_def world_of_def demo_ledger_inv)

text \<open>Conservation of value: in a database that satisfies the invariant, total debits equal total
  credits, and the trial balance over all accounts (debit-normal positive, credit-normal negative)
  is zero.\<close>

theorem ledger_conserves_value:
  assumes "ledger_inv d"
  shows "dir_sum Debit (entries d) = dir_sum Credit (entries d) \<and> trial_balance d = 0"
  using journal_conservation [OF ledger_invD(4) [OF assms]] trial_balance_zero [OF assms] by simp

lemma ledger_conserves_value_witness:
  "trial_balance (w_db (snd (PostTransaction demo_req demo_world))) = 0"
proof -
  have "ledger_inv (w_db demo_world)" by (simp add: demo_world_def world_of_def demo_ledger_inv)
  then have "ledger_inv (w_db (snd (PostTransaction demo_req demo_world)))"
    using act_stepD [OF PostTransaction_step surjective_pairing] by (auto simp: ledger_step_def)
  then show ?thesis using ledger_conserves_value by blast
qed

section \<open>Idempotency\<close>

text \<open>The demo posting, evaluated.\<close>

definition posted_db :: db where
  "posted_db = (case post_body demo_req (calm 0) demo_db of Inr (_, d) \<Rightarrow> d | Inl _ \<Rightarrow> demo_db)"

lemma demo_post_body: "post_body demo_req (calm 0) demo_db = Inr (1000, posted_db)"
proof -
  have "(case post_body demo_req (calm 0) demo_db of Inr (i, _) \<Rightarrow> i = 1000 | Inl _ \<Rightarrow> False)" by code_simp
  then show ?thesis by (auto simp: posted_db_def split: sum.splits)
qed

lemma demo_triggers: "commit_triggers demo_db posted_db = None"
  by code_simp

lemma demo_validate: "validate demo_req = None"
  by code_simp

lemma posted_db_ledger_inv: "ledger_inv posted_db"
  by (rule post_body_ledger_inv [OF demo_post_body demo_ledger_inv demo_triggers])

lemma posted_db_key: "find_tx_by_key ''K1'' posted_db \<noteq> None"
  by code_simp

text \<open>C20. Posting is idempotent in its key: while a transaction holds the key, a further post under it
  writes nothing at all, whatever faults it meets, and if it reports success it reports the id of the
  transaction that holds the key.\<close>

theorem post_idempotent:
  assumes "pr_idempotency_key req \<noteq> []" and "find_tx_by_key (pr_idempotency_key req) (w_db w) = Some t"
  shows "w_db (snd (PostTransaction req w)) = w_db w
    \<and> (\<forall>i. fst (PostTransaction req w) = Inr i \<longrightarrow> i = t_id t)"
  by (rule PostTransaction_taken [OF surjective_pairing assms(2,1)])

lemma post_idempotent_witness:
  "w_db (snd (PostTransaction demo_req (world_of posted_db calm))) = posted_db"
proof -
  obtain t where "find_tx_by_key ''K1'' posted_db = Some t" using posted_db_key by blast
  then show ?thesis
    using post_idempotent [of demo_req "world_of posted_db calm" t] by (simp add: demo_req_def world_of_def)
qed

text \<open>C21. A posting whose commit succeeded but whose acknowledgement was lost reports an error; posting
  the same keyed request again, without faults, answers with the id of the committed transaction and
  leaves the database as the first post made it.\<close>

theorem repost_after_lost_commit:
  assumes "ledger_inv (w_db w)" and "validate req = None" and "pr_idempotency_key req \<noteq> []"
    and "post_body req (w_env w (w_tick w)) (w_db w) = Inr (i, d)" and "commit_triggers (w_db w) d = None"
    and "e_fault (w_env w (w_tick w)) = LostCommit (ConnError m)"
    and "e_fault (w_env w (w_tick w + 1)) = NoFault" and "e_fault (w_env w (w_tick w + 2)) = NoFault"
  shows "\<exists>e w1 w2. PostTransaction req w = (Inl e, w1) \<and> w_db w1 = d
    \<and> PostTransaction req w1 = (Inr i, w2) \<and> w_db w2 = d"
proof -
  let ?e = "Wrap ''commit: '' (Infra (ConnError m)) []"
  define w1 where "w1 = w\<lparr>w_tick := Suc (w_tick w), w_db := d\<rparr>"
  have "tx_outcome ''begin serializable tx: '' commit_triggers (post_body req) (w_env w (w_tick w)) (w_db w) = (Inl ?e, d)"
    using assms(4-6) by (simp add: tx_outcome_def)
  then have first: "PostTransaction req w = (Inl ?e, w1)"
    using assms(2)
    by (simp add: PostTransaction_def retryOnSerialization_def maxSerializationRetries_def WithSerializableTx_def
        numeral_eq_Suc run_tx_outcome w1_def isSerializationFailure_def isUniqueViolation_def)
  obtain u where u: "find_tx_by_key (pr_idempotency_key req) d = Some u" "t_id u = i"
    using post_body_key [OF assms(4,1,3)] .
  have "accounts d = accounts (w_db w)"
    using post_body_Inr [OF assms(4) ledger_invD(1,6) [OF assms(1)]] postingD(1) by metis
  then have p: "postable req d" using postable_extends [OF post_body_postable [OF assms(2,4)]] by simp
  have "PostTransaction req w1 = (Inr (t_id u), w1\<lparr>w_tick := w_tick w1 + 2\<rparr>)"
    by (rule PostTransaction_repost_ok) (use p u assms(3,7,8) in \<open>simp_all add: w1_def\<close>)
  then show ?thesis using first u(2) by (auto simp: w1_def)
qed

definition lossy :: "nat \<Rightarrow> env" where
  "lossy t = (if t = 0 then (calm t)\<lparr>e_fault := LostCommit (ConnError ''reset'')\<rparr> else calm t)"

lemma lossy_simps [simp]:
  "lossy 0 = (calm 0)\<lparr>e_fault := LostCommit (ConnError ''reset'')\<rparr>" "e_fault (lossy (Suc n)) = NoFault"
  by (simp_all add: lossy_def calm_def)

lemma post_body_fault [simp]: "post_body req (ev\<lparr>e_fault := x\<rparr>) d = post_body req ev d"
proof -
  have ra: "resolveAccounts accs es (ev\<lparr>e_fault := x\<rparr>) d = resolveAccounts accs es ev d" for accs es d
    by (induction accs es ev d rule: resolveAccounts.induct) (auto simp: GetAccountByCode_def split: sum.splits option.splits)
  have it: "InsertTransaction n p (ev\<lparr>e_fault := x\<rparr>) d = InsertTransaction n p ev d" for n p d
    by (simp add: InsertTransaction_def insert_tx_row_def split: option.split)
  have ie: "insert_entries n t accs es (ev\<lparr>e_fault := x\<rparr>) d = insert_entries n t accs es ev d" for n t accs es d
    by (induction n t accs es ev d rule: insert_entries.induct) (auto simp: InsertEntry_def Let_def split: sum.splits option.splits)
  have ub: "updateCachedBalances accs (ev\<lparr>e_fault := x\<rparr>) d = updateCachedBalances accs ev d" for accs d
    by (induction accs ev d rule: updateCachedBalances.induct)
      (auto simp: SumEntriesByAccount_def UpsertCachedBalance_def split: sum.splits option.splits)
  show ?thesis by (simp add: post_body_def ra it ie ub split: sum.split prod.split)
qed

lemma repost_after_lost_commit_witness:
  "\<exists>e w1 w2. PostTransaction demo_req (world_of demo_db lossy) = (Inl e, w1) \<and> w_db w1 = posted_db
    \<and> PostTransaction demo_req w1 = (Inr 1000, w2) \<and> w_db w2 = posted_db"
proof (rule repost_after_lost_commit [where m = "''reset''"])
  show "pr_idempotency_key demo_req \<noteq> []" by (simp add: demo_req_def)
qed (use demo_ledger_inv demo_validate demo_post_body demo_triggers in
      \<open>simp_all add: world_of_def numeral_2_eq_2\<close>)


section \<open>Validation and errors\<close>

text \<open>Validation accepts exactly the requests with at least two entries, all in the currency of
  the first, all with a positive amount, whose debit and credit totals agree modulo 2^64 (the totals
  are summed in wrapping 64-bit arithmetic; the exact balance is the deferred trigger's).\<close>

theorem validate_exact:
  "validate req = None \<longleftrightarrow>
     2 \<le> length (pr_entries req)
     \<and> list_all (\<lambda>e. ei_currency e = ei_currency (hd (pr_entries req)) \<and> 0 < sint (ei_amount e)) (pr_entries req)
     \<and> input_sum Debit (pr_entries req) mod 2 ^ 64 = input_sum Credit (pr_entries req) mod 2 ^ 64"
  by (simp add: validate_None_iff list_all_iff)

text \<open>Errors at the gRPC surface: a request that fails validation is answered InvalidArgument
  without touching the world at all; a valid request that names an unknown account is answered
  NotFound with the database unchanged.\<close>

theorem grpc_post_errors:
  assumes "pp_parent_transaction_id req = []"
  shows "(\<forall>e. validate (post_from_proto req None) = Some e \<longrightarrow>
        (\<exists>s. grpc_PostTransaction req w = (Inl s, w) \<and> errors_as_grpc s = Some GrpcInvalidArgument))
    \<and> (validate (post_from_proto req None) = None \<longrightarrow> e_fault (w_env w (w_tick w)) = NoFault \<longrightarrow>
        (\<exists>x \<in> set (pp_entries req). find_account (pe_account_code x) (w_db w) = None) \<longrightarrow>
        (\<exists>s w'. grpc_PostTransaction req w = (Inl s, w') \<and> errors_as_grpc s = Some GrpcNotFound \<and> w_db w' = w_db w))"
proof (intro conjI allI impI)
  fix e
  assume e: "validate (post_from_proto req None) = Some e"
  then show "\<exists>s. grpc_PostTransaction req w = (Inl s, w) \<and> errors_as_grpc s = Some GrpcInvalidArgument"
    using postErrToStatus_validation [OF e] assms by (simp add: grpc_PostTransaction_def PostTransaction_def)
next
  assume v: "validate (post_from_proto req None) = None" and nf: "e_fault (w_env w (w_tick w)) = NoFault"
    and "\<exists>x \<in> set (pp_entries req). find_account (pe_account_code x) (w_db w) = None"
  then obtain x where x: "x \<in> set (pp_entries req)" "find_account (pe_account_code x) (w_db w) = None" by blast
  have "entry_from_proto x \<in> set (pr_entries (post_from_proto req None))"
    "find_account (ei_account_code (entry_from_proto x)) (w_db w) = None"
    using x by (simp_all add: post_from_proto_def entry_from_proto_def)
  from PostTransaction_unknown [OF v this nf] assms
  show "\<exists>s w'. grpc_PostTransaction req w = (Inl s, w') \<and> errors_as_grpc s = Some GrpcNotFound \<and> w_db w' = w_db w"
    by (auto simp: grpc_PostTransaction_def postErrToStatus_def)
qed

definition demo_proto :: "string \<Rightarrow> proto_post_request" where
  "demo_proto dest = \<lparr>pp_reference = ''REF1'', pp_type = TypeTransfer, pp_status = [],
     pp_entries = [\<lparr>pe_account_code = ''CUST:A'', pe_direction = DIRECTION_DEBIT, pe_amount_minor = 500, pe_currency = ''NGN''\<rparr>,
                   \<lparr>pe_account_code = dest, pe_direction = DIRECTION_CREDIT, pe_amount_minor = 500, pe_currency = ''NGN''\<rparr>],
     pp_metadata = [], pp_idempotency_key = [], pp_parent_transaction_id = []\<rparr>"

lemma demo_proto_validate: "validate (post_from_proto (demo_proto ''GHOST'') None) = None"
  by code_simp

lemma grpc_post_errors_witness:
  "\<exists>s w'. grpc_PostTransaction (demo_proto ''GHOST'') demo_world = (Inl s, w')
     \<and> errors_as_grpc s = Some GrpcNotFound \<and> w_db w' = demo_db"
proof -
  have "pp_parent_transaction_id (demo_proto ''GHOST'') = []" by (simp add: demo_proto_def)
  moreover have "\<exists>x \<in> set (pp_entries (demo_proto ''GHOST'')). find_account (pe_account_code x) demo_db = None"
    by (simp add: demo_proto_def demo_db_def demo_account_def find_account_def)
  moreover have "e_fault (calm 0) = NoFault" by (simp add: calm_def)
  ultimately show ?thesis
    using grpc_post_errors [of "demo_proto ''GHOST''" demo_world] demo_proto_validate
    by (simp add: demo_world_def world_of_def)
qed


section \<open>The retry loop\<close>

text \<open>An error of a posting try that carries an SQLSTATE carries no sentinel.\<close>

definition pg_or_sentinel :: "err \<Rightarrow> bool" where
  "pg_or_sentinel e \<longleftrightarrow> errors_as_pg e = None \<or> (\<forall>s. \<not> errors_is e s)"

lemma pg_or_sentinel_simps [simp]:
  "pg_or_sentinel (Wrap a e b) \<longleftrightarrow> pg_or_sentinel e" "pg_or_sentinel (pg_error c)" "pg_or_sentinel (Infra i)"
  by (simp_all add: pg_or_sentinel_def)

lemma post_body_pg: "post_body req ev d = Inl e \<Longrightarrow> pg_or_sentinel e"
proof -
  have it: "InsertTransaction n p ev d = Inl e \<Longrightarrow> pg_or_sentinel e" for n p d e
    by (auto simp: InsertTransaction_def insert_tx_row_def split: option.splits if_splits)
  have ie: "insert_entries n t accs es ev d = Inl e \<Longrightarrow> pg_or_sentinel e" for n t accs es d e
    by (induction n t accs es ev d rule: insert_entries.induct)
      (auto simp: InsertEntry_def Let_def split: sum.splits option.splits if_splits)
  have ub: "updateCachedBalances accs ev d = Inl e \<Longrightarrow> pg_or_sentinel e" for accs d e
    by (induction accs ev d rule: updateCachedBalances.induct)
      (auto simp: SumEntriesByAccount_def UpsertCachedBalance_def cast_bigint_def split: sum.splits option.splits if_splits)
  show "post_body req ev d = Inl e \<Longrightarrow> pg_or_sentinel e"
    by (auto simp: post_body_def pg_or_sentinel_def dest: resolveAccounts_Inl it [unfolded pg_or_sentinel_def]
        ie [unfolded pg_or_sentinel_def] ub [unfolded pg_or_sentinel_def] split: sum.splits prod.splits)
qed

lemma post_outcome_pg:
  assumes "fst (tx_outcome pre commit_triggers (post_body req) ev d) = Inl e"
  shows "errors_as_pg e = None \<or> (\<forall>s. \<not> errors_is e s)"
proof -
  have "pg_or_sentinel e"
    using assms post_body_pg [of req ev d]
    by (auto simp: tx_outcome_def commit_triggers_def split: tx_fault.splits sum.splits option.splits prod.splits if_splits)
  then show ?thesis by (simp add: pg_or_sentinel_def)
qed

text \<open>C24. When the first \<open>k < 5\<close> tries of a post abort with SQLSTATE 40001, no context ends during the
  waits and the next try succeeds, the post succeeds with that try's result, counts \<open>k\<close> retries and
  has waited the first \<open>k\<close> of 5, 10, 20 and 40 ms.\<close>

theorem post_retries_recover:
  assumes "validate req = None" and "k < 5"
    and "\<And>i. i < k \<Longrightarrow> conflicts (tx_outcome ''begin serializable tx: '' commit_triggers (post_body req)
           (w_env w (w_tick w + 2 * i)) (w_db w)) (w_db w)"
    and "\<And>i. i < k \<Longrightarrow> \<not> e_ctx_done (w_env w (w_tick w + 2 * i + 1))"
    and "tx_outcome ''begin serializable tx: '' commit_triggers (post_body req)
           (w_env w (w_tick w + 2 * k)) (w_db w) = (Inr t, d)"
  shows "PostTransaction req w = (Inr t, w\<lparr>w_db := d, w_tick := w_tick w + 2 * k + 1,
           w_slept := w_slept w @ take k [5000000, 10000000, 20000000, 40000000],
           w_metrics := (w_metrics w)\<lparr>m_retries := m_retries (w_metrics w) + k\<rparr>\<rparr>)"
proof -
  have "k \<in> {0, 1, 2, 3, 4}" using assms(2) by auto
  then have b: "backoffs k retryBaseBackoff = take k [5000000, 10000000, 20000000, 40000000]"
    by (auto simp: retryBaseBackoff_def retryMaxBackoff_def numeral_eq_Suc)
  show ?thesis
    using retry_loop_recovers [OF assms(2) assms(3,4,5), of retryBaseBackoff] assms(1)
    by (simp add: PostTransaction_def retryOnSerialization_def WithSerializableTx_def maxSerializationRetries_def
        retried_def b)
qed

definition contended :: "nat \<Rightarrow> nat \<Rightarrow> env" where
  "contended n t = (if t < n then (calm 0)\<lparr>e_fault := FailExec (PgError sql_serialization_failure ''conflict'')\<rparr> else calm 0)"

lemma contended_outcome:
  "t < n \<Longrightarrow> conflicts (tx_outcome pre trg f (contended n t) d) d"
  "n \<le> t \<Longrightarrow> contended n t = calm 0"
  "\<not> e_ctx_done (contended n t)" "e_fault (calm 0) = NoFault"
  by (auto simp: contended_def tx_outcome_def conflicts_def isSerializationFailure_def calm_def)

lemma post_retries_recover_witness:
  "m_retries (w_metrics (snd (PostTransaction demo_req (world_of demo_db (contended 6))))) = 3
   \<and> fst (PostTransaction demo_req (world_of demo_db (contended 6))) = Inr 1000"
proof -
  let ?w = "world_of demo_db (contended 6)"
  have "PostTransaction demo_req ?w = (Inr 1000, ?w\<lparr>w_db := posted_db, w_tick := w_tick ?w + 2 * 3 + 1,
           w_slept := w_slept ?w @ take 3 [5000000, 10000000, 20000000, 40000000],
           w_metrics := (w_metrics ?w)\<lparr>m_retries := m_retries (w_metrics ?w) + 3\<rparr>\<rparr>)"
    by (rule post_retries_recover)
      (simp_all add: demo_validate world_of_def contended_outcome tx_outcome_no_fault demo_post_body demo_triggers)
  then show ?thesis by (simp add: world_of_def zero_metrics_def)
qed

text \<open>When all five tries abort with SQLSTATE 40001, the post fails with
  \<open>ErrSerializationExhausted\<close> (which the gRPC surface reports as Unavailable), the database is
  unchanged, four retries and one exhaustion are counted.\<close>

theorem post_retries_exhausted:
  assumes "validate req = None"
    and "\<And>i. i < 5 \<Longrightarrow> conflicts (tx_outcome ''begin serializable tx: '' commit_triggers (post_body req)
           (w_env w (w_tick w + 2 * i)) (w_db w)) (w_db w)"
    and "\<And>i. i < 4 \<Longrightarrow> \<not> e_ctx_done (w_env w (w_tick w + 2 * i + 1))"
  shows "\<exists>e w'. PostTransaction req w = (Inl (Join (Sentinel ErrSerializationExhausted) e), w')
    \<and> w_db w' = w_db w \<and> w_slept w' = w_slept w @ [5000000, 10000000, 20000000, 40000000]
    \<and> m_retries (w_metrics w') = m_retries (w_metrics w) + 4
    \<and> m_exhausted (w_metrics w') = m_exhausted (w_metrics w) + 1
    \<and> errors_as_grpc (postErrToStatus (Join (Sentinel ErrSerializationExhausted) e)) = Some GrpcUnavailable"
proof -
  let ?o = "\<lambda>i. tx_outcome ''begin serializable tx: '' commit_triggers (post_body req) (w_env w (w_tick w + 2 * i)) (w_db w)"
  have "\<exists>e w'. retry_loop 5 retryBaseBackoff (run_tx ''begin serializable tx: '' commit_triggers (post_body req)) w
      = (Inl (Join (Sentinel ErrSerializationExhausted) e), w')
    \<and> fst (?o (5 - 1)) = Inl e \<and> isSerializationFailure e
    \<and> w_db w' = w_db w \<and> w_slept w' = w_slept w @ backoffs (5 - 1) retryBaseBackoff
    \<and> w_tick w' = w_tick w + (2 * 5 - 1)
    \<and> m_retries (w_metrics w') = m_retries (w_metrics w) + (5 - 1)
    \<and> m_exhausted (w_metrics w') = Suc (m_exhausted (w_metrics w))"
    by (rule retry_loop_exhausts) (use assms in auto)
  then obtain e w' where r: "retry_loop 5 retryBaseBackoff (run_tx ''begin serializable tx: '' commit_triggers (post_body req)) w
      = (Inl (Join (Sentinel ErrSerializationExhausted) e), w')"
    and last: "fst (?o 4) = Inl e" "isSerializationFailure e"
    and w': "w_db w' = w_db w" "w_slept w' = w_slept w @ backoffs 4 retryBaseBackoff"
      "m_retries (w_metrics w') = m_retries (w_metrics w) + 4" "m_exhausted (w_metrics w') = m_exhausted (w_metrics w) + 1"
    by auto
  have ns: "\<not> errors_is e s" for s
    using post_outcome_pg [OF last(1)] last(2) by (auto simp: isSerializationFailure_def)
  have "backoffs 4 retryBaseBackoff = [5000000, 10000000, 20000000, 40000000]"
    by (simp add: retryBaseBackoff_def retryMaxBackoff_def numeral_eq_Suc)
  then show ?thesis
    using assms(1) r w' last(2) ns
    by (simp add: PostTransaction_def retryOnSerialization_def WithSerializableTx_def maxSerializationRetries_def
        postErrToStatus_def isUniqueViolation_def isSerializationFailure_def go_const)
qed

lemma post_retries_exhausted_witness:
  "m_exhausted (w_metrics (snd (PostTransaction demo_req (world_of demo_db (contended 9))))) = 1"
proof -
  let ?w = "world_of demo_db (contended 9)"
  have "\<exists>e w'. PostTransaction demo_req ?w = (Inl (Join (Sentinel ErrSerializationExhausted) e), w')
    \<and> w_db w' = w_db ?w \<and> w_slept w' = w_slept ?w @ [5000000, 10000000, 20000000, 40000000]
    \<and> m_retries (w_metrics w') = m_retries (w_metrics ?w) + 4
    \<and> m_exhausted (w_metrics w') = m_exhausted (w_metrics ?w) + 1
    \<and> errors_as_grpc (postErrToStatus (Join (Sentinel ErrSerializationExhausted) e)) = Some GrpcUnavailable"
    by (rule post_retries_exhausted) (simp_all add: demo_validate world_of_def contended_outcome)
  then show ?thesis by (auto simp: world_of_def zero_metrics_def)
qed


section \<open>Balances and the export\<close>

text \<open>C23. A balance read is exact: whatever faults it meets, when \<open>GetBalance\<close> answers, its 64-bit
  value is the integer balance of the journal (signed by the account's normal side), with no
  overflow, and the read writes nothing.\<close>

theorem GetBalance_is_journal_balance:
  assumes "GetBalance code w = (Inr b, w')" and "ledger_inv (w_db w)"
  shows "\<exists>a. find_account code (w_db w) = Some a \<and> sint b = journal_balance (w_db w) a \<and> w_db w' = w_db w"
  by (rule GetBalance_exact [OF assms])

lemma demo_balance: "fst (GetBalance ''CUST:A'' (world_of posted_db calm)) = Inr (- 500)"
  by code_simp

lemma GetBalance_is_journal_balance_witness:
  "\<exists>a. find_account ''CUST:A'' posted_db = Some a \<and> journal_balance posted_db a = - 500"
proof -
  let ?w = "world_of posted_db calm"
  obtain w' where "GetBalance ''CUST:A'' ?w = (Inr (- 500), w')"
    using demo_balance by (metis prod.collapse)
  moreover have "ledger_inv (w_db ?w)" by (simp add: world_of_def posted_db_ledger_inv)
  moreover have "sint (- 500 :: i64) = - 500" by simp
  ultimately show ?thesis
    using GetBalance_is_journal_balance [of "''CUST:A''" ?w "- 500" w'] by (auto simp: world_of_def)
qed

text \<open>Both sides of what a posting adds to an account.\<close>

definition input_on :: "string \<Rightarrow> string \<Rightarrow> post_request \<Rightarrow> int" where
  "input_on code side req = input_sum side (filter (\<lambda>e. ei_account_code e = code) (pr_entries req))"

lemma posting_account_sums:
  assumes p: "posting req i d d' t accs added" and wf: "accounts_wf d" and a: "find_account code d = Some a"
  shows "dir_sum x (account_entries (a_id a) added) = input_on code x req" and "dir_sum x added = input_sum x (pr_entries req)"
proof -
  have res: "resolved d accs" and known: "\<forall>e \<in> set (pr_entries req). map_of accs (ei_account_code e) \<noteq> None"
    and l: "list_all2 (entry_posts i accs) (pr_entries req) added" using p by (auto simp: posting_def)
  have same: "account_id_of accs k = a_id a \<longleftrightarrow> k = code" if k: "map_of accs k \<noteq> None" for k
  proof -
    obtain b where b: "map_of accs k = Some b" using k by blast
    have fb: "find_account k d = Some b" using map_of_SomeD [OF b] res by (auto simp: resolved_def)
    have "a_id b = a_id a \<longleftrightarrow> k = code"
    proof
      assume "a_id b = a_id a"
      then have "b = a" using account_by_id [OF wf] find_account_mem [OF fb] find_account_mem [OF a] by blast
      then show "k = code" using find_account_mem [OF fb] find_account_mem [OF a] by simp
    qed (use fb a in auto)
    then show ?thesis using b by (simp add: account_id_of_def)
  qed
  show "dir_sum x (account_entries (a_id a) added) = input_on code x req"
    using l known unfolding input_on_def
    by (induction rule: list_all2_induct) (auto simp: account_entries_def entry_posts_def entry_amount_def same)
  show "dir_sum x added = input_sum x (pr_entries req)"
    using l by (induction rule: list_all2_induct) (auto simp: entry_posts_def entry_amount_def)
qed

lemma posting_balanced:
  assumes p: "posting req i d d' t accs added" and inv: "ledger_inv d" and inv': "ledger_inv d'" and wf: "validate req = None"
  shows "input_sum Debit (pr_entries req) = input_sum Credit (pr_entries req)"
proof -
  have l: "list_all2 (entry_posts i accs) (pr_entries req) added" using p by (auto simp: posting_def)
  have "pr_entries req \<noteq> []" using wf by (auto simp: validate_None_iff)
  then obtain e where e: "e \<in> set added" using l by (cases added) auto
  have "tx_entries i (entries d) = []"
  proof -
    have "e_transaction_id x \<noteq> i" if "x \<in> set (entries d)" for x
      using posting_fresh [OF p] ledger_invD(3) [OF inv that] by (auto simp: entry_wf_def)
    then show ?thesis by (auto simp: tx_entries_def filter_empty_conv)
  qed
  moreover have "tx_entries i added = added" using posting_accounts(1) [OF p] by (simp add: tx_entries_def filter_id_conv)
  ultimately have "tx_entries (e_transaction_id e) (entries d') = added"
    using posting_accounts(1) [OF p e] postingD(3) [OF p] by simp
  then have "currency_balanced added"
    using ledger_invD(4) [OF inv'] e postingD(3) [OF p] unfolding journal_balanced_def by (metis UnCI set_append)
  moreover have "dir_sum x added = input_sum x (pr_entries req)" for x
    using l by (induction rule: list_all2_induct) (auto simp: entry_posts_def entry_amount_def)
  ultimately show ?thesis using currency_balanced_total by metis
qed

text \<open>C22. A post moves what it says and creates nothing: when a post under a new key reports success,
  whatever faults and retries lay on its way, the balance \<open>GetBalance\<close> reports for an account afterwards is
  the one it reported before plus the request's debits on that account less its credits, for an asset or
  expense account, and the other way round for every other type; an account the request does not name
  keeps its balance, and the request's debits and credits agree exactly, although validation compares them
  modulo 2^64 only.\<close>

theorem post_moves_balances:
  assumes "ledger_inv (w_db w)" and "pr_idempotency_key req \<noteq> []" and "find_tx_by_key (pr_idempotency_key req) (w_db w) = None"
    and "PostTransaction req w = (Inr i, w')"
    and "GetBalance code v = (Inr b, v1)" and "w_db v = w_db w" and "GetBalance code w' = (Inr b', w1)"
  shows "(\<exists>a. find_account code (w_db w) = Some a
      \<and> sint b' - sint b = (if a_type a \<in> {''asset'', ''expense''} then input_on code Debit req - input_on code Credit req
                             else input_on code Credit req - input_on code Debit req))
    \<and> input_sum Debit (pr_entries req) = input_sum Credit (pr_entries req)"
proof -
  let ?d = "w_db w" and ?d' = "w_db w'"
  have v: "validate req = None" using assms(4) by (auto simp: PostTransaction_def split: option.splits)
  have once: "posts_once req ?d ?d'" using act_stepD [OF PostTransaction_once [OF assms(2)] assms(4)] .
  have inv': "ledger_inv ?d'" using once assms(1) by (simp add: posts_once_def)
  have "find_tx_by_key (pr_idempotency_key req) ?d' \<noteq> None" using PostTransaction_Inr [OF assms(4,1,2)] by auto
  then have "?d' \<noteq> ?d" using assms(3) by auto
  then obtain j t accs added where p: "posting req j ?d ?d' t accs added"
    using once assms(1) unfolding posts_once_def by blast
  note wf = ledger_invD(1) [OF assms(1)]
  obtain a where a: "find_account code ?d = Some a" "sint b = journal_balance ?d a"
    using GetBalance_exact [OF assms(5)] assms(1,6) by auto
  obtain a' where a': "find_account code ?d' = Some a'" "sint b' = journal_balance ?d' a'"
    using GetBalance_exact [OF assms(7) inv'] by auto
  have "a' = a" using a(1) a'(1) postingD(1) [OF p] by (simp add: find_account_def)
  then have "sint b' - sint b = (if a_type a \<in> {''asset'', ''expense''} then input_on code Debit req - input_on code Credit req
                             else input_on code Credit req - input_on code Debit req)"
    using a(2) a'(2) posting_account_sums(1) [OF p wf a(1)]
    by (simp add: journal_balance_def signed_balance_def IsDebitNormal_def postingD(3) [OF p])
  then show ?thesis using a(1) posting_balanced [OF p assms(1) inv' v] by blast
qed

lemma post_moves_balances_witness:
  "\<exists>b w1. fst (PostTransaction demo_req (world_of demo_db calm)) = Inr 1000
     \<and> GetBalance ''CUST:A'' (snd (PostTransaction demo_req (world_of demo_db calm))) = (Inr b, w1) \<and> sint b = - 500"
proof -
  let ?w = "world_of demo_db calm" and ?v = "(Inr 0 :: err + amount)"
  obtain w' where post: "PostTransaction demo_req ?w = (Inr 1000, w')"
  proof -
    have "fst (PostTransaction demo_req ?w) = Inr 1000" by code_simp
    then show thesis using that by (metis prod.collapse)
  qed
  have before: "fst (GetBalance ''CUST:A'' ?w) = Inr 0"
    and after: "fst (GetBalance ''CUST:A'' (snd (PostTransaction demo_req ?w))) = Inr (- 500)"
    by code_simp+
  obtain v1 where v1: "GetBalance ''CUST:A'' ?w = (Inr 0, v1)" using before by (metis prod.collapse)
  obtain w1 where w1: "GetBalance ''CUST:A'' w' = (Inr (- 500), w1)" using after post by (metis prod.collapse snd_conv)
  have "ledger_inv (w_db ?w)" "pr_idempotency_key demo_req \<noteq> []" "find_tx_by_key (pr_idempotency_key demo_req) (w_db ?w) = None"
    using demo_ledger_inv by (simp_all add: world_of_def demo_req_def find_tx_by_key_def) (simp add: demo_db_def)
  from post_moves_balances [OF this post v1 refl w1] obtain a where a: "find_account ''CUST:A'' (w_db ?w) = Some a"
    "sint (- 500 :: i64) - sint (0 :: i64) = (if a_type a \<in> {''asset'', ''expense''} then input_on ''CUST:A'' Debit demo_req - input_on ''CUST:A'' Credit demo_req
       else input_on ''CUST:A'' Credit demo_req - input_on ''CUST:A'' Debit demo_req)" by blast
  have "a_type a = ''liability''" using a(1) by (auto simp: world_of_def demo_db_def find_account_def demo_account_def)
  then have "sint (- 500 :: i64) = - 500" using a(2) by (simp add: input_on_def demo_req_def)
  then show ?thesis using post w1 by simp
qed

text \<open>C25. What the export says: when it answers, there is one record for every transaction initiated in
  the half-open window, in order of initiation, each with the transaction's identity, reference, type,
  status, currency, times and metadata and the sum of its debits (modulo 2^64) as amount; the destination is
  the code of the account its first debit is on and the source the code of the account its first credit is
  on, in the order the journal lists them, passing over an account without a code (\<open>side_code\<close>); each is
  empty only when the transaction has no entry on that side with an account code. The export writes
  nothing.\<close>

theorem export_faithful:
  assumes "ExportTransactions from to w = (Inr rs, w')"
  shows "\<exists>txs. list_all2 (exports (w_codec w) (w_db w)) txs rs \<and> w_db w' = w_db w
    \<and> mset txs = filter_mset (\<lambda>t. from \<le> t_initiated_at t \<and> t_initiated_at t < to) (mset (transactions (w_db w)))
    \<and> sorted (map t_initiated_at txs)"
  by (rule ExportTransactions_Inr [OF assms])

lemma demo_export:
  "map_sum id length (fst (ExportTransactions 0 10 (world_of posted_db calm))) = Inr 1"
  by code_simp

lemma export_faithful_witness:
  "\<exists>rs t. fst (ExportTransactions 0 10 (world_of posted_db calm)) = Inr rs \<and> length rs = 1
     \<and> list_all2 (exports demo_codec posted_db) [t] rs"
proof -
  let ?w = "world_of posted_db calm"
  obtain rs w' where e: "ExportTransactions 0 10 ?w = (Inr rs, w')" and n: "length rs = 1"
    using demo_export by (cases "ExportTransactions 0 10 ?w"; cases "fst (ExportTransactions 0 10 ?w)") auto
  from export_faithful [OF e] obtain txs where l: "list_all2 (exports demo_codec posted_db) txs rs"
    by (auto simp: world_of_def)
  then have "length txs = 1" using n by (simp add: list_all2_lengthD)
  then obtain t where "txs = [t]" by (auto simp: length_Suc_conv)
  then show ?thesis using e n l by auto
qed

text \<open>C26. One transaction whose metadata holds a value that is neither text nor null (the switch's
  lifecycle rows store \<open>amount_minor\<close> as a number) makes every export over a window that contains it
  fail.\<close>

theorem export_fails_on_non_text_metadata:
  assumes "t \<in> set (transactions (w_db w))" and "from \<le> t_initiated_at t" and "t_initiated_at t < to"
    and "(k, JNum n) \<in> set (t_metadata t)"
  shows "\<exists>e w'. ExportTransactions from to w = (Inl e, w')"
proof -
  have bad: "unmarshal_strings (t_metadata t) = None"
    using assms(4) by (auto simp: unmarshal_strings_None_iff json_to_string_def intro!: bexI [of _ "(k, JNum n)"])
  obtain q w1 where g: "run_stmt (ListTransactionsByWindow from to) w = (q, w1)" by force
  show ?thesis
  proof (cases q)
    case (Inr txs)
    have "t \<in> set txs"
      using run_read_Inr(3) [OF g [unfolded Inr]] assms(1-3) by (auto simp: ListTransactionsByWindow_def)
    from export_all_bad_metadata [OF this bad] obtain e w2 where "export_all [] txs w1 = (Inl e, w2)" by blast
    then show ?thesis using g Inr by (simp add: ExportTransactions_def)
  qed (use g in \<open>simp add: ExportTransactions_def\<close>)
qed

definition lifecycle_db :: db where
  "lifecycle_db = demo_db\<lparr>transactions := [\<lparr>t_id = 7, t_reference = ''REF1'', t_type = TypeTransfer,
     t_status = StatusPending, t_idempotency_key = None, t_parent = None, t_currency = ''NGN'', t_initiated_at = 5,
     t_settled_at = None, t_metadata = [(''source'', JStr ''CUST:A''), (''amount_minor'', JNum 500)]\<rparr>]\<rparr>"

lemma export_fails_on_non_text_metadata_witness:
  "\<exists>e w'. ExportTransactions 0 10 (world_of lifecycle_db calm) = (Inl e, w')"
  by (rule export_fails_on_non_text_metadata [where k = "''amount_minor''" and n = 500 and t = "hd (transactions lifecycle_db)"])
    (simp_all add: world_of_def lifecycle_db_def)

end
