(* ===== verification/StateMachine.thy ===== *)
theory StateMachine
  imports Tables
begin

text \<open>
  \<open>internal/switch/statemachine.go\<close> and the state constants of \<open>transfer.go\<close>: the coarse statuses
  a transfer row is persisted with, their legal edges, and the finer states of the read model.
\<close>

definition statusPending :: string where [go_const]: "statusPending = ''pending''"
definition statusDebited :: string where [go_const]: "statusDebited = ''debited''"
definition statusInDoubt :: string where [go_const]: "statusInDoubt = ''in_doubt''"
definition statusReversalPending :: string where [go_const]: "statusReversalPending = ''reversal_pending''"
definition statusSettled :: string where [go_const]: "statusSettled = ''settled''"
definition statusReversed :: string where [go_const]: "statusReversed = ''reversed''"
definition statusManualReview :: string where [go_const]: "statusManualReview = ''manual_review''"
definition statusFailed :: string where [go_const]: "statusFailed = ''failed''"

lemma status_distinct [simp]:
  "statusPending \<noteq> statusDebited" "statusPending \<noteq> statusInDoubt" "statusPending \<noteq> statusReversalPending"
  "statusPending \<noteq> statusSettled" "statusPending \<noteq> statusReversed" "statusPending \<noteq> statusManualReview"
  "statusPending \<noteq> statusFailed" "statusDebited \<noteq> statusInDoubt" "statusDebited \<noteq> statusReversalPending"
  "statusDebited \<noteq> statusSettled" "statusDebited \<noteq> statusReversed" "statusDebited \<noteq> statusManualReview"
  "statusDebited \<noteq> statusFailed" "statusInDoubt \<noteq> statusReversalPending" "statusInDoubt \<noteq> statusSettled"
  "statusInDoubt \<noteq> statusReversed" "statusInDoubt \<noteq> statusManualReview" "statusInDoubt \<noteq> statusFailed"
  "statusReversalPending \<noteq> statusSettled" "statusReversalPending \<noteq> statusReversed"
  "statusReversalPending \<noteq> statusManualReview" "statusReversalPending \<noteq> statusFailed"
  "statusSettled \<noteq> statusReversed" "statusSettled \<noteq> statusManualReview" "statusSettled \<noteq> statusFailed"
  "statusReversed \<noteq> statusManualReview" "statusReversed \<noteq> statusFailed" "statusManualReview \<noteq> statusFailed"
  by (simp_all add: go_const)

lemmas status_distinct_sym [simp] = status_distinct [symmetric]

datatype transfer_state =
    StateInitiated | StateDebitPending | StateDebited | StateAwaitingSettlement | StateSettled
  | StateInDoubt | StateReversalPending | StateReversed | StateManualReview | StateFailed

fun state_text :: "transfer_state \<Rightarrow> string" where
  "state_text StateInitiated = ''INITIATED''"
| "state_text StateDebitPending = ''DEBIT_PENDING''"
| "state_text StateDebited = ''DEBITED''"
| "state_text StateAwaitingSettlement = ''AWAITING_SETTLEMENT''"
| "state_text StateSettled = ''SETTLED''"
| "state_text StateInDoubt = ''IN_DOUBT''"
| "state_text StateReversalPending = ''REVERSAL_PENDING''"
| "state_text StateReversed = ''REVERSED''"
| "state_text StateManualReview = ''MANUAL_REVIEW''"
| "state_text StateFailed = ''FAILED''"

text \<open>The Go map from a status to its legal successors; a missing key yields the empty slice.\<close>

definition statusTransitions :: "string \<Rightarrow> string list" where
  "statusTransitions s =
     (if s = statusPending then [statusDebited, statusFailed]
      else if s = statusDebited then [statusSettled, statusInDoubt, statusReversalPending]
      else if s = statusInDoubt then [statusSettled, statusReversalPending, statusManualReview]
      else if s = statusReversalPending then [statusReversed]
      else [])"

definition canTransitionStatus :: "string \<Rightarrow> string \<Rightarrow> bool" where
  "canTransitionStatus from to \<longleftrightarrow> list_ex (\<lambda>next. next = to) (statusTransitions from)"

definition isTerminalStatus :: "string \<Rightarrow> bool" where
  "isTerminalStatus s \<longleftrightarrow> length (statusTransitions s) = 0"

fun statusForState :: "transfer_state \<Rightarrow> string" where
  "statusForState StateDebited = statusDebited"
| "statusForState StateAwaitingSettlement = statusDebited"
| "statusForState StateInDoubt = statusInDoubt"
| "statusForState StateReversalPending = statusReversalPending"
| "statusForState StateSettled = statusSettled"
| "statusForState StateReversed = statusReversed"
| "statusForState StateManualReview = statusManualReview"
| "statusForState StateFailed = statusFailed"
| "statusForState StateInitiated = statusPending"
| "statusForState StateDebitPending = statusPending"

definition stateForStatus :: "string \<Rightarrow> transfer_state" where
  "stateForStatus s =
     (if s = statusDebited then StateDebited
      else if s = statusInDoubt then StateInDoubt
      else if s = statusReversalPending then StateReversalPending
      else if s = statusSettled then StateSettled
      else if s = statusReversed then StateReversed
      else if s = statusManualReview then StateManualReview
      else if s = statusFailed then StateFailed
      else StateDebitPending)"

definition CanTransition :: "transfer_state \<Rightarrow> transfer_state \<Rightarrow> bool" where
  "CanTransition s to = canTransitionStatus (statusForState s) (statusForState to)"

section \<open>Edges\<close>

definition switch_statuses :: "string list" where
  "switch_statuses = [statusPending, statusDebited, statusInDoubt, statusReversalPending, statusSettled,
     statusReversed, statusManualReview, statusFailed]"

lemma canTransitionStatus_iff:
  "canTransitionStatus s t \<longleftrightarrow>
     s = statusPending \<and> t \<in> {statusDebited, statusFailed}
     \<or> s = statusDebited \<and> t \<in> {statusSettled, statusInDoubt, statusReversalPending}
     \<or> s = statusInDoubt \<and> t \<in> {statusSettled, statusReversalPending, statusManualReview}
     \<or> s = statusReversalPending \<and> t = statusReversed"
  by (auto simp: canTransitionStatus_def statusTransitions_def)

lemma isTerminalStatus_iff:
  "isTerminalStatus s \<longleftrightarrow> s \<notin> {statusPending, statusDebited, statusInDoubt, statusReversalPending}"
  by (auto simp: isTerminalStatus_def statusTransitions_def)

lemma terminal_no_edge: "isTerminalStatus s \<Longrightarrow> \<not> canTransitionStatus s t"
  by (simp add: isTerminalStatus_def canTransitionStatus_def)

text \<open>A rank every edge decreases: the machine has no cycles.\<close>

definition status_rank :: "string \<Rightarrow> nat" where
  "status_rank s = (if s = statusPending then 4 else if s = statusDebited then 3 else if s = statusInDoubt then 2
     else if s = statusReversalPending then 1 else 0)"

lemma edge_decreases_rank: "canTransitionStatus s t \<Longrightarrow> status_rank t < status_rank s"
  by (auto simp: canTransitionStatus_iff status_rank_def)

lemma switch_status_checks: "s \<in> set switch_statuses \<Longrightarrow> check_tx_status s"
  by (auto simp: switch_statuses_def check_tx_status_def go_const)

text \<open>The persisted path of a transfer, as a list of edges.\<close>

inductive status_path :: "string \<Rightarrow> string list \<Rightarrow> bool" where
  path_here: "status_path s []"
| path_edge: "canTransitionStatus s t \<Longrightarrow> status_path t ts \<Longrightarrow> status_path s (t # ts)"

code_pred status_path .

inductive_cases status_path_ConsE: "status_path s (t # ts)"
inductive_simps status_path_simps [simp]: "status_path s []" "status_path s (t # ts)"

lemma status_path_bounded: "status_path s ts \<Longrightarrow> length ts \<le> status_rank s"
proof (induction rule: status_path.induct)
  case (path_edge s t ts)
  then show ?case using edge_decreases_rank [OF path_edge.hyps(1)] by simp
qed simp

text \<open>A complete lifecycle: a path that ends in a status without successors.\<close>

definition completes :: "string \<Rightarrow> string list \<Rightarrow> bool" where
  "completes s ts \<longleftrightarrow> status_path s ts \<and> isTerminalStatus (last (s # ts))"

lemma completes_terminal: "isTerminalStatus s \<Longrightarrow> completes s ts \<longleftrightarrow> ts = []"
  using terminal_no_edge by (cases ts) (auto simp: completes_def)

lemma completes_open: "\<not> isTerminalStatus s \<Longrightarrow> completes s ts \<longleftrightarrow> (\<exists>t r. ts = t # r \<and> canTransitionStatus s t \<and> completes t r)"
  by (cases ts) (auto simp: completes_def)

lemma completes_ends [simp]:
  "completes statusSettled ts \<longleftrightarrow> ts = []" "completes statusReversed ts \<longleftrightarrow> ts = []"
  "completes statusManualReview ts \<longleftrightarrow> ts = []" "completes statusFailed ts \<longleftrightarrow> ts = []"
  by (simp_all add: completes_terminal isTerminalStatus_iff)

lemma completes_reversal: "completes statusReversalPending ts \<longleftrightarrow> ts = [statusReversed]"
  by (subst completes_open) (auto simp: isTerminalStatus_iff canTransitionStatus_iff)

lemma completes_in_doubt:
  "completes statusInDoubt ts \<longleftrightarrow> ts \<in> {[statusSettled], [statusReversalPending, statusReversed], [statusManualReview]}"
  by (subst completes_open) (auto simp: isTerminalStatus_iff canTransitionStatus_iff completes_reversal)

lemma completes_debited:
  "completes statusDebited ts \<longleftrightarrow> ts \<in> {[statusSettled], [statusReversalPending, statusReversed], [statusInDoubt, statusSettled],
     [statusInDoubt, statusReversalPending, statusReversed], [statusInDoubt, statusManualReview]}"
  by (subst completes_open) (auto simp: isTerminalStatus_iff canTransitionStatus_iff completes_reversal completes_in_doubt)

lemma completes_pending:
  "completes statusPending ts \<longleftrightarrow> ts \<in> {[statusFailed], [statusDebited, statusSettled],
     [statusDebited, statusReversalPending, statusReversed], [statusDebited, statusInDoubt, statusSettled],
     [statusDebited, statusInDoubt, statusReversalPending, statusReversed], [statusDebited, statusInDoubt, statusManualReview]}"
  by (subst completes_open) (auto simp: isTerminalStatus_iff canTransitionStatus_iff completes_debited)

lemma completes_edge: "canTransitionStatus s t \<Longrightarrow> completes t r \<Longrightarrow> completes s (t # r)"
  by (simp add: completes_def)

lemma completable: "\<exists>r. completes s r"
proof (cases "isTerminalStatus s")
  case True
  then show ?thesis by (simp add: completes_terminal)
next
  case False
  then show ?thesis
    by (auto simp: isTerminalStatus_iff completes_pending completes_debited completes_in_doubt completes_reversal)
qed

lemma path_completes: "status_path s ts \<Longrightarrow> \<exists>r. completes s (ts @ r)"
proof (induction rule: status_path.induct)
  case (path_edge s t ts)
  then obtain r where "completes t (ts @ r)" by blast
  then have "completes s (t # ts @ r)" using path_edge.hyps(1) by (rule completes_edge [rotated])
  then show ?case by (intro exI [of _ r]) simp
qed (simp add: completable)

text \<open>C15. The lifecycles of a transfer, all of them: from the initial status a sequence of legal edges that
  cannot be extended is one of six (failed at once; debited and settled; debited and refunded; and through
  doubt to settled, refunded or manual review), every sequence of legal edges is the beginning of one of
  the six, so a transfer that is paid out is never refunded and a refund is always preceded by its
  request; the database accepts every status on the way, and no two of the statuses share a state of the
  read model.\<close>

theorem status_machine_sound:
  "(status_path statusPending ts \<and> isTerminalStatus (last (statusPending # ts))) =
     (ts \<in> set [[statusFailed], [statusDebited, statusSettled],
        [statusDebited, statusReversalPending, statusReversed], [statusDebited, statusInDoubt, statusSettled],
        [statusDebited, statusInDoubt, statusReversalPending, statusReversed], [statusDebited, statusInDoubt, statusManualReview]])
   \<and> (status_path statusPending us \<longrightarrow> list_all check_tx_status us
        \<and> (\<exists>rest. us @ rest \<in> set [[statusFailed], [statusDebited, statusSettled],
             [statusDebited, statusReversalPending, statusReversed], [statusDebited, statusInDoubt, statusSettled],
             [statusDebited, statusInDoubt, statusReversalPending, statusReversed], [statusDebited, statusInDoubt, statusManualReview]]))
   \<and> distinct (map stateForStatus switch_statuses)"
proof (intro conjI impI)
  show "(status_path statusPending ts \<and> isTerminalStatus (last (statusPending # ts))) =
     (ts \<in> set [[statusFailed], [statusDebited, statusSettled],
        [statusDebited, statusReversalPending, statusReversed], [statusDebited, statusInDoubt, statusSettled],
        [statusDebited, statusInDoubt, statusReversalPending, statusReversed], [statusDebited, statusInDoubt, statusManualReview]])"
    using completes_pending [of ts] unfolding completes_def by simp
next
  assume us: "status_path statusPending us"
  have "status_path s us \<Longrightarrow> list_all check_tx_status us" for s
  proof (induction rule: status_path.induct)
    case (path_edge s t ts)
    have "t \<in> set switch_statuses"
      using path_edge.hyps(1) by (auto simp: canTransitionStatus_iff switch_statuses_def)
    then show ?case using path_edge.IH switch_status_checks by simp
  qed simp
  then show "list_all check_tx_status us" using us .
  show "\<exists>rest. us @ rest \<in> set [[statusFailed], [statusDebited, statusSettled],
             [statusDebited, statusReversalPending, statusReversed], [statusDebited, statusInDoubt, statusSettled],
             [statusDebited, statusInDoubt, statusReversalPending, statusReversed], [statusDebited, statusInDoubt, statusManualReview]]"
    using path_completes [OF us] by (simp add: completes_pending)
next
  show "distinct (map stateForStatus switch_statuses)"
    by (simp add: switch_statuses_def stateForStatus_def)
qed

lemma status_machine_sound_witness:
  "list_all check_tx_status [statusDebited, statusInDoubt]
   \<and> (\<exists>rest. [statusDebited, statusInDoubt] @ rest \<in> set [[statusFailed], [statusDebited, statusSettled],
        [statusDebited, statusReversalPending, statusReversed], [statusDebited, statusInDoubt, statusSettled],
        [statusDebited, statusInDoubt, statusReversalPending, statusReversed], [statusDebited, statusInDoubt, statusManualReview]])"
proof -
  have "status_path statusPending [statusDebited, statusInDoubt]"
    by (simp add: canTransitionStatus_iff)
  then show ?thesis using status_machine_sound [of "[]" "[statusDebited, statusInDoubt]"] by blast
qed

end
