(* ===== verification/SwitchDb.thy ===== *)
theory SwitchDb
  imports LedgerDb StateMachine
begin

text \<open>
  The switch's SQL queries (\<open>internal/switch/postgres/switchdb/*.sql.go\<close>), one definition each, over
  the tables the ledger shares. Intervals are exact (in Postgres they are rounded to microseconds);
  an \<open>UPDATE .. RETURNING\<close> returns rows in table order and equal sort keys keep table order, both
  of which Postgres leaves open.
\<close>

section \<open>transactions.sql\<close>

record insert_transfer_params =
  is_reference :: string
  is_status :: string
  is_idempotency_key :: "string option"
  is_currency :: string
  is_metadata :: jsonb

definition InsertTransfer :: "insert_transfer_params \<Rightarrow> tx_row tx" where
  "InsertTransfer p ev d =
     (case char3 (is_currency p) of
        None \<Rightarrow> Inl (pg_error sql_string_too_long)
      | Some cur \<Rightarrow>
          insert_tx_row
            \<lparr>t_id = e_uuid ev 0, t_reference = is_reference p, t_type = ''transfer'',
             t_status = is_status p, t_idempotency_key = is_idempotency_key p,
             t_parent = None, t_currency = cur, t_initiated_at = e_now ev,
             t_settled_at = None, t_metadata = is_metadata p\<rparr> ev d)"

text \<open>\<open>metadata ? 'source'\<close>: the row is a transfer's lifecycle row, not a ledger leg.\<close>

definition lifecycle :: "tx_row \<Rightarrow> bool" where
  "lifecycle t \<longleftrightarrow> json_has_key (t_metadata t) ''source''"

definition GetTransferByID :: "uuid \<Rightarrow> tx_row tx" where
  "GetTransferByID i ev d = (case find_tx i d of Some t \<Rightarrow> Inr (t, d) | None \<Rightarrow> Inl (Sentinel ErrNoRows))"

definition GetTransferForUpdate :: "uuid \<Rightarrow> tx_row tx" where
  "GetTransferForUpdate i ev d = (case find_tx i d of Some t \<Rightarrow> Inr (t, d) | None \<Rightarrow> Inl (Sentinel ErrNoRows))"

definition GetTransferByReference :: "string \<Rightarrow> tx_row tx" where
  "GetTransferByReference ref ev d =
     (case sort_key (\<lambda>t. - t_initiated_at t) (filter (\<lambda>t. t_reference t = ref \<and> lifecycle t) (transactions d)) of
        t # _ \<Rightarrow> Inr (t, d)
      | [] \<Rightarrow> Inl (Sentinel ErrNoRows))"

definition GetTransferIDByIdempotencyKey :: "string option \<Rightarrow> uuid tx" where
  "GetTransferIDByIdempotencyKey key ev d =
     (case key of
        None \<Rightarrow> Inl (Sentinel ErrNoRows)
      | Some k \<Rightarrow>
          (case List.find (\<lambda>t. t_idempotency_key t = Some k \<and> lifecycle t) (transactions d) of
             Some t \<Rightarrow> Inr (t_id t, d)
           | None \<Rightarrow> Inl (Sentinel ErrNoRows)))"

definition resumable :: "tx_row \<Rightarrow> bool" where
  "resumable t \<longleftrightarrow> t_type t = ''transfer''
     \<and> t_status t \<in> {''pending'', ''debited'', ''in_doubt'', ''reversal_pending''}"

definition ListResumableTransfers :: "tx_row list tx" where
  "ListResumableTransfers ev d = Inr (sort_key t_initiated_at (filter resumable (transactions d)), d)"

definition live :: "outbox_row \<Rightarrow> bool" where
  "live r \<longleftrightarrow> o_published_at r = None \<and> \<not> o_dead_letter r"

definition ListStuckTransfers :: "tx_row list tx" where
  "ListStuckTransfers ev d =
     Inr (sort_key t_initiated_at
            (filter (\<lambda>t. resumable t \<and> \<not> list_ex (\<lambda>r. o_aggregate_id r = t_id t \<and> live r) (outbox d))
               (transactions d)), d)"

definition update_tx :: "uuid \<Rightarrow> (tx_row \<Rightarrow> tx_row) \<Rightarrow> db \<Rightarrow> db" where
  "update_tx i f d = d\<lparr>transactions := update_where (\<lambda>t. t_id t = i) f (transactions d)\<rparr>"

definition SetTransferSettled :: "uuid \<Rightarrow> unit tx" where
  "SetTransferSettled i ev d =
     Inr ((), update_tx i (\<lambda>t. t\<lparr>t_status := ''settled'', t_settled_at := Some (e_now ev)\<rparr>) d)"

definition SetTransferStatus :: "uuid \<Rightarrow> string \<Rightarrow> unit tx" where
  "SetTransferStatus i status ev d =
     (if \<not> check_tx_status status \<and> find_tx i d \<noteq> None then Inl (pg_error sql_check_violation)
      else Inr ((), update_tx i (\<lambda>t. t\<lparr>t_status := status\<rparr>) d))"

definition SetTransferStatusAndDebitLeg :: "string \<Rightarrow> string \<Rightarrow> uuid \<Rightarrow> unit tx" where
  "SetTransferStatusAndDebitLeg status leg i ev d =
     (if \<not> check_tx_status status \<and> find_tx i d \<noteq> None then Inl (pg_error sql_check_violation)
      else Inr ((), update_tx i (\<lambda>t. t\<lparr>t_status := status,
             t_metadata := json_concat (t_metadata t) [(''debit_leg_tx_id'', JStr leg)]\<rparr>) d))"

section \<open>outbox.sql\<close>

record insert_outbox_params =
  io_aggregate_type :: string
  io_aggregate_id :: uuid
  io_event_type :: string
  io_payload :: jsonb

definition InsertOutboxEvent :: "insert_outbox_params \<Rightarrow> nat tx" where
  "InsertOutboxEvent p ev d =
     (let r = \<lparr>o_id = outbox_seq d, o_aggregate_type = io_aggregate_type p, o_aggregate_id = io_aggregate_id p,
               o_event_type = io_event_type p, o_payload = io_payload p, o_created_at = e_now ev,
               o_published_at = None, o_attempts = 0, o_next_attempt_at = e_now ev, o_last_error = None,
               o_dead_letter = False\<rparr>
      in Inr (outbox_seq d, d\<lparr>outbox := outbox d @ [r], outbox_seq := Suc (outbox_seq d)\<rparr>))"

definition due :: "time \<Rightarrow> outbox_row \<Rightarrow> bool" where
  "due now r \<longleftrightarrow> live r \<and> o_next_attempt_at r \<le> now"

definition claimed_ids :: "time \<Rightarrow> nat \<Rightarrow> outbox_row list \<Rightarrow> nat list" where
  "claimed_ids now limit rs = map o_id (take limit (sort_key o_created_at (filter (due now) rs)))"

definition ClaimOutboxBatch :: "time \<Rightarrow> nat \<Rightarrow> outbox_row list tx" where
  "ClaimOutboxBatch lease limit ev d =
     (let ids = claimed_ids (e_now ev) limit (outbox d);
          rows = update_where (\<lambda>r. o_id r \<in> set ids) (\<lambda>r. r\<lparr>o_next_attempt_at := e_now ev + lease\<rparr>) (outbox d)
      in Inr (filter (\<lambda>r. o_id r \<in> set ids) rows, d\<lparr>outbox := rows\<rparr>))"

definition MarkOutboxPublished :: "nat \<Rightarrow> unit tx" where
  "MarkOutboxPublished i ev d =
     Inr ((), d\<lparr>outbox := update_where (\<lambda>r. o_id r = i) (\<lambda>r. r\<lparr>o_published_at := Some (e_now ev)\<rparr>) (outbox d)\<rparr>)"

text \<open>\<open>attempts + 1\<close> is an \<open>INT\<close> addition, which raises when it leaves 32 bits.\<close>

definition attempts_overflow :: "nat \<Rightarrow> db \<Rightarrow> bool" where
  "attempts_overflow i d \<longleftrightarrow> list_ex (\<lambda>r. o_id r = i \<and> sint (o_attempts r) + 1 \<ge> 2 ^ 31) (outbox d)"

definition RescheduleOutbox :: "nat \<Rightarrow> time \<Rightarrow> string \<Rightarrow> unit tx" where
  "RescheduleOutbox i delay msg ev d =
     (if attempts_overflow i d then Inl (pg_error sql_out_of_range)
      else Inr ((), d\<lparr>outbox := update_where (\<lambda>r. o_id r = i)
             (\<lambda>r. r\<lparr>o_attempts := o_attempts r + 1, o_next_attempt_at := e_now ev + delay, o_last_error := Some msg\<rparr>)
             (outbox d)\<rparr>))"

definition DeadLetterOutbox :: "nat \<Rightarrow> string \<Rightarrow> unit tx" where
  "DeadLetterOutbox i msg ev d =
     (if attempts_overflow i d then Inl (pg_error sql_out_of_range)
      else Inr ((), d\<lparr>outbox := update_where (\<lambda>r. o_id r = i)
             (\<lambda>r. r\<lparr>o_attempts := o_attempts r + 1, o_dead_letter := True, o_last_error := Some msg\<rparr>)
             (outbox d)\<rparr>))"

definition CountDeadLetterOutbox :: "nat tx" where
  "CountDeadLetterOutbox ev d = Inr (length (filter o_dead_letter (outbox d)), d)"

text \<open>The age of the oldest live event; 0 when there is none.\<close>

definition OutboxLagSeconds :: "time tx" where
  "OutboxLagSeconds ev d =
     Inr (case map o_created_at (filter live (outbox d)) of
            [] \<Rightarrow> 0
          | c # cs \<Rightarrow> e_now ev - foldl min c cs, d)"

section \<open>idempotency.sql\<close>

definition check_idem_status :: "string \<Rightarrow> bool" where
  "check_idem_status s \<longleftrightarrow> s \<in> {''in_progress'', ''succeeded'', ''failed''}"

definition find_idem :: "string \<Rightarrow> db \<Rightarrow> idem_row option" where
  "find_idem k d = List.find (\<lambda>r. k_key r = k) (idem_keys d)"

definition ReserveIdempotencyKey :: "string \<Rightarrow> string \<Rightarrow> time \<Rightarrow> idem_row tx" where
  "ReserveIdempotencyKey key fp lease ev d =
     (case find_idem key d of
        Some _ \<Rightarrow> Inl (Sentinel ErrNoRows)
      | None \<Rightarrow>
          (let r = \<lparr>k_key = key, k_fingerprint = fp, k_transaction_id = None, k_response = None,
                    k_status = ''in_progress'', k_created_at = e_now ev, k_expires_at = Some (e_now ev + lease)\<rparr>
           in Inr (r, d\<lparr>idem_keys := idem_keys d @ [r]\<rparr>)))"

definition GetIdempotencyKey :: "string \<Rightarrow> idem_row tx" where
  "GetIdempotencyKey key ev d =
     (case find_idem key d of Some r \<Rightarrow> Inr (r, d) | None \<Rightarrow> Inl (Sentinel ErrNoRows))"

definition CompleteIdempotencyKey :: "string \<Rightarrow> string \<Rightarrow> jsonb option \<Rightarrow> uuid option \<Rightarrow> unit tx" where
  "CompleteIdempotencyKey key status response tx_id ev d =
     (if find_idem key d \<noteq> None \<and> \<not> check_idem_status status then Inl (pg_error sql_check_violation)
      else if find_idem key d \<noteq> None \<and> (case tx_id of None \<Rightarrow> False | Some i \<Rightarrow> find_tx i d = None)
      then Inl (pg_error sql_foreign_key_violation)
      else Inr ((), d\<lparr>idem_keys := update_where (\<lambda>r. k_key r = key)
             (\<lambda>r. r\<lparr>k_status := status, k_response := response, k_transaction_id := tx_id\<rparr>) (idem_keys d)\<rparr>))"

section \<open>What the queries read and write\<close>

lemma InsertTransfer_Inr:
  assumes "InsertTransfer p ev d = Inr (t, d')"
  shows "d' = d\<lparr>transactions := transactions d @ [t]\<rparr>" "t_status t = is_status p"
    "t_idempotency_key t = is_idempotency_key p" "t_metadata t = is_metadata p" "t_reference t = is_reference p"
    "t_type t = ''transfer''" "t_parent t = None" "t_id t = e_uuid ev 0" "t_initiated_at t = e_now ev"
    "list_all (\<lambda>v. \<not> tx_clash t v) (transactions d)" "char3 (is_currency p) = Some (t_currency t)"
  using assms by (auto simp: InsertTransfer_def split: option.splits dest: insert_tx_row_Inr)

lemma update_tx_frame [simp]:
  "accounts (update_tx i f d) = accounts d" "entries (update_tx i f d) = entries d"
  "balances (update_tx i f d) = balances d" "outbox (update_tx i f d) = outbox d"
  "idem_keys (update_tx i f d) = idem_keys d" "outbox_seq (update_tx i f d) = outbox_seq d"
  by (simp_all add: update_tx_def)

lemma transactions_update_tx:
  "transactions (update_tx i f d) = update_where (\<lambda>t. t_id t = i) f (transactions d)"
  by (simp add: update_tx_def)

lemma GetTransferByID_Inr: "GetTransferByID i ev d = Inr (t, d') \<longleftrightarrow> find_tx i d = Some t \<and> d' = d"
  by (auto simp: GetTransferByID_def split: option.splits)

lemma GetTransferForUpdate_Inr: "GetTransferForUpdate i ev d = Inr (t, d') \<longleftrightarrow> find_tx i d = Some t \<and> d' = d"
  by (auto simp: GetTransferForUpdate_def split: option.splits)

lemma GetTransferByReference_Inr:
  assumes "GetTransferByReference ref ev d = Inr (t, d')"
  shows "d' = d" "t \<in> set (transactions d)" "lifecycle t" "t_reference t = ref"
proof -
  let ?ts = "sort_key (\<lambda>t. - t_initiated_at t) (filter (\<lambda>t. t_reference t = ref \<and> lifecycle t) (transactions d))"
  obtain rest where r: "?ts = t # rest" and d': "d' = d"
    using assms by (auto simp: GetTransferByReference_def split: list.splits)
  have "t \<in> set ?ts" unfolding r by simp
  then show "d' = d" "t \<in> set (transactions d)" "lifecycle t" "t_reference t = ref" using d' by auto
qed

lemma find_tx_mem: "find_tx i d = Some t \<Longrightarrow> t \<in> set (transactions d) \<and> t_id t = i"
  unfolding find_tx_def by (rule find_Some_mem)

lemma find_tx_by_key_mem: "find_tx_by_key k d = Some t \<Longrightarrow> t \<in> set (transactions d) \<and> t_idempotency_key t = Some k"
  unfolding find_tx_by_key_def by (rule find_Some_mem)

end
