(* ===== verification/Outbox.thy ===== *)
theory Outbox
  imports SwitchDb
begin

text \<open>
  The transactional outbox (\<open>internal/switch/outbox\<close>): \<open>outbox.go\<close> appends an event in the
  transaction of the state change it follows, \<open>poller.go\<close> claims due events under a lease and
  delivers each to a handler, with capped exponential backoff and a dead-letter terminus. The
  \<open>Handler\<close> interface is the locale \<open>outbox_handler\<close>: what a handler promises of an invariant is
  enough for the poller to keep it. Delays are unbounded integers (Go's 64-bit nanoseconds hold the
  configured ones).
\<close>

section \<open>outbox.go\<close>

definition AggregateTransfer :: string where [go_const]: "AggregateTransfer = ''transfer''"
definition EventDebitRequested :: string where [go_const]: "EventDebitRequested = ''transfer.debit_requested''"
definition EventDebited :: string where [go_const]: "EventDebited = ''transfer.debited''"
definition EventInDoubt :: string where [go_const]: "EventInDoubt = ''transfer.in_doubt''"
definition EventReversalRequested :: string where [go_const]: "EventReversalRequested = ''reversal.requested''"

lemma event_distinct [simp]:
  "EventDebitRequested \<noteq> EventDebited" "EventDebitRequested \<noteq> EventInDoubt"
  "EventDebitRequested \<noteq> EventReversalRequested" "EventDebited \<noteq> EventInDoubt"
  "EventDebited \<noteq> EventReversalRequested" "EventInDoubt \<noteq> EventReversalRequested"
  "EventDebitRequested \<noteq> []" "EventDebited \<noteq> []" "EventInDoubt \<noteq> []" "EventReversalRequested \<noteq> []"
  by (simp_all add: go_const)

lemmas event_distinct_sym [simp] = event_distinct [symmetric]

record event =
  v_id :: nat
  v_aggregate_type :: string
  v_aggregate_id :: uuid
  v_type :: string
  v_payload :: jsonb
  v_attempts :: i32

type_synonym handler = "event \<Rightarrow> unit act"

definition outbox_Append :: "uuid \<Rightarrow> string \<Rightarrow> jsonb \<Rightarrow> unit tx" where
  "outbox_Append aggregate_id event_type payload ev d =
     (case InsertOutboxEvent \<lparr>io_aggregate_type = AggregateTransfer, io_aggregate_id = aggregate_id,
               io_event_type = event_type, io_payload = payload\<rparr> ev d of
        Inl e \<Rightarrow> Inl e
      | Inr (_, d') \<Rightarrow> Inr ((), d'))"

section \<open>poller.go\<close>

record poll_config =
  c_interval :: time
  c_batch :: i32
  c_lease :: time
  c_max_attempts :: i32
  c_base_backoff :: time
  c_max_backoff :: time

definition withDefaults :: "poll_config \<Rightarrow> poll_config" where
  "withDefaults c =
     \<lparr>c_interval = (if c_interval c \<le> 0 then 500 * 1000000 else c_interval c),
      c_batch = (if sint (c_batch c) \<le> 0 then 64 else c_batch c),
      c_lease = (if c_lease c \<le> 0 then 30 * 1000000000 else c_lease c),
      c_max_attempts = (if sint (c_max_attempts c) \<le> 0 then 8 else c_max_attempts c),
      c_base_backoff = (if c_base_backoff c < 0 then 0 else c_base_backoff c),
      c_max_backoff = (if c_max_backoff c \<le> 0 then 5 * 60 * 1000000000 else c_max_backoff c)\<rparr>"

text \<open>The loop of \<open>backoff\<close> with \<open>n\<close> doublings left.\<close>

fun backoff_loop :: "nat \<Rightarrow> time \<Rightarrow> time \<Rightarrow> time" where
  "backoff_loop 0 mx d = d"
| "backoff_loop (Suc n) mx d = (if d < mx then backoff_loop n mx (d * 2) else d)"

definition poller_backoff :: "poll_config \<Rightarrow> i32 \<Rightarrow> time" where
  "poller_backoff cfg attempt =
     (let d = backoff_loop (nat (sint attempt - 1)) (c_max_backoff cfg) (c_base_backoff cfg)
      in if d > c_max_backoff cfg then c_max_backoff cfg else d)"

definition incDeadLetter :: "world \<Rightarrow> world" where
  "incDeadLetter w = w\<lparr>w_metrics := (w_metrics w)\<lparr>m_dead_letters := Suc (m_dead_letters (w_metrics w))\<rparr>\<rparr>"

text \<open>A failed delivery: database errors are logged and swallowed. The dead-letter hook is the one
  \<open>switchd\<close> installs.\<close>

definition poller_fail :: "poll_config \<Rightarrow> event \<Rightarrow> err \<Rightarrow> world \<Rightarrow> world" where
  "poller_fail cfg evt herr w =
     (let next = v_attempts evt + 1 in
      if sint next \<ge> sint (c_max_attempts cfg)
      then (case run_stmt (DeadLetterOutbox (v_id evt) (err_text herr)) w of
          (Inl _, w1) \<Rightarrow> w1
        | (Inr _, w1) \<Rightarrow> incDeadLetter w1)
      else snd (run_stmt (RescheduleOutbox (v_id evt) (poller_backoff cfg next) (err_text herr)) w))"

definition event_of :: "outbox_row \<Rightarrow> event" where
  "event_of r = \<lparr>v_id = o_id r, v_aggregate_type = o_aggregate_type r, v_aggregate_id = o_aggregate_id r,
     v_type = o_event_type r, v_payload = o_payload r, v_attempts = o_attempts r\<rparr>"

definition deliver :: "handler \<Rightarrow> poll_config \<Rightarrow> outbox_row \<Rightarrow> world \<Rightarrow> world" where
  "deliver h cfg r w =
     (case h (event_of r) w of
        (Inl herr, w1) \<Rightarrow> poller_fail cfg (event_of r) herr w1
      | (Inr _, w1) \<Rightarrow> snd (run_stmt (MarkOutboxPublished (o_id r)) w1))"

fun deliver_all :: "handler \<Rightarrow> poll_config \<Rightarrow> outbox_row list \<Rightarrow> world \<Rightarrow> world" where
  "deliver_all h cfg [] w = w"
| "deliver_all h cfg (r # rs) w = deliver_all h cfg rs (deliver h cfg r w)"

definition poller_tick :: "handler \<Rightarrow> poll_config \<Rightarrow> nat act" where
  "poller_tick h cfg w =
     (case run_stmt (ClaimOutboxBatch (c_lease cfg) (nat (sint (c_batch cfg)))) w of
        (Inl e, w1) \<Rightarrow> (Inl e, w1)
      | (Inr rows, w1) \<Rightarrow> (Inr (length rows), deliver_all h cfg rows w1))"

text \<open>\<open>Run\<close> waits in a \<open>select\<close> for the ticker or the end of its context; the list holds what wakes it, in order.
  The error of a tick is logged. The first component says whether \<open>Run\<close> has returned.\<close>

datatype wakeup = CtxDone | TickerFired

fun poller_Run :: "handler \<Rightarrow> poll_config \<Rightarrow> wakeup list \<Rightarrow> world \<Rightarrow> bool \<times> world" where
  "poller_Run h cfg [] w = (False, w)"
| "poller_Run h cfg (CtxDone # ws) w = (True, w)"
| "poller_Run h cfg (TickerFired # ws) w = poller_Run h cfg ws (snd (poller_tick h cfg w))"

text \<open>\<open>Drain\<close> loops until a tick claims nothing: at most \<open>fuel\<close> ticks, \<open>None\<close> when they are not
  enough.\<close>

fun poller_drain :: "nat \<Rightarrow> handler \<Rightarrow> poll_config \<Rightarrow> world \<Rightarrow> ((err + unit) \<times> world) option" where
  "poller_drain 0 h cfg w = None"
| "poller_drain (Suc fuel) h cfg w =
     (case poller_tick h cfg w of
        (Inl e, w1) \<Rightarrow> Some (Inl e, w1)
      | (Inr n, w1) \<Rightarrow> if n = 0 then Some (Inr (), w1) else poller_drain fuel h cfg w1)"

section \<open>Backoff\<close>

lemma backoff_loop_eq:
  "0 \<le> d \<Longrightarrow> 0 \<le> mx \<Longrightarrow> min (backoff_loop n mx d) mx = min (d * 2 ^ n) mx"
proof (induction n arbitrary: d)
  case (Suc n)
  show ?case
  proof (cases "d < mx")
    case True
    then show ?thesis using Suc by (simp add: mult.assoc)
  next
    case False
    have "d * 1 \<le> d * 2 ^ Suc n" by (rule mult_left_mono [OF one_le_power]) (use Suc.prems in auto)
    then have "mx \<le> d * 2 ^ Suc n" using False by linarith
    then show ?thesis using False by (simp add: min_def)
  qed
qed simp

text \<open>The delay before the n-th retry is the base doubled n - 1 times, capped at the maximum: it
  never exceeds the cap, and never shrinks as attempts grow.\<close>

theorem poller_backoff_exact:
  assumes "0 \<le> c_base_backoff cfg" and "0 < c_max_backoff cfg" and "1 \<le> sint n"
  shows "poller_backoff cfg n = min (c_base_backoff cfg * 2 ^ nat (sint n - 1)) (c_max_backoff cfg)
    \<and> (\<forall>m. sint n \<le> sint m \<longrightarrow> poller_backoff cfg n \<le> poller_backoff cfg m)"
proof -
  have eq: "poller_backoff cfg k = min (c_base_backoff cfg * 2 ^ nat (sint k - 1)) (c_max_backoff cfg)" for k
    using backoff_loop_eq [of "c_base_backoff cfg" "c_max_backoff cfg" "nat (sint k - 1)"] assms(1,2)
    by (auto simp: poller_backoff_def Let_def min_def)
  have mono: "poller_backoff cfg n \<le> poller_backoff cfg m" if "sint n \<le> sint m" for m
  proof -
    have "(2::int) ^ nat (sint n - 1) \<le> 2 ^ nat (sint m - 1)"
      by (rule power_increasing) (use that in auto)
    then have "c_base_backoff cfg * 2 ^ nat (sint n - 1) \<le> c_base_backoff cfg * 2 ^ nat (sint m - 1)"
      using assms(1) by (rule mult_left_mono)
    then show ?thesis unfolding eq by simp
  qed
  then show ?thesis using eq by blast
qed

definition demo_config :: poll_config where
  "demo_config = \<lparr>c_interval = 500000000, c_batch = 10, c_lease = 30000000000, c_max_attempts = 3,
     c_base_backoff = 1000000000, c_max_backoff = 5000000000\<rparr>"

lemma poller_backoff_exact_witness: "poller_backoff demo_config 3 = 4000000000"
  using poller_backoff_exact [of demo_config 3] by (simp add: demo_config_def min_def)

section \<open>What the outbox statements change\<close>

text \<open>The identity of an event row never changes; delivery bookkeeping does.\<close>

definition same_event :: "outbox_row \<Rightarrow> outbox_row \<Rightarrow> bool" where
  "same_event r s \<longleftrightarrow> o_id s = o_id r \<and> o_aggregate_id s = o_aggregate_id r \<and> o_event_type s = o_event_type r
     \<and> o_published_at s = o_published_at r"

definition bookkeeping :: "db \<Rightarrow> db \<Rightarrow> bool" where
  "bookkeeping d d' \<longleftrightarrow> (\<exists>os. d' = d\<lparr>outbox := os\<rparr> \<and> list_all2 same_event (outbox d) os)"

definition publish :: "nat \<Rightarrow> time \<Rightarrow> db \<Rightarrow> db" where
  "publish i now d =
     d\<lparr>outbox := update_where (\<lambda>r. o_id r = i) (\<lambda>r. r\<lparr>o_published_at := Some now\<rparr>) (outbox d)\<rparr>"

lemma same_event_refl [simp]: "same_event r r"
  by (simp add: same_event_def)

lemma bookkeeping_refl [simp]: "bookkeeping d d"
proof -
  have "list_all2 same_event (outbox d) (outbox d)" by (rule list_all2_refl) simp
  then show ?thesis unfolding bookkeeping_def by (intro exI [of _ "outbox d"]) simp
qed

lemma bookkeeping_update:
  "(\<And>r. same_event r (f r)) \<Longrightarrow> bookkeeping d (d\<lparr>outbox := update_where P f (outbox d)\<rparr>)"
  unfolding bookkeeping_def
  by (intro exI [of _ "update_where P f (outbox d)"])
    (auto simp: update_where_def list_all2_map2 intro!: list_all2_refl)

lemma outbox_statements:
  "ClaimOutboxBatch lease n ev d = Inr (rs, d') \<Longrightarrow> bookkeeping d d'"
  "RescheduleOutbox i delay m ev d = Inr (u, d') \<Longrightarrow> bookkeeping d d'"
  "DeadLetterOutbox i m ev d = Inr (u, d') \<Longrightarrow> bookkeeping d d'"
  "MarkOutboxPublished i ev d = Inr (v, d') \<Longrightarrow> d' = publish i (e_now ev) d"
  by (auto simp: ClaimOutboxBatch_def RescheduleOutbox_def DeadLetterOutbox_def MarkOutboxPublished_def
      publish_def Let_def same_event_def intro!: bookkeeping_update split: if_splits)

lemma ClaimOutboxBatch_rows:
  "ClaimOutboxBatch lease n ev d = Inr (rs, d') \<Longrightarrow> r \<in> set rs \<Longrightarrow> r \<in> set (outbox d')"
  by (auto simp: ClaimOutboxBatch_def Let_def)

lemma poller_fail_db: "bookkeeping (w_db w) (w_db (poller_fail cfg evt herr w))"
proof -
  obtain r1 w1 where d: "run_stmt (DeadLetterOutbox (v_id evt) (err_text herr)) w = (r1, w1)" by force
  obtain r2 w2 where s: "run_stmt (RescheduleOutbox (v_id evt) (poller_backoff cfg (v_attempts evt + 1)) (err_text herr)) w = (r2, w2)"
    by force
  have "bookkeeping (w_db w) (w_db w1)"
    using d unfolding run_stmt_def by (elim run_tx_cases) (auto dest: outbox_statements)
  moreover have "bookkeeping (w_db w) (w_db w2)"
    using s unfolding run_stmt_def by (elim run_tx_cases) (auto dest: outbox_statements)
  ultimately show ?thesis
    using d s by (simp add: poller_fail_def Let_def incDeadLetter_def split: sum.split)
qed

lemma run_stmt_frame:
  "run_stmt f w = (r, w') \<Longrightarrow> w_codec w' = w_codec w" "run_stmt f w = (r, w') \<Longrightarrow> w_env w' = w_env w"
  "run_stmt f w = (r, w') \<Longrightarrow> w_metrics w' = w_metrics w"
  unfolding run_stmt_def by (auto dest: run_tx_frame)

lemma poller_fail_frame:
  "w_env (poller_fail cfg evt herr w) = w_env w" "w_codec (poller_fail cfg evt herr w) = w_codec w"
  by (auto simp: poller_fail_def Let_def incDeadLetter_def run_stmt_frame [OF surjective_pairing]
      split: sum.split prod.split dest: run_stmt_frame)

section \<open>The handler interface\<close>

text \<open>
  What the poller needs of a handler to keep an invariant \<open>I\<close> of the database: a delivery keeps
  \<open>I\<close> and the identity of the events already there; a delivery that reports success leaves the
  event \<open>settled\<close>, and publishing a settled event keeps \<open>I\<close>; \<open>I\<close> does not depend on delivery
  bookkeeping. \<open>R\<close> is a condition on the world that never changes (the environment's behaviour).
\<close>

definition names_event :: "event \<Rightarrow> db \<Rightarrow> bool" where
  "names_event e d \<longleftrightarrow>
     (\<exists>r \<in> set (outbox d). o_id r = v_id e \<and> o_aggregate_id r = v_aggregate_id e \<and> o_event_type r = v_type e)"

lemma names_bookkeeping: "names_event e d \<Longrightarrow> bookkeeping d d' \<Longrightarrow> names_event e d'"
proof -
  assume "names_event e d" "bookkeeping d d'"
  then obtain r os where r: "r \<in> set (outbox d)" "o_id r = v_id e" "o_aggregate_id r = v_aggregate_id e"
    "o_event_type r = v_type e" and os: "d' = d\<lparr>outbox := os\<rparr>" "list_all2 same_event (outbox d) os"
    by (auto simp: names_event_def bookkeeping_def)
  obtain s where "s \<in> set os" "same_event r s"
    using r(1) os(2) by (metis in_set_conv_nth list_all2_conv_all_nth)
  then show ?thesis using r os(1) by (auto simp: names_event_def same_event_def intro!: bexI [of _ s])
qed

lemma names_publish: "names_event e d \<Longrightarrow> names_event e (publish i now d)"
proof -
  assume "names_event e d"
  then obtain r where r: "r \<in> set (outbox d)" "o_id r = v_id e" "o_aggregate_id r = v_aggregate_id e"
    "o_event_type r = v_type e" by (auto simp: names_event_def)
  have "(if o_id r = i then r\<lparr>o_published_at := Some now\<rparr> else r) \<in> set (outbox (publish i now d))"
    using r(1) by (auto simp: publish_def update_where_def)
  then show "names_event e (publish i now d)"
    unfolding names_event_def by (rule rev_bexI) (use r in simp)
qed

locale outbox_handler =
  fixes I :: "db \<Rightarrow> bool" and R :: "world \<Rightarrow> bool" and settled :: "event \<Rightarrow> db \<Rightarrow> bool" and handle :: handler
  assumes env_same: "R w \<Longrightarrow> w_env w' = w_env w \<Longrightarrow> w_codec w' = w_codec w \<Longrightarrow> R w'"
    and handle_env: "R w \<Longrightarrow> I (w_db w) \<Longrightarrow> names_event e (w_db w) \<Longrightarrow> handle e w = (r, w') \<Longrightarrow> R w'"
    and handle_inv: "R w \<Longrightarrow> I (w_db w) \<Longrightarrow> names_event e (w_db w) \<Longrightarrow> handle e w = (r, w') \<Longrightarrow> I (w_db w')"
    and handle_names: "R w \<Longrightarrow> I (w_db w) \<Longrightarrow> names_event e (w_db w) \<Longrightarrow> names_event e' (w_db w) \<Longrightarrow>
      handle e w = (r, w') \<Longrightarrow> names_event e' (w_db w')"
    and handle_settles: "R w \<Longrightarrow> I (w_db w) \<Longrightarrow> names_event e (w_db w) \<Longrightarrow> handle e w = (Inr u, w') \<Longrightarrow>
      settled e (w_db w')"
    and publish_inv: "I d \<Longrightarrow> names_event e d \<Longrightarrow> settled e d \<Longrightarrow> I (publish (v_id e) now d)"
    and bookkeeping_inv: "I d \<Longrightarrow> bookkeeping d d' \<Longrightarrow> I d'"
begin

lemma env_tx: "R w \<Longrightarrow> run_stmt f w = (x, w') \<Longrightarrow> R w'"
  unfolding run_stmt_def by (metis env_same run_tx_frame(1,4))

lemma env_fail: "R w \<Longrightarrow> R (poller_fail cfg evt herr w)"
  by (rule env_same, assumption) (simp_all add: poller_fail_frame)

lemma deliver_inv:
  assumes R: "R w" and I: "I (w_db w)" and n: "names_event (event_of r) (w_db w)"
  shows "R (deliver handle cfg r w) \<and> I (w_db (deliver handle cfg r w))
    \<and> (\<forall>e'. names_event e' (w_db w) \<longrightarrow> names_event e' (w_db (deliver handle cfg r w)))"
proof -
  obtain x w1 where h: "handle (event_of r) w = (x, w1)" by force
  have R1: "R w1" using handle_env [OF R I n h] .
  have I1: "I (w_db w1)" using handle_inv [OF R I n h] .
  have n1: "names_event e' (w_db w1)" if "names_event e' (w_db w)" for e'
    using handle_names [OF R I n that h] .
  show ?thesis
  proof (cases x)
    case (Inl herr)
    have bk: "bookkeeping (w_db w1) (w_db (poller_fail cfg (event_of r) herr w1))" by (rule poller_fail_db)
    have "R (poller_fail cfg (event_of r) herr w1)" by (rule env_fail [OF R1])
    then show ?thesis
      using h Inl bookkeeping_inv [OF I1 bk] names_bookkeeping [OF n1 bk] by (simp add: deliver_def)
  next
    case (Inr u)
    obtain y w2 where m: "run_stmt (MarkOutboxPublished (o_id r)) w1 = (y, w2)" by force
    have s: "settled (event_of r) (w_db w1)"
      using handle_settles [OF R I n] h Inr by simp
    have "w_db w2 = w_db w1 \<or> (\<exists>now. w_db w2 = publish (v_id (event_of r)) now (w_db w1))"
      using m unfolding run_stmt_def event_of_def
      by (elim run_tx_cases) (auto dest!: outbox_statements(4))
    then have "I (w_db w2) \<and> (\<forall>e'. names_event e' (w_db w) \<longrightarrow> names_event e' (w_db w2))"
      using I1 n1 names_publish publish_inv [OF I1 n1 [OF n] s] by auto
    then show ?thesis using h Inr m env_tx [OF R1 m] by (simp add: deliver_def)
  qed
qed

lemma deliver_all_inv:
  "R w \<Longrightarrow> I (w_db w) \<Longrightarrow> (\<And>r. r \<in> set rs \<Longrightarrow> names_event (event_of r) (w_db w)) \<Longrightarrow>
   R (deliver_all handle cfg rs w) \<and> I (w_db (deliver_all handle cfg rs w))"
proof (induction rs arbitrary: w)
  case (Cons r rs)
  have d: "R (deliver handle cfg r w) \<and> I (w_db (deliver handle cfg r w))
    \<and> (\<forall>e'. names_event e' (w_db w) \<longrightarrow> names_event e' (w_db (deliver handle cfg r w)))"
    by (rule deliver_inv) (use Cons.prems in auto)
  show ?case unfolding deliver_all.simps by (rule Cons.IH) (use d Cons.prems(3) in auto)
qed simp

theorem tick_inv:
  assumes R: "R w" and I: "I (w_db w)"
  shows "R (snd (poller_tick handle cfg w)) \<and> I (w_db (snd (poller_tick handle cfg w)))"
proof -
  obtain x w1 where c: "run_stmt (ClaimOutboxBatch (c_lease cfg) (nat (sint (c_batch cfg)))) w = (x, w1)" by force
  have R1: "R w1" using env_tx [OF R c] .
  have bk: "bookkeeping (w_db w) (w_db w1)"
    using c unfolding run_stmt_def by (elim run_tx_cases) (auto dest: outbox_statements)
  have I1: "I (w_db w1)" using bookkeeping_inv [OF I bk] .
  show ?thesis
  proof (cases x)
    case (Inr rows)
    have "r \<in> set (outbox (w_db w1))" if "r \<in> set rows" for r
      using c Inr that unfolding run_stmt_def by (elim run_tx_cases) (auto dest: ClaimOutboxBatch_rows)
    then have "names_event (event_of r) (w_db w1)" if "r \<in> set rows" for r
      using that by (auto simp: names_event_def event_of_def)
    from deliver_all_inv [OF R1 I1 this] show ?thesis using c Inr by (simp add: poller_tick_def)
  qed (use c R1 I1 in \<open>simp add: poller_tick_def\<close>)
qed

theorem drain_inv:
  "R w \<Longrightarrow> I (w_db w) \<Longrightarrow> poller_drain fuel handle cfg w = Some (r, w') \<Longrightarrow> R w' \<and> I (w_db w')"
proof (induction fuel arbitrary: w)
  case (Suc fuel)
  obtain x w1 where t: "poller_tick handle cfg w = (x, w1)" by force
  have "R w1 \<and> I (w_db w1)" using tick_inv [OF Suc.prems(1,2), of cfg] t by simp
  then show ?case using Suc.IH Suc.prems(3) t by (auto split: sum.splits if_splits)
qed simp

end

end
