(* ===== verification/SwitchStore.thy ===== *)
theory SwitchStore
  imports Outbox
begin

text \<open>
  \<open>internal/switch/transfer.go\<close> and \<open>store.go\<close>: requests and views, the lifecycle row with the
  transfer's fields in its JSON metadata, and the guarded, row-locked status advances that write
  the follow-up outbox event in the same transaction.
\<close>

section \<open>transfer.go\<close>

definition currencyNGN :: string where [go_const]: "currencyNGN = ''NGN''"

record create_request =
  cr_source :: string
  cr_destination :: string
  cr_amount :: amount
  cr_currency :: string
  cr_reference :: string

definition request_Validate :: "create_request \<Rightarrow> err option" where
  "request_Validate r =
     (if cr_source r = [] \<or> cr_destination r = [] \<or> cr_reference r = [] then Some (Sentinel ErrMissingField)
      else if cr_currency r \<noteq> currencyNGN then Some (Sentinel ErrUnknownCurrency)
      else if sint (Minor (cr_amount r)) \<le> 0 then Some (Sentinel ErrNonPositiveAmount)
      else None)"

record view =
  vw_id :: string
  vw_reference :: string
  vw_source :: string
  vw_destination :: string
  vw_amount :: amount
  vw_currency :: string
  vw_state :: string

section \<open>store.go: the lifecycle row\<close>

record transfer =
  tf_id :: uuid
  tf_reference :: string
  tf_source :: string
  tf_destination :: string
  tf_amount :: amount
  tf_currency :: string

record transfer_detail =
  td_id :: uuid
  td_reference :: string
  td_currency :: string
  td_status :: string
  td_source :: string
  td_destination :: string
  td_amount :: amount
  td_debit_leg :: "uuid option"
  td_initiated_at :: time

definition td_transfer :: "transfer_detail \<Rightarrow> transfer" where
  "td_transfer d = \<lparr>tf_id = td_id d, tf_reference = td_reference d, tf_source = td_source d,
     tf_destination = td_destination d, tf_amount = td_amount d, tf_currency = td_currency d\<rparr>"

text \<open>\<open>json.Marshal\<close> of \<open>transferMeta\<close> (no debit leg yet) and of \<open>transferEventPayload\<close>.\<close>

definition transferMeta :: "create_request \<Rightarrow> jsonb" where
  "transferMeta r = [(''source'', JStr (cr_source r)), (''destination'', JStr (cr_destination r)),
     (''amount_minor'', JNum (sint (Minor (cr_amount r))))]"

definition transferEventPayload :: "string \<Rightarrow> string \<Rightarrow> string \<Rightarrow> i64 \<Rightarrow> string \<Rightarrow> jsonb" where
  "transferEventPayload ref src dst amt cur =
     [(''reference'', JStr ref), (''source'', JStr src), (''destination'', JStr dst),
      (''amount_minor'', JNum (sint amt)), (''currency'', JStr cur)]"

definition eventPayload :: "transfer_detail \<Rightarrow> jsonb" where
  "eventPayload d = transferEventPayload (td_reference d) (td_source d) (td_destination d)
     (Minor (td_amount d)) (td_currency d)"

text \<open>\<open>json.Unmarshal\<close> into \<open>transferMeta\<close> with its error ignored: a field of the wrong type keeps
  its zero value; text that is no UUID leaves the allocated pointer at the nil UUID.\<close>

definition meta_string :: "jsonb \<Rightarrow> string \<Rightarrow> string" where
  "meta_string m k = (case map_of m k of Some (JStr s) \<Rightarrow> s | _ \<Rightarrow> [])"

definition meta_int64 :: "jsonb \<Rightarrow> string \<Rightarrow> i64" where
  "meta_int64 m k = (case map_of m k of Some (JNum n) \<Rightarrow> if in_i64 n then word_of_int n else 0 | _ \<Rightarrow> 0)"

definition meta_uuid :: "uuid_codec \<Rightarrow> jsonb \<Rightarrow> string \<Rightarrow> uuid option" where
  "meta_uuid c m k =
     (case map_of m k of
        Some (JStr s) \<Rightarrow> (case uuid_Parse c s of Some u \<Rightarrow> Some u | None \<Rightarrow> Some 0)
      | _ \<Rightarrow> None)"

definition detailFromRow :: "uuid_codec \<Rightarrow> tx_row \<Rightarrow> transfer_detail" where
  "detailFromRow c t =
     \<lparr>td_id = t_id t, td_reference = t_reference t, td_currency = t_currency t, td_status = t_status t,
      td_source = meta_string (t_metadata t) ''source'', td_destination = meta_string (t_metadata t) ''destination'',
      td_amount = FromMinor (meta_int64 (t_metadata t) ''amount_minor''),
      td_debit_leg = meta_uuid c (t_metadata t) ''debit_leg_tx_id'', td_initiated_at = t_initiated_at t\<rparr>"

section \<open>store.go: transactions\<close>

definition WithTx :: "'a tx \<Rightarrow> 'a act" where
  "WithTx f = run_tx ''begin tx: '' commit_triggers f"

definition create_params :: "string \<Rightarrow> create_request \<Rightarrow> insert_transfer_params" where
  "create_params key req =
     \<lparr>is_reference = cr_reference req, is_status = statusPending, is_idempotency_key = Some key,
      is_currency = cr_currency req, is_metadata = transferMeta req\<rparr>"

definition create_body :: "string \<Rightarrow> create_request \<Rightarrow> uuid tx" where
  "create_body key req ev d =
     (case InsertTransfer (create_params key req) ev d of
        Inl e \<Rightarrow> Inl (Wrap ''insert transfer: '' e [])
      | Inr (t, d1) \<Rightarrow>
          (case outbox_Append (t_id t) EventDebitRequested
                  (transferEventPayload (cr_reference req) (cr_source req) (cr_destination req)
                     (Minor (cr_amount req)) (cr_currency req)) ev d1 of
             Inl e \<Rightarrow> Inl e
           | Inr (_, d2) \<Rightarrow> Inr (t_id t, d2)))"

definition CreatePending :: "string \<Rightarrow> create_request \<Rightarrow> uuid act" where
  "CreatePending key req = WithTx (create_body key req)"

definition store_load :: "uuid \<Rightarrow> transfer_detail act" where
  "store_load i w =
     (case run_stmt (GetTransferByID i) w of
        (Inl e, w1) \<Rightarrow>
          if errors_is e ErrNoRows then (Inl (Sentinel ErrNotFound), w1)
          else (Inl (Wrap ''get transfer: '' e []), w1)
      | (Inr t, w1) \<Rightarrow> (Inr (detailFromRow (w_codec w) t), w1))"

definition loadByReference :: "string \<Rightarrow> transfer_detail act" where
  "loadByReference ref w =
     (case run_stmt (GetTransferByReference ref) w of
        (Inl e, w1) \<Rightarrow>
          if errors_is e ErrNoRows then (Inl (Sentinel ErrNotFound), w1)
          else (Inl (Wrap ''get transfer by reference: '' e []), w1)
      | (Inr t, w1) \<Rightarrow> (Inr (detailFromRow (w_codec w) t), w1))"

definition advance_body :: "uuid \<Rightarrow> string \<Rightarrow> unit tx \<Rightarrow> bool tx" where
  "advance_body i to apply_change ev d =
     (case GetTransferForUpdate i ev d of
        Inl e \<Rightarrow>
          if errors_is e ErrNoRows then Inl (Sentinel ErrNotFound)
          else Inl (Wrap ''lock transfer: '' e [])
      | Inr (row, d1) \<Rightarrow>
          if \<not> canTransitionStatus (t_status row) to then Inr (False, d1)
          else (case apply_change ev d1 of Inl e \<Rightarrow> Inl e | Inr (_, d2) \<Rightarrow> Inr (True, d2)))"

definition advance :: "uuid \<Rightarrow> string \<Rightarrow> unit tx \<Rightarrow> bool act" where
  "advance i to apply_change = WithTx (advance_body i to apply_change)"

section \<open>store.go: the status advances\<close>

definition apply_debited :: "uuid \<Rightarrow> string \<Rightarrow> jsonb \<Rightarrow> unit tx" where
  "apply_debited i leg payload ev d =
     (case SetTransferStatusAndDebitLeg statusDebited leg i ev d of
        Inl e \<Rightarrow> Inl (Wrap ''set debited: '' e [])
      | Inr (_, d1) \<Rightarrow> outbox_Append i EventDebited payload ev d1)"

definition markDebited :: "uuid \<Rightarrow> uuid \<Rightarrow> jsonb \<Rightarrow> bool act" where
  "markDebited i leg payload w =
     advance i statusDebited (apply_debited i (uuid_String (w_codec w) leg) payload) w"

definition apply_settled :: "uuid \<Rightarrow> unit tx" where
  "apply_settled i ev d =
     (case SetTransferSettled i ev d of Inl e \<Rightarrow> Inl (Wrap ''set settled: '' e []) | Inr r \<Rightarrow> Inr r)"

definition markSettled :: "uuid \<Rightarrow> bool act" where
  "markSettled i = advance i statusSettled (apply_settled i)"

definition apply_status :: "string \<Rightarrow> string \<Rightarrow> uuid \<Rightarrow> unit tx" where
  "apply_status pre status i ev d =
     (case SetTransferStatus i status ev d of Inl e \<Rightarrow> Inl (Wrap pre e []) | Inr r \<Rightarrow> Inr r)"

definition apply_in_doubt :: "uuid \<Rightarrow> jsonb \<Rightarrow> unit tx" where
  "apply_in_doubt i payload ev d =
     (case apply_status ''set in_doubt: '' statusInDoubt i ev d of
        Inl e \<Rightarrow> Inl e
      | Inr (_, d1) \<Rightarrow> outbox_Append i EventInDoubt payload ev d1)"

definition markInDoubt :: "uuid \<Rightarrow> jsonb \<Rightarrow> bool act" where
  "markInDoubt i payload = advance i statusInDoubt (apply_in_doubt i payload)"

definition apply_reversal_pending :: "uuid \<Rightarrow> jsonb \<Rightarrow> unit tx" where
  "apply_reversal_pending i payload ev d =
     (case apply_status ''set reversal_pending: '' statusReversalPending i ev d of
        Inl e \<Rightarrow> Inl e
      | Inr (_, d1) \<Rightarrow> outbox_Append i EventReversalRequested payload ev d1)"

definition markReversalPending :: "uuid \<Rightarrow> jsonb \<Rightarrow> bool act" where
  "markReversalPending i payload = advance i statusReversalPending (apply_reversal_pending i payload)"

definition markReversed :: "uuid \<Rightarrow> bool act" where
  "markReversed i = advance i statusReversed (apply_status ''set reversed: '' statusReversed i)"

definition markManualReview :: "uuid \<Rightarrow> bool act" where
  "markManualReview i = advance i statusManualReview (apply_status ''set manual_review: '' statusManualReview i)"

definition markFailed :: "uuid \<Rightarrow> bool act" where
  "markFailed i = advance i statusFailed (apply_status ''set failed: '' statusFailed i)"

definition store_RequeueReversal :: "string \<Rightarrow> (transfer_state \<times> bool) act" where
  "store_RequeueReversal ref w =
     (case loadByReference ref w of
        (Inl e, w1) \<Rightarrow> (Inl e, w1)
      | (Inr det, w1) \<Rightarrow>
          if td_status det \<noteq> statusReversalPending then (Inr (stateForStatus (td_status det), False), w1)
          else (case WithTx (outbox_Append (td_id det) EventReversalRequested (eventPayload det)) w1 of
              (Inl e, w2) \<Rightarrow> (Inl e, w2)
            | (Inr _, w2) \<Rightarrow> (Inr (stateForStatus (td_status det), True), w2)))"

definition view_of :: "uuid_codec \<Rightarrow> transfer_detail \<Rightarrow> view" where
  "view_of c d =
     \<lparr>vw_id = uuid_String c (td_id d), vw_reference = td_reference d, vw_source = td_source d,
      vw_destination = td_destination d, vw_amount = td_amount d, vw_currency = td_currency d,
      vw_state = state_text (stateForStatus (td_status d))\<rparr>"

definition store_Get :: "uuid \<Rightarrow> view act" where
  "store_Get i w =
     (case store_load i w of
        (Inl e, w1) \<Rightarrow> (Inl e, w1)
      | (Inr d, w1) \<Rightarrow> (Inr (view_of (w_codec w) d), w1))"

end
