(* ===== verification/SwitchClients.thy ===== *)
theory SwitchClients
  imports SwitchStore LedgerGrpc
begin

text \<open>
  The switch's view of its two partners: \<open>ledgerclient.go\<close>, which posts each leg of a transfer as a
  keyed two-entry transaction over gRPC, and \<open>railclient.go\<close>, which classifies the rail's answers.
  An RPC may lose its request or its reply; the rail's answer is the environment's (\<open>e_rail\<close>).
\<close>

section \<open>ledgerclient.go\<close>

definition settlementAccount :: string where [go_const]: "settlementAccount = ''SETTLEMENT''"

definition legKey :: "uuid_codec \<Rightarrow> uuid \<Rightarrow> string \<Rightarrow> string" where
  "legKey c i leg = uuid_String c i @ '':'' @ leg"

definition leg_request ::
  "uuid_codec \<Rightarrow> transfer \<Rightarrow> string \<Rightarrow> string \<Rightarrow> string \<Rightarrow> string \<Rightarrow> uuid option \<Rightarrow> proto_post_request" where
  "leg_request c t debit credit key ty parent =
     \<lparr>pp_reference = tf_reference t, pp_type = ty, pp_status = StatusSettled,
      pp_entries =
        [\<lparr>pe_account_code = debit, pe_direction = DIRECTION_DEBIT, pe_amount_minor = Minor (tf_amount t),
          pe_currency = tf_currency t\<rparr>,
         \<lparr>pe_account_code = credit, pe_direction = DIRECTION_CREDIT, pe_amount_minor = Minor (tf_amount t),
          pe_currency = tf_currency t\<rparr>],
      pp_metadata = [], pp_idempotency_key = key,
      pp_parent_transaction_id = (case parent of None \<Rightarrow> [] | Some p \<Rightarrow> uuid_String c p)\<rparr>"

text \<open>The generated client: the network decides what reaches the server and what comes back.\<close>

definition rpc :: "'a act \<Rightarrow> 'a act" where
  "rpc server w =
     (case take_env w of (ev, w1) \<Rightarrow>
        (case e_rpc ev of
           RpcOk \<Rightarrow> server w1
         | RpcLostRequest c m \<Rightarrow> (Inl (GrpcStatus c m), w1)
         | RpcLostReply c m \<Rightarrow> (Inl (GrpcStatus c m), snd (server w1))))"

definition client_post :: "transfer \<Rightarrow> string \<Rightarrow> string \<Rightarrow> string \<Rightarrow> string \<Rightarrow> uuid option \<Rightarrow> uuid act" where
  "client_post t debit credit key ty parent w =
     (case rpc (grpc_PostTransaction (leg_request (w_codec w) t debit credit key ty parent)) w of
        (Inl e, w1) \<Rightarrow> (Inl (Wrap (''ledger post '' @ debit @ ''->'' @ credit @ '': '') e []), w1)
      | (Inr txt, w1) \<Rightarrow>
          (case uuid_Parse (w_codec w) txt of
             None \<Rightarrow> (Inl (Wrap (''parse ledger tx id '' @ txt @ '': '') (ErrMsg ''invalid UUID'') []), w1)
           | Some i \<Rightarrow> (Inr i, w1)))"

definition PostDebitLeg :: "transfer \<Rightarrow> uuid act" where
  "PostDebitLeg t w =
     client_post t (tf_source t) settlementAccount (legKey (w_codec w) (tf_id t) ''debit'') TypeTransfer None w"

definition PostSettlementLeg :: "transfer \<Rightarrow> unit act" where
  "PostSettlementLeg t w =
     (case client_post t settlementAccount (tf_destination t) (legKey (w_codec w) (tf_id t) ''settle'') TypeTransfer None w of
        (Inl e, w1) \<Rightarrow> (Inl e, w1)
      | (Inr _, w1) \<Rightarrow> (Inr (), w1))"

definition PostReversal :: "transfer \<Rightarrow> uuid \<Rightarrow> unit act" where
  "PostReversal t parent w =
     (case client_post t settlementAccount (tf_source t) (legKey (w_codec w) (tf_id t) ''reversal'') TypeReversal (Some parent) w of
        (Inl e, w1) \<Rightarrow> (Inl e, w1)
      | (Inr _, w1) \<Rightarrow> (Inr (), w1))"

section \<open>railclient.go\<close>

datatype verdict = VerdictUnknown | VerdictSuccess | VerdictDeclined

fun verdictFromStatus :: "rail_status \<Rightarrow> verdict" where
  "verdictFromStatus RAIL_STATUS_SUCCESS = VerdictSuccess"
| "verdictFromStatus RAIL_STATUS_DECLINED = VerdictDeclined"
| "verdictFromStatus RAIL_STATUS_UNSPECIFIED = VerdictUnknown"

definition isIndeterminate :: "err \<Rightarrow> bool" where
  "isIndeterminate e \<longleftrightarrow> errors_is_deadline e \<or> errors_as_grpc e = Some GrpcDeadlineExceeded"

definition rail_call :: "string \<Rightarrow> string \<Rightarrow> verdict act" where
  "rail_call pre ref w =
     (case take_env w of (ev, w1) \<Rightarrow>
        (case e_rail ev ref of
           Inl e \<Rightarrow> if isIndeterminate e then (Inr VerdictUnknown, w1) else (Inl (Wrap pre e []), w1)
         | Inr s \<Rightarrow> (Inr (verdictFromStatus s), w1)))"

definition rail_Send :: "transfer \<Rightarrow> verdict act" where
  "rail_Send t = rail_call ''rail send: '' (tf_reference t)"

definition rail_QueryStatus :: "string \<Rightarrow> verdict act" where
  "rail_QueryStatus ref = rail_call ''rail query status: '' ref"

end
