(* ===== verification/Driver.thy ===== *)
theory Driver
  imports SwitchClients
begin

text \<open>
  The transfer engine: \<open>driver.go\<close> (one handler per outbox event, the rail callback),
  \<open>orchestrator.go\<close> (accepting a transfer), \<open>recovery.go\<close> (the start-up sweep) and the counters of
  \<open>metrics.go\<close>. Definitions only; their facts are in the theories that follow.
\<close>

section \<open>metrics.go\<close>

definition recordOutcome :: "string \<Rightarrow> world \<Rightarrow> world" where
  "recordOutcome outcome w =
     w\<lparr>w_metrics := (w_metrics w)\<lparr>m_outcomes := (m_outcomes (w_metrics w))(outcome := Suc (m_outcomes (w_metrics w) outcome))\<rparr>\<rparr>"

definition observeReversalLatency :: "time \<Rightarrow> world \<Rightarrow> world" where
  "observeReversalLatency t w =
     w\<lparr>w_metrics := (w_metrics w)\<lparr>m_reversal_latency := m_reversal_latency (w_metrics w) @ [t]\<rparr>\<rparr>"

section \<open>driver.go\<close>

record tsq_policy =
  q_attempts :: int
  q_backoff :: time

definition default_tsq :: tsq_policy where
  "default_tsq = \<lparr>q_attempts = 3, q_backoff = 500 * 1000000\<rparr>"

text \<open>\<open>onTerminal\<close> after a mark: the outcome is counted when the mark advanced the row.\<close>

definition on_terminal :: "string \<Rightarrow> bool act \<Rightarrow> bool act" where
  "on_terminal outcome mark w =
     (case mark w of
        (Inl e, w1) \<Rightarrow> (Inl e, w1)
      | (Inr adv, w1) \<Rightarrow> (Inr adv, if adv then recordOutcome outcome w1 else w1))"

definition discard :: "'a act \<Rightarrow> unit act" where
  "discard m w = (case m w of (Inl e, w1) \<Rightarrow> (Inl e, w1) | (Inr _, w1) \<Rightarrow> (Inr (), w1))"

definition isTerminalLedgerError :: "err \<Rightarrow> bool" where
  "isTerminalLedgerError e \<longleftrightarrow> errors_as_grpc e = Some GrpcNotFound \<or> errors_as_grpc e = Some GrpcInvalidArgument"

definition handleDebitRequested :: "uuid \<Rightarrow> unit act" where
  "handleDebitRequested i w =
     (case store_load i w of
        (Inl e, w1) \<Rightarrow> (Inl e, w1)
      | (Inr det, w1) \<Rightarrow>
          if td_status det \<noteq> statusPending then (Inr (), w1)
          else (case PostDebitLeg (td_transfer det) w1 of
              (Inl e, w2) \<Rightarrow>
                if isTerminalLedgerError e then discard (on_terminal statusFailed (markFailed i)) w2
                else (Inl (Wrap ''post debit leg: '' e []), w2)
            | (Inr leg, w2) \<Rightarrow> discard (markDebited i leg (eventPayload det)) w2))"

definition settle_transfer :: "transfer_detail \<Rightarrow> uuid \<Rightarrow> unit act" where
  "settle_transfer det i w =
     (case PostSettlementLeg (td_transfer det) w of
        (Inl e, w1) \<Rightarrow> (Inl (Wrap ''post settlement leg: '' e []), w1)
      | (Inr _, w1) \<Rightarrow> discard (on_terminal statusSettled (markSettled i)) w1)"

definition handleDebited :: "uuid \<Rightarrow> unit act" where
  "handleDebited i w =
     (case store_load i w of
        (Inl e, w1) \<Rightarrow> (Inl e, w1)
      | (Inr det, w1) \<Rightarrow>
          if td_status det \<noteq> statusDebited then (Inr (), w1)
          else (case rail_Send (td_transfer det) w1 of
              (Inl e, w2) \<Rightarrow> (Inl (Wrap ''rail send: '' e []), w2)
            | (Inr v, w2) \<Rightarrow>
                (case v of
                   VerdictSuccess \<Rightarrow> settle_transfer det i w2
                 | VerdictDeclined \<Rightarrow> discard (markReversalPending i (eventPayload det)) w2
                 | VerdictUnknown \<Rightarrow> discard (markInDoubt i (eventPayload det)) w2)))"

text \<open>\<open>queryStatusWithRetry\<close> with \<open>n\<close> tries left; every try but the first waits before it asks.\<close>

fun tsq_loop :: "nat \<Rightarrow> bool \<Rightarrow> time \<Rightarrow> string \<Rightarrow> world \<Rightarrow> verdict \<times> world" where
  "tsq_loop 0 first_try backoff ref w = (VerdictUnknown, w)"
| "tsq_loop (Suc n) first_try backoff ref w =
     (case (if \<not> first_try \<and> backoff > 0 then backoff_wait backoff w else (Inr (), w)) of
        (Inl _, w1) \<Rightarrow> (VerdictUnknown, w1)
      | (Inr _, w1) \<Rightarrow>
          (case rail_QueryStatus ref w1 of
             (Inr v, w2) \<Rightarrow> if v \<noteq> VerdictUnknown then (v, w2) else tsq_loop n False backoff ref w2
           | (Inl _, w2) \<Rightarrow> tsq_loop n False backoff ref w2))"

definition queryStatusWithRetry :: "tsq_policy \<Rightarrow> string \<Rightarrow> world \<Rightarrow> verdict \<times> world" where
  "queryStatusWithRetry q ref = tsq_loop (nat (q_attempts q)) True (q_backoff q) ref"

definition handleInDoubt :: "tsq_policy \<Rightarrow> uuid \<Rightarrow> unit act" where
  "handleInDoubt q i w =
     (case store_load i w of
        (Inl e, w1) \<Rightarrow> (Inl e, w1)
      | (Inr det, w1) \<Rightarrow>
          if td_status det \<noteq> statusInDoubt then (Inr (), w1)
          else (case queryStatusWithRetry q (td_reference det) w1 of (v, w2) \<Rightarrow>
              (case v of
                 VerdictSuccess \<Rightarrow> settle_transfer det i w2
               | VerdictDeclined \<Rightarrow> discard (markReversalPending i (eventPayload det)) w2
               | VerdictUnknown \<Rightarrow> discard (on_terminal statusManualReview (markManualReview i)) w2)))"

definition handleReversal :: "uuid \<Rightarrow> unit act" where
  "handleReversal i w =
     (case store_load i w of
        (Inl e, w1) \<Rightarrow> (Inl e, w1)
      | (Inr det, w1) \<Rightarrow>
          if td_status det \<noteq> statusReversalPending then (Inr (), w1)
          else (case td_debit_leg det of
              None \<Rightarrow> (Inl (ErrMsg (''reversal for '' @ uuid_String (w_codec w) i @ '' has no debit leg recorded'')), w1)
            | Some leg \<Rightarrow>
                (case PostReversal (td_transfer det) leg w1 of
                   (Inl e, w2) \<Rightarrow> (Inl (Wrap ''post reversal: '' e []), w2)
                 | (Inr _, w2) \<Rightarrow>
                     (case on_terminal statusReversed (markReversed i) w2 of
                        (Inl e, w3) \<Rightarrow> (Inl e, w3)
                      | (Inr adv, w3) \<Rightarrow>
                          if adv
                          then (case take_env w3 of (ev, w4) \<Rightarrow>
                              (Inr (), observeReversalLatency (e_now ev - td_initiated_at det) w4))
                          else (Inr (), w3)))))"

definition driver_Handle :: "tsq_policy \<Rightarrow> handler" where
  "driver_Handle q evt =
     (if v_type evt = EventDebitRequested then handleDebitRequested (v_aggregate_id evt)
      else if v_type evt = EventDebited then handleDebited (v_aggregate_id evt)
      else if v_type evt = EventInDoubt then handleInDoubt q (v_aggregate_id evt)
      else if v_type evt = EventReversalRequested then handleReversal (v_aggregate_id evt)
      else act_fail (ErrMsg (''driver: no handler for event '' @ v_type evt)))"

definition load_state :: "uuid \<Rightarrow> transfer_state act" where
  "load_state i w =
     (case store_load i w of
        (Inl e, w1) \<Rightarrow> (Inl e, w1)
      | (Inr cur, w1) \<Rightarrow> (Inr (stateForStatus (td_status cur)), w1))"

definition HandleRailCallback :: "string \<Rightarrow> verdict \<Rightarrow> transfer_state act" where
  "HandleRailCallback ref v w =
     (case loadByReference ref w of
        (Inl e, w1) \<Rightarrow> (Inl e, w1)
      | (Inr det, w1) \<Rightarrow>
          (case v of
             VerdictSuccess \<Rightarrow>
               (case (if \<not> isTerminalStatus (td_status det) then PostSettlementLeg (td_transfer det) w1 else (Inr (), w1)) of
                  (Inl e, w2) \<Rightarrow> (Inl (Wrap ''post settlement leg: '' e []), w2)
                | (Inr _, w2) \<Rightarrow>
                    (case on_terminal statusSettled (markSettled (td_id det)) w2 of
                       (Inl e, w3) \<Rightarrow> (Inl e, w3)
                     | (Inr _, w3) \<Rightarrow> load_state (td_id det) w3))
           | VerdictDeclined \<Rightarrow>
               (case markReversalPending (td_id det) (eventPayload det) w1 of
                  (Inl e, w2) \<Rightarrow> (Inl e, w2)
                | (Inr _, w2) \<Rightarrow> load_state (td_id det) w2)
           | VerdictUnknown \<Rightarrow> load_state (td_id det) w1))"

definition driver_RequeueReversal :: "string \<Rightarrow> (transfer_state \<times> bool) act" where
  "driver_RequeueReversal ref = store_RequeueReversal ref"

section \<open>orchestrator.go\<close>

text \<open>The inline debit is best effort: its error is logged.\<close>

definition orchestrator_Create :: "string \<Rightarrow> create_request \<Rightarrow> view act" where
  "orchestrator_Create key req w =
     (case request_Validate req of
        Some e \<Rightarrow> (Inl e, w)
      | None \<Rightarrow>
          (case CreatePending key req w of
             (Inl e, w1) \<Rightarrow> (Inl e, w1)
           | (Inr i, w1) \<Rightarrow> (case handleDebitRequested i w1 of (_, w2) \<Rightarrow> store_Get i w2)))"

definition orchestrator_Get :: "string \<Rightarrow> view act" where
  "orchestrator_Get txt w =
     (case uuid_Parse (w_codec w) txt of
        None \<Rightarrow> (Inl (Sentinel ErrNotFound), w)
      | Some i \<Rightarrow> store_Get i w)"

section \<open>recovery.go\<close>

definition eventForStatus :: "string \<Rightarrow> string" where
  "eventForStatus s =
     (if s = statusPending then EventDebitRequested
      else if s = statusDebited then EventDebited
      else if s = statusInDoubt then EventInDoubt
      else if s = statusReversalPending then EventReversalRequested
      else [])"

fun recover_rows :: "tx_row list \<Rightarrow> nat \<Rightarrow> world \<Rightarrow> nat \<times> world" where
  "recover_rows [] n w = (n, w)"
| "recover_rows (t # ts) n w =
     (let det = detailFromRow (w_codec w) t; evt = eventForStatus (td_status det) in
      if evt = [] then recover_rows ts n w
      else (case run_stmt (outbox_Append (td_id det) evt (eventPayload det)) w of
          (Inl _, w1) \<Rightarrow> recover_rows ts n w1
        | (Inr _, w1) \<Rightarrow> recover_rows ts (Suc n) w1))"

definition Recover :: "nat act" where
  "Recover w =
     (case run_stmt ListStuckTransfers w of
        (Inl e, w1) \<Rightarrow> (Inl e, w1)
      | (Inr rows, w1) \<Rightarrow> (case recover_rows rows 0 w1 of (n, w2) \<Rightarrow> (Inr n, w2)))"

end
