(* ===== verification/SwitchLegs.thy ===== *)
theory SwitchLegs
  imports Driver LedgerPost
begin

text \<open>
  The three ledger legs a transfer may have, read off the journal by their keys, and what one leg
  post of \<open>ledgerclient.go\<close> does to them under every fault: it leaves every other leg alone and
  makes its own at most once.
\<close>

section \<open>Legs\<close>

definition leg_names :: "string list" where
  "leg_names = [''debit'', ''settle'', ''reversal'']"

text \<open>The transaction and the entries posted under a leg's key, if any.\<close>

definition leg_fact :: "uuid_codec \<Rightarrow> db \<Rightarrow> uuid \<Rightarrow> string \<Rightarrow> (uuid \<times> entry list) option" where
  "leg_fact c d i leg =
     map_option (\<lambda>t. (t_id t, tx_entries (t_id t) (entries d))) (find_tx_by_key (legKey c i leg) d)"

definition leg_posts :: "db \<Rightarrow> entry list \<Rightarrow> string \<Rightarrow> string \<Rightarrow> i64 \<Rightarrow> bool" where
  "leg_posts d es dr cr amt \<longleftrightarrow>
     (\<exists>e1 e2 a1 a2. es = [e1, e2] \<and> e_direction e1 = Debit \<and> e_direction e2 = Credit
        \<and> e_amount_minor e1 = amt \<and> e_amount_minor e2 = amt
        \<and> find_account dr d = Some a1 \<and> e_account_id e1 = a_id a1
        \<and> find_account cr d = Some a2 \<and> e_account_id e2 = a_id a2)"

lemma leg_posts_accounts: "accounts d' = accounts d \<Longrightarrow> leg_posts d' es dr cr amt = leg_posts d es dr cr amt"
  by (simp add: leg_posts_def find_account_def)

lemma uuid_String_inj: "codec_ok c \<Longrightarrow> uuid_String c i = uuid_String c j \<Longrightarrow> i = j"
  unfolding codec_ok_def by (metis option.inject)

lemma append_suffix_eq:
  "xs @ s = ys @ t \<Longrightarrow> length s = length t \<Longrightarrow> xs = ys \<and> s = t"
  by simp

lemma legKey_inj:
  assumes c: "codec_ok c" and l: "l \<in> set leg_names" "m \<in> set leg_names" and eq: "legKey c i l = legKey c j m"
  shows "i = j \<and> l = m"
proof -
  have "last (legKey c i l) = last (legKey c j m)" using eq by simp
  then have "l = m" using l by (auto simp: legKey_def leg_names_def)
  then show ?thesis using eq uuid_String_inj [OF c] by (auto simp: legKey_def)
qed

lemma legKey_not_Nil [simp]: "legKey c i l \<noteq> []"
  by (simp add: legKey_def)

section \<open>A new transaction leaves the other legs alone\<close>

text \<open>What a post under key \<open>k\<close> adds: one transaction with that key and no metadata, and entries that
  are all its own.\<close>

definition post_frame :: "string \<Rightarrow> db \<Rightarrow> db \<Rightarrow> tx_row \<Rightarrow> entry list \<Rightarrow> bool" where
  "post_frame k d d' t added \<longleftrightarrow>
     accounts d' = accounts d \<and> transactions d' = transactions d @ [t] \<and> entries d' = entries d @ added
     \<and> t_idempotency_key t = Some k \<and> t_metadata t = [] \<and> t_status t = StatusSettled \<and> t_id t \<notin> t_id ` set (transactions d)
     \<and> (\<forall>e \<in> set added. e_transaction_id e = t_id t)
     \<and> find_tx_by_key k d = None \<and> outbox d' = outbox d \<and> outbox_seq d' = outbox_seq d
     \<and> idem_keys d' = idem_keys d"

lemma tx_entries_added_other:
  "post_frame k d d' t added \<Longrightarrow> j \<noteq> t_id t \<Longrightarrow> tx_entries j (entries d') = tx_entries j (entries d)"
  by (auto simp: post_frame_def tx_entries_def filter_empty_conv)

lemma tx_entries_fresh:
  assumes "ledger_inv d" "j \<notin> t_id ` set (transactions d)"
  shows "tx_entries j (entries d) = []"
  using assms ledger_invD(3) [OF assms(1)] by (auto simp: tx_entries_def filter_empty_conv entry_wf_def)

lemma leg_fact_other:
  assumes f: "post_frame k d d' t added" and k: "legKey c i l \<noteq> k"
  shows "leg_fact c d' i l = leg_fact c d i l"
proof -
  have find: "find_tx_by_key (legKey c i l) d' = find_tx_by_key (legKey c i l) d"
    using f k by (auto simp: post_frame_def find_tx_by_key_def find_append split: option.splits)
  have "tx_entries (t_id u) (entries d') = tx_entries (t_id u) (entries d)"
    if "find_tx_by_key (legKey c i l) d = Some u" for u
  proof (rule tx_entries_added_other [OF f])
    show "t_id u \<noteq> t_id t"
      using find_tx_by_key_mem [OF that] f unfolding post_frame_def by (metis imageI)
  qed
  then show ?thesis by (cases "find_tx_by_key (legKey c i l) d") (simp_all add: leg_fact_def find)
qed

lemma leg_fact_new:
  assumes f: "post_frame (legKey c i l) d d' t added" and inv: "ledger_inv d"
  shows "leg_fact c d i l = None \<and> leg_fact c d' i l = Some (t_id t, added)"
proof -
  have none: "find_tx_by_key (legKey c i l) d = None" using f by (simp add: post_frame_def)
  then have "find_tx_by_key (legKey c i l) d' = Some t"
    using f by (simp add: post_frame_def find_tx_by_key_def find_append)
  moreover have "tx_entries (t_id t) (entries d') = added"
    using f tx_entries_fresh [OF inv, of "t_id t"] by (auto simp: post_frame_def tx_entries_def filter_id_conv)
  ultimately show ?thesis using none by (simp add: leg_fact_def)
qed

lemma posting_frame:
  assumes p: "posting req i d d' t accs added" and ne: "pr_idempotency_key req \<noteq> []" and m: "pr_metadata req = []"
    and st: "pr_status req = StatusSettled"
  shows "post_frame (pr_idempotency_key req) d d' t added"
proof -
  have key: "t_idempotency_key t = Some (pr_idempotency_key req)"
    using postingD(11) [OF p] ne by (simp add: post_params_def)
  have "find_tx_by_key (pr_idempotency_key req) d = None"
    using taken_key_clash [OF _ key] postingD(6) [OF p] by (cases "find_tx_by_key (pr_idempotency_key req) d") auto
  moreover have "t_metadata t = []" using p m by (auto simp: posting_def marshalMetadata_def)
  moreover have "t_status t = StatusSettled" using p st by (auto simp: posting_def post_params_def go_const)
  moreover have "outbox_seq d' = outbox_seq d" using p by (auto simp: posting_def)
  ultimately show ?thesis
    using key postingD(1-3,5,9,10) [OF p] posting_fresh [OF p] posting_accounts(1) [OF p]
    by (simp add: post_frame_def)
qed

section \<open>One leg post\<close>

definition leg_post :: "uuid_codec \<Rightarrow> transfer \<Rightarrow> string \<Rightarrow> string \<Rightarrow> string \<Rightarrow> string \<Rightarrow> uuid option \<Rightarrow> post_request" where
  "leg_post c t dr cr key ty parent = post_from_proto (leg_request c t dr cr key ty parent) parent"

lemma leg_post_simps [simp]:
  "pr_idempotency_key (leg_post c t dr cr key ty parent) = key"
  "pr_metadata (leg_post c t dr cr key ty parent) = []"
  "pr_status (leg_post c t dr cr key ty parent) = StatusSettled"
  "pr_entries (leg_post c t dr cr key ty parent) =
     [\<lparr>ei_account_code = dr, ei_direction = Debit, ei_amount = tf_amount t, ei_currency = tf_currency t\<rparr>,
      \<lparr>ei_account_code = cr, ei_direction = Credit, ei_amount = tf_amount t, ei_currency = tf_currency t\<rparr>]"
  by (simp_all add: leg_post_def post_from_proto_def leg_request_def entry_from_proto_def)

lemma leg_post_validate: "0 < sint (tf_amount t) \<Longrightarrow> validate (leg_post c t dr cr key ty parent) = None"
  by (simp add: validate_None_iff)

lemma posting_leg_posts:
  assumes p: "posting (leg_post c t dr cr key ty parent) i d d' u accs added"
  shows "leg_posts d added dr cr (tf_amount t)"
proof -
  have l: "list_all2 (entry_posts i accs) (pr_entries (leg_post c t dr cr key ty parent)) added"
    and known: "\<forall>e \<in> set (pr_entries (leg_post c t dr cr key ty parent)). map_of accs (ei_account_code e) \<noteq> None"
    and res: "resolved d accs"
    using p unfolding posting_def by blast+
  from known obtain a1 a2 where a: "map_of accs dr = Some a1" "map_of accs cr = Some a2" by auto
  have "find_account dr d = Some a1" "find_account cr d = Some a2"
    using res a by (auto simp: resolved_def dest: map_of_SomeD)
  moreover obtain e1 e2 where "added = [e1, e2]"
    using l by (auto simp: list_all2_Cons1)
  ultimately show ?thesis
    using l a by (auto simp: leg_posts_def entry_posts_def account_id_of_def)
qed

lemma codec_parse: "codec_ok c \<Longrightarrow> uuid_Parse c (uuid_String c i) = Some i"
  by (simp add: codec_ok_def)

text \<open>\<open>parent_ok\<close>: the textual form of the parent is not empty (a parent is always sent).\<close>

definition codec_nonempty :: "uuid_codec \<Rightarrow> bool" where
  "codec_nonempty c \<longleftrightarrow> (\<forall>i. uuid_String c i \<noteq> [])"

lemma grpc_leg_post:
  assumes "codec_ok (w_codec w)" "codec_nonempty (w_codec w)" "w_codec w = c"
  shows "grpc_PostTransaction (leg_request c t dr cr key ty parent) w =
    (case PostTransaction (leg_post c t dr cr key ty parent) w of
       (Inl e, w1) \<Rightarrow> (Inl (postErrToStatus e), w1) | (Inr i, w1) \<Rightarrow> (Inr (uuid_String (w_codec w) i), w1))"
  using assms
  by (cases parent)
    (auto simp: grpc_PostTransaction_def leg_post_def leg_request_def codec_parse codec_nonempty_def Let_def)

text \<open>The network as the environment may show it: it never makes up a business answer.\<close>

definition net_ok :: "env \<Rightarrow> bool" where
  "net_ok ev \<longleftrightarrow>
     (case e_rpc ev of
        RpcOk \<Rightarrow> True
      | RpcLostRequest g _ \<Rightarrow> g \<notin> {GrpcNotFound, GrpcInvalidArgument}
      | RpcLostReply g _ \<Rightarrow> g \<notin> {GrpcNotFound, GrpcInvalidArgument})"

definition world_ok :: "world \<Rightarrow> bool" where
  "world_ok w \<longleftrightarrow> codec_ok (w_codec w) \<and> codec_nonempty (w_codec w) \<and> (\<forall>n. net_ok (w_env w n))"

lemma world_ok_same: "world_ok w \<Longrightarrow> w_env w' = w_env w \<Longrightarrow> w_codec w' = w_codec w \<Longrightarrow> world_ok w'"
  by (simp add: world_ok_def)

lemma grpc_leg_frame:
  "act_frame (grpc_PostTransaction req)"
proof -
  have "w_env w' = w_env w \<and> w_codec w' = w_codec w" if "grpc_PostTransaction req w = (r, w')" for w r w'
    using that act_frameD [OF PostTransaction_frame]
    by (auto simp: grpc_PostTransaction_def Let_def split: if_splits option.splits sum.splits prod.splits)
  then show ?thesis by (simp add: act_frame_def)
qed

lemma rpc_frame: "act_frame server \<Longrightarrow> act_frame (rpc server)"
proof -
  assume s: "act_frame server"
  have "w_env w' = w_env w \<and> w_codec w' = w_codec w" if r: "rpc server w = (r, w')" for w r w'
  proof -
    let ?w1 = "w\<lparr>w_tick := Suc (w_tick w)\<rparr>"
    obtain x w2 where x: "server ?w1 = (x, w2)" by force
    have "w_env w2 = w_env w \<and> w_codec w2 = w_codec w" using act_frameD [OF s x] by simp
    then show ?thesis using r x by (auto simp: rpc_def take_env_def split: rpc_fault.splits)
  qed
  then show ?thesis by (simp add: act_frame_def)
qed

lemma client_post_frame: "act_frame (client_post t dr cr key ty parent)"
proof -
  have "w_env w' = w_env w \<and> w_codec w' = w_codec w" if "client_post t dr cr key ty parent w = (r, w')" for w r w'
    using that act_frameD [OF rpc_frame [OF grpc_leg_frame]]
    by (auto simp: client_post_def split: sum.splits prod.splits option.splits)
  then show ?thesis by (simp add: act_frame_def)
qed

text \<open>What a leg post did to the database.\<close>

definition leg_written ::
  "uuid_codec \<Rightarrow> transfer \<Rightarrow> string \<Rightarrow> string \<Rightarrow> string \<Rightarrow> string \<Rightarrow> uuid option \<Rightarrow> db \<Rightarrow> db \<Rightarrow> bool" where
  "leg_written c t dr cr key ty parent d d' \<longleftrightarrow>
     ledger_inv d'
     \<and> (d' = d \<or> (\<exists>u added. post_frame key d d' u added \<and> t_type u = ty \<and> t_parent u = parent
          \<and> leg_posts d added dr cr (tf_amount t)))"

lemma PostTransaction_leg:
  assumes inv: "ledger_inv (w_db w)" and k: "key \<noteq> []"
    and run: "PostTransaction (leg_post c t dr cr key ty parent) w = (r, w')"
  shows "leg_written c t dr cr key ty parent (w_db w) (w_db w')
    \<and> (\<forall>i. r = Inr i \<longrightarrow> (\<exists>u. find_tx_by_key key (w_db w') = Some u \<and> t_id u = i))"
proof -
  let ?req = "leg_post c t dr cr key ty parent"
  have k': "pr_idempotency_key ?req \<noteq> []" using k by simp
  have "posts_once ?req (w_db w) (w_db w')"
    by (rule act_stepD [OF PostTransaction_once [OF k'] run])
  then have once: "ledger_inv (w_db w')" "w_db w' = w_db w \<or> (\<exists>i u accs added. posting ?req i (w_db w) (w_db w') u accs added)"
    using inv unfolding posts_once_def by blast+
  have kind: "t_type u = ty \<and> t_parent u = parent" if "posting ?req i (w_db w) (w_db w') u accs added" for i u accs added
    using that by (auto simp: posting_def leg_post_def post_from_proto_def leg_request_def)
  have "leg_written c t dr cr key ty parent (w_db w) (w_db w')"
    unfolding leg_written_def
    using once posting_frame [OF _ k', simplified] posting_leg_posts kind by (metis leg_post_simps(1,2,3))
  moreover have "\<exists>u. find_tx_by_key key (w_db w') = Some u \<and> t_id u = i" if "r = Inr i" for i
    using PostTransaction_Inr [OF run [unfolded that] inv k'] by simp
  ultimately show ?thesis by blast
qed

definition leg_possible :: "db \<Rightarrow> transfer \<Rightarrow> string \<Rightarrow> string \<Rightarrow> bool" where
  "leg_possible d t dr cr \<longleftrightarrow> 0 < sint (tf_amount t) \<and> find_account dr d \<noteq> None \<and> find_account cr d \<noteq> None"

lemma PostTransaction_leg_error:
  assumes inv: "ledger_inv (w_db w)" and k: "key \<noteq> []"
    and run: "PostTransaction (leg_post c t dr cr key ty parent) w = (Inl e, w')"
    and terminal: "isTerminalLedgerError (postErrToStatus e)"
  shows "w_db w' = w_db w \<and> \<not> leg_possible (w_db w) t dr cr"
proof -
  let ?req = "leg_post c t dr cr key ty parent"
  have not_possible: "\<not> leg_possible (w_db w) t dr cr"
  proof
    assume p: "leg_possible (w_db w) t dr cr"
    then have "validate ?req = None" by (simp add: leg_possible_def leg_post_validate)
    moreover have "codes_known ?req (w_db w)" using p by (simp add: leg_possible_def codes_known_def)
    ultimately have "transient e" using PostTransaction_transient [OF run _ inv] by blast
    then show False
      using postErrToStatus_transient [of e] terminal by (auto simp: isTerminalLedgerError_def)
  qed
  have "w_db w' = w_db w"
  proof (cases "validate ?req")
    case (Some x)
    then show ?thesis using run by (simp add: PostTransaction_def)
  next
    case None
    show ?thesis
    proof (rule ccontr)
      assume "w_db w' \<noteq> w_db w"
      then obtain added where "leg_posts (w_db w) added dr cr (tf_amount t)"
        using PostTransaction_leg [OF inv k run] by (auto simp: leg_written_def)
      then show False
        using None not_possible by (auto simp: leg_possible_def leg_posts_def validate_None_iff)
    qed
  qed
  then show ?thesis using not_possible by simp
qed

lemma client_post_spec:
  assumes ok: "world_ok w" and inv: "ledger_inv (w_db w)" and k: "key \<noteq> []"
    and run: "client_post t dr cr key ty parent w = (r, w')"
  shows "leg_written (w_codec w) t dr cr key ty parent (w_db w) (w_db w')
    \<and> (\<forall>i. r = Inr i \<longrightarrow> (\<exists>u. find_tx_by_key key (w_db w') = Some u \<and> t_id u = i))
    \<and> (\<forall>e. r = Inl e \<longrightarrow> isTerminalLedgerError e \<longrightarrow> w_db w' = w_db w \<and> \<not> leg_possible (w_db w) t dr cr)"
proof -
  let ?c = "w_codec w" and ?w1 = "w\<lparr>w_tick := Suc (w_tick w)\<rparr>"
  let ?req = "leg_request ?c t dr cr key ty parent"
  have c: "codec_ok (w_codec ?w1)" "codec_nonempty (w_codec ?w1)" and net: "net_ok (w_env w (w_tick w))"
    using ok by (auto simp: world_ok_def)
  obtain x w2 where p: "PostTransaction (leg_post ?c t dr cr key ty parent) ?w1 = (x, w2)" by force
  have g: "grpc_PostTransaction ?req ?w1 =
      (case x of Inl e \<Rightarrow> (Inl (postErrToStatus e), w2) | Inr i \<Rightarrow> (Inr (uuid_String ?c i), w2))"
    using grpc_leg_post [OF c, of ?c t dr cr key ty parent] p by (auto split: sum.splits)
  have inv1: "ledger_inv (w_db ?w1)" using inv by simp
  note leg = PostTransaction_leg [OF inv1 k p]
  have w2c: "w_codec w2 = ?c" using act_frameD [OF PostTransaction_frame p] by simp
  have same: "leg_written ?c t dr cr key ty parent (w_db w) (w_db w)" using inv by (simp add: leg_written_def)
  show ?thesis
  proof (cases "e_rpc (w_env w (w_tick w))")
    case RpcOk
    show ?thesis
    proof (cases x)
      case (Inl e)
      have "r = Inl (Wrap (''ledger post '' @ dr @ ''->'' @ cr @ '': '') (postErrToStatus e) [])" "w' = w2"
        using run RpcOk g Inl by (auto simp: client_post_def rpc_def take_env_def)
      moreover have "w_db w2 = w_db w \<and> \<not> leg_possible (w_db w) t dr cr" if "isTerminalLedgerError (postErrToStatus e)"
        using PostTransaction_leg_error [OF inv1 k p [unfolded Inl] that] by simp
      ultimately show ?thesis using leg by (simp add: isTerminalLedgerError_def)
    next
      case (Inr i)
      have "r = Inr i" "w' = w2"
        using run RpcOk g Inr c(1) w2c by (auto simp: client_post_def rpc_def take_env_def codec_parse)
      then show ?thesis using leg Inr by simp
    qed
  next
    case (RpcLostRequest gc m)
    then have "r = Inl (Wrap (''ledger post '' @ dr @ ''->'' @ cr @ '': '') (GrpcStatus gc m) [])" "w_db w' = w_db w"
      using run by (auto simp: client_post_def rpc_def take_env_def)
    then show ?thesis using same net RpcLostRequest by (auto simp: isTerminalLedgerError_def net_ok_def)
  next
    case (RpcLostReply gc m)
    then have "r = Inl (Wrap (''ledger post '' @ dr @ ''->'' @ cr @ '': '') (GrpcStatus gc m) [])" "w_db w' = w_db w2"
      using run g by (auto simp: client_post_def rpc_def take_env_def split: sum.splits)
    then show ?thesis using leg net RpcLostReply by (auto simp: isTerminalLedgerError_def net_ok_def)
  qed
qed

end
