(* ===== verification/SwitchInv.thy ===== *)
theory SwitchInv
  imports SwitchLegs
begin

text \<open>
  The invariant of the switch over the shared database, and the four ways its operations change the
  database: a leg post, a status advance, a new transfer, outbox bookkeeping. \<open>truth\<close> is what the
  rail really did with a reference.
\<close>

section \<open>The invariant\<close>

definition leg_sides :: "transfer_detail \<Rightarrow> string \<Rightarrow> string \<times> string" where
  "leg_sides det leg =
     (if leg = ''debit'' then (td_source det, settlementAccount)
      else if leg = ''settle'' then (settlementAccount, td_destination det)
      else (settlementAccount, td_source det))"

definition statuses_match :: "(string \<Rightarrow> rail_status) \<Rightarrow> uuid_codec \<Rightarrow> tx_row
    \<Rightarrow> (string \<Rightarrow> (uuid \<times> entry list) option) \<Rightarrow> bool" where
  "statuses_match truth c t leg \<longleftrightarrow>
     t_status t \<in> set switch_statuses
     \<and> (t_status t = statusPending \<longrightarrow> leg ''settle'' = None)
     \<and> (t_status t = statusFailed \<longrightarrow> leg ''debit'' = None \<and> leg ''settle'' = None)
     \<and> (t_status t \<notin> {statusPending, statusFailed} \<longrightarrow>
          (\<exists>v es. leg ''debit'' = Some (v, es) \<and> td_debit_leg (detailFromRow c t) = Some v))
     \<and> (leg ''reversal'' \<noteq> None \<longrightarrow> t_status t \<in> {statusReversalPending, statusReversed})
     \<and> (leg ''settle'' \<noteq> None \<longrightarrow> truth (t_reference t) = RAIL_STATUS_SUCCESS)
     \<and> (t_status t \<in> {statusReversalPending, statusReversed} \<longrightarrow> truth (t_reference t) = RAIL_STATUS_DECLINED)
     \<and> (t_status t = statusSettled \<longrightarrow> leg ''settle'' \<noteq> None)
     \<and> (t_status t = statusReversed \<longrightarrow> leg ''reversal'' \<noteq> None)"

definition legs_match :: "uuid_codec \<Rightarrow> db \<Rightarrow> tx_row \<Rightarrow> bool" where
  "legs_match c d t \<longleftrightarrow>
     (\<forall>l \<in> set leg_names. \<forall>v es. leg_fact c d (t_id t) l = Some (v, es) \<longrightarrow>
        leg_posts d es (fst (leg_sides (detailFromRow c t) l)) (snd (leg_sides (detailFromRow c t) l))
          (td_amount (detailFromRow c t)))"

definition transfer_ok :: "(string \<Rightarrow> rail_status) \<Rightarrow> uuid_codec \<Rightarrow> db \<Rightarrow> tx_row \<Rightarrow> bool" where
  "transfer_ok truth c d t \<longleftrightarrow>
     t_type t = ''transfer'' \<and> statuses_match truth c t (leg_fact c d (t_id t)) \<and> legs_match c d t"

definition legs_owned :: "uuid_codec \<Rightarrow> db \<Rightarrow> bool" where
  "legs_owned c d \<longleftrightarrow>
     (\<forall>u \<in> set (transactions d). \<forall>i. \<forall>l \<in> set leg_names. t_idempotency_key u = Some (legKey c i l) \<longrightarrow>
        \<not> lifecycle u \<and> (\<exists>t \<in> set (transactions d). lifecycle t \<and> t_id t = i))"

definition outbox_wf :: "db \<Rightarrow> bool" where
  "outbox_wf d \<longleftrightarrow> distinct (map o_id (outbox d)) \<and> (\<forall>r \<in> set (outbox d). o_id r < outbox_seq d)
     \<and> (\<forall>r \<in> set (outbox d). \<exists>t \<in> set (transactions d). lifecycle t \<and> t_id t = o_aggregate_id r)"

text \<open>The recovery sweep reads \<open>transactions\<close> by type and status alone; the rows it may pick up are
  transfers, since the switch posts every leg as settled.\<close>

definition sweep_owned :: "db \<Rightarrow> bool" where
  "sweep_owned d \<longleftrightarrow> (\<forall>t \<in> set (transactions d). resumable t \<longrightarrow> lifecycle t)"

text \<open>A refund names the debit it reverses, and only refunds posted by the switch are reversals with a
  parent.\<close>

definition refunds_owned :: "uuid_codec \<Rightarrow> db \<Rightarrow> bool" where
  "refunds_owned c d \<longleftrightarrow>
     (\<forall>u \<in> set (transactions d).
        (t_type u = ''reversal'' \<and> t_parent u \<noteq> None \<longrightarrow> (\<exists>i. t_idempotency_key u = Some (legKey c i ''reversal'')))
        \<and> (\<forall>i. t_idempotency_key u = Some (legKey c i ''reversal'') \<longrightarrow>
             t_type u = ''reversal'' \<and> (\<exists>p es. t_parent u = Some p \<and> leg_fact c d i ''debit'' = Some (p, es))))"

text \<open>The switch posts nothing but legs.\<close>

definition entries_owned :: "uuid_codec \<Rightarrow> db \<Rightarrow> bool" where
  "entries_owned c d \<longleftrightarrow>
     (\<forall>e \<in> set (entries d). \<exists>u \<in> set (transactions d). t_id u = e_transaction_id e
        \<and> (\<exists>i. \<exists>l \<in> set leg_names. t_idempotency_key u = Some (legKey c i l)))"

text \<open>No dual-write window: a transfer that still has to move has an undelivered event that moves it.\<close>

definition driven :: "db \<Rightarrow> tx_row \<Rightarrow> bool" where
  "driven d t \<longleftrightarrow> eventForStatus (t_status t) \<noteq> [] \<longrightarrow>
     (\<exists>r \<in> set (outbox d). o_aggregate_id r = t_id t \<and> o_event_type r = eventForStatus (t_status t)
        \<and> o_published_at r = None)"

definition sw_inv :: "(string \<Rightarrow> rail_status) \<Rightarrow> uuid_codec \<Rightarrow> db \<Rightarrow> bool" where
  "sw_inv truth c d \<longleftrightarrow> codec_ok c \<and> ledger_inv d \<and> legs_owned c d \<and> outbox_wf d \<and> sweep_owned d \<and> refunds_owned c d
     \<and> entries_owned c d \<and> (\<forall>t \<in> set (transactions d). lifecycle t \<longrightarrow> transfer_ok truth c d t \<and> driven d t)"

lemma sw_invD:
  assumes "sw_inv truth c d"
  shows "codec_ok c" "ledger_inv d" "legs_owned c d" "outbox_wf d"
    "\<And>t. t \<in> set (transactions d) \<Longrightarrow> lifecycle t \<Longrightarrow> transfer_ok truth c d t"
    "\<And>t. t \<in> set (transactions d) \<Longrightarrow> lifecycle t \<Longrightarrow> driven d t"
    "sweep_owned d" "refunds_owned c d" "entries_owned c d"
  using assms unfolding sw_inv_def by blast+

lemma legs_match_cong:
  assumes "accounts d' = accounts d" "\<And>l. l \<in> set leg_names \<Longrightarrow> leg_fact c d' (t_id t) l = leg_fact c d (t_id t) l"
  shows "legs_match c d' t = legs_match c d t"
  using assms by (simp add: legs_match_def leg_posts_accounts [OF assms(1)])

lemma statuses_match_cong:
  assumes "\<And>l. l \<in> set leg_names \<Longrightarrow> f l = g l"
  shows "statuses_match truth c t f = statuses_match truth c t g"
  using assms by (simp add: statuses_match_def leg_names_def)

lemma transfer_ok_cong:
  assumes "accounts d' = accounts d" "\<And>l. l \<in> set leg_names \<Longrightarrow> leg_fact c d' (t_id t) l = leg_fact c d (t_id t) l"
  shows "transfer_ok truth c d' t = transfer_ok truth c d t"
  using legs_match_cong [OF assms] statuses_match_cong [OF assms(2)] by (simp add: transfer_ok_def)

section \<open>Rows are identified by their id\<close>

lemma tx_unique_distinct: "tx_unique d \<Longrightarrow> distinct (map t_id (transactions d))"
proof -
  assume "tx_unique d"
  then have "sorted_wrt (\<lambda>u t. t_id u \<noteq> t_id t) (transactions d)"
    unfolding tx_unique_def by (rule sorted_wrt_mono_rel [rotated]) (auto simp: tx_clash_def)
  then have "sorted_wrt (\<noteq>) (map t_id (transactions d))" by (simp add: sorted_wrt_map)
  then show ?thesis by (simp add: strict_sorted_iff distinct_conv_nth sorted_wrt_iff_nth_less) (metis linorder_neqE_nat)
qed

lemma row_by_id:
  "ledger_inv d \<Longrightarrow> t \<in> set (transactions d) \<Longrightarrow> u \<in> set (transactions d) \<Longrightarrow> t_id t = t_id u \<Longrightarrow> t = u"
  using tx_unique_distinct [OF ledger_invD(2)] by (auto simp: distinct_map dest: inj_onD)

lemma find_tx_row:
  "ledger_inv d \<Longrightarrow> t \<in> set (transactions d) \<Longrightarrow> find_tx (t_id t) d = Some t"
  unfolding find_tx_def using find_distinct_key [OF tx_unique_distinct [OF ledger_invD(2)]] .

section \<open>A leg post\<close>

text \<open>When a transfer's row admits a leg.\<close>

definition admits :: "(string \<Rightarrow> rail_status) \<Rightarrow> tx_row \<Rightarrow> string \<Rightarrow> bool" where
  "admits truth t leg \<longleftrightarrow>
     (if leg = ''debit'' then t_status t \<noteq> statusFailed
      else if leg = ''settle'' then t_status t \<notin> {statusPending, statusFailed} \<and> truth (t_reference t) = RAIL_STATUS_SUCCESS
      else t_status t \<in> {statusReversalPending, statusReversed})"

lemma not_lifecycle_Nil: "t_metadata u = [] \<Longrightarrow> \<not> lifecycle u"
  by (simp add: lifecycle_def json_has_key_def)

lemma legs_owned_post:
  assumes own: "legs_owned c d" and c: "codec_ok c" and f: "post_frame (legKey c i l) d d' u added"
    and l: "l \<in> set leg_names" and t: "t \<in> set (transactions d)" "lifecycle t" "t_id t = i"
  shows "legs_owned c d'"
  unfolding legs_owned_def
proof (intro ballI allI impI)
  fix x j m
  assume x: "x \<in> set (transactions d')" and m: "m \<in> set leg_names" and k: "t_idempotency_key x = Some (legKey c j m)"
  have tx: "transactions d' = transactions d @ [u]" using f by (simp add: post_frame_def)
  show "\<not> lifecycle x \<and> (\<exists>t \<in> set (transactions d'). lifecycle t \<and> t_id t = j)"
  proof (cases "x = u")
    case True
    then have eq: "legKey c j m = legKey c i l" "\<not> lifecycle x"
      using f k not_lifecycle_Nil by (auto simp: post_frame_def)
    then show ?thesis using legKey_inj [OF c m l eq(1)] t tx by auto
  next
    case False
    then have "x \<in> set (transactions d)" using x tx by simp
    then show ?thesis using own m k tx by (auto simp: legs_owned_def)
  qed
qed

text \<open>The type and parent a leg is posted with.\<close>

definition leg_kind :: "uuid_codec \<Rightarrow> db \<Rightarrow> uuid \<Rightarrow> string \<Rightarrow> string \<Rightarrow> uuid option \<Rightarrow> bool" where
  "leg_kind c d i l ty parent \<longleftrightarrow>
     (if l = ''reversal'' then ty = TypeReversal \<and> (\<exists>p es. parent = Some p \<and> leg_fact c d i ''debit'' = Some (p, es))
      else ty = TypeTransfer)"

lemma refunds_owned_post:
  assumes own: "refunds_owned c d" and c: "codec_ok c" and l: "l \<in> set leg_names" and inv: "ledger_inv d"
    and f: "post_frame (legKey c i l) d d' u added" and k: "leg_kind c d i l (t_type u) (t_parent u)"
  shows "refunds_owned c d'"
proof -
  have tx: "transactions d' = transactions d @ [u]" and key: "t_idempotency_key u = Some (legKey c i l)"
    using f by (auto simp: post_frame_def)
  have debit: "leg_fact c d' j ''debit'' = Some x" if "leg_fact c d j ''debit'' = Some x" for j x
  proof -
    have "legKey c j ''debit'' \<noteq> legKey c i l"
    proof
      assume "legKey c j ''debit'' = legKey c i l"
      then have "j = i \<and> ''debit'' = l" by (intro legKey_inj [OF c]) (use l in \<open>auto simp: leg_names_def\<close>)
      then show False using leg_fact_new [OF f inv] that by simp
    qed
    then show ?thesis using leg_fact_other [OF f] that by simp
  qed
  have inj: "j = i \<and> l = ''reversal''" if "legKey c i l = legKey c j ''reversal''" for j
    using legKey_inj [OF c l _ that] by (simp add: leg_names_def)
  have new: "(t_type u = ''reversal'' \<and> t_parent u \<noteq> None \<longrightarrow> (\<exists>j. t_idempotency_key u = Some (legKey c j ''reversal'')))
      \<and> (\<forall>j. t_idempotency_key u = Some (legKey c j ''reversal'') \<longrightarrow>
           t_type u = ''reversal'' \<and> (\<exists>p es. t_parent u = Some p \<and> leg_fact c d' j ''debit'' = Some (p, es)))"
    using k key inj debit by (auto simp: leg_kind_def go_const split: if_splits)
  show ?thesis
    unfolding refunds_owned_def tx set_append list.set
    using own debit new unfolding refunds_owned_def by blast
qed

lemma entries_owned_post:
  assumes "entries_owned c d" and f: "post_frame (legKey c i l) d d' u added" and "l \<in> set leg_names"
  shows "entries_owned c d'"
proof -
  have "transactions d' = transactions d @ [u]" "entries d' = entries d @ added" "t_idempotency_key u = Some (legKey c i l)"
    "\<forall>e \<in> set added. e_transaction_id e = t_id u" using f by (auto simp: post_frame_def)
  then show ?thesis using assms(1,3) by (fastforce simp: entries_owned_def)
qed

lemma sw_inv_post:
  assumes inv: "sw_inv truth c d" and t: "t \<in> set (transactions d)" "lifecycle t"
    and l: "l \<in> set leg_names" and adm: "admits truth t l"
    and tf: "tf_amount tf = td_amount (detailFromRow c t)"
    and w: "leg_written c tf (fst (leg_sides (detailFromRow c t) l)) (snd (leg_sides (detailFromRow c t) l))
              (legKey c (t_id t) l) ty parent d d'"
    and kind: "leg_kind c d (t_id t) l ty parent"
  shows "sw_inv truth c d'"
proof (cases "d' = d")
  case False
  note i = sw_invD [OF inv]
  obtain u added where f: "post_frame (legKey c (t_id t) l) d d' u added"
    and u: "t_type u = ty" "t_parent u = parent"
    and lp: "leg_posts d added (fst (leg_sides (detailFromRow c t) l)) (snd (leg_sides (detailFromRow c t) l)) (td_amount (detailFromRow c t))"
    and inv': "ledger_inv d'"
    using w False tf by (auto simp: leg_written_def)
  have acc: "accounts d' = accounts d" and tx: "transactions d' = transactions d @ [u]" and ob: "outbox d' = outbox d"
    and sq: "outbox_seq d' = outbox_seq d"
    using f by (auto simp: post_frame_def)
  have nl: "\<not> lifecycle u" using f not_lifecycle_Nil by (auto simp: post_frame_def)
  have other: "leg_fact c d' j m = leg_fact c d j m" if "m \<in> set leg_names" "j \<noteq> t_id t \<or> m \<noteq> l" for j m
    by (rule leg_fact_other [OF f]) (use legKey_inj [OF i(1) that(1) l] that(2) in blast)
  have new: "leg_fact c d (t_id t) l = None" "leg_fact c d' (t_id t) l = Some (t_id u, added)"
    using leg_fact_new [OF f i(2)] by simp_all
  have ok_t: "transfer_ok truth c d t" using i(5) t by blast
  have "transfer_ok truth c d' t"
  proof -
    have "legs_match c d' t"
      unfolding legs_match_def
    proof (intro ballI allI impI)
      fix m v es
      assume m: "m \<in> set leg_names" and lf: "leg_fact c d' (t_id t) m = Some (v, es)"
      show "leg_posts d' es (fst (leg_sides (detailFromRow c t) m)) (snd (leg_sides (detailFromRow c t) m)) (td_amount (detailFromRow c t))"
      proof (cases "m = l")
        case True
        then show ?thesis using lf new lp by (simp add: leg_posts_accounts [OF acc])
      next
        case False
        then show ?thesis
          using lf other [OF m] ok_t m by (auto simp: leg_posts_accounts [OF acc] transfer_ok_def legs_match_def)
      qed
    qed
    moreover have "statuses_match truth c t (leg_fact c d' (t_id t))"
      using ok_t adm new l other [of "''debit''" "t_id t"] other [of "''settle''" "t_id t"] other [of "''reversal''" "t_id t"]
      by (auto simp: transfer_ok_def statuses_match_def admits_def leg_names_def split: if_splits)
    ultimately show ?thesis using ok_t by (simp add: transfer_ok_def)
  qed
  moreover have "transfer_ok truth c d' x" if "x \<in> set (transactions d)" "lifecycle x" "x \<noteq> t" for x
  proof -
    have "t_id x \<noteq> t_id t" using row_by_id [OF i(2) that(1) t(1)] that(3) by blast
    then show ?thesis using transfer_ok_cong [OF acc, of c x truth] other i(5) [OF that(1,2)] by simp
  qed
  ultimately have "\<forall>x \<in> set (transactions d'). lifecycle x \<longrightarrow> transfer_ok truth c d' x \<and> driven d' x"
    using nl i(6) tx ob by (auto simp: driven_def)
  moreover have "legs_owned c d'" by (rule legs_owned_post [OF i(3,1) f l t]) simp
  moreover have "outbox_wf d'" using i(4) tx ob sq by (auto simp: outbox_wf_def)
  moreover have "sweep_owned d'"
    using i(7) f by (auto simp: post_frame_def sweep_owned_def resumable_def go_const)
  moreover have "refunds_owned c d'"
    by (rule refunds_owned_post [OF i(8,1) l i(2) f]) (use kind u in simp)
  moreover have "entries_owned c d'" by (rule entries_owned_post [OF i(9) f l])
  ultimately show ?thesis using i(1) inv' by (simp add: sw_inv_def)
qed (use inv in simp)

section \<open>A status advance\<close>

text \<open>A row update that keeps identity, key, type, parent, reference and the fields of the transfer.\<close>

definition row_update :: "(tx_row \<Rightarrow> tx_row) \<Rightarrow> bool" where
  "row_update f \<longleftrightarrow>
     (\<forall>t. t_id (f t) = t_id t \<and> t_idempotency_key (f t) = t_idempotency_key t \<and> t_type (f t) = t_type t
        \<and> t_parent (f t) = t_parent t \<and> t_reference (f t) = t_reference t \<and> lifecycle (f t) = lifecycle t
        \<and> t_initiated_at (f t) = t_initiated_at t \<and> t_currency (f t) = t_currency t)"

lemma row_updateD:
  assumes "row_update f"
  shows "t_id (f t) = t_id t" "t_idempotency_key (f t) = t_idempotency_key t" "t_type (f t) = t_type t"
    "t_parent (f t) = t_parent t" "t_reference (f t) = t_reference t" "lifecycle (f t) = lifecycle t"
    "t_initiated_at (f t) = t_initiated_at t" "t_currency (f t) = t_currency t"
  using assms by (auto simp: row_update_def)

lemma tx_unique_update:
  assumes "row_update f" "tx_unique d"
  shows "tx_unique (update_tx i f d)"
proof -
  have "tx_clash (if t_id t = i then f t else t) (if t_id u = i then f u else u) = tx_clash t u" for t u
    using row_updateD [OF assms(1)] by (simp add: tx_clash_def)
  then show ?thesis
    using assms(2) unfolding tx_unique_def transactions_update_tx update_where_def sorted_wrt_map by simp
qed

lemma ids_update: "row_update f \<Longrightarrow> t_id ` set (transactions (update_tx i f d)) = t_id ` set (transactions d)"
proof -
  assume f: "row_update f"
  have "map t_id (transactions (update_tx i f d)) = map t_id (transactions d)"
    unfolding transactions_update_tx by (rule map_update_where) (simp add: row_updateD [OF f])
  then show ?thesis by (metis set_map)
qed

lemma ledger_inv_update:
  assumes f: "row_update f" and inv: "ledger_inv d"
  shows "ledger_inv (update_tx i f d)"
proof -
  note ids = ids_update [OF f, of i d]
  show ?thesis
    using inv tx_unique_update [OF f, of d i]
    by (simp add: ledger_inv_def accounts_wf_def journal_balanced_def cache_coherent_def balance_current_def
        sums_fit_def journal_balance_def entry_wf_def ids)
qed

lemma ledger_inv_cong:
  "accounts d' = accounts d \<Longrightarrow> transactions d' = transactions d \<Longrightarrow> entries d' = entries d \<Longrightarrow>
   balances d' = balances d \<Longrightarrow> ledger_inv d' = ledger_inv d"
  by (simp add: ledger_inv_def accounts_wf_def tx_unique_def journal_balanced_def cache_coherent_def
      balance_current_def sums_fit_def journal_balance_def entry_wf_def)

lemma leg_fact_update:
  assumes f: "row_update f"
  shows "leg_fact c (update_tx i f d) j l = leg_fact c d j l"
proof -
  have "find_tx_by_key k (update_tx i f d) = map_option (\<lambda>t. if t_id t = i then f t else t) (find_tx_by_key k d)" for k
    unfolding find_tx_by_key_def transactions_update_tx
    by (rule find_update_where) (simp add: row_updateD [OF f])
  moreover have "t_id (if t_id t = i then f t else t) = t_id t" for t by (simp add: row_updateD [OF f])
  ultimately show ?thesis by (simp add: leg_fact_def option.map_comp comp_def)
qed

lemma leg_fact_cong:
  "transactions d' = transactions d \<Longrightarrow> entries d' = entries d \<Longrightarrow> leg_fact c d' i l = leg_fact c d i l"
  by (simp add: leg_fact_def find_tx_by_key_def)

lemma refunds_owned_update:
  assumes own: "refunds_owned c d" and f: "row_update f" and tx: "transactions d' = update_where (\<lambda>t. t_id t = i) f (transactions d)"
    and legs: "\<And>j. leg_fact c d' j ''debit'' = leg_fact c d j ''debit''"
  shows "refunds_owned c d'"
proof -
  have "t_type (if t_id t = i then f t else t) = t_type t" "t_parent (if t_id t = i then f t else t) = t_parent t"
    "t_idempotency_key (if t_id t = i then f t else t) = t_idempotency_key t" for t
    using row_updateD [OF f] by auto
  then show ?thesis
    using own unfolding refunds_owned_def tx update_where_def legs set_map ball_simps by presburger
qed

lemma refunds_owned_cong:
  "transactions d' = transactions d \<Longrightarrow> entries d' = entries d \<Longrightarrow> refunds_owned c d' = refunds_owned c d"
  using leg_fact_cong [of d' d c] by (simp add: refunds_owned_def)

text \<open>What a status advance does to the outbox: nothing, or one new event for the transfer.\<close>

definition new_event :: "db \<Rightarrow> uuid \<Rightarrow> string \<Rightarrow> outbox_row \<Rightarrow> bool" where
  "new_event d i ty r \<longleftrightarrow> o_id r = outbox_seq d \<and> o_aggregate_id r = i \<and> o_event_type r = ty \<and> o_published_at r = None"

definition advanced :: "uuid \<Rightarrow> (tx_row \<Rightarrow> tx_row) \<Rightarrow> string \<Rightarrow> db \<Rightarrow> db \<Rightarrow> bool" where
  "advanced i f ty d d' \<longleftrightarrow>
     (if ty = [] then d' = update_tx i f d
      else \<exists>r. new_event d i ty r
        \<and> d' = (update_tx i f d)\<lparr>outbox := outbox d @ [r], outbox_seq := Suc (outbox_seq d)\<rparr>)"

lemma advancedD:
  assumes "advanced i f ty d d'"
  shows "accounts d' = accounts d" "transactions d' = update_where (\<lambda>t. t_id t = i) f (transactions d)"
    "entries d' = entries d" "balances d' = balances d" "set (outbox d) \<subseteq> set (outbox d')"
    "ty \<noteq> [] \<Longrightarrow> \<exists>r \<in> set (outbox d'). o_aggregate_id r = i \<and> o_event_type r = ty \<and> o_published_at r = None"
    "idem_keys d' = idem_keys d"
  using assms by (auto simp: advanced_def transactions_update_tx new_event_def split: if_splits)

lemma outbox_wf_advanced:
  assumes wf: "outbox_wf d" and a: "advanced i f ty d d'" and f: "row_update f"
    and t: "t \<in> set (transactions d)" "lifecycle t" "t_id t = i"
  shows "outbox_wf d'"
proof -
  have keep: "\<exists>y \<in> set (transactions d'). lifecycle y \<and> t_id y = j"
    if "\<exists>y \<in> set (transactions d). lifecycle y \<and> t_id y = j" for j
  proof -
    from that obtain y where y: "y \<in> set (transactions d)" "lifecycle y" "t_id y = j" by blast
    have "(if t_id y = i then f y else y) \<in> set (transactions d')"
      using y(1) unfolding advancedD(2) [OF a] update_where_def by auto
    then show ?thesis using y row_updateD [OF f] by (metis (full_types))
  qed
  show ?thesis
  proof (cases "ty = []")
    case True
    then show ?thesis using wf a keep by (auto simp: advanced_def outbox_wf_def)
  next
    case False
    then obtain r where r: "new_event d i ty r" "outbox d' = outbox d @ [r]" "outbox_seq d' = Suc (outbox_seq d)"
      using a by (auto simp: advanced_def)
    have "o_id r \<notin> o_id ` set (outbox d)" using wf r(1) by (auto simp: outbox_wf_def new_event_def)
    then show ?thesis
      using wf r keep t unfolding outbox_wf_def new_event_def by (auto simp: less_Suc_eq)
  qed
qed

lemma legs_owned_update:
  assumes own: "legs_owned c d" and f: "row_update f" and tx: "transactions d' = update_where (\<lambda>t. t_id t = i) f (transactions d)"
  shows "legs_owned c d'"
  unfolding legs_owned_def
proof (intro ballI allI impI)
  fix x j m
  assume x: "x \<in> set (transactions d')" and m: "m \<in> set leg_names" and k: "t_idempotency_key x = Some (legKey c j m)"
  obtain y where y: "y \<in> set (transactions d)" "x = (if t_id y = i then f y else y)"
    using x unfolding tx update_where_def by auto
  then have ky: "t_idempotency_key y = Some (legKey c j m)" using k row_updateD [OF f] by (auto split: if_splits)
  obtain z where z: "z \<in> set (transactions d)" "lifecycle z" "t_id z = j" and ny: "\<not> lifecycle y"
    using own y(1) m ky by (auto simp: legs_owned_def)
  have "(if t_id z = i then f z else z) \<in> set (transactions d')" using z(1) unfolding tx update_where_def by auto
  then show "\<not> lifecycle x \<and> (\<exists>t \<in> set (transactions d'). lifecycle t \<and> t_id t = j)"
    using y(2) ny z row_updateD [OF f] by (metis (full_types))
qed

lemma entries_owned_update:
  assumes own: "entries_owned c d" and f: "row_update f" and tx: "transactions d' = update_where (\<lambda>t. t_id t = i) f (transactions d)"
    and es: "entries d' = entries d"
  shows "entries_owned c d'"
  unfolding entries_owned_def es
proof
  fix e
  assume "e \<in> set (entries d)"
  then obtain u j l where u: "u \<in> set (transactions d)" "t_id u = e_transaction_id e" "l \<in> set leg_names"
    "t_idempotency_key u = Some (legKey c j l)" using own unfolding entries_owned_def by blast
  have "(if t_id u = i then f u else u) \<in> set (transactions d')" using u(1) unfolding tx update_where_def by auto
  moreover have "t_id (if t_id u = i then f u else u) = e_transaction_id e"
    "t_idempotency_key (if t_id u = i then f u else u) = Some (legKey c j l)" using u(2,4) row_updateD [OF f] by auto
  ultimately show "\<exists>u \<in> set (transactions d'). t_id u = e_transaction_id e
      \<and> (\<exists>i. \<exists>l \<in> set leg_names. t_idempotency_key u = Some (legKey c i l))" using u(3) by blast
qed

lemma sw_inv_advanced:
  assumes inv: "sw_inv truth c d" and t: "t \<in> set (transactions d)" "lifecycle t"
    and f: "row_update f" and a: "advanced (t_id t) f (eventForStatus (t_status (f t))) d d'"
    and fields: "leg_sides (detailFromRow c (f t)) = leg_sides (detailFromRow c t)"
      "td_amount (detailFromRow c (f t)) = td_amount (detailFromRow c t)"
    and st: "statuses_match truth c (f t) (leg_fact c d (t_id t))"
  shows "sw_inv truth c d'"
proof -
  note i = sw_invD [OF inv] and ad = advancedD [OF a]
  have legs: "leg_fact c d' j l = leg_fact c d j l" for j l
    using leg_fact_update [OF f, of c "t_id t" d j l] leg_fact_cong [of d' "update_tx (t_id t) f d" c j l] ad(2,3)
    by (simp add: transactions_update_tx)
  have "ledger_inv d'"
    using ledger_inv_update [OF f i(2), of "t_id t"] ad
    by (subst ledger_inv_cong [of _ "update_tx (t_id t) f d"]) (simp_all add: transactions_update_tx)
  moreover have "legs_owned c d'" by (rule legs_owned_update [OF i(3) f ad(2)])
  moreover have "outbox_wf d'" by (rule outbox_wf_advanced [OF i(4) a f t]) simp
  moreover have "transfer_ok truth c d' x \<and> driven d' x" if x: "x \<in> set (transactions d')" "lifecycle x" for x
  proof -
    obtain y where y: "y \<in> set (transactions d)" "x = (if t_id y = t_id t then f y else y)"
      using x(1) unfolding ad(2) update_where_def by auto
    show ?thesis
    proof (cases "t_id y = t_id t")
      case True
      then have "y = t" using row_by_id [OF i(2) y(1) t(1)] by simp
      then have x_eq: "x = f t" using y(2) by simp
      have ok: "transfer_ok truth c d t" using i(5) t by blast
      have "transfer_ok truth c d' (f t)"
        using ok st fields legs row_updateD [OF f]
        by (simp add: transfer_ok_def legs_match_def leg_posts_accounts [OF ad(1)] fun_eq_iff
            cong: statuses_match_cong)
      moreover have "driven d' (f t)" using ad(6) row_updateD [OF f] by (auto simp: driven_def)
      ultimately show ?thesis using x_eq by simp
    next
      case False
      then have x_eq: "x = y" using y(2) by simp
      then have "transfer_ok truth c d' x" using transfer_ok_cong [OF ad(1)] legs i(5) [OF y(1)] x(2) by simp
      moreover have "driven d' x" using i(6) [OF y(1)] x(2) x_eq ad(5) unfolding driven_def by blast
      ultimately show ?thesis by simp
    qed
  qed
  moreover have "sweep_owned d'"
    unfolding sweep_owned_def
  proof (intro ballI impI)
    fix x
    assume x: "x \<in> set (transactions d')" "resumable x"
    then obtain y where y: "y \<in> set (transactions d)" "x = (if t_id y = t_id t then f y else y)"
      unfolding ad(2) update_where_def by auto
    show "lifecycle x"
      using y x(2) i(7) t(2) row_by_id [OF i(2) y(1) t(1)] row_updateD [OF f] by (auto simp: sweep_owned_def split: if_splits)
  qed
  moreover have "refunds_owned c d'" by (rule refunds_owned_update [OF i(8) f ad(2)]) (rule legs)
  moreover have "entries_owned c d'" by (rule entries_owned_update [OF i(9) f ad(2,3)])
  ultimately show ?thesis using i(1) by (simp add: sw_inv_def)
qed

section \<open>The outbox alone\<close>

lemma sw_inv_outbox:
  assumes inv: "sw_inv truth c d" and same: "accounts d' = accounts d" "transactions d' = transactions d"
      "entries d' = entries d" "balances d' = balances d"
    and wf: "outbox_wf d'" and dr: "\<And>t. t \<in> set (transactions d) \<Longrightarrow> lifecycle t \<Longrightarrow> driven d' t"
  shows "sw_inv truth c d'"
proof -
  note i = sw_invD [OF inv]
  have "ledger_inv d'" using i(2) ledger_inv_cong [OF same] by simp
  moreover have "legs_owned c d'" using i(3) same(2) by (simp add: legs_owned_def)
  moreover have "transfer_ok truth c d' t" if "t \<in> set (transactions d)" "lifecycle t" for t
    using transfer_ok_cong [OF same(1) leg_fact_cong [OF same(2,3)]] i(5) [OF that] by simp
  moreover have "sweep_owned d'" using i(7) same(2) by (simp add: sweep_owned_def)
  moreover have "refunds_owned c d'" using i(8) refunds_owned_cong [OF same(2,3)] by simp
  moreover have "entries_owned c d'" using i(9) same(2,3) by (simp add: entries_owned_def)
  ultimately show ?thesis using i(1) wf dr same(2) by (simp add: sw_inv_def)
qed

text \<open>One more event for a transfer, of whatever type.\<close>

lemma sw_inv_append:
  assumes inv: "sw_inv truth c d" and t: "t \<in> set (transactions d)" "lifecycle t" and r: "new_event d (t_id t) ty r"
  shows "sw_inv truth c (d\<lparr>outbox := outbox d @ [r], outbox_seq := Suc (outbox_seq d)\<rparr>)"
proof (rule sw_inv_outbox [OF inv])
  note i = sw_invD [OF inv]
  have "o_id r \<notin> o_id ` set (outbox d)" using i(4) r by (auto simp: outbox_wf_def new_event_def)
  then show "outbox_wf (d\<lparr>outbox := outbox d @ [r], outbox_seq := Suc (outbox_seq d)\<rparr>)"
    using i(4) r t by (auto simp: outbox_wf_def new_event_def less_Suc_eq)
  show "driven (d\<lparr>outbox := outbox d @ [r], outbox_seq := Suc (outbox_seq d)\<rparr>) x"
    if "x \<in> set (transactions d)" "lifecycle x" for x
    using i(6) [OF that] by (auto simp: driven_def)
qed simp_all

lemma same_event_mem:
  "list_all2 same_event xs ys \<Longrightarrow> x \<in> set xs \<Longrightarrow> \<exists>y \<in> set ys. same_event x y"
  "list_all2 same_event xs ys \<Longrightarrow> y \<in> set ys \<Longrightarrow> \<exists>x \<in> set xs. same_event x y"
  by (metis in_set_conv_nth list_all2_conv_all_nth)+

lemma sw_inv_bookkeeping:
  assumes inv: "sw_inv truth c d" and bk: "bookkeeping d d'"
  shows "sw_inv truth c d'"
proof -
  note i = sw_invD [OF inv]
  obtain os where d': "d' = d\<lparr>outbox := os\<rparr>" and os: "list_all2 same_event (outbox d) os"
    using bk by (auto simp: bookkeeping_def)
  have ids: "map o_id os = map o_id (outbox d)"
    using os by (simp add: list_all2_conv_all_nth same_event_def list_eq_iff_nth_eq)
  show ?thesis
  proof (rule sw_inv_outbox [OF inv])
    have "\<forall>s \<in> set os. o_id s < outbox_seq d \<and> (\<exists>t \<in> set (transactions d). lifecycle t \<and> t_id t = o_aggregate_id s)"
    proof
      fix s
      assume "s \<in> set os"
      then obtain r where "r \<in> set (outbox d)" "same_event r s" using same_event_mem(2) [OF os] by blast
      then show "o_id s < outbox_seq d \<and> (\<exists>t \<in> set (transactions d). lifecycle t \<and> t_id t = o_aggregate_id s)"
        using i(4) by (auto simp: outbox_wf_def same_event_def)
    qed
    then show "outbox_wf d'" using i(4) ids by (simp add: d' outbox_wf_def)
    show "driven d' t" if t: "t \<in> set (transactions d)" "lifecycle t" for t
      unfolding driven_def
    proof
      assume "eventForStatus (t_status t) \<noteq> []"
      then obtain r where r: "r \<in> set (outbox d)" "o_aggregate_id r = t_id t"
        "o_event_type r = eventForStatus (t_status t)" "o_published_at r = None"
        using i(6) [OF t] by (auto simp: driven_def)
      obtain s where "s \<in> set os" "same_event r s" using same_event_mem(1) [OF os r(1)] by blast
      then show "\<exists>r \<in> set (outbox d'). o_aggregate_id r = t_id t \<and> o_event_type r = eventForStatus (t_status t) \<and> o_published_at r = None"
        using r by (auto simp: d' same_event_def intro!: bexI [of _ s])
    qed
  qed (simp_all add: d')
qed

text \<open>An event is settled when no transfer is left in the status it drives.\<close>

definition event_settled :: "event \<Rightarrow> db \<Rightarrow> bool" where
  "event_settled e d \<longleftrightarrow>
     (\<forall>t \<in> set (transactions d). lifecycle t \<and> t_id t = v_aggregate_id e \<longrightarrow> eventForStatus (t_status t) \<noteq> v_type e)"

lemma sw_inv_publish:
  assumes inv: "sw_inv truth c d" and n: "names_event e d" and s: "event_settled e d"
  shows "sw_inv truth c (publish (v_id e) now d)"
proof -
  note i = sw_invD [OF inv]
  let ?f = "\<lambda>r. if o_id r = v_id e then r\<lparr>o_published_at := Some now\<rparr> else r"
  have ob: "outbox (publish (v_id e) now d) = map ?f (outbox d)" by (simp add: publish_def update_where_def)
  obtain r0 where r0: "r0 \<in> set (outbox d)" "o_id r0 = v_id e" "o_aggregate_id r0 = v_aggregate_id e" "o_event_type r0 = v_type e"
    using n by (auto simp: names_event_def)
  show ?thesis
  proof (rule sw_inv_outbox [OF inv])
    have ids: "map o_id (outbox (publish (v_id e) now d)) = map o_id (outbox d)"
      unfolding publish_def by (simp add: map_update_where)
    have sq: "outbox_seq (publish (v_id e) now d) = outbox_seq d" "transactions (publish (v_id e) now d) = transactions d"
      by (simp_all add: publish_def)
    have "\<forall>r \<in> set (outbox (publish (v_id e) now d)). o_id r < outbox_seq d
        \<and> (\<exists>t \<in> set (transactions d). lifecycle t \<and> t_id t = o_aggregate_id r)"
      using i(4) unfolding ob outbox_wf_def by auto
    then show "outbox_wf (publish (v_id e) now d)"
      using i(4) unfolding outbox_wf_def ids sq by blast
    show "driven (publish (v_id e) now d) t" if t: "t \<in> set (transactions d)" "lifecycle t" for t
      unfolding driven_def
    proof
      assume ne: "eventForStatus (t_status t) \<noteq> []"
      then obtain r where r: "r \<in> set (outbox d)" "o_aggregate_id r = t_id t"
        "o_event_type r = eventForStatus (t_status t)" "o_published_at r = None"
        using i(6) [OF t] by (auto simp: driven_def)
      have "o_id r \<noteq> v_id e"
      proof
        assume "o_id r = v_id e"
        moreover have "inj_on o_id (set (outbox d))" using i(4) by (simp add: outbox_wf_def distinct_map)
        ultimately have "r = r0" using r(1) r0(1,2) by (metis inj_onD)
        then show False using s t r r0 by (auto simp: event_settled_def)
      qed
      then show "\<exists>r \<in> set (outbox (publish (v_id e) now d)). o_aggregate_id r = t_id t
          \<and> o_event_type r = eventForStatus (t_status t) \<and> o_published_at r = None"
        using r unfolding ob by (intro bexI [of _ r]) (auto intro: image_eqI [of _ _ r])
    qed
  qed (simp_all add: publish_def)
qed

section \<open>A new transfer\<close>

text \<open>Keys of clients and keys of legs share a column, and nothing in the code keeps them apart; the invariant is
  about clients who do not use the key of a leg.\<close>

definition customer_key :: "uuid_codec \<Rightarrow> string \<Rightarrow> bool" where
  "customer_key c k \<longleftrightarrow> (\<forall>i. \<forall>l \<in> set leg_names. k \<noteq> legKey c i l)"

lemma sw_inv_create:
  assumes inv: "sw_inv truth c d"
    and t: "t_status t = statusPending" "lifecycle t" "t_type t = ''transfer''" "t_idempotency_key t = Some k"
    and k: "customer_key c k" and clash: "list_all (\<lambda>v. \<not> tx_clash t v) (transactions d)"
    and r: "new_event d (t_id t) EventDebitRequested r"
  shows "sw_inv truth c (d\<lparr>transactions := transactions d @ [t], outbox := outbox d @ [r], outbox_seq := Suc (outbox_seq d)\<rparr>)"
    (is "sw_inv truth c ?d")
proof -
  note i = sw_invD [OF inv]
  have fresh: "t_id t \<notin> t_id ` set (transactions d)" using clash by (auto simp: list_all_iff dest!: tx_clash_id)
  have inv': "ledger_inv ?d"
  proof -
    have "tx_unique ?d"
      using ledger_invD(2) [OF i(2)] clash by (auto simp: tx_unique_def sorted_wrt_append list_all_iff)
    then show ?thesis
      using i(2) by (auto simp: ledger_inv_def accounts_wf_def journal_balanced_def cache_coherent_def balance_current_def
          sums_fit_def journal_balance_def entry_wf_def)
  qed
  have legs: "leg_fact c ?d j l = leg_fact c d j l" if "l \<in> set leg_names" for j l
    using t(4) k that by (auto simp: leg_fact_def find_tx_by_key_def find_append customer_key_def split: option.splits)
  have none: "leg_fact c d (t_id t) l = None" if l: "l \<in> set leg_names" for l
  proof (cases "find_tx_by_key (legKey c (t_id t) l) d")
    case (Some u)
    then have "\<exists>x \<in> set (transactions d). t_id x = t_id t"
      using i(3) find_tx_by_key_mem [OF Some] l by (auto simp: legs_owned_def)
    then have False using fresh by (metis imageI)
    then show ?thesis ..
  qed (simp add: leg_fact_def)
  have own: "legs_owned c ?d"
    unfolding legs_owned_def
  proof (intro ballI allI impI)
    fix u j l
    assume u: "u \<in> set (transactions ?d)" and l: "l \<in> set leg_names" and ku: "t_idempotency_key u = Some (legKey c j l)"
    then have "u \<in> set (transactions d)" using t(4) k by (auto simp: customer_key_def)
    then show "\<not> lifecycle u \<and> (\<exists>x \<in> set (transactions ?d). lifecycle x \<and> t_id x = j)"
      using i(3) l ku by (auto simp: legs_owned_def)
  qed
  have wf: "outbox_wf ?d"
  proof -
    have "o_id r \<notin> o_id ` set (outbox d)" using i(4) r by (auto simp: outbox_wf_def new_event_def)
    then show ?thesis using i(4) r t(2) by (auto simp: outbox_wf_def new_event_def less_Suc_eq)
  qed
  have "transfer_ok truth c ?d t \<and> driven ?d t"
  proof
    show "driven ?d t" using t(1) r by (auto simp: driven_def eventForStatus_def new_event_def)
    have "statuses_match truth c t (leg_fact c ?d (t_id t))"
      using t(1) none legs by (simp add: statuses_match_def leg_names_def switch_statuses_def)
    then show "transfer_ok truth c ?d t"
      using t(3) none legs by (simp add: transfer_ok_def legs_match_def)
  qed
  moreover have "transfer_ok truth c ?d x \<and> driven ?d x" if x: "x \<in> set (transactions d)" "lifecycle x" for x
    using transfer_ok_cong [of ?d d c x truth] legs i(5,6) [OF x] by (auto simp: driven_def)
  moreover have "sweep_owned ?d" using i(7) t(2) by (simp add: sweep_owned_def)
  moreover have "refunds_owned c ?d"
  proof -
    have "leg_fact c ?d j ''debit'' = leg_fact c d j ''debit''" for j by (rule legs) (simp add: leg_names_def)
    then show ?thesis
      using i(8) t(3,4) k unfolding refunds_owned_def by (auto simp: customer_key_def leg_names_def)
  qed
  moreover have "entries_owned c ?d" using i(9) by (auto simp: entries_owned_def)
  ultimately show ?thesis using i(1) inv' own wf by (simp add: sw_inv_def)
qed

end
