(* ===== verification/DriverInv.thy ===== *)
theory DriverInv
  imports SwitchInv
begin

text \<open>
  Every handler of the driver keeps the switch invariant under every fault pattern, and a delivery
  it reports as done leaves the transfer out of the status the event drives. With that the driver is
  an \<open>outbox_handler\<close>, so the poller keeps the invariant too.
\<close>

section \<open>Marks\<close>

definition upd_status :: "string \<Rightarrow> tx_row \<Rightarrow> tx_row" where
  "upd_status s t = t\<lparr>t_status := s\<rparr>"

definition upd_settled :: "env \<Rightarrow> tx_row \<Rightarrow> tx_row" where
  "upd_settled ev t = t\<lparr>t_status := ''settled'', t_settled_at := Some (e_now ev)\<rparr>"

definition upd_debited :: "string \<Rightarrow> tx_row \<Rightarrow> tx_row" where
  "upd_debited leg t = t\<lparr>t_status := statusDebited,
     t_metadata := json_concat (t_metadata t) [(''debit_leg_tx_id'', JStr leg)]\<rparr>"

lemma map_of_debit_leg:
  "map_of (json_concat m [(''debit_leg_tx_id'', j)]) k = (if k = ''debit_leg_tx_id'' then Some j else map_of m k)"
  by (simp add: map_of_json_concat)

lemma row_updates [simp]: "row_update (upd_status s)" "row_update (upd_settled ev)" "row_update (upd_debited leg)"
  by (auto simp: row_update_def upd_status_def upd_settled_def upd_debited_def lifecycle_def json_has_key_def
      map_of_debit_leg)

lemma upd_fields [simp]:
  "t_status (upd_status s t) = s" "t_status (upd_settled ev t) = statusSettled" "t_status (upd_debited leg t) = statusDebited"
  "t_reference (upd_status s t) = t_reference t" "t_reference (upd_settled ev t) = t_reference t"
  "t_reference (upd_debited leg t) = t_reference t"
  "td_debit_leg (detailFromRow c (upd_status s t)) = td_debit_leg (detailFromRow c t)"
  "td_debit_leg (detailFromRow c (upd_settled ev t)) = td_debit_leg (detailFromRow c t)"
  by (simp_all add: upd_status_def upd_settled_def upd_debited_def detailFromRow_def go_const)

lemma upd_sides [simp]:
  "leg_sides (detailFromRow c (upd_status s t)) = leg_sides (detailFromRow c t)"
  "leg_sides (detailFromRow c (upd_settled ev t)) = leg_sides (detailFromRow c t)"
  "leg_sides (detailFromRow c (upd_debited leg t)) = leg_sides (detailFromRow c t)"
  "td_amount (detailFromRow c (upd_status s t)) = td_amount (detailFromRow c t)"
  "td_amount (detailFromRow c (upd_settled ev t)) = td_amount (detailFromRow c t)"
  "td_amount (detailFromRow c (upd_debited leg t)) = td_amount (detailFromRow c t)"
  by (auto simp: upd_status_def upd_settled_def upd_debited_def detailFromRow_def leg_sides_def fun_eq_iff
      meta_string_def meta_int64_def map_of_debit_leg)

lemma upd_debited_leg: "codec_ok c \<Longrightarrow> td_debit_leg (detailFromRow c (upd_debited (uuid_String c v) t)) = Some v"
  by (simp add: upd_debited_def detailFromRow_def meta_uuid_def map_of_debit_leg codec_parse)

lemma outbox_Append_Inr:
  assumes "outbox_Append i ty p ev d = Inr (u, d')"
  shows "\<exists>r. new_event d i ty r \<and> d' = d\<lparr>outbox := outbox d @ [r], outbox_seq := Suc (outbox_seq d)\<rparr>"
proof (intro exI conjI)
  let ?r = "\<lparr>o_id = outbox_seq d, o_aggregate_type = AggregateTransfer, o_aggregate_id = i, o_event_type = ty,
    o_payload = p, o_created_at = e_now ev, o_published_at = None, o_attempts = 0, o_next_attempt_at = e_now ev,
    o_last_error = None, o_dead_letter = False\<rparr>"
  show "new_event d i ty ?r" by (simp add: new_event_def)
  show "d' = d\<lparr>outbox := outbox d @ [?r], outbox_seq := Suc (outbox_seq d)\<rparr>"
    using assms by (simp add: outbox_Append_def InsertOutboxEvent_def Let_def)
qed

lemma new_event_update [simp]: "new_event (update_tx i f d) = new_event d"
  by (simp add: new_event_def fun_eq_iff)

text \<open>What each change inside \<open>advance\<close> does.\<close>

lemma apply_advanced:
  "apply_debited i leg p ev d = Inr (u, d') \<Longrightarrow> advanced i (upd_debited leg) EventDebited d d'"
  "apply_settled i ev d = Inr (v, d') \<Longrightarrow> advanced i (upd_settled ev) [] d d'"
  "apply_status pre s i ev d = Inr (v, d') \<Longrightarrow> advanced i (upd_status s) [] d d'"
  "apply_in_doubt i p ev d = Inr (u, d') \<Longrightarrow> advanced i (upd_status statusInDoubt) EventInDoubt d d'"
  "apply_reversal_pending i p ev d = Inr (u, d') \<Longrightarrow> advanced i (upd_status statusReversalPending) EventReversalRequested d d'"
proof -
  have f: "(\<lambda>t. t\<lparr>t_status := s\<rparr>) = upd_status s" for s by (simp add: upd_status_def fun_eq_iff)
  show s: "apply_status pre s i ev d = Inr (v, d') \<Longrightarrow> advanced i (upd_status s) [] d d'" for pre s v d'
    by (auto simp: apply_status_def SetTransferStatus_def advanced_def f split: if_splits)
  have app: "\<exists>r. new_event d i ty r \<and> d' = (update_tx i g d)\<lparr>outbox := outbox d @ [r], outbox_seq := Suc (outbox_seq d)\<rparr>"
    if "outbox_Append i ty p ev (update_tx i g d) = Inr (u, d')" for ty g
    using outbox_Append_Inr [OF that] by simp
  show "apply_settled i ev d = Inr (v, d') \<Longrightarrow> advanced i (upd_settled ev) [] d d'"
    by (auto simp: apply_settled_def SetTransferSettled_def advanced_def upd_settled_def [abs_def])
  show "apply_debited i leg p ev d = Inr (u, d') \<Longrightarrow> advanced i (upd_debited leg) EventDebited d d'"
    using app by (auto simp: apply_debited_def SetTransferStatusAndDebitLeg_def advanced_def upd_debited_def [abs_def] split: if_splits)
  show "apply_in_doubt i p ev d = Inr (u, d') \<Longrightarrow> advanced i (upd_status statusInDoubt) EventInDoubt d d'"
    using app by (auto simp: apply_in_doubt_def apply_status_def SetTransferStatus_def advanced_def f split: if_splits)
  show "apply_reversal_pending i p ev d = Inr (u, d') \<Longrightarrow> advanced i (upd_status statusReversalPending) EventReversalRequested d d'"
    using app by (auto simp: apply_reversal_pending_def apply_status_def SetTransferStatus_def advanced_def f split: if_splits)
qed

text \<open>An advance either changes nothing or takes a legal edge; its answer says which.\<close>

lemma advance_spec:
  assumes run: "advance i to app w = (r, w')"
    and app: "\<And>ev d u d'. app ev d = Inr (u, d') \<Longrightarrow> \<exists>f. Q f \<and> advanced i f ty d d'"
  shows "(w_db w' = w_db w
      \<or> (\<exists>row f. find_tx i (w_db w) = Some row \<and> canTransitionStatus (t_status row) to \<and> Q f \<and> advanced i f ty (w_db w) (w_db w')))
    \<and> (\<forall>b. r = Inr b \<longrightarrow> (\<exists>row. find_tx i (w_db w) = Some row \<and> b = canTransitionStatus (t_status row) to
          \<and> (if b then \<exists>f. Q f \<and> advanced i f ty (w_db w) (w_db w') else w_db w' = w_db w)))"
  using run unfolding advance_def WithTx_def
proof (cases rule: run_tx_cases)
  case (committed a d)
  from committed(1) obtain row where row: "find_tx i (w_db w) = Some row"
    by (auto simp: advance_body_def GetTransferForUpdate_def split: sum.splits option.splits if_splits)
  show ?thesis
  proof (cases "canTransitionStatus (t_status row) to")
    case False
    then have "a = False" "d = w_db w"
      using committed(1) row by (auto simp: advance_body_def GetTransferForUpdate_def)
    then show ?thesis using committed(3,4) row False by auto
  next
    case True
    then obtain u where "app (w_env w (w_tick w)) (w_db w) = Inr (u, d)" and a: "a = True"
      using committed(1) row by (auto simp: advance_body_def GetTransferForUpdate_def split: sum.splits)
    from app [OF this(1)] obtain f where f: "Q f" "advanced i f ty (w_db w) d" by blast
    then show ?thesis using committed(3,4) row True a by auto
  qed
qed auto

lemma advance_frame: "act_frame (advance i to app)"
  unfolding advance_def WithTx_def by simp

text \<open>What every operation of the switch may do to the rows that are there: the accounts stay, the
  journal grows at its end, and a transfer keeps its identity, reference, parties and amount while its
  status moves along legal edges.\<close>

definition evolves :: "uuid_codec \<Rightarrow> tx_row \<Rightarrow> tx_row \<Rightarrow> bool" where
  "evolves c t t' \<longleftrightarrow> t_id t' = t_id t \<and> t_idempotency_key t' = t_idempotency_key t \<and> t_type t' = t_type t
     \<and> t_reference t' = t_reference t \<and> lifecycle t' = lifecycle t \<and> t_initiated_at t' = t_initiated_at t
     \<and> t_currency t' = t_currency t \<and> leg_sides (detailFromRow c t') = leg_sides (detailFromRow c t)
     \<and> td_amount (detailFromRow c t') = td_amount (detailFromRow c t)
     \<and> canTransitionStatus\<^sup>*\<^sup>* (t_status t) (t_status t')"

definition db_evolves :: "uuid_codec \<Rightarrow> db \<Rightarrow> db \<Rightarrow> bool" where
  "db_evolves c d d' \<longleftrightarrow> accounts d' = accounts d \<and> prefix (entries d) (entries d')
     \<and> (\<forall>t \<in> set (transactions d). \<exists>t' \<in> set (transactions d'). evolves c t t')"

lemma evolves_refl [simp]: "evolves c t t"
  by (simp add: evolves_def)

lemma evolves_trans: "evolves c t u \<Longrightarrow> evolves c u v \<Longrightarrow> evolves c t v"
  by (auto simp: evolves_def intro: rtranclp_trans)

lemma db_evolvesI:
  "accounts d' = accounts d \<Longrightarrow> prefix (entries d) (entries d') \<Longrightarrow> set (transactions d) \<subseteq> set (transactions d') \<Longrightarrow>
   db_evolves c d d'"
  unfolding db_evolves_def using evolves_refl by blast

lemma db_evolves_refl [simp]: "db_evolves c d d"
  by (rule db_evolvesI) simp_all

lemma db_evolves_trans:
  assumes "db_evolves c d1 d2" "db_evolves c d2 d3"
  shows "db_evolves c d1 d3"
proof -
  have "\<exists>v \<in> set (transactions d3). evolves c t v" if t: "t \<in> set (transactions d1)" for t
  proof -
    obtain u where u: "u \<in> set (transactions d2)" "evolves c t u" using assms(1) t by (auto simp: db_evolves_def)
    obtain v where v: "v \<in> set (transactions d3)" "evolves c u v" using assms(2) u(1) by (auto simp: db_evolves_def)
    show ?thesis using v(1) evolves_trans [OF u(2) v(2)] by blast
  qed
  then show ?thesis using assms by (auto simp: db_evolves_def intro: prefix_order.trans)
qed

lemma evolves_update:
  "row_update f \<Longrightarrow> leg_sides (detailFromRow c (f t)) = leg_sides (detailFromRow c t) \<Longrightarrow>
   td_amount (detailFromRow c (f t)) = td_amount (detailFromRow c t) \<Longrightarrow>
   canTransitionStatus (t_status t) (t_status (f t)) \<Longrightarrow> evolves c t (f t)"
  using row_updateD [of f t] by (simp add: evolves_def)

text \<open>A mark keeps the invariant if the new status fits the legs, and after an answer without error
  the transfer is in no status from which the mark could still move it.\<close>

lemma mark_inv:
  assumes inv: "sw_inv truth c (w_db w)" and t: "t \<in> set (transactions (w_db w))" "lifecycle t" "t_id t = i"
    and run: "advance i to app w = (r, w')"
    and app: "\<And>ev d u d'. app ev d = Inr (u, d') \<Longrightarrow> \<exists>f. Q f \<and> advanced i f (eventForStatus to) d d'"
    and Q: "\<And>f x. Q f \<Longrightarrow> row_update f \<and> t_status (f x) = to \<and> leg_sides (detailFromRow c (f x)) = leg_sides (detailFromRow c x)
      \<and> td_amount (detailFromRow c (f x)) = td_amount (detailFromRow c x)"
    and st: "\<And>f. Q f \<Longrightarrow> canTransitionStatus (t_status t) to \<Longrightarrow> statuses_match truth c (f t) (leg_fact c (w_db w) i)"
  shows "sw_inv truth c (w_db w') \<and> set (outbox (w_db w)) \<subseteq> set (outbox (w_db w')) \<and> db_evolves c (w_db w) (w_db w')
    \<and> (\<forall>b. r = Inr b \<longrightarrow> (\<forall>x \<in> set (transactions (w_db w')). t_id x = i \<longrightarrow> \<not> canTransitionStatus (t_status x) to))"
proof -
  have sp: "(w_db w' = w_db w
      \<or> (\<exists>row f. find_tx i (w_db w) = Some row \<and> canTransitionStatus (t_status row) to \<and> Q f
            \<and> advanced i f (eventForStatus to) (w_db w) (w_db w')))
    \<and> (\<forall>b. r = Inr b \<longrightarrow> (\<exists>row. find_tx i (w_db w) = Some row \<and> b = canTransitionStatus (t_status row) to
          \<and> (if b then \<exists>f. Q f \<and> advanced i f (eventForStatus to) (w_db w) (w_db w') else w_db w' = w_db w)))"
    by (rule advance_spec [OF run]) (rule app)
  have row: "find_tx i (w_db w) = Some t" using find_tx_row [OF sw_invD(2) [OF inv] t(1)] t(3) by simp
  have moved: "sw_inv truth c d' \<and> set (outbox (w_db w)) \<subseteq> set (outbox d') \<and> db_evolves c (w_db w) d'
      \<and> (\<forall>x \<in> set (transactions d'). t_id x = i \<longrightarrow> t_status x = to)"
    if f: "Q f" and a: "advanced i f (eventForStatus to) (w_db w) d'" and e: "canTransitionStatus (t_status t) to" for f d'
  proof (intro conjI ballI impI)
    note q = Q [OF f]
    show "sw_inv truth c d'"
      by (rule sw_inv_advanced [OF inv t(1,2), of f]) (use q a t(3) st [OF f e] in auto)
    show "set (outbox (w_db w)) \<subseteq> set (outbox d')" by (rule advancedD(5) [OF a])
    have "\<exists>y \<in> set (transactions d'). evolves c x y" if x: "x \<in> set (transactions (w_db w))" for x
    proof -
      have "(if t_id x = i then f x else x) \<in> set (transactions d')"
        using x unfolding advancedD(2) [OF a] update_where_def by auto
      moreover have "evolves c x (if t_id x = i then f x else x)"
        using evolves_update [of f c x] q e row_by_id [OF sw_invD(2) [OF inv] x t(1)] t(3) by auto
      ultimately show ?thesis by blast
    qed
    then show "db_evolves c (w_db w) d'" using advancedD(1,3) [OF a] by (simp add: db_evolves_def)
    fix x
    assume "x \<in> set (transactions d')" "t_id x = i"
    then have "x \<in> (\<lambda>y. if t_id y = i then f y else y) ` set (transactions (w_db w))"
      unfolding advancedD(2) [OF a] update_where_def by simp
    then obtain y where "x = (if t_id y = i then f y else y)" by (rule imageE)
    then show "t_status x = to" using \<open>t_id x = i\<close> q by (auto split: if_splits)
  qed
  have self: "\<not> canTransitionStatus to to" using edge_decreases_rank [of to to] by auto
  have unmoved: "t_status x = t_status t" if "x \<in> set (transactions (w_db w))" "t_id x = i" for x
    using row_by_id [OF sw_invD(2) [OF inv] that(1) t(1)] that(2) t(3) by simp
  show ?thesis
  proof (intro conjI allI impI)
    show "sw_inv truth c (w_db w')" "set (outbox (w_db w)) \<subseteq> set (outbox (w_db w'))" "db_evolves c (w_db w) (w_db w')"
      using sp row inv moved by auto
    fix b
    assume "r = Inr b"
    with sp row have b: "b = canTransitionStatus (t_status t) to"
      "if b then \<exists>f. Q f \<and> advanced i f (eventForStatus to) (w_db w) (w_db w') else w_db w' = w_db w" by auto
    show "\<forall>x \<in> set (transactions (w_db w')). t_id x = i \<longrightarrow> \<not> canTransitionStatus (t_status x) to"
    proof (cases b)
      case True
      then show ?thesis using b moved self by auto
    next
      case False
      then show ?thesis using b unmoved by auto
    qed
  qed
qed

lemma eventForStatus_simps [simp]:
  "eventForStatus statusPending = EventDebitRequested" "eventForStatus statusDebited = EventDebited"
  "eventForStatus statusInDoubt = EventInDoubt" "eventForStatus statusReversalPending = EventReversalRequested"
  "eventForStatus statusSettled = []" "eventForStatus statusReversed = []" "eventForStatus statusManualReview = []"
  "eventForStatus statusFailed = []"
  by (simp_all add: eventForStatus_def)

text \<open>What a call of the driver may do to the world.\<close>

definition keeps :: "(string \<Rightarrow> rail_status) \<Rightarrow> world \<Rightarrow> world \<Rightarrow> bool" where
  "keeps truth w w' \<longleftrightarrow>
     (sw_inv truth (w_codec w) (w_db w) \<longrightarrow> sw_inv truth (w_codec w) (w_db w') \<and> set (outbox (w_db w)) \<subseteq> set (outbox (w_db w'))
        \<and> db_evolves (w_codec w) (w_db w) (w_db w'))
     \<and> w_env w' = w_env w \<and> w_codec w' = w_codec w"

lemma keeps_refl [simp]: "keeps truth w w"
  by (simp add: keeps_def)

lemma keeps_trans: "keeps truth w1 w2 \<Longrightarrow> keeps truth w2 w3 \<Longrightarrow> keeps truth w1 w3"
  by (auto simp: keeps_def intro: db_evolves_trans)

lemma keeps_same_db: "w_db w' = w_db w \<Longrightarrow> w_env w' = w_env w \<Longrightarrow> w_codec w' = w_codec w \<Longrightarrow> keeps truth w w'"
  by (simp add: keeps_def)

definition moved_on :: "uuid \<Rightarrow> string \<Rightarrow> db \<Rightarrow> bool" where
  "moved_on i to d \<longleftrightarrow> (\<forall>x \<in> set (transactions d). t_id x = i \<longrightarrow> \<not> canTransitionStatus (t_status x) to)"

definition transfer_row :: "db \<Rightarrow> uuid \<Rightarrow> tx_row \<Rightarrow> bool" where
  "transfer_row d i t \<longleftrightarrow> t \<in> set (transactions d) \<and> lifecycle t \<and> t_id t = i"

text \<open>The seven marks, each with the facts that make its new status fit.\<close>

lemma mark_keeps:
  assumes inv: "sw_inv truth (w_codec w) (w_db w)" and t: "transfer_row (w_db w) i t"
    and run: "advance i to app w = (r, w')"
    and app: "\<And>ev d u d'. app ev d = Inr (u, d') \<Longrightarrow> \<exists>f \<in> F. advanced i f (eventForStatus to) d d'"
    and F: "\<And>f x. f \<in> F \<Longrightarrow> row_update f \<and> t_status (f x) = to
      \<and> leg_sides (detailFromRow (w_codec w) (f x)) = leg_sides (detailFromRow (w_codec w) x)
      \<and> td_amount (detailFromRow (w_codec w) (f x)) = td_amount (detailFromRow (w_codec w) x)"
    and st: "\<And>f. f \<in> F \<Longrightarrow> canTransitionStatus (t_status t) to \<Longrightarrow>
      statuses_match truth (w_codec w) (f t) (leg_fact (w_codec w) (w_db w) i)"
  shows "keeps truth w w' \<and> (\<forall>b. r = Inr b \<longrightarrow> moved_on i to (w_db w'))"
proof -
  have m: "sw_inv truth (w_codec w) (w_db w') \<and> set (outbox (w_db w)) \<subseteq> set (outbox (w_db w'))
    \<and> db_evolves (w_codec w) (w_db w) (w_db w')
    \<and> (\<forall>b. r = Inr b \<longrightarrow> (\<forall>x \<in> set (transactions (w_db w')). t_id x = i \<longrightarrow> \<not> canTransitionStatus (t_status x) to))"
  proof (rule mark_inv [OF inv _ _ _ run])
    show "\<exists>f. f \<in> F \<and> advanced i f (eventForStatus to) d d'" if "app ev d = Inr (u, d')" for ev d u d'
      using app [OF that] by blast
  qed (use t F st in \<open>auto simp: transfer_row_def\<close>)
  show ?thesis
    using m act_frameD [OF advance_frame run] by (simp add: keeps_def moved_on_def)
qed

lemma statuses_of:
  assumes "sw_inv truth c d" "transfer_row d i t"
  shows "statuses_match truth c t (leg_fact c d i)"
  using sw_invD(5) [OF assms(1)] assms(2) by (auto simp: transfer_row_def transfer_ok_def)

lemma markDebited_keeps:
  assumes inv: "sw_inv truth (w_codec w) (w_db w)" and t: "transfer_row (w_db w) i t"
    and leg: "leg_fact (w_codec w) (w_db w) i ''debit'' = Some (v, es)" and run: "markDebited i v p w = (r, w')"
  shows "keeps truth w w' \<and> (\<forall>b. r = Inr b \<longrightarrow> moved_on i statusDebited (w_db w'))"
proof (rule mark_keeps [OF inv t run [unfolded markDebited_def], where F = "{upd_debited (uuid_String (w_codec w) v)}"])
  show "statuses_match truth (w_codec w) (f t) (leg_fact (w_codec w) (w_db w) i)"
    if "f \<in> {upd_debited (uuid_String (w_codec w) v)}" "canTransitionStatus (t_status t) statusDebited" for f
    using statuses_of [OF inv t] leg that upd_debited_leg [OF sw_invD(1) [OF inv]]
    by (auto simp: statuses_match_def canTransitionStatus_iff switch_statuses_def)
qed (auto dest: apply_advanced)

lemma markSettled_keeps:
  assumes inv: "sw_inv truth (w_codec w) (w_db w)" and t: "transfer_row (w_db w) i t"
    and leg: "canTransitionStatus (t_status t) statusSettled \<Longrightarrow> leg_fact (w_codec w) (w_db w) i ''settle'' \<noteq> None"
    and run: "markSettled i w = (r, w')"
  shows "keeps truth w w' \<and> (\<forall>b. r = Inr b \<longrightarrow> moved_on i statusSettled (w_db w'))"
proof (rule mark_keeps [OF inv t run [unfolded markSettled_def], where F = "range upd_settled"])
  show "statuses_match truth (w_codec w) (f t) (leg_fact (w_codec w) (w_db w) i)"
    if f: "f \<in> range upd_settled" and st: "canTransitionStatus (t_status t) statusSettled" for f
  proof -
    obtain ev where ev: "f = upd_settled ev" using f by blast
    obtain v es where stl: "leg_fact (w_codec w) (w_db w) i ''settle'' = Some (v, es)" using leg [OF st] by fast
    have "t_status t = statusDebited \<or> t_status t = statusInDoubt" using st by (simp add: canTransitionStatus_iff)
    then show ?thesis
      using statuses_of [OF inv t] stl unfolding ev by (auto simp: statuses_match_def switch_statuses_def)
  qed
qed (auto dest: apply_advanced)

lemma status_mark_keeps:
  assumes inv: "sw_inv truth (w_codec w) (w_db w)" and t: "transfer_row (w_db w) i t"
    and run: "advance i to app w = (r, w')"
    and app: "\<And>ev d u d'. app ev d = Inr (u, d') \<Longrightarrow> advanced i (upd_status to) (eventForStatus to) d d'"
    and st: "canTransitionStatus (t_status t) to \<Longrightarrow>
      statuses_match truth (w_codec w) (upd_status to t) (leg_fact (w_codec w) (w_db w) i)"
  shows "keeps truth w w' \<and> (\<forall>b. r = Inr b \<longrightarrow> moved_on i to (w_db w'))"
  by (rule mark_keeps [OF inv t run, where F = "{upd_status to}"]) (use app st in auto)

lemma markInDoubt_keeps:
  assumes inv: "sw_inv truth (w_codec w) (w_db w)" and t: "transfer_row (w_db w) i t" and run: "markInDoubt i p w = (r, w')"
  shows "keeps truth w w' \<and> (\<forall>b. r = Inr b \<longrightarrow> moved_on i statusInDoubt (w_db w'))"
proof (rule status_mark_keeps [OF inv t run [unfolded markInDoubt_def]])
  show "statuses_match truth (w_codec w) (upd_status statusInDoubt t) (leg_fact (w_codec w) (w_db w) i)"
    if "canTransitionStatus (t_status t) statusInDoubt"
    using statuses_of [OF inv t] that by (auto simp: statuses_match_def canTransitionStatus_iff switch_statuses_def)
qed (auto dest: apply_advanced)

lemma markReversalPending_keeps:
  assumes inv: "sw_inv truth (w_codec w) (w_db w)" and t: "transfer_row (w_db w) i t"
    and d: "truth (t_reference t) = RAIL_STATUS_DECLINED" and run: "markReversalPending i p w = (r, w')"
  shows "keeps truth w w' \<and> (\<forall>b. r = Inr b \<longrightarrow> moved_on i statusReversalPending (w_db w'))"
proof (rule status_mark_keeps [OF inv t run [unfolded markReversalPending_def]])
  show "statuses_match truth (w_codec w) (upd_status statusReversalPending t) (leg_fact (w_codec w) (w_db w) i)"
    if "canTransitionStatus (t_status t) statusReversalPending"
  proof -
    have "t_status t = statusDebited \<or> t_status t = statusInDoubt" using that by (simp add: canTransitionStatus_iff)
    then show ?thesis using statuses_of [OF inv t] d by (elim disjE) (simp_all add: statuses_match_def switch_statuses_def)
  qed
qed (auto dest: apply_advanced)

lemma markReversed_keeps:
  assumes inv: "sw_inv truth (w_codec w) (w_db w)" and t: "transfer_row (w_db w) i t"
    and leg: "leg_fact (w_codec w) (w_db w) i ''reversal'' \<noteq> None" and run: "markReversed i w = (r, w')"
  shows "keeps truth w w' \<and> (\<forall>b. r = Inr b \<longrightarrow> moved_on i statusReversed (w_db w'))"
proof (rule status_mark_keeps [OF inv t run [unfolded markReversed_def]])
  show "statuses_match truth (w_codec w) (upd_status statusReversed t) (leg_fact (w_codec w) (w_db w) i)"
    if "canTransitionStatus (t_status t) statusReversed"
    using statuses_of [OF inv t] that leg by (auto simp: statuses_match_def canTransitionStatus_iff switch_statuses_def)
qed (auto dest: apply_advanced)

lemma markManualReview_keeps:
  assumes inv: "sw_inv truth (w_codec w) (w_db w)" and t: "transfer_row (w_db w) i t" and run: "markManualReview i w = (r, w')"
  shows "keeps truth w w' \<and> (\<forall>b. r = Inr b \<longrightarrow> moved_on i statusManualReview (w_db w'))"
proof (rule status_mark_keeps [OF inv t run [unfolded markManualReview_def]])
  show "statuses_match truth (w_codec w) (upd_status statusManualReview t) (leg_fact (w_codec w) (w_db w) i)"
    if "canTransitionStatus (t_status t) statusManualReview"
    using statuses_of [OF inv t] that by (auto simp: statuses_match_def canTransitionStatus_iff switch_statuses_def)
qed (auto dest: apply_advanced)

lemma markFailed_keeps:
  assumes inv: "sw_inv truth (w_codec w) (w_db w)" and t: "transfer_row (w_db w) i t"
    and leg: "leg_fact (w_codec w) (w_db w) i ''debit'' = None" and run: "markFailed i w = (r, w')"
  shows "keeps truth w w' \<and> (\<forall>b. r = Inr b \<longrightarrow> moved_on i statusFailed (w_db w'))"
proof (rule status_mark_keeps [OF inv t run [unfolded markFailed_def]])
  show "statuses_match truth (w_codec w) (upd_status statusFailed t) (leg_fact (w_codec w) (w_db w) i)"
    if "canTransitionStatus (t_status t) statusFailed"
    using statuses_of [OF inv t] that leg by (auto simp: statuses_match_def canTransitionStatus_iff switch_statuses_def)
qed (auto dest: apply_advanced)

end
