(* ===== verification/DriverHandlers.thy ===== *)
theory DriverHandlers
  imports DriverInv
begin

text \<open>
  The handlers of the driver, the rail callback, the orchestrator and the recovery sweep keep the
  switch invariant. The environment is any whose network makes up no business answer and whose rail
  tells the truth about a reference whenever it answers (\<open>driver_env\<close>).
\<close>

definition driver_env :: "(string \<Rightarrow> rail_status) \<Rightarrow> world \<Rightarrow> bool" where
  "driver_env truth w \<longleftrightarrow> world_ok w
     \<and> (\<forall>n ref s. e_rail (w_env w n) ref = Inr s \<longrightarrow> s \<noteq> RAIL_STATUS_UNSPECIFIED \<longrightarrow> s = truth ref)"

lemma driver_env_same: "driver_env truth w \<Longrightarrow> w_env w' = w_env w \<Longrightarrow> w_codec w' = w_codec w \<Longrightarrow> driver_env truth w'"
  by (simp add: driver_env_def world_ok_def)

lemma driver_env_keeps: "driver_env truth w \<Longrightarrow> keeps truth w w' \<Longrightarrow> driver_env truth w'"
  by (rule driver_env_same) (auto simp: keeps_def)

lemma keeps_inv: "keeps truth w w' \<Longrightarrow> sw_inv truth (w_codec w) (w_db w) \<Longrightarrow> sw_inv truth (w_codec w') (w_db w')"
  by (simp add: keeps_def)

section \<open>Reads\<close>

lemma store_load_spec:
  assumes "store_load i w = (r, w')"
  shows "w_db w' = w_db w \<and> w_env w' = w_env w \<and> w_codec w' = w_codec w
    \<and> (\<forall>det. r = Inr det \<longrightarrow> (\<exists>t. find_tx i (w_db w) = Some t \<and> det = detailFromRow (w_codec w) t))"
proof -
  obtain x w1 where g: "run_stmt (GetTransferByID i) w = (x, w1)" by force
  have rd: "tx_reads (GetTransferByID i)" by (auto simp: tx_reads_def GetTransferByID_Inr)
  have fr: "w_db w1 = w_db w" "w_env w1 = w_env w" "w_codec w1 = w_codec w"
    using run_stmt_reads [OF rd g] act_frameD [OF act_frame_run_tx(2) g] by simp_all
  have "\<exists>t. find_tx i (w_db w) = Some t \<and> det = detailFromRow (w_codec w) t" if "r = Inr det" for det
  proof -
    from that assms g obtain t where x: "x = Inr t" "det = detailFromRow (w_codec w) t"
      by (auto simp: store_load_def split: sum.splits if_splits)
    from run_read_Inr(3) [OF g [unfolded x(1)] rd] show ?thesis using x(2) by (auto simp: GetTransferByID_Inr)
  qed
  moreover have "w' = w1" using assms g by (auto simp: store_load_def split: sum.splits if_splits)
  ultimately show ?thesis using fr by simp
qed

lemma store_load_keeps: "store_load i w = (r, w') \<Longrightarrow> keeps truth w w'"
  by (drule store_load_spec) (auto intro: keeps_same_db)

lemma loadByReference_spec:
  assumes "loadByReference ref w = (r, w')"
  shows "w_db w' = w_db w \<and> w_env w' = w_env w \<and> w_codec w' = w_codec w
    \<and> (\<forall>det. r = Inr det \<longrightarrow> (\<exists>t. transfer_row (w_db w) (t_id t) t \<and> t_reference t = ref
          \<and> (\<exists>ev. GetTransferByReference ref ev (w_db w) = Inr (t, w_db w)) \<and> det = detailFromRow (w_codec w) t))"
proof -
  obtain x w1 where g: "run_stmt (GetTransferByReference ref) w = (x, w1)" by force
  have rd: "tx_reads (GetTransferByReference ref)" by (auto simp: tx_reads_def dest: GetTransferByReference_Inr)
  have fr: "w_db w1 = w_db w" "w_env w1 = w_env w" "w_codec w1 = w_codec w"
    using run_stmt_reads [OF rd g] act_frameD [OF act_frame_run_tx(2) g] by simp_all
  have "\<exists>t. transfer_row (w_db w) (t_id t) t \<and> t_reference t = ref
      \<and> (\<exists>ev. GetTransferByReference ref ev (w_db w) = Inr (t, w_db w)) \<and> det = detailFromRow (w_codec w) t"
    if "r = Inr det" for det
  proof -
    from that assms g obtain t where x: "x = Inr t" "det = detailFromRow (w_codec w) t"
      by (auto simp: loadByReference_def split: sum.splits if_splits)
    from run_read_Inr(3) [OF g [unfolded x(1)] rd] obtain ev
      where q: "GetTransferByReference ref ev (w_db w) = Inr (t, w_db w)" by blast
    show ?thesis using GetTransferByReference_Inr [OF q] q x(2) by (auto simp: transfer_row_def)
  qed
  moreover have "w' = w1" using assms g by (auto simp: loadByReference_def split: sum.splits if_splits)
  ultimately show ?thesis using fr by simp
qed

section \<open>Leg posts\<close>

lemma td_transfer_simps [simp]:
  "tf_id (td_transfer det) = td_id det" "tf_amount (td_transfer det) = td_amount det"
  "tf_source (td_transfer det) = td_source det" "tf_destination (td_transfer det) = td_destination det"
  "td_id (detailFromRow c t) = t_id t" "td_status (detailFromRow c t) = t_status t"
  "td_reference (detailFromRow c t) = t_reference t" "tf_reference (td_transfer det) = td_reference det"
  by (simp_all add: td_transfer_def detailFromRow_def)

lemma leg_amount_positive:
  assumes inv: "ledger_inv d" and lf: "leg_fact c d i l = Some (v, es)" and lp: "leg_posts d es dr cr amt"
  shows "0 < sint amt"
proof -
  obtain u where es: "find_tx_by_key (legKey c i l) d = Some u" "es = tx_entries (t_id u) (entries d)"
    using lf by (auto simp: leg_fact_def)
  obtain e1 e2 where e: "es = [e1, e2]" "e_amount_minor e1 = amt" using lp by (auto simp: leg_posts_def)
  have "e1 \<in> set (tx_entries (t_id u) (entries d))" using e(1) es by simp
  then have "entry_wf d e1" using ledger_invD(3) [OF inv] by (auto simp: tx_entries_def)
  then show ?thesis using e(2) by (simp add: entry_wf_def entry_amount_def)
qed

text \<open>A leg that exists could be posted again: the ledger has no terminal objection to it.\<close>

lemma leg_exists_possible:
  assumes inv: "sw_inv truth c d" and t: "transfer_row d i t" and l: "l \<in> set leg_names"
    and lf: "leg_fact c d i l = Some (v, es)"
  shows "leg_possible d (td_transfer (detailFromRow c t)) (fst (leg_sides (detailFromRow c t) l)) (snd (leg_sides (detailFromRow c t) l))"
proof -
  have lp: "leg_posts d es (fst (leg_sides (detailFromRow c t) l)) (snd (leg_sides (detailFromRow c t) l)) (td_amount (detailFromRow c t))"
    using sw_invD(5) [OF inv, of t] t l lf by (auto simp: transfer_row_def transfer_ok_def legs_match_def)
  show ?thesis
    using leg_amount_positive [OF sw_invD(2) [OF inv] lf lp] lp by (auto simp: leg_possible_def leg_posts_def)
qed

lemma leg_post_keeps:
  assumes inv: "sw_inv truth (w_codec w) (w_db w)" and env: "driver_env truth w"
    and t: "transfer_row (w_db w) i t" and l: "l \<in> set leg_names" and adm: "admits truth t l"
    and dr: "dr = fst (leg_sides (detailFromRow (w_codec w) t) l)" and cr: "cr = snd (leg_sides (detailFromRow (w_codec w) t) l)"
    and kind: "leg_kind (w_codec w) (w_db w) i l ty parent"
    and run: "client_post (td_transfer (detailFromRow (w_codec w) t)) dr cr (legKey (w_codec w) i l) ty parent w = (r, w')"
  shows "keeps truth w w' \<and> transfer_row (w_db w') i t
    \<and> (\<forall>v. r = Inr v \<longrightarrow> (\<exists>es. leg_fact (w_codec w) (w_db w') i l = Some (v, es)))
    \<and> (\<forall>e. r = Inl e \<longrightarrow> isTerminalLedgerError e \<longrightarrow> w_db w' = w_db w \<and> leg_fact (w_codec w) (w_db w) i l = None)"
proof -
  let ?c = "w_codec w"
  have ok: "world_ok w" using env by (simp add: driver_env_def)
  note sp = client_post_spec [OF ok sw_invD(2) [OF inv] legKey_not_Nil run]
  have t': "t \<in> set (transactions (w_db w))" "lifecycle t" "t_id t = i" using t by (auto simp: transfer_row_def)
  have "sw_inv truth ?c (w_db w')"
    by (rule sw_inv_post [OF inv t'(1,2) l adm, of "td_transfer (detailFromRow ?c t)"]) (use sp dr cr t'(3) kind in auto)
  moreover have "set (outbox (w_db w)) \<subseteq> set (outbox (w_db w'))" "t \<in> set (transactions (w_db w'))"
    using sp t'(1) by (auto simp: leg_written_def post_frame_def)
  moreover have "db_evolves ?c (w_db w) (w_db w')"
    using sp by (auto simp: leg_written_def post_frame_def intro!: db_evolvesI)
  moreover have "\<exists>es. leg_fact ?c (w_db w') i l = Some (v, es)" if "r = Inr v" for v
    using sp that by (auto simp: leg_fact_def)
  moreover have "w_db w' = w_db w \<and> leg_fact ?c (w_db w) i l = None" if "r = Inl e" "isTerminalLedgerError e" for e
  proof -
    have "w_db w' = w_db w" "\<not> leg_possible (w_db w) (td_transfer (detailFromRow ?c t)) dr cr"
      using sp that by blast+
    then show ?thesis using leg_exists_possible [OF inv t l] dr cr by (cases "leg_fact ?c (w_db w) i l") auto
  qed
  ultimately show ?thesis
    using act_frameD [OF client_post_frame run] t' by (auto simp: keeps_def transfer_row_def)
qed

lemma PostDebitLeg_keeps:
  assumes inv: "sw_inv truth (w_codec w) (w_db w)" and env: "driver_env truth w"
    and t: "transfer_row (w_db w) i t" and st: "t_status t \<noteq> statusFailed"
    and run: "PostDebitLeg (td_transfer (detailFromRow (w_codec w) t)) w = (r, w')"
  shows "keeps truth w w' \<and> transfer_row (w_db w') i t
    \<and> (\<forall>v. r = Inr v \<longrightarrow> (\<exists>es. leg_fact (w_codec w) (w_db w') i ''debit'' = Some (v, es)))
    \<and> (\<forall>e. r = Inl e \<longrightarrow> isTerminalLedgerError e \<longrightarrow> w_db w' = w_db w \<and> leg_fact (w_codec w) (w_db w) i ''debit'' = None)"
proof -
  have "t_id t = i" using t by (simp add: transfer_row_def)
  then show ?thesis
    using run unfolding PostDebitLeg_def
    by (intro leg_post_keeps [OF inv env t, where ty = TypeTransfer and parent = None])
      (auto simp: leg_names_def admits_def leg_sides_def leg_kind_def st)
qed

lemma PostSettlementLeg_keeps:
  assumes inv: "sw_inv truth (w_codec w) (w_db w)" and env: "driver_env truth w"
    and t: "transfer_row (w_db w) i t" and st: "t_status t \<notin> {statusPending, statusFailed}"
    and tr: "truth (t_reference t) = RAIL_STATUS_SUCCESS"
    and run: "PostSettlementLeg (td_transfer (detailFromRow (w_codec w) t)) w = (r, w')"
  shows "keeps truth w w' \<and> transfer_row (w_db w') i t
    \<and> (r = Inr () \<longrightarrow> leg_fact (w_codec w) (w_db w') i ''settle'' \<noteq> None)"
proof -
  have i: "t_id t = i" using t by (simp add: transfer_row_def)
  obtain x w1 where p: "client_post (td_transfer (detailFromRow (w_codec w) t)) settlementAccount
      (td_destination (detailFromRow (w_codec w) t)) (legKey (w_codec w) i ''settle'') TypeTransfer None w = (x, w1)" by force
  have "keeps truth w w1 \<and> transfer_row (w_db w1) i t
    \<and> (\<forall>v. x = Inr v \<longrightarrow> (\<exists>es. leg_fact (w_codec w) (w_db w1) i ''settle'' = Some (v, es)))
    \<and> (\<forall>e. x = Inl e \<longrightarrow> isTerminalLedgerError e \<longrightarrow> w_db w1 = w_db w \<and> leg_fact (w_codec w) (w_db w) i ''settle'' = None)"
    by (rule leg_post_keeps [OF inv env t _ _ _ _ _ p]) (use st tr in \<open>auto simp: leg_names_def admits_def leg_sides_def leg_kind_def\<close>)
  then show ?thesis using run p i by (cases x) (auto simp: PostSettlementLeg_def)
qed

lemma PostReversal_keeps:
  assumes inv: "sw_inv truth (w_codec w) (w_db w)" and env: "driver_env truth w"
    and t: "transfer_row (w_db w) i t" and st: "t_status t \<in> {statusReversalPending, statusReversed}"
    and debit: "leg_fact (w_codec w) (w_db w) i ''debit'' = Some (parent, es)"
    and run: "PostReversal (td_transfer (detailFromRow (w_codec w) t)) parent w = (r, w')"
  shows "keeps truth w w' \<and> transfer_row (w_db w') i t
    \<and> (r = Inr () \<longrightarrow> leg_fact (w_codec w) (w_db w') i ''reversal'' \<noteq> None)"
proof -
  have i: "t_id t = i" using t by (simp add: transfer_row_def)
  obtain x w1 where p: "client_post (td_transfer (detailFromRow (w_codec w) t)) settlementAccount
      (td_source (detailFromRow (w_codec w) t)) (legKey (w_codec w) i ''reversal'') TypeReversal (Some parent) w = (x, w1)" by force
  have "keeps truth w w1 \<and> transfer_row (w_db w1) i t
    \<and> (\<forall>v. x = Inr v \<longrightarrow> (\<exists>es. leg_fact (w_codec w) (w_db w1) i ''reversal'' = Some (v, es)))
    \<and> (\<forall>e. x = Inl e \<longrightarrow> isTerminalLedgerError e \<longrightarrow> w_db w1 = w_db w \<and> leg_fact (w_codec w) (w_db w) i ''reversal'' = None)"
    by (rule leg_post_keeps [OF inv env t _ _ _ _ _ p]) (use st debit in \<open>auto simp: leg_names_def admits_def leg_sides_def leg_kind_def\<close>)
  then show ?thesis using run p i by (cases x) (auto simp: PostReversal_def)
qed

section \<open>Outcome counters\<close>

lemma on_terminal_spec:
  assumes "on_terminal oc m w = (r, w')"
  shows "\<exists>w1. m w = (r, w1) \<and> w_db w' = w_db w1 \<and> w_env w' = w_env w1 \<and> w_codec w' = w_codec w1"
  using assms by (auto simp: on_terminal_def recordOutcome_def split: sum.splits prod.splits)

lemma discard_spec: "discard m w = (r, w') \<Longrightarrow> \<exists>x. m w = (x, w') \<and> ((\<exists>b. x = Inr b) \<longleftrightarrow> r = Inr ())"
  by (cases r) (auto simp: discard_def split: sum.splits prod.splits)

lemma keeps_cong:
  "keeps truth w w1 \<Longrightarrow> w_db w' = w_db w1 \<Longrightarrow> w_env w' = w_env w1 \<Longrightarrow> w_codec w' = w_codec w1 \<Longrightarrow> keeps truth w w'"
  by (simp add: keeps_def)

text \<open>A mark, its outcome counter, and the result dropped: the shape every step ends with.\<close>

lemma finish_keeps:
  assumes m: "\<And>x w1. m w = (x, w1) \<Longrightarrow> keeps truth w w1 \<and> (\<forall>b. x = Inr b \<longrightarrow> moved_on i to (w_db w1))"
  shows "on_terminal oc m w = (b, w') \<Longrightarrow> keeps truth w w' \<and> (\<forall>a. b = Inr a \<longrightarrow> moved_on i to (w_db w'))"
    and "discard (on_terminal oc m) w = (r, w') \<Longrightarrow> keeps truth w w' \<and> (r = Inr () \<longrightarrow> moved_on i to (w_db w'))"
    and "discard m w = (r, w') \<Longrightarrow> keeps truth w w' \<and> (r = Inr () \<longrightarrow> moved_on i to (w_db w'))"
proof -
  show t: "keeps truth w w' \<and> (\<forall>a. b = Inr a \<longrightarrow> moved_on i to (w_db w'))" if "on_terminal oc m w = (b, w')" for b w'
    using on_terminal_spec [OF that] m keeps_cong by metis
  show "discard (on_terminal oc m) w = (r, w') \<Longrightarrow> keeps truth w w' \<and> (r = Inr () \<longrightarrow> moved_on i to (w_db w'))"
    using discard_spec t by metis
  show "discard m w = (r, w') \<Longrightarrow> keeps truth w w' \<and> (r = Inr () \<longrightarrow> moved_on i to (w_db w'))"
    using discard_spec m by metis
qed

section \<open>The handlers\<close>

text \<open>\<open>handler_ok st h\<close>: on a lifecycle row \<open>h\<close> keeps the invariant, and when it reports success
  the row is no longer in status \<open>st\<close>.\<close>

definition out_of :: "uuid \<Rightarrow> string \<Rightarrow> db \<Rightarrow> bool" where
  "out_of i st d \<longleftrightarrow> (\<forall>x \<in> set (transactions d). t_id x = i \<longrightarrow> t_status x \<noteq> st)"

definition handler_ok :: "(string \<Rightarrow> rail_status) \<Rightarrow> string \<Rightarrow> uuid \<Rightarrow> unit act \<Rightarrow> bool" where
  "handler_ok truth st i h \<longleftrightarrow>
     (\<forall>w r w' t. sw_inv truth (w_codec w) (w_db w) \<longrightarrow> driver_env truth w \<longrightarrow> transfer_row (w_db w) i t \<longrightarrow> h w = (r, w') \<longrightarrow>
        keeps truth w w' \<and> (r = Inr () \<longrightarrow> out_of i st (w_db w')))"

lemma moved_on_out_of: "moved_on i to d \<Longrightarrow> canTransitionStatus st to \<Longrightarrow> out_of i st d"
  by (auto simp: moved_on_def out_of_def)

lemma row_out_of:
  assumes "sw_inv truth c d" "transfer_row d i t" "t_status t \<noteq> st"
  shows "out_of i st d"
  using assms row_by_id [OF sw_invD(2) [OF assms(1)]] by (auto simp: out_of_def transfer_row_def)

lemma edges [simp]:
  "canTransitionStatus statusPending statusDebited" "canTransitionStatus statusPending statusFailed"
  "canTransitionStatus statusDebited statusSettled" "canTransitionStatus statusDebited statusInDoubt"
  "canTransitionStatus statusDebited statusReversalPending" "canTransitionStatus statusInDoubt statusSettled"
  "canTransitionStatus statusInDoubt statusReversalPending" "canTransitionStatus statusInDoubt statusManualReview"
  "canTransitionStatus statusReversalPending statusReversed"
  by (simp_all add: canTransitionStatus_iff)

text \<open>Every handler starts with a load that either ends it or hands over the row.\<close>

lemma handler_okI:
  assumes h: "\<And>w. h w = (case store_load i w of (Inl e, w1) \<Rightarrow> (Inl e, w1)
      | (Inr det, w1) \<Rightarrow> if td_status det \<noteq> st then (Inr (), w1) else k det w1)"
    and k: "\<And>w r w' t. sw_inv truth (w_codec w) (w_db w) \<Longrightarrow> driver_env truth w \<Longrightarrow> transfer_row (w_db w) i t \<Longrightarrow>
      t_status t = st \<Longrightarrow> k (detailFromRow (w_codec w) t) w = (r, w') \<Longrightarrow>
      keeps truth w w' \<and> (r = Inr () \<longrightarrow> out_of i st (w_db w'))"
  shows "handler_ok truth st i h"
  unfolding handler_ok_def
proof (intro allI impI)
  fix w r w' t
  assume inv: "sw_inv truth (w_codec w) (w_db w)" and env: "driver_env truth w" and t: "transfer_row (w_db w) i t"
    and run: "h w = (r, w')"
  obtain x w1 where l: "store_load i w = (x, w1)" by force
  note sp = store_load_spec [OF l]
  have k1: "keeps truth w w1" by (rule store_load_keeps [OF l])
  note inv1 = keeps_inv [OF k1 inv] and env1 = driver_env_keeps [OF env k1]
  have t1: "transfer_row (w_db w1) i t" using t sp by simp
  show "keeps truth w w' \<and> (r = Inr () \<longrightarrow> out_of i st (w_db w'))"
  proof (cases x)
    case (Inl e)
    then show ?thesis using run l k1 by (auto simp: h)
  next
    case (Inr det)
    have "find_tx i (w_db w) = Some t"
      using find_tx_row [OF sw_invD(2) [OF inv], of t] t by (simp add: transfer_row_def)
    then have det: "det = detailFromRow (w_codec w1) t" using sp Inr by auto
    show ?thesis
    proof (cases "t_status t = st")
      case False
      then have "r = Inr ()" "w' = w1" using run l Inr det by (simp_all add: h)
      then show ?thesis using k1 row_out_of [OF inv1 t1 False] by simp
    next
      case True
      then have "k (detailFromRow (w_codec w1) t) w1 = (r, w')" using run l Inr det by (simp add: h)
      from k [OF inv1 env1 t1 True this] show ?thesis using keeps_trans [OF k1] by blast
    qed
  qed
qed

lemma handleDebitRequested_ok: "handler_ok truth statusPending i (handleDebitRequested i)"
proof (rule handler_okI)
  fix w w' :: world and r t
  let ?det = "detailFromRow (w_codec w) t"
  let ?k = "\<lambda>det w1. case PostDebitLeg (td_transfer det) w1 of
      (Inl e, w2) \<Rightarrow> if isTerminalLedgerError e then discard (on_terminal statusFailed (markFailed i)) w2
        else (Inl (Wrap ''post debit leg: '' e []), w2)
    | (Inr leg, w2) \<Rightarrow> discard (markDebited i leg (eventPayload det)) w2"
  show "handleDebitRequested i w = (case store_load i w of (Inl e, w1) \<Rightarrow> (Inl e, w1)
      | (Inr det, w1) \<Rightarrow> if td_status det \<noteq> statusPending then (Inr (), w1) else ?k det w1)" for w
    by (simp add: handleDebitRequested_def)
  assume inv: "sw_inv truth (w_codec w) (w_db w)" and env: "driver_env truth w" and t: "transfer_row (w_db w) i t"
    and st: "t_status t = statusPending" and run: "?k ?det w = (r, w')"
  obtain x w2 where p: "PostDebitLeg (td_transfer ?det) w = (x, w2)" by force
  have post: "keeps truth w w2 \<and> transfer_row (w_db w2) i t
    \<and> (\<forall>v. x = Inr v \<longrightarrow> (\<exists>es. leg_fact (w_codec w) (w_db w2) i ''debit'' = Some (v, es)))
    \<and> (\<forall>e. x = Inl e \<longrightarrow> isTerminalLedgerError e \<longrightarrow> w_db w2 = w_db w \<and> leg_fact (w_codec w) (w_db w) i ''debit'' = None)"
    by (rule PostDebitLeg_keeps [OF inv env t _ p]) (simp add: st)
  have k2: "keeps truth w w2" and t2: "transfer_row (w_db w2) i t" and c2: "w_codec w2 = w_codec w"
    using post by (auto simp: keeps_def)
  note inv2 = keeps_inv [OF k2 inv]
  show "keeps truth w w' \<and> (r = Inr () \<longrightarrow> out_of i statusPending (w_db w'))"
  proof (cases x)
    case (Inr leg)
    obtain es where lf: "leg_fact (w_codec w2) (w_db w2) i ''debit'' = Some (leg, es)" using post Inr c2 by auto
    have "discard (markDebited i leg (eventPayload ?det)) w2 = (r, w')" using run p Inr by simp
    from finish_keeps(3) [OF markDebited_keeps [OF inv2 t2 lf] this]
    show ?thesis using keeps_trans [OF k2] moved_on_out_of [of i statusDebited _ statusPending] by simp
  next
    case (Inl e)
    show ?thesis
    proof (cases "isTerminalLedgerError e")
      case True
      then have lf: "leg_fact (w_codec w2) (w_db w2) i ''debit'' = None" using post Inl c2 by auto
      have "discard (on_terminal statusFailed (markFailed i)) w2 = (r, w')" using run p Inl True by simp
      from finish_keeps(2) [OF markFailed_keeps [OF inv2 t2 lf] this]
      show ?thesis using keeps_trans [OF k2] moved_on_out_of [of i statusFailed _ statusPending] by simp
    next
      case False
      then show ?thesis using run p Inl k2 by auto
    qed
  qed
qed

lemma settle_transfer_ok:
  assumes inv: "sw_inv truth (w_codec w) (w_db w)" and env: "driver_env truth w" and t: "transfer_row (w_db w) i t"
    and st: "t_status t \<in> {statusDebited, statusInDoubt}" and tr: "truth (t_reference t) = RAIL_STATUS_SUCCESS"
    and run: "settle_transfer (detailFromRow (w_codec w) t) i w = (r, w')"
  shows "keeps truth w w' \<and> (r = Inr () \<longrightarrow> out_of i (t_status t) (w_db w'))"
proof -
  obtain x w2 where p: "PostSettlementLeg (td_transfer (detailFromRow (w_codec w) t)) w = (x, w2)" by force
  have post: "keeps truth w w2 \<and> transfer_row (w_db w2) i t \<and> (x = Inr () \<longrightarrow> leg_fact (w_codec w) (w_db w2) i ''settle'' \<noteq> None)"
    by (rule PostSettlementLeg_keeps [OF inv env t _ tr p]) (use st in auto)
  have k2: "keeps truth w w2" and t2: "transfer_row (w_db w2) i t" and c2: "w_codec w2 = w_codec w"
    using post by (auto simp: keeps_def)
  show ?thesis
  proof (cases x)
    case (Inl e)
    then show ?thesis using run p k2 by (auto simp: settle_transfer_def)
  next
    case (Inr u)
    have "discard (on_terminal statusSettled (markSettled i)) w2 = (r, w')"
      using run p Inr by (simp add: settle_transfer_def)
    from finish_keeps(2) [OF markSettled_keeps [OF keeps_inv [OF k2 inv] t2] this]
    have "keeps truth w2 w' \<and> (r = Inr () \<longrightarrow> moved_on i statusSettled (w_db w'))" using post Inr c2 by simp
    then show ?thesis using keeps_trans [OF k2] moved_on_out_of [of i statusSettled _ "t_status t"] st by auto
  qed
qed

text \<open>The rail's answers are the truth when they are definite.\<close>

lemma rail_call_spec:
  assumes "rail_call pre ref w = (r, w')" and env: "driver_env truth w"
  shows "keeps truth w w' \<and> w_db w' = w_db w
    \<and> (r = Inr VerdictSuccess \<longrightarrow> truth ref = RAIL_STATUS_SUCCESS)
    \<and> (r = Inr VerdictDeclined \<longrightarrow> truth ref = RAIL_STATUS_DECLINED)"
proof -
  have t: "s \<noteq> RAIL_STATUS_UNSPECIFIED \<Longrightarrow> e_rail (w_env w (w_tick w)) ref = Inr s \<Longrightarrow> s = truth ref" for s
    using env by (auto simp: driver_env_def)
  have v: "verdictFromStatus s = VerdictSuccess \<longleftrightarrow> s = RAIL_STATUS_SUCCESS"
    "verdictFromStatus s = VerdictDeclined \<longleftrightarrow> s = RAIL_STATUS_DECLINED" for s
    by (cases s; simp)+
  have w': "w' = w\<lparr>w_tick := Suc (w_tick w)\<rparr>"
    using assms(1) by (auto simp: rail_call_def take_env_def split: sum.splits if_splits)
  show ?thesis
    using assms(1) t v by (auto simp: w' keeps_def rail_call_def take_env_def split: sum.splits if_splits)
qed

lemma tsq_loop_spec:
  "tsq_loop n first b ref w = (v, w') \<Longrightarrow> driver_env truth w \<Longrightarrow>
   keeps truth w w' \<and> w_db w' = w_db w
   \<and> (v = VerdictSuccess \<longrightarrow> truth ref = RAIL_STATUS_SUCCESS) \<and> (v = VerdictDeclined \<longrightarrow> truth ref = RAIL_STATUS_DECLINED)"
proof (induction n arbitrary: first w)
  case (Suc n)
  obtain x w1 where wt: "(if \<not> first \<and> b > 0 then backoff_wait b w else (Inr (), w)) = (x, w1)" by force
  have f1: "w_db w1 = w_db w" "w_env w1 = w_env w" "w_codec w1 = w_codec w"
    using wt backoff_wait_db [of b w x w1] act_frameD [OF backoff_wait_frame, of b w x w1] by (auto split: if_splits)
  have k1: "keeps truth w w1" by (rule keeps_same_db) (use f1 in simp_all)
  have env1: "driver_env truth w1" by (rule driver_env_keeps [OF Suc.prems(2) k1])
  obtain y w2 where q: "rail_call ''rail query status: '' ref w1 = (y, w2)" by force
  note sp = rail_call_spec [OF q env1]
  have k2: "keeps truth w w2" using keeps_trans [OF k1] sp by blast
  have env2: "driver_env truth w2" by (rule driver_env_keeps [OF Suc.prems(2) k2])
  have rest: "keeps truth w w' \<and> w_db w' = w_db w
     \<and> (v = VerdictSuccess \<longrightarrow> truth ref = RAIL_STATUS_SUCCESS) \<and> (v = VerdictDeclined \<longrightarrow> truth ref = RAIL_STATUS_DECLINED)"
    if "tsq_loop n False b ref w2 = (v, w')"
    using Suc.IH [OF that env2] keeps_trans [OF k2] sp f1(1) by simp
  show ?case
  proof (cases x)
    case (Inl e)
    then show ?thesis using Suc.prems(1) wt k1 f1(1) by auto
  next
    case (Inr u)
    have run: "(case y of Inr v \<Rightarrow> if v \<noteq> VerdictUnknown then (v, w2) else tsq_loop n False b ref w2
        | Inl _ \<Rightarrow> tsq_loop n False b ref w2) = (v, w')"
      using Suc.prems(1) wt Inr q by (simp add: rail_QueryStatus_def split: sum.splits)
    show ?thesis
    proof (cases y)
      case (Inl e)
      then show ?thesis using run rest by simp
    next
      case (Inr z)
      show ?thesis
      proof (cases "z = VerdictUnknown")
        case True
        then show ?thesis using run Inr rest by simp
      next
        case False
        then have "v = z" "w' = w2" using run Inr by simp_all
        then show ?thesis using sp Inr k2 f1(1) by auto
      qed
    qed
  qed
qed simp

text \<open>Routing on a verdict, as \<open>handleDebited\<close> and \<open>handleInDoubt\<close> do.\<close>

lemma route_ok:
  assumes inv: "sw_inv truth (w_codec w) (w_db w)" and env: "driver_env truth w" and t: "transfer_row (w_db w) i t"
    and st: "t_status t \<in> {statusDebited, statusInDoubt}"
    and v: "v = VerdictSuccess \<longrightarrow> truth (t_reference t) = RAIL_STATUS_SUCCESS"
      "v = VerdictDeclined \<longrightarrow> truth (t_reference t) = RAIL_STATUS_DECLINED"
    and unknown: "\<And>r w'. unknown w = (r, w') \<Longrightarrow> keeps truth w w' \<and> (r = Inr () \<longrightarrow> out_of i (t_status t) (w_db w'))"
    and run: "(case v of VerdictSuccess \<Rightarrow> settle_transfer (detailFromRow (w_codec w) t) i w
      | VerdictDeclined \<Rightarrow> discard (markReversalPending i (eventPayload (detailFromRow (w_codec w) t))) w
      | VerdictUnknown \<Rightarrow> unknown w) = (r, w')"
  shows "keeps truth w w' \<and> (r = Inr () \<longrightarrow> out_of i (t_status t) (w_db w'))"
proof (cases v)
  case VerdictSuccess
  then show ?thesis using settle_transfer_ok [OF inv env t st] v(1) run by simp
next
  case VerdictDeclined
  then have "discard (markReversalPending i (eventPayload (detailFromRow (w_codec w) t))) w = (r, w')" using run by simp
  from finish_keeps(3) [OF markReversalPending_keeps [OF inv t] this] v(2) VerdictDeclined
  have "keeps truth w w' \<and> (r = Inr () \<longrightarrow> moved_on i statusReversalPending (w_db w'))" by simp
  then show ?thesis using moved_on_out_of [of i statusReversalPending _ "t_status t"] st by auto
next
  case VerdictUnknown
  then show ?thesis using unknown run by simp
qed

lemma handleDebited_ok: "handler_ok truth statusDebited i (handleDebited i)"
proof (rule handler_okI)
  fix w w' :: world and r t
  let ?det = "detailFromRow (w_codec w) t"
  let ?k = "\<lambda>det w1. case rail_Send (td_transfer det) w1 of
      (Inl e, w2) \<Rightarrow> (Inl (Wrap ''rail send: '' e []), w2)
    | (Inr v, w2) \<Rightarrow> (case v of VerdictSuccess \<Rightarrow> settle_transfer det i w2
       | VerdictDeclined \<Rightarrow> discard (markReversalPending i (eventPayload det)) w2
       | VerdictUnknown \<Rightarrow> discard (markInDoubt i (eventPayload det)) w2)"
  show "handleDebited i w = (case store_load i w of (Inl e, w1) \<Rightarrow> (Inl e, w1)
      | (Inr det, w1) \<Rightarrow> if td_status det \<noteq> statusDebited then (Inr (), w1) else ?k det w1)" for w
    by (simp add: handleDebited_def)
  assume inv: "sw_inv truth (w_codec w) (w_db w)" and env: "driver_env truth w" and t: "transfer_row (w_db w) i t"
    and st: "t_status t = statusDebited" and run: "?k ?det w = (r, w')"
  obtain x w2 where p: "rail_call ''rail send: '' (t_reference t) w = (x, w2)" by force
  have send: "rail_Send (td_transfer ?det) w = (x, w2)" using p by (simp add: rail_Send_def)
  note sp = rail_call_spec [OF p env]
  have k2: "keeps truth w w2" and t2: "transfer_row (w_db w2) i t" and c2: "w_codec w2 = w_codec w"
    using sp t by (auto simp: keeps_def)
  note inv2 = keeps_inv [OF k2 inv] and env2 = driver_env_keeps [OF env k2]
  show "keeps truth w w' \<and> (r = Inr () \<longrightarrow> out_of i statusDebited (w_db w'))"
  proof (cases x)
    case (Inl e)
    then show ?thesis using run send k2 by auto
  next
    case (Inr v)
    have "keeps truth w2 w' \<and> (r = Inr () \<longrightarrow> out_of i (t_status t) (w_db w'))"
    proof (rule route_ok [OF inv2 env2 t2])
      show "(case v of VerdictSuccess \<Rightarrow> settle_transfer (detailFromRow (w_codec w2) t) i w2
        | VerdictDeclined \<Rightarrow> discard (markReversalPending i (eventPayload (detailFromRow (w_codec w2) t))) w2
        | VerdictUnknown \<Rightarrow> discard (markInDoubt i (eventPayload ?det)) w2) = (r, w')"
        using run send Inr c2 by (cases v) simp_all
      show "keeps truth w2 w3 \<and> (q = Inr () \<longrightarrow> out_of i (t_status t) (w_db w3))"
        if "discard (markInDoubt i (eventPayload ?det)) w2 = (q, w3)" for q w3
        using finish_keeps(3) [OF markInDoubt_keeps [OF inv2 t2] that] moved_on_out_of [of i statusInDoubt _ statusDebited] st
        by simp
    qed (use st sp Inr in auto)
    then show ?thesis using keeps_trans [OF k2] st by simp
  qed
qed

lemma handleInDoubt_ok: "handler_ok truth statusInDoubt i (handleInDoubt q i)"
proof (rule handler_okI)
  fix w w' :: world and r t
  let ?det = "detailFromRow (w_codec w) t"
  let ?k = "\<lambda>det w1. case queryStatusWithRetry q (td_reference det) w1 of (v, w2) \<Rightarrow>
      (case v of VerdictSuccess \<Rightarrow> settle_transfer det i w2
       | VerdictDeclined \<Rightarrow> discard (markReversalPending i (eventPayload det)) w2
       | VerdictUnknown \<Rightarrow> discard (on_terminal statusManualReview (markManualReview i)) w2)"
  show "handleInDoubt q i w = (case store_load i w of (Inl e, w1) \<Rightarrow> (Inl e, w1)
      | (Inr det, w1) \<Rightarrow> if td_status det \<noteq> statusInDoubt then (Inr (), w1) else ?k det w1)" for w
    by (simp add: handleInDoubt_def)
  assume inv: "sw_inv truth (w_codec w) (w_db w)" and env: "driver_env truth w" and t: "transfer_row (w_db w) i t"
    and st: "t_status t = statusInDoubt" and run: "?k ?det w = (r, w')"
  obtain v w2 where p: "tsq_loop (nat (q_attempts q)) True (q_backoff q) (t_reference t) w = (v, w2)" by force
  have tsq: "queryStatusWithRetry q (td_reference ?det) w = (v, w2)" using p by (simp add: queryStatusWithRetry_def)
  note sp = tsq_loop_spec [OF p env]
  have k2: "keeps truth w w2" and t2: "transfer_row (w_db w2) i t" and c2: "w_codec w2 = w_codec w"
    using sp t by (auto simp: keeps_def)
  note inv2 = keeps_inv [OF k2 inv] and env2 = driver_env_keeps [OF env k2]
  have "keeps truth w2 w' \<and> (r = Inr () \<longrightarrow> out_of i (t_status t) (w_db w'))"
  proof (rule route_ok [OF inv2 env2 t2])
    show "(case v of VerdictSuccess \<Rightarrow> settle_transfer (detailFromRow (w_codec w2) t) i w2
      | VerdictDeclined \<Rightarrow> discard (markReversalPending i (eventPayload (detailFromRow (w_codec w2) t))) w2
      | VerdictUnknown \<Rightarrow> discard (on_terminal statusManualReview (markManualReview i)) w2) = (r, w')"
      using run tsq c2 by (cases v) simp_all
    show "keeps truth w2 w3 \<and> (y = Inr () \<longrightarrow> out_of i (t_status t) (w_db w3))"
      if "discard (on_terminal statusManualReview (markManualReview i)) w2 = (y, w3)" for y w3
      using finish_keeps(2) [OF markManualReview_keeps [OF inv2 t2] that]
        moved_on_out_of [of i statusManualReview _ statusInDoubt] st by simp
  qed (use st sp in auto)
  then show "keeps truth w w' \<and> (r = Inr () \<longrightarrow> out_of i statusInDoubt (w_db w'))"
    using keeps_trans [OF k2] st by simp
qed

lemma handleReversal_ok: "handler_ok truth statusReversalPending i (handleReversal i)"
proof (rule handler_okI)
  fix w w' :: world and r t
  let ?det = "detailFromRow (w_codec w) t"
  let ?k = "\<lambda>det w1. case td_debit_leg det of
      None \<Rightarrow> (Inl (ErrMsg (''reversal for '' @ uuid_String (w_codec w1) i @ '' has no debit leg recorded'')), w1)
    | Some leg \<Rightarrow>
        (case PostReversal (td_transfer det) leg w1 of
           (Inl e, w2) \<Rightarrow> (Inl (Wrap ''post reversal: '' e []), w2)
         | (Inr _, w2) \<Rightarrow>
             (case on_terminal statusReversed (markReversed i) w2 of
                (Inl e, w3) \<Rightarrow> (Inl e, w3)
              | (Inr adv, w3) \<Rightarrow>
                  if adv then (case take_env w3 of (ev, w4) \<Rightarrow>
                      (Inr (), observeReversalLatency (e_now ev - td_initiated_at det) w4))
                  else (Inr (), w3)))"
  show "handleReversal i w = (case store_load i w of (Inl e, w1) \<Rightarrow> (Inl e, w1)
      | (Inr det, w1) \<Rightarrow> if td_status det \<noteq> statusReversalPending then (Inr (), w1) else ?k det w1)" for w
  proof -
    obtain x w1 where l: "store_load i w = (x, w1)" by force
    then have "w_codec w1 = w_codec w" using store_load_spec by blast
    then show ?thesis by (cases x) (simp_all add: handleReversal_def l split: option.split)
  qed
  assume inv: "sw_inv truth (w_codec w) (w_db w)" and env: "driver_env truth w" and t: "transfer_row (w_db w) i t"
    and st: "t_status t = statusReversalPending" and run: "?k ?det w = (r, w')"
  show "keeps truth w w' \<and> (r = Inr () \<longrightarrow> out_of i statusReversalPending (w_db w'))"
  proof (cases "td_debit_leg ?det")
    case None
    then show ?thesis using run by auto
  next
    case (Some leg)
    obtain es where debit: "leg_fact (w_codec w) (w_db w) i ''debit'' = Some (leg, es)"
      using statuses_of [OF inv t] st Some by (auto simp: statuses_match_def)
    obtain x w2 where p: "PostReversal (td_transfer ?det) leg w = (x, w2)" by force
    have post: "keeps truth w w2 \<and> transfer_row (w_db w2) i t \<and> (x = Inr () \<longrightarrow> leg_fact (w_codec w) (w_db w2) i ''reversal'' \<noteq> None)"
      by (rule PostReversal_keeps [OF inv env t _ debit p]) (simp add: st)
    have k2: "keeps truth w w2" and t2: "transfer_row (w_db w2) i t" and c2: "w_codec w2 = w_codec w"
      using post by (auto simp: keeps_def)
    show ?thesis
    proof (cases x)
      case (Inl e)
      then show ?thesis using run Some p k2 by auto
    next
      case (Inr u)
      have lf: "leg_fact (w_codec w2) (w_db w2) i ''reversal'' \<noteq> None" using post Inr c2 by simp
      obtain y w3 where m: "on_terminal statusReversed (markReversed i) w2 = (y, w3)" by force
      from finish_keeps(1) [OF markReversed_keeps [OF keeps_inv [OF k2 inv] t2 lf] m]
      have mk: "keeps truth w2 w3 \<and> (\<forall>a. y = Inr a \<longrightarrow> moved_on i statusReversed (w_db w3))" .
      have fin: "w_db w' = w_db w3 \<and> w_env w' = w_env w3 \<and> w_codec w' = w_codec w3 \<and> (r = Inr () \<longrightarrow> (\<exists>a. y = Inr a))"
        using run Some p Inr m
        by (auto simp: take_env_def observeReversalLatency_def split: sum.splits if_splits)
      have "keeps truth w w'" using keeps_cong [OF keeps_trans [OF k2]] mk fin by blast
      then show ?thesis using mk fin moved_on_out_of [of i statusReversed _ statusReversalPending] by auto
    qed
  qed
qed

end
