(* ===== verification/DriverOps.thy ===== *)
theory DriverOps
  imports DriverHandlers
begin

text \<open>
  The operations that enter the engine: the poller delivering an event to \<open>Driver.Handle\<close>, the rail
  callback, the corrective re-queue, \<open>Orchestrator.Create\<close> and \<open>Recoverer.Recover\<close>. Each keeps the
  switch invariant; the driver is an instance of the poller's handler interface.
\<close>

section \<open>The driver as the poller's handler\<close>

lemma eventForStatus_eq:
  "eventForStatus s = EventDebitRequested \<longleftrightarrow> s = statusPending"
  "eventForStatus s = EventDebited \<longleftrightarrow> s = statusDebited"
  "eventForStatus s = EventInDoubt \<longleftrightarrow> s = statusInDoubt"
  "eventForStatus s = EventReversalRequested \<longleftrightarrow> s = statusReversalPending"
  by (auto simp: eventForStatus_def)

lemma handler_okD:
  assumes "handler_ok truth st i h" "sw_inv truth (w_codec w) (w_db w)" "driver_env truth w" "transfer_row (w_db w) i t"
    "h w = (r, w')"
  shows "keeps truth w w' \<and> (r = Inr () \<longrightarrow> out_of i st (w_db w'))"
  using assms unfolding handler_ok_def by blast

lemma out_of_settled:
  "out_of (v_aggregate_id e) st d \<Longrightarrow> eventForStatus st = v_type e \<Longrightarrow> v_type e \<noteq> [] \<Longrightarrow> event_settled e d"
  unfolding event_settled_def out_of_def eventForStatus_def by (auto split: if_splits)

lemma driver_Handle_ok:
  assumes inv: "sw_inv truth (w_codec w) (w_db w)" and env: "driver_env truth w" and n: "names_event e (w_db w)"
    and run: "driver_Handle q e w = (r, w')"
  shows "keeps truth w w' \<and> (r = Inr () \<longrightarrow> event_settled e (w_db w'))"
proof -
  obtain t where t: "transfer_row (w_db w) (v_aggregate_id e) t"
    using n sw_invD(4) [OF inv] by (fastforce simp: names_event_def outbox_wf_def transfer_row_def)
  have step: "keeps truth w w' \<and> (r = Inr () \<longrightarrow> event_settled e (w_db w'))"
    if "handler_ok truth st (v_aggregate_id e) h" "h w = (r, w')" "eventForStatus st = v_type e" "v_type e \<noteq> []" for st h
    using handler_okD [OF that(1) inv env t that(2)] out_of_settled [OF _ that(3,4)] by blast
  show ?thesis
    using run step [OF handleDebitRequested_ok] step [OF handleDebited_ok] step [OF handleInDoubt_ok [where q = q]]
      step [OF handleReversal_ok]
    by (auto simp: driver_Handle_def act_fail_def split: if_splits)
qed

lemma names_event_mono: "names_event e d \<Longrightarrow> set (outbox d) \<subseteq> set (outbox d') \<Longrightarrow> names_event e d'"
  unfolding names_event_def by blast

interpretation drv: outbox_handler "\<lambda>d. sw_inv truth c d \<and> db_evolves c d0 d"
    "\<lambda>w. driver_env truth w \<and> w_codec w = c" event_settled "driver_Handle q"
  for truth c d0 q
proof
  fix w w' :: world
  assume R: "driver_env truth w \<and> w_codec w = c"
  show "driver_env truth w' \<and> w_codec w' = c" if "w_env w' = w_env w" "w_codec w' = w_codec w"
    using R that driver_env_same [of truth w w'] by simp
next
  fix w w' :: world and e r
  assume R: "driver_env truth w \<and> w_codec w = c" and I: "sw_inv truth c (w_db w) \<and> db_evolves c d0 (w_db w)"
    and n: "names_event e (w_db w)" and run: "driver_Handle q e w = (r, w')"
  have env: "driver_env truth w" and inv: "sw_inv truth (w_codec w) (w_db w)" using R I by auto
  note ok = driver_Handle_ok [OF inv env n run]
  then have k: "keeps truth w w'" by blast
  show "driver_env truth w' \<and> w_codec w' = c" using R k driver_env_keeps [OF env k] by (auto simp: keeps_def)
  show "sw_inv truth c (w_db w') \<and> db_evolves c d0 (w_db w')"
    using k R I db_evolves_trans by (auto simp: keeps_def)
  show "names_event e' (w_db w')" if "names_event e' (w_db w)" for e'
    using names_event_mono [OF that] k R I by (auto simp: keeps_def)
next
  fix w w' :: world and e u
  assume R: "driver_env truth w \<and> w_codec w = c" and I: "sw_inv truth c (w_db w) \<and> db_evolves c d0 (w_db w)"
    and n: "names_event e (w_db w)" and run: "driver_Handle q e w = (Inr u, w')"
  have env: "driver_env truth w" and inv: "sw_inv truth (w_codec w) (w_db w)" using R I by auto
  show "event_settled e (w_db w')" using driver_Handle_ok [OF inv env n run] by simp
next
  fix d d' :: db and e :: event and now
  have pub: "db_evolves c d (publish (v_id e) now d)" by (rule db_evolvesI) (simp_all add: publish_def)
  show "sw_inv truth c (publish (v_id e) now d) \<and> db_evolves c d0 (publish (v_id e) now d)"
    if "sw_inv truth c d \<and> db_evolves c d0 d" "names_event e d" "event_settled e d"
    using that sw_inv_publish db_evolves_trans [OF _ pub] by blast
  have bk: "db_evolves c d d'" if "bookkeeping d d'"
    by (rule db_evolvesI) (use that in \<open>auto simp: bookkeeping_def\<close>)
  show "sw_inv truth c d' \<and> db_evolves c d0 d'"
    if "sw_inv truth c d \<and> db_evolves c d0 d" "bookkeeping d d'"
    using that sw_inv_bookkeeping db_evolves_trans [OF _ bk [OF that(2)]] by blast
qed

section \<open>The rail callback\<close>

lemma load_state_spec:
  assumes "load_state i w = (r, w')"
  shows "w_db w' = w_db w \<and> w_env w' = w_env w \<and> w_codec w' = w_codec w
    \<and> (\<forall>s. r = Inr s \<longrightarrow> (\<exists>t. find_tx i (w_db w) = Some t \<and> s = stateForStatus (t_status t)))"
proof -
  obtain x w1 where l: "store_load i w = (x, w1)" by force
  show ?thesis using assms l store_load_spec [OF l] by (cases x) (auto simp: load_state_def)
qed

text \<open>What a callback may say: it agrees with what the rail did, and it does not confirm a transfer
  whose source was never debited (the rail is only asked after the debit, but references are not unique and
  the code has no such check).\<close>

definition callback_ok :: "(string \<Rightarrow> rail_status) \<Rightarrow> db \<Rightarrow> string \<Rightarrow> verdict \<Rightarrow> bool" where
  "callback_ok truth d ref v \<longleftrightarrow>
     (v = VerdictSuccess \<longrightarrow> truth ref = RAIL_STATUS_SUCCESS
        \<and> (\<forall>t \<in> set (transactions d). lifecycle t \<and> t_reference t = ref \<longrightarrow> t_status t \<noteq> statusPending))
     \<and> (v = VerdictDeclined \<longrightarrow> truth ref = RAIL_STATUS_DECLINED)"

lemma terminal_switch_status:
  "s \<in> set switch_statuses \<Longrightarrow> isTerminalStatus s \<longleftrightarrow>
     s \<notin> {statusPending, statusDebited, statusInDoubt, statusReversalPending}"
  by (auto simp: isTerminalStatus_def statusTransitions_def switch_statuses_def)

lemma callback_success_ok:
  assumes inv: "sw_inv truth (w_codec w) (w_db w)" and env: "driver_env truth w" and t: "transfer_row (w_db w) i t"
    and st: "t_status t \<noteq> statusPending" and tr: "truth (t_reference t) = RAIL_STATUS_SUCCESS"
    and run: "(case (if \<not> isTerminalStatus (t_status t)
          then PostSettlementLeg (td_transfer (detailFromRow (w_codec w) t)) w else (Inr (), w)) of
        (Inl e, w2) \<Rightarrow> (Inl (Wrap ''post settlement leg: '' e []), w2)
      | (Inr _, w2) \<Rightarrow> (case on_terminal statusSettled (markSettled (td_id (detailFromRow (w_codec w) t))) w2 of
           (Inl e, w3) \<Rightarrow> (Inl e, w3) | (Inr _, w3) \<Rightarrow> load_state (td_id (detailFromRow (w_codec w) t)) w3)) = (r, w')"
  shows "keeps truth w w'"
proof -
  have j: "td_id (detailFromRow (w_codec w) t) = i" using t by (simp add: transfer_row_def)
  note run = run [unfolded j]
  obtain x w2 where p: "(if \<not> isTerminalStatus (t_status t)
      then PostSettlementLeg (td_transfer (detailFromRow (w_codec w) t)) w else (Inr (), w)) = (x, w2)" by force
  have sw: "t_status t \<in> set switch_statuses" using statuses_of [OF inv t] by (simp add: statuses_match_def)
  have post: "keeps truth w w2 \<and> transfer_row (w_db w2) i t
    \<and> (x = Inr () \<longrightarrow> canTransitionStatus (t_status t) statusSettled \<longrightarrow> leg_fact (w_codec w) (w_db w2) i ''settle'' \<noteq> None)"
  proof (cases "isTerminalStatus (t_status t)")
    case True
    then show ?thesis using p t terminal_switch_status [OF sw] by (auto simp: canTransitionStatus_iff)
  next
    case False
    then have run': "PostSettlementLeg (td_transfer (detailFromRow (w_codec w) t)) w = (x, w2)" using p by simp
    have ns: "t_status t \<notin> {statusPending, statusFailed}" using st False terminal_switch_status [OF sw] by auto
    show ?thesis using PostSettlementLeg_keeps [OF inv env t ns tr run'] by blast
  qed
  have k2: "keeps truth w w2" and t2: "transfer_row (w_db w2) i t" and c2: "w_codec w2 = w_codec w"
    using post by (auto simp: keeps_def)
  show ?thesis
  proof (cases x)
    case (Inl e)
    then show ?thesis using run p k2 by auto
  next
    case (Inr u)
    obtain y w3 where m: "on_terminal statusSettled (markSettled i) w2 = (y, w3)" by force
    have "keeps truth w2 w3 \<and> (\<forall>b. y = Inr b \<longrightarrow> moved_on i statusSettled (w_db w3))"
      using finish_keeps(1) [OF markSettled_keeps [OF keeps_inv [OF k2 inv] t2] m] post Inr c2 by simp
    then have k3: "keeps truth w w3" using keeps_trans [OF k2] by blast
    show ?thesis
    proof (cases y)
      case (Inl e)
      then show ?thesis using run p Inr m k3 by auto
    next
      case (Inr b)
      then have "load_state i w3 = (r, w')" using run p \<open>x = Inr u\<close> m by simp
      then show ?thesis using load_state_spec keeps_cong [OF k3] by blast
    qed
  qed
qed

lemma HandleRailCallback_keeps:
  assumes inv: "sw_inv truth (w_codec w) (w_db w)" and env: "driver_env truth w" and ok: "callback_ok truth (w_db w) ref v"
    and run: "HandleRailCallback ref v w = (r, w')"
  shows "keeps truth w w'"
proof -
  obtain x w1 where l: "loadByReference ref w = (x, w1)" by force
  note sp = loadByReference_spec [OF l]
  have k1: "keeps truth w w1" by (rule keeps_same_db) (use sp in auto)
  show ?thesis
  proof (cases x)
    case (Inl e)
    then show ?thesis using run l k1 by (auto simp: HandleRailCallback_def)
  next
    case (Inr det)
    then obtain t where t: "transfer_row (w_db w) (t_id t) t" "t_reference t = ref" and det: "det = detailFromRow (w_codec w1) t"
      using sp by auto
    have t1: "transfer_row (w_db w1) (t_id t) t" using t(1) sp by simp
    note inv1 = keeps_inv [OF k1 inv] and env1 = driver_env_keeps [OF env k1]
    show ?thesis
    proof (cases v)
      case VerdictSuccess
      have "keeps truth w1 w'"
      proof (rule callback_success_ok [OF inv1 env1 t1, of r])
        have st: "td_status det = t_status t" by (simp add: det)
        show "(case (if \<not> isTerminalStatus (t_status t)
          then PostSettlementLeg (td_transfer (detailFromRow (w_codec w1) t)) w1 else (Inr (), w1)) of
            (Inl e, w2) \<Rightarrow> (Inl (Wrap ''post settlement leg: '' e []), w2)
          | (Inr _, w2) \<Rightarrow> (case on_terminal statusSettled (markSettled (td_id (detailFromRow (w_codec w1) t))) w2 of
               (Inl e, w3) \<Rightarrow> (Inl e, w3)
             | (Inr _, w3) \<Rightarrow> load_state (td_id (detailFromRow (w_codec w1) t)) w3)) = (r, w')"
          unfolding det [symmetric] st [symmetric]
          using run VerdictSuccess by (simp add: HandleRailCallback_def l Inr)
      qed (use ok t VerdictSuccess in \<open>auto simp: callback_ok_def transfer_row_def\<close>)
      then show ?thesis using keeps_trans [OF k1] by blast
    next
      case VerdictDeclined
      obtain y w2 where m: "markReversalPending (t_id t) (eventPayload det) w1 = (y, w2)" by force
      have "keeps truth w1 w2"
        using markReversalPending_keeps [OF inv1 t1 _ m] ok VerdictDeclined t(2) by (simp add: callback_ok_def)
      then have k2: "keeps truth w w2" using keeps_trans [OF k1] by blast
      show ?thesis
        using run l Inr det VerdictDeclined m k2 load_state_spec [of "t_id t" w2 r w'] keeps_cong [OF k2, of w']
        by (cases y) (auto simp: HandleRailCallback_def)
    next
      case VerdictUnknown
      then show ?thesis
        using run l Inr det k1 load_state_spec [of "t_id t" w1 r w'] keeps_cong [OF k1, of w']
        by (auto simp: HandleRailCallback_def)
    qed
  qed
qed

section \<open>Events appended on their own\<close>

lemma append_keeps:
  assumes inv: "sw_inv truth (w_codec w) (w_db w)" and t: "transfer_row (w_db w) i t"
    and run: "run_tx pre trg (outbox_Append i ty p) w = (r, w')"
  shows "keeps truth w w' \<and> transactions (w_db w') = transactions (w_db w)"
  using run
proof (cases rule: run_tx_cases)
  case (unchanged e)
  then show ?thesis using act_frameD [OF act_frame_run_tx(1) run] by (auto intro: keeps_same_db)
next
  case (committed a d)
  obtain x where x: "new_event (w_db w) i ty x"
    "d = (w_db w)\<lparr>outbox := outbox (w_db w) @ [x], outbox_seq := Suc (outbox_seq (w_db w))\<rparr>"
    using outbox_Append_Inr [OF committed(1)] by blast
  have "sw_inv truth (w_codec w) d"
    unfolding x(2) by (rule sw_inv_append [OF inv, of t]) (use t x(1) in \<open>auto simp: transfer_row_def\<close>)
  moreover have "db_evolves (w_codec w) (w_db w) d" by (rule db_evolvesI) (simp_all add: x(2))
  ultimately show ?thesis using committed(3) x(2) act_frameD [OF act_frame_run_tx(1) run] by (auto simp: keeps_def)
qed

lemma RequeueReversal_keeps:
  assumes inv: "sw_inv truth (w_codec w) (w_db w)" and env: "driver_env truth w"
    and run: "driver_RequeueReversal ref w = (r, w')"
  shows "keeps truth w w'"
proof -
  obtain x w1 where l: "loadByReference ref w = (x, w1)" by force
  note sp = loadByReference_spec [OF l]
  have k1: "keeps truth w w1" by (rule keeps_same_db) (use sp in auto)
  show ?thesis
  proof (cases x)
    case (Inl e)
    then show ?thesis using run l k1 by (auto simp: driver_RequeueReversal_def store_RequeueReversal_def)
  next
    case (Inr det)
    then obtain t where t: "transfer_row (w_db w) (t_id t) t" and det: "det = detailFromRow (w_codec w1) t"
      using sp by auto
    obtain y w2 where m: "WithTx (outbox_Append (t_id t) EventReversalRequested (eventPayload det)) w1 = (y, w2)" by force
    have "keeps truth w1 w2"
      using append_keeps [OF keeps_inv [OF k1 inv] _ m [unfolded WithTx_def], of t] t sp by simp
    then have "keeps truth w w2" using keeps_trans [OF k1] by blast
    then show ?thesis
      using run l Inr det m k1
      by (auto simp: driver_RequeueReversal_def store_RequeueReversal_def split: if_splits sum.splits)
  qed
qed

end
