(* ===== verification/SwitchEntry.thy ===== *)
theory SwitchEntry
  imports DriverOps
begin

text \<open>
  The two ways a transfer gets into the engine: \<open>Orchestrator.Create\<close> accepts a new one, and
  \<open>Recoverer.Recover\<close> puts a stranded one back on the outbox. Both keep the switch invariant.
\<close>

section \<open>Recovery\<close>

lemma recover_rows_keeps:
  "recover_rows ts n w = (m, w') \<Longrightarrow> sw_inv truth (w_codec w) (w_db w) \<Longrightarrow>
   (\<And>t. t \<in> set ts \<Longrightarrow> transfer_row (w_db w) (t_id t) t) \<Longrightarrow> keeps truth w w'"
proof (induction ts arbitrary: n w)
  case (Cons t ts)
  let ?det = "detailFromRow (w_codec w) t" and ?evt = "eventForStatus (t_status t)"
  obtain x w1 where a: "run_stmt (outbox_Append (t_id t) ?evt (eventPayload ?det)) w = (x, w1)" by force
  have k: "keeps truth w w1 \<and> transactions (w_db w1) = transactions (w_db w)"
    by (rule append_keeps [OF Cons.prems(2) _ a [unfolded run_stmt_def], of t]) (simp add: Cons.prems(3))
  have rows: "transfer_row (w_db w1) (t_id u) u" if "u \<in> set ts" for u
    using Cons.prems(3) that k by (simp add: transfer_row_def)
  have more: "keeps truth w w'" if "recover_rows ts j w1 = (m, w')" for j
    using Cons.IH [OF that keeps_inv [OF conjunct1 [OF k] Cons.prems(2)] rows] keeps_trans k by blast
  show ?case
  proof (cases "?evt = []")
    case True
    then show ?thesis using Cons by simp
  next
    case False
    then show ?thesis using Cons.prems(1) a more by (cases x) auto
  qed
qed simp

lemma resumable_row:
  "sw_inv truth c d \<Longrightarrow> t \<in> set (transactions d) \<Longrightarrow> resumable t \<Longrightarrow> transfer_row d (t_id t) t"
  using sw_invD(7) by (auto simp: sweep_owned_def transfer_row_def)

lemma ListStuckTransfers_Inr:
  "ListStuckTransfers ev d = Inr (ts, d') \<Longrightarrow> d' = d \<and> (\<forall>t. t \<in> set ts \<longleftrightarrow> t \<in> set (transactions d) \<and> resumable t
     \<and> \<not> (\<exists>r \<in> set (outbox d). o_aggregate_id r = t_id t \<and> live r))"
  by (auto simp: ListStuckTransfers_def list_ex_iff)

lemma Recover_keeps:
  assumes inv: "sw_inv truth (w_codec w) (w_db w)" and run: "Recover w = (r, w')"
  shows "keeps truth w w'"
proof -
  obtain x w1 where g: "run_stmt ListStuckTransfers w = (x, w1)" by force
  have rd: "tx_reads ListStuckTransfers" by (auto simp: tx_reads_def ListStuckTransfers_def)
  have fr: "w_db w1 = w_db w" "w_env w1 = w_env w" "w_codec w1 = w_codec w"
    using run_stmt_reads [OF rd g] act_frameD [OF act_frame_run_tx(2) g] by simp_all
  have k1: "keeps truth w w1" by (rule keeps_same_db) (use fr in simp_all)
  show ?thesis
  proof (cases x)
    case (Inl e)
    then show ?thesis using run g k1 by (auto simp: Recover_def)
  next
    case (Inr ts)
    obtain m w2 where rr: "recover_rows ts 0 w1 = (m, w2)" by force
    have "\<exists>ev. ListStuckTransfers ev (w_db w) = Inr (ts, w_db w)"
      using run_read_Inr(3) [OF g [unfolded Inr] rd] .
    then have "t \<in> set ts \<Longrightarrow> t \<in> set (transactions (w_db w)) \<and> resumable t" for t
      by (auto dest: ListStuckTransfers_Inr)
    then have rows: "t \<in> set ts \<Longrightarrow> transfer_row (w_db w1) (t_id t) t" for t
      using resumable_row [OF inv] fr(1) by simp
    have "keeps truth w1 w2" by (rule recover_rows_keeps [OF rr keeps_inv [OF k1 inv] rows])
    then show ?thesis using run g Inr rr keeps_trans [OF k1] by (auto simp: Recover_def)
  qed
qed

text \<open>With a database that answers, every stuck transfer gets a live event of the type its status
  calls for, and the count is the number of stuck transfers.\<close>

definition no_faults :: "world \<Rightarrow> bool" where
  "no_faults w \<longleftrightarrow> (\<forall>n. e_fault (w_env w n) = NoFault)"

definition revived :: "tx_row \<Rightarrow> db \<Rightarrow> bool" where
  "revived t d \<longleftrightarrow>
     (\<exists>r \<in> set (outbox d). o_aggregate_id r = t_id t \<and> o_event_type r = eventForStatus (t_status t) \<and> live r)"

lemma append_revives:
  assumes "no_faults w" "run_stmt (outbox_Append (t_id t) (eventForStatus (t_status t)) p) w = (x, w')"
  shows "x = Inr () \<and> revived t (w_db w') \<and> set (outbox (w_db w)) \<subseteq> set (outbox (w_db w'))
    \<and> transactions (w_db w') = transactions (w_db w) \<and> w_env w' = w_env w \<and> w_codec w' = w_codec w"
  using assms
  by (auto simp: no_faults_def run_stmt_def run_tx_def take_env_def outbox_Append_def InsertOutboxEvent_def Let_def
      no_triggers_def revived_def live_def)

lemma revived_mono: "revived t d \<Longrightarrow> set (outbox d) \<subseteq> set (outbox d') \<Longrightarrow> revived t d'"
  by (auto simp: revived_def)

lemma recover_rows_revives:
  "recover_rows ts n w = (m, w') \<Longrightarrow> no_faults w \<Longrightarrow>
   m = n + length (filter (\<lambda>t. eventForStatus (t_status t) \<noteq> []) ts)
   \<and> (\<forall>t \<in> set ts. eventForStatus (t_status t) \<noteq> [] \<longrightarrow> revived t (w_db w'))
   \<and> transactions (w_db w') = transactions (w_db w) \<and> set (outbox (w_db w)) \<subseteq> set (outbox (w_db w'))"
proof (induction ts arbitrary: n w)
  case (Cons t ts)
  show ?case
  proof (cases "eventForStatus (t_status t) = []")
    case True
    then show ?thesis using Cons by simp
  next
    case False
    obtain x w1 where a: "run_stmt (outbox_Append (t_id t) (eventForStatus (t_status t))
        (eventPayload (detailFromRow (w_codec w) t))) w = (x, w1)" by force
    note ar = append_revives [OF Cons.prems(2) a]
    have "no_faults w1" using ar Cons.prems(2) by (simp add: no_faults_def)
    moreover have "recover_rows ts (Suc n) w1 = (m, w')"
      using Cons.prems(1) False a ar by (simp add: Let_def)
    ultimately show ?thesis using Cons.IH ar False revived_mono [of t] by fastforce
  qed
qed simp

section \<open>Accepting a transfer\<close>

lemma create_body_Inr:
  assumes "create_body key req ev d = Inr (i, d')"
  obtains t r where "t_id t = i" "t_status t = statusPending" "lifecycle t" "t_type t = ''transfer''"
    "t_idempotency_key t = Some key" "t_metadata t = transferMeta req" "t_reference t = cr_reference req"
    "list_all (\<lambda>v. \<not> tx_clash t v) (transactions d)" "new_event d (t_id t) EventDebitRequested r"
    "d' = d\<lparr>transactions := transactions d @ [t], outbox := outbox d @ [r], outbox_seq := Suc (outbox_seq d)\<rparr>"
proof -
  from assms obtain t d1 u where ins: "InsertTransfer (create_params key req) ev d = Inr (t, d1)"
    and app: "outbox_Append (t_id t) EventDebitRequested
                  (transferEventPayload (cr_reference req) (cr_source req) (cr_destination req)
                     (Minor (cr_amount req)) (cr_currency req)) ev d1 = Inr (u, d')" and i: "t_id t = i"
    by (auto simp: create_body_def split: sum.splits)
  note t = InsertTransfer_Inr [OF ins]
  obtain r where r: "new_event d1 (t_id t) EventDebitRequested r"
    "d' = d1\<lparr>outbox := outbox d1 @ [r], outbox_seq := Suc (outbox_seq d1)\<rparr>"
    using outbox_Append_Inr [OF app] by blast
  show thesis
    by (rule that [of t r])
      (use t r i in \<open>simp_all add: create_params_def lifecycle_def json_has_key_def transferMeta_def new_event_def\<close>)
qed

lemma CreatePending_spec:
  assumes inv: "sw_inv truth (w_codec w) (w_db w)" and k: "customer_key (w_codec w) key"
    and run: "CreatePending key req w = (r, w')"
  shows "keeps truth w w' \<and> (\<forall>i. r = Inr i \<longrightarrow> (\<exists>t. transfer_row (w_db w') i t \<and> t_idempotency_key t = Some key
      \<and> t_status t = statusPending \<and> t_metadata t = transferMeta req \<and> t_reference t = cr_reference req
      \<and> t \<notin> set (transactions (w_db w))))"
  using run unfolding CreatePending_def WithTx_def
proof (cases rule: run_tx_cases)
  case (unchanged e)
  then show ?thesis using act_frameD [OF act_frame_run_tx(1) run [unfolded CreatePending_def WithTx_def]]
    by (auto intro: keeps_same_db)
next
  case (committed i d)
  from create_body_Inr [OF committed(1)] obtain t x where
    t: "t_id t = i" "t_status t = statusPending" "lifecycle t" "t_type t = ''transfer''" "t_idempotency_key t = Some key"
      "t_metadata t = transferMeta req" "t_reference t = cr_reference req"
    and c: "list_all (\<lambda>v. \<not> tx_clash t v) (transactions (w_db w))" and x: "new_event (w_db w) (t_id t) EventDebitRequested x"
    and d: "d = (w_db w)\<lparr>transactions := transactions (w_db w) @ [t], outbox := outbox (w_db w) @ [x],
        outbox_seq := Suc (outbox_seq (w_db w))\<rparr>" .
  have "sw_inv truth (w_codec w) d" unfolding d by (rule sw_inv_create [OF inv t(2-5) k c x])
  moreover have "transfer_row d i t" using t d by (simp add: transfer_row_def)
  moreover have "db_evolves (w_codec w) (w_db w) d" by (rule db_evolvesI) (auto simp: d)
  moreover have "t \<notin> set (transactions (w_db w))" using c by (auto simp: list_all_iff tx_clash_def)
  ultimately show ?thesis
    using committed(3,4) d t act_frameD [OF act_frame_run_tx(1) run [unfolded CreatePending_def WithTx_def]]
    by (auto simp: keeps_def)
qed

lemma orchestrator_Create_keeps:
  assumes inv: "sw_inv truth (w_codec w) (w_db w)" and env: "driver_env truth w" and k: "customer_key (w_codec w) key"
    and run: "orchestrator_Create key req w = (r, w')"
  shows "keeps truth w w'"
proof (cases "request_Validate req")
  case (Some e)
  then show ?thesis using run by (simp add: orchestrator_Create_def)
next
  case None
  obtain x w1 where c: "CreatePending key req w = (x, w1)" by force
  note sp = CreatePending_spec [OF inv k c]
  show ?thesis
  proof (cases x)
    case (Inl e)
    then show ?thesis using run None c sp by (auto simp: orchestrator_Create_def)
  next
    case (Inr i)
    then obtain t where t: "transfer_row (w_db w1) i t" using sp by blast
    have k1: "keeps truth w w1" using sp by blast
    obtain y w2 where h: "handleDebitRequested i w1 = (y, w2)" by force
    have "keeps truth w1 w2"
      using handler_okD [OF handleDebitRequested_ok keeps_inv [OF k1 inv] driver_env_keeps [OF env k1] t h] by blast
    then have k2: "keeps truth w w2" using keeps_trans [OF k1] by blast
    obtain z w3 where l: "store_load i w2 = (z, w3)" by force
    have "w' = w3" using run None c Inr h l by (auto simp: orchestrator_Create_def store_Get_def split: sum.splits)
    then show ?thesis using keeps_trans [OF k2 store_load_keeps [OF l]] by simp
  qed
qed

end
