(* ===== verification/Idempotency.thy ===== *)
theory Idempotency
  imports SwitchEntry
begin

text \<open>
  \<open>internal/switch/idempotency.go\<close> and \<open>idempotent.go\<close>: the durable deduplication of a customer's
  Idempotency-Key in front of the orchestrator. SHA-256 (as hexadecimal text) is the parameter
  \<open>sha\<close>; nothing is assumed of it. The local clock of the lease check is the environment's.
\<close>

section \<open>idempotency.go\<close>

definition IdemInProgress :: string where [go_const]: "IdemInProgress = ''in_progress''"
definition IdemSucceeded :: string where [go_const]: "IdemSucceeded = ''succeeded''"
definition IdemFailed :: string where [go_const]: "IdemFailed = ''failed''"

lemma idem_status_distinct [simp]:
  "IdemInProgress \<noteq> IdemSucceeded" "IdemInProgress \<noteq> IdemFailed" "IdemSucceeded \<noteq> IdemFailed"
  "IdemSucceeded \<noteq> IdemInProgress" "IdemFailed \<noteq> IdemInProgress" "IdemFailed \<noteq> IdemSucceeded"
  by (simp_all add: go_const)

datatype reserve_outcome = OutcomeReserved | OutcomeReplay | OutcomeConflict | OutcomeInProgress

record reserve_result =
  rr_outcome :: reserve_outcome
  rr_response :: "jsonb option"
  rr_status :: string
  rr_transaction_id :: "uuid option"

definition only_outcome :: "reserve_outcome \<Rightarrow> reserve_result" where
  "only_outcome oc = \<lparr>rr_outcome = oc, rr_response = None, rr_status = [], rr_transaction_id = None\<rparr>"

definition defaultIdempotencyLease :: time where
  "defaultIdempotencyLease = 30 * 1000000000"

definition inProgressResult :: "string \<Rightarrow> idem_row \<Rightarrow> reserve_result act" where
  "inProgressResult key r w =
     (case take_env w of (ev, w1) \<Rightarrow>
        if (case k_expires_at r of Some x \<Rightarrow> x > e_now ev | None \<Rightarrow> False)
        then (Inr ((only_outcome OutcomeInProgress)\<lparr>rr_transaction_id := k_transaction_id r\<rparr>), w1)
        else (case (case k_transaction_id r of
                 Some i \<Rightarrow> (Some i, w1)
               | None \<Rightarrow>
                   (case run_stmt (GetTransferIDByIdempotencyKey (Some key)) w1 of
                      (Inl _, w2) \<Rightarrow> (None, w2)
                    | (Inr i, w2) \<Rightarrow> (Some i, w2))) of
            (Some i, w2) \<Rightarrow>
              (Inr \<lparr>rr_outcome = OutcomeReplay, rr_response = None, rr_status = IdemInProgress, rr_transaction_id = Some i\<rparr>, w2)
          | (None, w2) \<Rightarrow> (Inr (only_outcome OutcomeInProgress), w2)))"

definition idem_Reserve :: "time \<Rightarrow> string \<Rightarrow> string \<Rightarrow> reserve_result act" where
  "idem_Reserve lease key fp w =
     (case run_stmt (ReserveIdempotencyKey key fp lease) w of
        (Inr _, w1) \<Rightarrow> (Inr (only_outcome OutcomeReserved), w1)
      | (Inl e, w1) \<Rightarrow>
          if \<not> errors_is e ErrNoRows then (Inl (Wrap ''reserve idempotency key: '' e []), w1)
          else (case run_stmt (GetIdempotencyKey key) w1 of
              (Inl e2, w2) \<Rightarrow> (Inl (Wrap ''get idempotency key: '' e2 []), w2)
            | (Inr r, w2) \<Rightarrow>
                if k_fingerprint r \<noteq> fp then (Inr (only_outcome OutcomeConflict), w2)
                else if k_status r = IdemSucceeded \<or> k_status r = IdemFailed
                then (Inr \<lparr>rr_outcome = OutcomeReplay, rr_response = k_response r, rr_status = k_status r,
                        rr_transaction_id = k_transaction_id r\<rparr>, w2)
                else inProgressResult key r w2))"

definition idem_Complete :: "string \<Rightarrow> string \<Rightarrow> uuid option \<Rightarrow> jsonb option \<Rightarrow> unit act" where
  "idem_Complete key status tx_id response w =
     (case run_stmt (CompleteIdempotencyKey key status response tx_id) w of
        (Inl e, w1) \<Rightarrow> (Inl (Wrap ''complete idempotency key: '' e []), w1)
      | (Inr _, w1) \<Rightarrow> (Inr (), w1))"

text \<open>\<open>json.Marshal\<close> of the request's canonical form. Strings are escaped as \<open>encoding/json\<close> does
  for valid UTF-8, except that the two line separators U+2028 and U+2029, which it also escapes, are
  written as they are.\<close>

definition hex_digit :: "nat \<Rightarrow> char" where
  "hex_digit d = (if d < 10 then digit_char d else char_of (87 + d))"

definition json_escape :: "char \<Rightarrow> string" where
  "json_escape c = (let n = (of_char c :: nat) in
     if n = 34 \<or> n = 92 then [CHR 0x5C, c]
     else if n = 8 then [CHR 0x5C, CHR ''b'']
     else if n = 12 then [CHR 0x5C, CHR ''f'']
     else if n = 10 then [CHR 0x5C, CHR ''n'']
     else if n = 13 then [CHR 0x5C, CHR ''r'']
     else if n = 9 then [CHR 0x5C, CHR ''t'']
     else if n < 32 \<or> n = 60 \<or> n = 62 \<or> n = 38
     then [CHR 0x5C, CHR ''u'', CHR ''0'', CHR ''0'', hex_digit (n div 16), hex_digit (n mod 16)]
     else [c])"

definition json_quote :: "string \<Rightarrow> string" where
  "json_quote s = CHR 0x22 # concat (map json_escape s) @ [CHR 0x22]"

definition fingerprint_json :: "create_request \<Rightarrow> string" where
  "fingerprint_json r =
     CHR ''{'' # json_quote ''source'' @ '':'' @ json_quote (cr_source r)
     @ '','' @ json_quote ''destination'' @ '':'' @ json_quote (cr_destination r)
     @ '','' @ json_quote ''amount_minor'' @ '':'' @ FormatInt (Minor (cr_amount r))
     @ '','' @ json_quote ''currency'' @ '':'' @ json_quote (cr_currency r)
     @ '','' @ json_quote ''reference'' @ '':'' @ json_quote (cr_reference r) @ ''}''"

definition Fingerprint :: "(string \<Rightarrow> string) \<Rightarrow> create_request \<Rightarrow> string" where
  "Fingerprint sha r = sha (fingerprint_json r)"

section \<open>idempotent.go\<close>

text \<open>\<open>json.Marshal\<close> and \<open>json.Unmarshal\<close> of a \<open>View\<close>, as \<open>JSONB\<close> objects: absent fields keep their
  zero value, a field of the wrong type is an error, \<open>null\<close> leaves a string field alone, and no text at
  all is a syntax error.\<close>

definition view_to_json :: "view \<Rightarrow> jsonb" where
  "view_to_json v =
     [(''ID'', JStr (vw_id v)), (''Reference'', JStr (vw_reference v)), (''Source'', JStr (vw_source v)),
      (''Destination'', JStr (vw_destination v)), (''Amount'', JNum (sint (Minor (vw_amount v)))),
      (''Currency'', JStr (vw_currency v)), (''State'', JStr (vw_state v))]"

definition json_field_string :: "jsonb \<Rightarrow> string \<Rightarrow> err + string" where
  "json_field_string j k =
     (case map_of j k of
        None \<Rightarrow> Inr []
      | Some JNull \<Rightarrow> Inr []
      | Some (JStr s) \<Rightarrow> Inr s
      | Some _ \<Rightarrow> Inl (ErrMsg (''json: cannot unmarshal into Go struct field View.'' @ k)))"

definition json_field_amount :: "jsonb \<Rightarrow> string \<Rightarrow> err + amount" where
  "json_field_amount j k =
     (case map_of j k of
        None \<Rightarrow> Inr 0
      | Some (JNum n) \<Rightarrow> if in_i64 n then Inr (FromMinor (word_of_int n))
          else Inl (ErrMsg ''money: amount must be an integer of minor units'')
      | Some _ \<Rightarrow> Inl (ErrMsg ''money: amount must be an integer of minor units''))"

definition view_from_json :: "jsonb option \<Rightarrow> err + view" where
  "view_from_json r =
     (case r of
        None \<Rightarrow> Inl (ErrMsg ''unexpected end of JSON input'')
      | Some j \<Rightarrow>
          (case (json_field_string j ''ID'', json_field_string j ''Reference'', json_field_string j ''Source'',
                 json_field_string j ''Destination'', json_field_amount j ''Amount'',
                 json_field_string j ''Currency'', json_field_string j ''State'') of
             (Inr i, Inr rf, Inr s, Inr d, Inr a, Inr c, Inr st) \<Rightarrow>
               Inr \<lparr>vw_id = i, vw_reference = rf, vw_source = s, vw_destination = d, vw_amount = a,
                 vw_currency = c, vw_state = st\<rparr>
           | _ \<Rightarrow> Inl (ErrMsg ''json: cannot unmarshal into View'')))"

text \<open>\<open>IdempotentService\<close> over the orchestrator, as \<open>switchd\<close> composes them.\<close>

definition reserved_Create :: "string \<Rightarrow> create_request \<Rightarrow> view act" where
  "reserved_Create key req w =
     (case orchestrator_Create key req w of
        (Inl e, w1) \<Rightarrow> (Inl e, snd (idem_Complete key IdemFailed None None w1))
      | (Inr v, w1) \<Rightarrow>
          (case idem_Complete key IdemSucceeded (uuid_Parse (w_codec w1) (vw_id v)) (Some (view_to_json v)) w1 of
             (Inl e, w2) \<Rightarrow> (Inl e, w2)
           | (Inr _, w2) \<Rightarrow> (Inr v, w2)))"

definition idempotent_Create :: "(string \<Rightarrow> string) \<Rightarrow> time \<Rightarrow> string \<Rightarrow> create_request \<Rightarrow> view act" where
  "idempotent_Create sha lease key req w =
     (case request_Validate req of
        Some e \<Rightarrow> (Inl e, w)
      | None \<Rightarrow>
          (case idem_Reserve lease key (Fingerprint sha req) w of
             (Inl e, w1) \<Rightarrow> (Inl e, w1)
           | (Inr res, w1) \<Rightarrow>
               (case rr_outcome res of
                  OutcomeConflict \<Rightarrow> (Inl (Sentinel ErrIdempotencyConflict), w1)
                | OutcomeInProgress \<Rightarrow> (Inl (Sentinel ErrInProgress), w1)
                | OutcomeReplay \<Rightarrow>
                    (case rr_transaction_id res of
                       Some i \<Rightarrow> orchestrator_Get (uuid_String (w_codec w1) i) w1
                     | None \<Rightarrow> (view_from_json (rr_response res), w1))
                | OutcomeReserved \<Rightarrow> reserved_Create key req w1)))"

definition idempotent_Get :: "string \<Rightarrow> view act" where
  "idempotent_Get txt = orchestrator_Get txt"

section \<open>The stored response round-trips\<close>

lemma view_json_roundtrip: "view_from_json (Some (view_to_json v)) = Inr v"
  by (simp add: view_from_json_def view_to_json_def json_field_string_def json_field_amount_def)

end
