(* ===== verification/IdempotencyProps.thy ===== *)
theory IdempotencyProps
  imports Idempotency
begin

text \<open>
  What the idempotency layer guarantees: a key that exists never runs the transfer again, whatever
  the faults; the fingerprint's canonical form separates requests; and every path keeps the switch
  invariant.
\<close>

section \<open>The canonical form of a request is injective\<close>

lemma hex_digit_inj: "a < 16 \<Longrightarrow> b < 16 \<Longrightarrow> hex_digit a = hex_digit b \<Longrightarrow> a = b"
proof -
  assume ab: "a < 16" "b < 16" and eq: "hex_digit a = hex_digit b"
  have "(of_char (hex_digit d) :: nat) = (if d < 10 then 48 + d else 87 + d)" if "d < 16" for d
    using that by (simp add: hex_digit_def of_char_digit of_char_of)
  then have "(if a < 10 then 48 + a else 87 + a) = (if b < 10 then 48 + b else 87 + b)" using ab eq by metis
  then show "a = b" using ab by (auto split: if_splits)
qed

text \<open>An escape is a plain character, a two-character escape or a six-character one; what it starts
  with tells which.\<close>

definition short_escapes :: "(char \<times> char) set" where
  "short_escapes = {(CHR 0x22, CHR 0x22), (CHR 0x5C, CHR 0x5C), (CHR 0x08, CHR ''b''), (CHR 0x0C, CHR ''f''),
     (CHR 0x0A, CHR ''n''), (CHR 0x0D, CHR ''r''), (CHR 0x09, CHR ''t'')}"

lemma escape_kinds:
  obtains (plain) "json_escape c = [c]" "c \<noteq> CHR 0x5C" "c \<noteq> CHR 0x22"
  | (short) e where "json_escape c = [CHR 0x5C, e]" "(c, e) \<in> short_escapes"
  | (hex) "json_escape c = [CHR 0x5C, CHR ''u'', CHR ''0'', CHR ''0'', hex_digit (of_char c div 16), hex_digit (of_char c mod 16)]"
proof -
  let ?n = "of_char c :: nat"
  have code: "c = k \<longleftrightarrow> ?n = of_char k" for k by simp
  consider "?n = 34" | "?n = 92" | "?n = 8" | "?n = 12" | "?n = 10" | "?n = 13" | "?n = 9"
    | "?n \<notin> {34, 92, 8, 12, 10, 13, 9}" "?n < 32 \<or> ?n = 60 \<or> ?n = 62 \<or> ?n = 38"
    | "?n \<notin> {34, 92, 8, 12, 10, 13, 9}" "\<not> (?n < 32 \<or> ?n = 60 \<or> ?n = 62 \<or> ?n = 38)"
    by blast
  then show thesis
  proof cases
    case 1
    then have "c = CHR 0x22" by (simp add: code)
    then show thesis by (intro short [of "CHR 0x22"]) (simp_all add: json_escape_def short_escapes_def)
  next
    case 2
    then have "c = CHR 0x5C" by (simp add: code)
    then show thesis by (intro short [of "CHR 0x5C"]) (simp_all add: json_escape_def short_escapes_def)
  next
    case 3
    then have "c = CHR 0x08" by (simp add: code)
    then show thesis by (intro short [of "CHR ''b''"]) (simp_all add: json_escape_def short_escapes_def)
  next
    case 4
    then have "c = CHR 0x0C" by (simp add: code)
    then show thesis by (intro short [of "CHR ''f''"]) (simp_all add: json_escape_def short_escapes_def)
  next
    case 5
    then have "c = CHR 0x0A" by (simp add: code)
    then show thesis by (intro short [of "CHR ''n''"]) (simp_all add: json_escape_def short_escapes_def)
  next
    case 6
    then have "c = CHR 0x0D" by (simp add: code)
    then show thesis by (intro short [of "CHR ''r''"]) (simp_all add: json_escape_def short_escapes_def)
  next
    case 7
    then have "c = CHR 0x09" by (simp add: code)
    then show thesis by (intro short [of "CHR ''t''"]) (simp_all add: json_escape_def short_escapes_def)
  next
    case 8
    then show thesis by (intro hex) (simp add: json_escape_def Let_def)
  next
    case 9
    then show thesis by (intro plain) (auto simp: json_escape_def Let_def code)
  qed
qed

lemma short_not_u: "(c, e) \<in> short_escapes \<Longrightarrow> e \<noteq> CHR ''u''"
  by (auto simp: short_escapes_def)

lemma short_inj: "(c, e) \<in> short_escapes \<Longrightarrow> (d, e) \<in> short_escapes \<Longrightarrow> c = d"
  by (auto simp: short_escapes_def)

lemma json_escape_prefix:
  assumes "json_escape c @ x = json_escape d @ y"
  shows "c = d \<and> x = y"
proof -
  have hex: "c = d" if "hex_digit (of_char c div 16) = hex_digit (of_char d div 16)"
    "hex_digit (of_char c mod 16) = hex_digit (of_char d mod 16)"
  proof -
    have lt: "(of_char k :: nat) div 16 < 16" "(of_char k :: nat) mod 16 < 16" for k :: char
      using nat_of_char_less_256 [of k] by (simp_all add: less_mult_imp_div_less)
    have "(of_char c :: nat) div 16 = of_char d div 16" "(of_char c :: nat) mod 16 = of_char d mod 16"
      using hex_digit_inj [OF lt(1) lt(1) that(1)] hex_digit_inj [OF lt(2) lt(2) that(2)] .
    then have "(of_char c :: nat) = of_char d" by (metis div_mult_mod_eq)
    then show ?thesis by simp
  qed
  show ?thesis
    by (cases c rule: escape_kinds; cases d rule: escape_kinds) (use assms hex short_not_u short_inj in auto)
qed

lemma escape_not_quote: "json_escape c @ x \<noteq> CHR 0x22 # y"
  by (cases c rule: escape_kinds) auto

lemma json_quote_prefix: "json_quote s @ x = json_quote t @ y \<Longrightarrow> s = t \<and> x = y"
proof -
  have core: "concat (map json_escape s) @ CHR 0x22 # x = concat (map json_escape t) @ CHR 0x22 # y \<Longrightarrow> s = t \<and> x = y" for s t
  proof (induction s arbitrary: t)
    case Nil
    show ?case
    proof (cases t)
      case Nil
      then show ?thesis using Nil.prems by simp
    next
      case (Cons d t')
      then show ?thesis using Nil.prems escape_not_quote [of d "concat (map json_escape t') @ CHR 0x22 # y" x]
        by simp
    qed
  next
    case (Cons c s)
    show ?case
    proof (cases t)
      case Nil
      then show ?thesis using Cons.prems escape_not_quote [of c "concat (map json_escape s) @ CHR 0x22 # x" y]
        by simp
    next
      case (Cons d t')
      then have "json_escape c @ concat (map json_escape s) @ CHR 0x22 # x
          = json_escape d @ concat (map json_escape t') @ CHR 0x22 # y"
        using Cons.prems by simp
      then have "c = d" "s = t' \<and> x = y" using json_escape_prefix Cons.IH by blast+
      then show ?thesis using Cons by simp
    qed
  qed
  assume "json_quote s @ x = json_quote t @ y"
  then have "concat (map json_escape s) @ CHR 0x22 # x = concat (map json_escape t) @ CHR 0x22 # y"
    by (simp add: json_quote_def)
  from core [OF this] show "s = t \<and> x = y" .
qed

lemma dec_int_chars: "c \<in> set (dec_int k) \<Longrightarrow> c \<noteq> CHR '',''"
  using dec_nat_digits by (fastforce simp: dec_int_def is_digit_def split: if_splits)

lemma FormatInt_prefix:
  assumes "FormatInt a @ CHR '','' # x = FormatInt b @ CHR '','' # y"
  shows "a = b \<and> x = y"
proof -
  have tw: "takeWhile (\<lambda>c. c \<noteq> CHR '','') (FormatInt v @ CHR '','' # z) = FormatInt v" for v z
    using dec_int_chars by (auto simp: FormatInt_def takeWhile_append)
  have eq: "FormatInt a = FormatInt b" using assms tw by metis
  then have "a = b" by (metis ParseInt_FormatInt sum.inject(2))
  then show ?thesis using assms by simp
qed

section \<open>Reads\<close>

lemma idem_reads [simp]:
  "tx_reads (GetIdempotencyKey k)" "tx_reads (GetTransferIDByIdempotencyKey ko)"
  by (auto simp: tx_reads_def GetIdempotencyKey_def GetTransferIDByIdempotencyKey_def split: option.splits)

lemma inProgressResult_reads: "inProgressResult key r w = (x, w') \<Longrightarrow> w_db w' = w_db w \<and> w_codec w' = w_codec w \<and> w_env w' = w_env w"
proof -
  assume run: "inProgressResult key r w = (x, w')"
  let ?w1 = "w\<lparr>w_tick := Suc (w_tick w)\<rparr>"
  obtain y w2 where g: "run_stmt (GetTransferIDByIdempotencyKey (Some key)) ?w1 = (y, w2)" by force
  have "w_db w2 = w_db w \<and> w_codec w2 = w_codec w \<and> w_env w2 = w_env w"
    using run_stmt_reads [OF _ g] act_frameD [OF act_frame_run_tx(2) g] by simp
  then show ?thesis
    using run g by (auto simp: inProgressResult_def take_env_def split: if_splits option.splits sum.splits)
qed

lemma orchestrator_Get_spec:
  assumes "orchestrator_Get txt w = (r, w')"
  shows "w_db w' = w_db w \<and> w_codec w' = w_codec w \<and> w_env w' = w_env w
    \<and> (\<forall>v. r = Inr v \<longrightarrow> (\<exists>i t. uuid_Parse (w_codec w) txt = Some i \<and> find_tx i (w_db w) = Some t
          \<and> v = view_of (w_codec w) (detailFromRow (w_codec w) t)))"
proof (cases "uuid_Parse (w_codec w) txt")
  case None
  then show ?thesis using assms by (auto simp: orchestrator_Get_def)
next
  case (Some i)
  obtain x w1 where l: "store_load i w = (x, w1)" by force
  note sp = store_load_spec [OF l]
  show ?thesis
    using assms Some l sp by (cases x) (auto simp: orchestrator_Get_def store_Get_def)
qed

section \<open>A key that exists never runs the transfer again\<close>

lemma Reserve_existing:
  assumes "find_idem key (w_db w) = Some r" and "idem_Reserve lease key fp w = (x, w')"
  shows "w_db w' = w_db w \<and> w_codec w' = w_codec w \<and> w_env w' = w_env w
    \<and> (\<forall>res. x = Inr res \<longrightarrow> rr_outcome res \<noteq> OutcomeReserved
         \<and> (rr_outcome res = OutcomeConflict \<longleftrightarrow> k_fingerprint r \<noteq> fp)
         \<and> (k_fingerprint r = fp \<longrightarrow> k_status r \<in> {IdemSucceeded, IdemFailed} \<longrightarrow>
              rr_outcome res = OutcomeReplay \<and> rr_response res = k_response r \<and> rr_transaction_id res = k_transaction_id r))"
proof -
  obtain y w1 where a: "run_stmt (ReserveIdempotencyKey key fp lease) w = (y, w1)" by force
  have y: "w_db w1 = w_db w \<and> (\<exists>e. y = Inl e)"
    using a assms(1) unfolding run_stmt_def by (elim run_tx_cases) (auto simp: ReserveIdempotencyKey_def)
  have f1: "w_codec w1 = w_codec w" "w_env w1 = w_env w" using act_frameD [OF act_frame_run_tx(2) a] by simp_all
  obtain z w2 where g: "run_stmt (GetIdempotencyKey key) w1 = (z, w2)" by force
  have f2: "w_db w2 = w_db w" "w_codec w2 = w_codec w" "w_env w2 = w_env w"
    using run_stmt_reads [OF _ g] act_frameD [OF act_frame_run_tx(2) g] f1 y by simp_all
  have z: "row = r" if "z = Inr row" for row
  proof -
    from run_read_Inr(3) [OF g [unfolded that]] y obtain ev where "GetIdempotencyKey key ev (w_db w) = Inr (row, w_db w)"
      by auto
    then show ?thesis using assms(1) by (simp add: GetIdempotencyKey_def)
  qed
  obtain q w3 where p: "inProgressResult key r w2 = (q, w3)" by force
  note ip = inProgressResult_reads [OF p]
  have oc: "q = Inr res \<Longrightarrow> rr_outcome res = OutcomeReplay \<or> rr_outcome res = OutcomeInProgress" for res
    using p by (auto simp: inProgressResult_def only_outcome_def take_env_def split: if_splits option.splits sum.splits prod.splits)
  from y obtain e where e: "y = Inl e" by blast
  show ?thesis
  proof (cases "errors_is e ErrNoRows")
    case False
    then show ?thesis using assms(2) a e y f1 by (auto simp: idem_Reserve_def)
  next
    case True
    show ?thesis
    proof (cases z)
      case (Inl e2)
      then show ?thesis using assms(2) a e True g f2 by (auto simp: idem_Reserve_def)
    next
      case (Inr row)
      with z have row: "z = Inr r" by simp
      show ?thesis
        using assms(2) a e True g row f2 p ip oc
        by (auto simp: idem_Reserve_def only_outcome_def split: if_splits)
    qed
  qed
qed

section \<open>A statement without faults\<close>

lemma run_stmt_calm:
  "e_fault (w_env w (w_tick w)) = NoFault \<Longrightarrow>
   run_stmt f w = (case f (w_env w (w_tick w)) (w_db w) of
       Inl e \<Rightarrow> (Inl e, w\<lparr>w_tick := Suc (w_tick w)\<rparr>)
     | Inr (a, d) \<Rightarrow> (Inr a, w\<lparr>w_tick := Suc (w_tick w), w_db := d\<rparr>))"
  by (auto simp: run_stmt_def run_tx_def take_env_def no_triggers_def split: sum.split prod.split)

section \<open>The invariant\<close>

lemma idem_write_keeps:
  assumes run: "run_stmt f w = (r, w')"
    and f: "\<And>ev d a d'. f ev d = Inr (a, d') \<Longrightarrow> \<exists>ks. d' = d\<lparr>idem_keys := ks\<rparr>"
  shows "keeps truth w w'"
proof -
  have fr: "w_env w' = w_env w" "w_codec w' = w_codec w" using act_frameD [OF act_frame_run_tx(2) run] by simp_all
  have "w_db w' = w_db w \<or> (\<exists>ks. w_db w' = (w_db w)\<lparr>idem_keys := ks\<rparr>)"
    using run f unfolding run_stmt_def by (elim run_tx_cases) auto
  moreover have "sw_inv truth c (d\<lparr>idem_keys := ks\<rparr>)" if "sw_inv truth c d" for c d ks
    by (rule sw_inv_outbox [OF that]) (use sw_invD [OF that] in \<open>auto simp: outbox_wf_def driven_def\<close>)
  moreover have "db_evolves (w_codec w) (w_db w) (w_db w')" "set (outbox (w_db w)) \<subseteq> set (outbox (w_db w'))"
    using calculation(1) by (auto intro!: db_evolvesI)
  ultimately show ?thesis using fr by (auto simp: keeps_def)
qed

lemma idem_statements:
  "ReserveIdempotencyKey k fp l ev d = Inr (a, d') \<Longrightarrow> \<exists>ks. d' = d\<lparr>idem_keys := ks\<rparr>"
  "CompleteIdempotencyKey k s rsp i ev d = Inr (b, d') \<Longrightarrow> \<exists>ks. d' = d\<lparr>idem_keys := ks\<rparr>"
  by (auto simp: ReserveIdempotencyKey_def CompleteIdempotencyKey_def Let_def split: option.splits if_splits)

lemma idem_Complete_db:
  assumes "idem_Complete key st i rsp w = (r, w')"
  shows "\<exists>ks. w_db w' = (w_db w)\<lparr>idem_keys := ks\<rparr>"
proof -
  obtain x w1 where g: "run_stmt (CompleteIdempotencyKey key st rsp i) w = (x, w1)" by force
  have same: "w_db w = (w_db w)\<lparr>idem_keys := idem_keys (w_db w)\<rparr>" by simp
  have "\<exists>ks. w_db w1 = (w_db w)\<lparr>idem_keys := ks\<rparr>"
    using g unfolding run_stmt_def by (elim run_tx_cases) (use same idem_statements(2) in metis)+
  then show ?thesis using assms g by (auto simp: idem_Complete_def split: sum.splits)
qed

lemma idem_Complete_keeps: "idem_Complete key st i rsp w = (r, w') \<Longrightarrow> keeps truth w w'"
proof -
  assume run: "idem_Complete key st i rsp w = (r, w')"
  obtain x w1 where g: "run_stmt (CompleteIdempotencyKey key st rsp i) w = (x, w1)" by force
  have "keeps truth w w1" by (rule idem_write_keeps [OF g]) (rule idem_statements)
  then show ?thesis using run g by (auto simp: idem_Complete_def split: sum.splits)
qed

lemma idem_Reserve_keeps: "idem_Reserve lease key fp w = (r, w') \<Longrightarrow> keeps truth w w'"
proof -
  assume run: "idem_Reserve lease key fp w = (r, w')"
  obtain y w1 where a: "run_stmt (ReserveIdempotencyKey key fp lease) w = (y, w1)" by force
  have k1: "keeps truth w w1" by (rule idem_write_keeps [OF a]) (rule idem_statements)
  obtain z w2 where g: "run_stmt (GetIdempotencyKey key) w1 = (z, w2)" by force
  have "keeps truth w1 w2"
    using run_stmt_reads [OF _ g] act_frameD [OF act_frame_run_tx(2) g] by (auto intro: keeps_same_db)
  then have k2: "keeps truth w w2" using keeps_trans [OF k1] by blast
  have k3: "keeps truth w w3" if "inProgressResult key row w2 = (x, w3)" for row x w3
    using keeps_cong [OF k2] inProgressResult_reads [OF that] by simp
  show ?thesis
    using run a g k1 k2 k3 by (auto simp: idem_Reserve_def split: sum.splits if_splits)
qed

lemma idempotent_Create_keeps:
  assumes inv: "sw_inv truth (w_codec w) (w_db w)" and env: "driver_env truth w" and k: "customer_key (w_codec w) key"
    and run: "idempotent_Create sha lease key req w = (r, w')"
  shows "keeps truth w w'"
proof (cases "request_Validate req")
  case (Some e)
  then show ?thesis using run by (simp add: idempotent_Create_def)
next
  case None
  obtain x w1 where rs: "idem_Reserve lease key (Fingerprint sha req) w = (x, w1)" by force
  have k1: "keeps truth w w1" by (rule idem_Reserve_keeps [OF rs])
  have key1: "customer_key (w_codec w1) key" using k k1 by (simp add: keeps_def)
  have get: "keeps truth w w2" if "orchestrator_Get u w1 = (y, w2)" for u y w2
    using keeps_cong [OF k1] orchestrator_Get_spec [OF that] by simp
  have create: "keeps truth w w2" if c: "reserved_Create key req w1 = (y, w2)" for y w2
  proof -
    obtain z w3 where o: "orchestrator_Create key req w1 = (z, w3)" by force
    have "keeps truth w1 w3"
      by (rule orchestrator_Create_keeps [OF keeps_inv [OF k1 inv] driver_env_keeps [OF env k1] key1 o])
    then have k3: "keeps truth w w3" using keeps_trans [OF k1] by blast
    have after_run: "keeps truth w w4" if "idem_Complete key st i rsp w3 = (q, w4)" for st i rsp q w4
      using keeps_trans [OF k3 idem_Complete_keeps [OF that]] .
    show ?thesis
    proof (cases z)
      case (Inl e)
      then have "w2 = snd (idem_Complete key IdemFailed None None w3)" using c o by (simp add: reserved_Create_def)
      then show ?thesis using after_run [OF surjective_pairing] by simp
    next
      case (Inr v)
      obtain q w4 where "idem_Complete key IdemSucceeded (uuid_Parse (w_codec w3) (vw_id v)) (Some (view_to_json v)) w3 = (q, w4)"
        by force
      then show ?thesis using c o Inr after_run by (auto simp: reserved_Create_def split: sum.splits)
    qed
  qed
  show ?thesis
    using run None rs k1 get create
    by (auto simp: idempotent_Create_def split: sum.splits reserve_outcome.splits option.splits)
qed

end
