(* ===== verification/Transport.thy ===== *)
theory Transport
  imports Idempotency
begin

text \<open>
  The switch's two surfaces: the internal gRPC one (\<open>internal/switch/grpc.go\<close>) and the public REST
  one (\<open>transport/rest.go\<close>, \<open>transport/errors.go\<close>), from the decoded request to the response.
  Routing (chi), tracing and the byte syntax of JSON are the libraries'.
\<close>

section \<open>grpc.go\<close>

datatype callback_status = CALLBACK_STATUS_UNSPECIFIED | CALLBACK_STATUS_SUCCESS | CALLBACK_STATUS_DECLINED

fun verdictFromCallback :: "callback_status \<Rightarrow> verdict" where
  "verdictFromCallback CALLBACK_STATUS_SUCCESS = VerdictSuccess"
| "verdictFromCallback CALLBACK_STATUS_DECLINED = VerdictDeclined"
| "verdictFromCallback CALLBACK_STATUS_UNSPECIFIED = VerdictUnknown"

text \<open>\<open>%q\<close> on text whose runes above ASCII are printable, which it keeps.\<close>

definition go_quote_char :: "char \<Rightarrow> string" where
  "go_quote_char c = (let n = (of_char c :: nat) in
     if n = 34 \<or> n = 92 then [CHR 0x5C, c]
     else if n = 7 then [CHR 0x5C, CHR ''a'']
     else if n = 8 then [CHR 0x5C, CHR ''b'']
     else if n = 9 then [CHR 0x5C, CHR ''t'']
     else if n = 10 then [CHR 0x5C, CHR ''n'']
     else if n = 11 then [CHR 0x5C, CHR ''v'']
     else if n = 12 then [CHR 0x5C, CHR ''f'']
     else if n = 13 then [CHR 0x5C, CHR ''r'']
     else if n < 32 \<or> n = 127 then [CHR 0x5C, CHR ''x'', hex_digit (n div 16), hex_digit (n mod 16)]
     else [c])"

definition go_quote :: "string \<Rightarrow> string" where
  "go_quote s = CHR 0x22 # concat (map go_quote_char s) @ [CHR 0x22]"

definition switch_Ping :: "bool act" where
  "switch_Ping = act_return True"

definition grpc_RailCallback :: "string \<Rightarrow> callback_status \<Rightarrow> string act" where
  "grpc_RailCallback ref st w =
     (if ref = [] then (Inl (GrpcStatus GrpcInvalidArgument ''reference is required''), w)
      else (case HandleRailCallback ref (verdictFromCallback st) w of
          (Inl e, w1) \<Rightarrow>
            if errors_is e ErrNotFound
            then (Inl (GrpcStatus GrpcNotFound (''no transfer for reference '' @ go_quote ref)), w1)
            else (Inl (GrpcStatus GrpcInternal (''rail callback: '' @ err_text e)), w1)
        | (Inr s, w1) \<Rightarrow> (Inr (state_text s), w1)))"

definition grpc_CorrectiveReversal :: "string \<Rightarrow> (string \<times> bool) act" where
  "grpc_CorrectiveReversal ref w =
     (if ref = [] then (Inl (GrpcStatus GrpcInvalidArgument ''reference is required''), w)
      else (case driver_RequeueReversal ref w of
          (Inl e, w1) \<Rightarrow>
            if errors_is e ErrNotFound
            then (Inl (GrpcStatus GrpcNotFound (''no transfer for reference '' @ go_quote ref)), w1)
            else (Inl (GrpcStatus GrpcInternal (''corrective reversal: '' @ err_text e)), w1)
        | (Inr (s, requeued), w1) \<Rightarrow> (Inr (state_text s, requeued), w1)))"

section \<open>transport/errors.go\<close>

definition codeValidation :: string where [go_const]: "codeValidation = ''validation_error''"
definition codeMissingIdemKey :: string where [go_const]: "codeMissingIdemKey = ''missing_idempotency_key''"
definition codeIdemConflict :: string where [go_const]: "codeIdemConflict = ''idempotency_conflict''"
definition codeInProgress :: string where [go_const]: "codeInProgress = ''in_progress''"
definition codeNotFound :: string where [go_const]: "codeNotFound = ''not_found''"
definition codeUnavailable :: string where [go_const]: "codeUnavailable = ''unavailable''"
definition codeInternal :: string where [go_const]: "codeInternal = ''internal''"

record api_error =
  ae_code :: string
  ae_status :: nat

definition isUnavailable :: "err \<Rightarrow> bool" where
  "isUnavailable e \<longleftrightarrow> errors_as_grpc e = Some GrpcUnavailable"

definition classify :: "err \<Rightarrow> api_error" where
  "classify e =
     (if errors_is e ErrMissingIdempotencyKey then \<lparr>ae_code = codeMissingIdemKey, ae_status = 400\<rparr>
      else if errors_is e ErrIdempotencyConflict then \<lparr>ae_code = codeIdemConflict, ae_status = 409\<rparr>
      else if errors_is e ErrInProgress then \<lparr>ae_code = codeInProgress, ae_status = 409\<rparr>
      else if errors_is e ErrNotFound then \<lparr>ae_code = codeNotFound, ae_status = 404\<rparr>
      else if errors_is e ErrInvalidJSONBody \<or> errors_is e ErrNonPositiveAmount
        \<or> errors_is e ErrUnknownCurrency \<or> errors_is e ErrMissingField
      then \<lparr>ae_code = codeValidation, ae_status = 400\<rparr>
      else if isUnavailable e then \<lparr>ae_code = codeUnavailable, ae_status = 503\<rparr>
      else \<lparr>ae_code = codeInternal, ae_status = 500\<rparr>)"

section \<open>transport/rest.go\<close>

record http_response =
  hr_status :: nat
  hr_retry_after :: "string option"
  hr_correlation :: string
  hr_body :: jsonb

definition correlation_id :: "string \<Rightarrow> string \<Rightarrow> string" where
  "correlation_id hdr fresh = (if hdr = [] then fresh else hdr)"

definition toResponse :: "view \<Rightarrow> jsonb" where
  "toResponse v =
     [(''id'', JStr (vw_id v)), (''reference'', JStr (vw_reference v)), (''source'', JStr (vw_source v)),
      (''destination'', JStr (vw_destination v)), (''amount_minor'', JNum (sint (Minor (vw_amount v)))),
      (''currency'', JStr (vw_currency v)), (''state'', JStr (vw_state v))]"

definition writeJSON :: "string \<Rightarrow> nat \<Rightarrow> jsonb \<Rightarrow> http_response" where
  "writeJSON cid st body = \<lparr>hr_status = st, hr_retry_after = None, hr_correlation = cid, hr_body = body\<rparr>"

definition writeError :: "string \<Rightarrow> err \<Rightarrow> http_response" where
  "writeError cid e =
     (let ae = classify e;
          msg = (if ae_status ae = 500 then ''internal error'' else err_text e)
      in (writeJSON cid (ae_status ae)
            ([(''code'', JStr (ae_code ae)), (''message'', JStr msg)]
             @ (if cid = [] then [] else [(''correlation_id'', JStr cid)])))
         \<lparr>hr_retry_after := (if ae_status ae = 503 then Some ''1'' else None)\<rparr>)"

text \<open>
  A request body after the JSON scanner: the tokens of an object's members in order. The decoder
  matches names exactly or by ASCII case, refuses unknown names, takes the last of repeated members,
  leaves a text field alone on \<open>null\<close>, and hands the amount's raw token to \<open>Amount.UnmarshalJSON\<close>.
\<close>

datatype json_token = TokString string | TokNumber string | TokNull | TokOther

datatype rest_body = BodyInvalid | BodyNull | BodyObject "(string \<times> json_token) list"

definition body_fields :: "string list" where
  "body_fields = [''source'', ''destination'', ''amount_minor'', ''currency'', ''reference'']"

definition match_field :: "string \<Rightarrow> string option" where
  "match_field name =
     (if name \<in> set body_fields then Some name
      else List.find (\<lambda>f. EqualFold f name) body_fields)"

fun decode_string :: "json_token \<Rightarrow> string \<Rightarrow> string option" where
  "decode_string (TokString s) old = Some s"
| "decode_string TokNull old = Some old"
| "decode_string _ old = None"

definition decode_amount :: "json_token \<Rightarrow> amount option" where
  "decode_amount t =
     (case t of
        TokNumber raw \<Rightarrow> (case amount_UnmarshalJSON raw of Inl _ \<Rightarrow> None | Inr a \<Rightarrow> Some a)
      | _ \<Rightarrow> None)"

definition decode_member :: "string \<Rightarrow> json_token \<Rightarrow> create_request \<Rightarrow> create_request option" where
  "decode_member name t r =
     (case match_field name of
        None \<Rightarrow> None
      | Some f \<Rightarrow>
          if f = ''source'' then map_option (\<lambda>s. r\<lparr>cr_source := s\<rparr>) (decode_string t (cr_source r))
          else if f = ''destination'' then map_option (\<lambda>s. r\<lparr>cr_destination := s\<rparr>) (decode_string t (cr_destination r))
          else if f = ''amount_minor'' then map_option (\<lambda>a. r\<lparr>cr_amount := a\<rparr>) (decode_amount t)
          else if f = ''currency'' then map_option (\<lambda>s. r\<lparr>cr_currency := s\<rparr>) (decode_string t (cr_currency r))
          else map_option (\<lambda>s. r\<lparr>cr_reference := s\<rparr>) (decode_string t (cr_reference r)))"

fun decode_members :: "(string \<times> json_token) list \<Rightarrow> create_request \<Rightarrow> create_request option" where
  "decode_members [] r = Some r"
| "decode_members ((name, t) # ms) r =
     (case decode_member name t r of None \<Rightarrow> None | Some r' \<Rightarrow> decode_members ms r')"

definition empty_request :: create_request where
  "empty_request = \<lparr>cr_source = [], cr_destination = [], cr_amount = 0, cr_currency = [], cr_reference = []\<rparr>"

fun decode_body :: "rest_body \<Rightarrow> create_request option" where
  "decode_body BodyInvalid = None"
| "decode_body BodyNull = Some empty_request"
| "decode_body (BodyObject ms) = decode_members ms empty_request"

definition rest_create :: "(string \<Rightarrow> string) \<Rightarrow> time \<Rightarrow> string \<Rightarrow> string \<Rightarrow> rest_body \<Rightarrow> world \<Rightarrow> http_response \<times> world" where
  "rest_create sha lease cid key body w =
     (if key = [] then (writeError cid (Sentinel ErrMissingIdempotencyKey), w)
      else (case decode_body body of
          None \<Rightarrow> (writeError cid (Sentinel ErrInvalidJSONBody), w)
        | Some req \<Rightarrow>
            (case idempotent_Create sha lease key req w of
               (Inl e, w1) \<Rightarrow> (writeError cid e, w1)
             | (Inr v, w1) \<Rightarrow> (writeJSON cid 202 (toResponse v), w1))))"

definition rest_get :: "string \<Rightarrow> string \<Rightarrow> world \<Rightarrow> http_response \<times> world" where
  "rest_get cid i w =
     (case idempotent_Get i w of
        (Inl e, w1) \<Rightarrow> (writeError cid e, w1)
      | (Inr v, w1) \<Rightarrow> (writeJSON cid 200 (toResponse v), w1))"

end
