(* ===== verification/SwitchSystem.thy ===== *)
theory SwitchSystem
  imports IdempotencyProps Transport
begin

text \<open>
  The whole switch as a transition system: one rule per entry point, each a complete run of the
  operation under the world's fault script. Every step keeps the switch invariant and only lets rows
  evolve; the properties of reachable worlds are in \<open>SwitchClaims\<close>.
\<close>

section \<open>Requests change nothing but through the services\<close>

lemma grpc_RailCallback_world:
  assumes "grpc_RailCallback ref st w = (r, w')"
  shows "w' = w \<or> (\<exists>x. HandleRailCallback ref (verdictFromCallback st) w = (x, w'))"
  using assms by (auto simp: grpc_RailCallback_def split: if_splits sum.splits prod.splits)

lemma grpc_CorrectiveReversal_world:
  assumes "grpc_CorrectiveReversal ref w = (r, w')"
  shows "w' = w \<or> (\<exists>x. driver_RequeueReversal ref w = (x, w'))"
  using assms by (auto simp: grpc_CorrectiveReversal_def split: if_splits sum.splits prod.splits)

lemma rest_create_world:
  assumes "rest_create sha lease cid key body w = (r, w')"
  shows "w' = w \<or> (\<exists>req x. idempotent_Create sha lease key req w = (x, w'))"
  using assms by (auto simp: rest_create_def split: if_splits sum.splits prod.splits option.splits)

lemma rest_get_world:
  assumes "rest_get cid i w = (r, w')"
  shows "w_db w' = w_db w \<and> w_env w' = w_env w \<and> w_codec w' = w_codec w"
proof -
  obtain x w1 where g: "orchestrator_Get i w = (x, w1)" by force
  then have "w' = w1" using assms by (auto simp: rest_get_def idempotent_Get_def split: sum.splits)
  then show ?thesis using orchestrator_Get_spec [OF g] by simp
qed

section \<open>Steps\<close>

definition restarted :: "world \<Rightarrow> world" where
  "restarted w = w\<lparr>w_metrics := \<lparr>m_retries = 0, m_exhausted = 0, m_outcomes = (\<lambda>_. 0), m_reversal_latency = [],
     m_dead_letters = 0\<rparr>, w_slept := []\<rparr>"

text \<open>Three premises the code does not check. A step is a whole run of an entry point, so runs do not overlap
  (\<open>switchd\<close> runs its servers and the poller concurrently; what they would interleave on are transactions).
  A post's Idempotency-Key is not the key of a leg (\<open>rest.go\<close> takes any non-empty key). A callback tells what
  the rail decided, and no success finds a pending transfer. Without the last two the invariant fails:
  \<open>taken_leg_key_settles_unpaid\<close> and \<open>early_callback_pays_undebited\<close> of \<open>ProgressClaims\<close>.\<close>

inductive sw_step :: "tsq_policy \<Rightarrow> poll_config \<Rightarrow> (string \<Rightarrow> string) \<Rightarrow> (string \<Rightarrow> rail_status) \<Rightarrow> world \<Rightarrow> world \<Rightarrow> bool"
  for q cfg sha truth where
  post_transfer: "customer_key (w_codec w) key \<Longrightarrow>
    rest_create sha defaultIdempotencyLease cid key body w = (resp, w') \<Longrightarrow> sw_step q cfg sha truth w w'"
| get_transfer: "rest_get cid i w = (resp, w') \<Longrightarrow> sw_step q cfg sha truth w w'"
| poll: "poller_tick (driver_Handle q) cfg w = (n, w') \<Longrightarrow> sw_step q cfg sha truth w w'"
| rail_callback: "callback_ok truth (w_db w) ref (verdictFromCallback st) \<Longrightarrow>
    grpc_RailCallback ref st w = (s, w') \<Longrightarrow> sw_step q cfg sha truth w w'"
| corrective: "grpc_CorrectiveReversal ref w = (sb, w') \<Longrightarrow> sw_step q cfg sha truth w w'"
| lag_gauge: "run_stmt OutboxLagSeconds w = (lag, w') \<Longrightarrow> sw_step q cfg sha truth w w'"
| boot_recovery: "Recover w = (m, w') \<Longrightarrow> sw_step q cfg sha truth w w'"
| restart: "sw_step q cfg sha truth w (restarted w)"

definition sw_runs :: "tsq_policy \<Rightarrow> poll_config \<Rightarrow> (string \<Rightarrow> string) \<Rightarrow> (string \<Rightarrow> rail_status) \<Rightarrow> world \<Rightarrow> world \<Rightarrow> bool" where
  "sw_runs q cfg sha truth = (sw_step q cfg sha truth)\<^sup>*\<^sup>*"

text \<open>What a step keeps: the invariant, the environment's behaviour, the rows.\<close>

definition sane :: "(string \<Rightarrow> rail_status) \<Rightarrow> world \<Rightarrow> bool" where
  "sane truth w \<longleftrightarrow> sw_inv truth (w_codec w) (w_db w) \<and> driver_env truth w"

definition follows :: "(string \<Rightarrow> rail_status) \<Rightarrow> world \<Rightarrow> world \<Rightarrow> bool" where
  "follows truth w w' \<longleftrightarrow> sane truth w' \<and> w_codec w' = w_codec w \<and> db_evolves (w_codec w) (w_db w) (w_db w')"

lemma follows_refl: "sane truth w \<Longrightarrow> follows truth w w"
  by (simp add: follows_def)

lemma follows_trans: "follows truth w1 w2 \<Longrightarrow> follows truth w2 w3 \<Longrightarrow> follows truth w1 w3"
  unfolding follows_def using db_evolves_trans by metis

lemma follows_keeps: "sane truth w \<Longrightarrow> keeps truth w w' \<Longrightarrow> follows truth w w'"
  unfolding follows_def sane_def using driver_env_keeps by (fastforce simp: keeps_def)

lemma follows_same_db:
  "sane truth w \<Longrightarrow> w_db w' = w_db w \<Longrightarrow> w_env w' = w_env w \<Longrightarrow> w_codec w' = w_codec w \<Longrightarrow> follows truth w w'"
  by (rule follows_keeps) (auto intro: keeps_same_db)

lemma poll_follows:
  assumes "sane truth w" "poller_tick (driver_Handle q) cfg w = (n, w')"
  shows "follows truth w w'"
  using drv.tick_inv [of truth w "w_codec w" "w_db w" q cfg] assms
  by (simp add: sane_def follows_def)

lemma step_follows: "sw_step q cfg sha truth w w' \<Longrightarrow> sane truth w \<Longrightarrow> follows truth w w'"
proof (induction rule: sw_step.induct)
  case (post_transfer w key cid body resp w')
  from rest_create_world [OF post_transfer.hyps(2)] show ?case
  proof
    assume "\<exists>req x. idempotent_Create sha defaultIdempotencyLease key req w = (x, w')"
    then show ?thesis
      using idempotent_Create_keeps post_transfer.prems post_transfer.hyps(1) follows_keeps
      unfolding sane_def by metis
  qed (use post_transfer.prems follows_refl in simp)
next
  case (get_transfer cid i w resp w')
  then show ?case using rest_get_world follows_same_db by blast
next
  case (poll w n w')
  then show ?case using poll_follows by blast
next
  case (rail_callback w ref st s w')
  from grpc_RailCallback_world [OF rail_callback.hyps(2)] show ?case
    using HandleRailCallback_keeps rail_callback.prems rail_callback.hyps(1) follows_keeps follows_refl
    unfolding sane_def by metis
next
  case (corrective ref w sb w')
  from grpc_CorrectiveReversal_world [OF corrective.hyps] show ?case
    using RequeueReversal_keeps corrective.prems follows_keeps follows_refl unfolding sane_def by metis
next
  case (boot_recovery w m w')
  then show ?case using Recover_keeps follows_keeps unfolding sane_def by metis
next
  case (lag_gauge w lag w')
  have "tx_reads OutboxLagSeconds" by (auto simp: tx_reads_def OutboxLagSeconds_def)
  from run_stmt_reads [OF this lag_gauge.hyps] show ?case
    using act_frameD [OF act_frame_run_tx(2) lag_gauge.hyps] lag_gauge.prems by (auto intro: follows_same_db)
next
  case (restart w)
  then show ?case by (auto simp: restarted_def intro: follows_same_db)
qed

lemma runs_follow: "sw_runs q cfg sha truth w w' \<Longrightarrow> sane truth w \<Longrightarrow> follows truth w w'"
  unfolding sw_runs_def
proof (induction rule: rtranclp_induct)
  case base
  then show ?case by (rule follows_refl)
next
  case (step w1 w2)
  then have "follows truth w w1" by blast
  moreover have "follows truth w1 w2" using step_follows [OF step.hyps(2)] calculation by (simp add: follows_def)
  ultimately show ?case by (rule follows_trans)
qed

lemma runs_trans: "sw_runs q cfg sha truth w1 w2 \<Longrightarrow> sw_runs q cfg sha truth w2 w3 \<Longrightarrow> sw_runs q cfg sha truth w1 w3"
  unfolding sw_runs_def by (rule rtranclp_trans)

lemma runs_step: "sw_step q cfg sha truth w1 w2 \<Longrightarrow> sw_runs q cfg sha truth w1 w2"
  unfolding sw_runs_def by (rule r_into_rtranclp)

section \<open>The empty switch\<close>

text \<open>A freshly provisioned database: accounts, nothing else.\<close>

definition fresh_db :: "db \<Rightarrow> bool" where
  "fresh_db d \<longleftrightarrow> accounts_wf d \<and> transactions d = [] \<and> entries d = [] \<and> balances d = (\<lambda>_. None) \<and> outbox d = []"

lemma fresh_inv: "codec_ok c \<Longrightarrow> fresh_db d \<Longrightarrow> sw_inv truth c d"
  by (auto simp: sw_inv_def fresh_db_def ledger_inv_def tx_unique_def journal_balanced_def cache_coherent_def
      legs_owned_def outbox_wf_def sweep_owned_def refunds_owned_def entries_owned_def account_entries_def)

end
