(* ===== verification/SwitchDemo.thy ===== *)
theory SwitchDemo
  imports SwitchSystem Demo
begin

text \<open>
  Concrete runs of the switch, evaluated: a transfer posted over REST and driven by the poller against
  a rail that accepts it, and one against a rail that declines it.
\<close>

section \<open>Concrete runs\<close>

definition tally_codec :: uuid_codec where
  "tally_codec = \<lparr>uuid_String = (\<lambda>n. replicate (Suc n) CHR ''i''), uuid_Parse = (\<lambda>s. Some (length s - 1))\<rparr>"

definition small_env :: "rail_status \<Rightarrow> nat \<Rightarrow> env" where
  "small_env s t = \<lparr>e_fault = NoFault, e_uuid = (\<lambda>n. 3 * t + n), e_now = int t, e_ctx_done = False,
     e_rpc = RpcOk, e_rail = (\<lambda>_. Inr s)\<rparr>"

definition sw_world :: "rail_status \<Rightarrow> world" where
  "sw_world s = (world_of demo_db (small_env s))\<lparr>w_codec := tally_codec\<rparr>"

definition demo_body :: rest_body where
  "demo_body = BodyObject [(''source'', TokString ''CUST:A''), (''destination'', TokString ''CUST:B''),
     (''amount_minor'', TokNumber ''7''), (''currency'', TokString ''NGN''), (''reference'', TokString ''R'')]"

definition demo_sha :: "string \<Rightarrow> string" where
  "demo_sha s = ''h''"

definition after_post :: "rail_status \<Rightarrow> world" where
  "after_post s = snd (rest_create demo_sha defaultIdempotencyLease ''cid'' ''K'' demo_body (sw_world s))"

definition after_poll :: "rail_status \<Rightarrow> world" where
  "after_poll s = snd (poller_tick (driver_Handle default_tsq) demo_config (after_post s))"

definition after_poll2 :: "rail_status \<Rightarrow> world" where
  "after_poll2 s = snd (poller_tick (driver_Handle default_tsq) demo_config (after_poll s))"

lemma tally_codec_ok: "codec_ok tally_codec" "codec_nonempty tally_codec"
  by (simp_all add: codec_ok_def codec_nonempty_def tally_codec_def)

lemma sw_world_sane: "s \<noteq> RAIL_STATUS_UNSPECIFIED \<Longrightarrow> sane (\<lambda>_. s) (sw_world s)"
proof -
  have "fresh_db demo_db" by (simp add: fresh_db_def demo_db_def demo_account_def accounts_wf_def)
  then show "s \<noteq> RAIL_STATUS_UNSPECIFIED \<Longrightarrow> sane (\<lambda>_. s) (sw_world s)"
    using tally_codec_ok fresh_inv
    by (simp add: sane_def sw_world_def world_of_def driver_env_def world_ok_def small_env_def net_ok_def)
qed

lemma demo_customer_key: "customer_key (w_codec (sw_world s)) ''K''"
  by (auto simp: customer_key_def legKey_def leg_names_def sw_world_def tally_codec_def)

lemma runs_post: "sw_runs q cfg demo_sha truth (sw_world s) (after_post s)"
proof -
  obtain r w' where "rest_create demo_sha defaultIdempotencyLease ''cid'' ''K'' demo_body (sw_world s) = (r, w')" by force
  then show ?thesis using runs_step [OF post_transfer [OF demo_customer_key]] by (simp add: after_post_def)
qed

lemma runs_tick:
  "sw_runs q cfg sha truth w0 w \<Longrightarrow> sw_runs q cfg sha truth w0 (snd (poller_tick (driver_Handle q) cfg w))"
  using runs_trans [OF _ runs_step [OF poll]] by (metis surjective_pairing)

lemma runs_poll:
  "sw_runs default_tsq demo_config demo_sha truth (sw_world s) (after_poll s)"
  "sw_runs default_tsq demo_config demo_sha truth (sw_world s) (after_poll2 s)"
  using runs_tick [OF runs_post] runs_tick [OF runs_tick [OF runs_post]] by (simp_all add: after_poll_def after_poll2_def)

definition demo_creq :: create_request where
  "demo_creq = \<lparr>cr_source = ''CUST:A'', cr_destination = ''CUST:B'', cr_amount = 7, cr_currency = ''NGN'', cr_reference = ''R''\<rparr>"

lemma demo_decode: "decode_body demo_body = Some demo_creq"
  by (simp add: demo_body_def demo_creq_def empty_request_def decode_member_def match_field_def body_fields_def
      decode_amount_def amount_UnmarshalJSON_def ParseInt_def is_digit_def digit_val_def)

lemma after_post_eq:
  "after_post s = snd (idempotent_Create demo_sha defaultIdempotencyLease ''K'' demo_creq (sw_world s))"
  by (simp add: after_post_def rest_create_def demo_decode split: sum.split prod.split)

lemma demo_statuses:
  "map (\<lambda>t. (lifecycle t, t_status t)) (transactions (w_db (after_post RAIL_STATUS_SUCCESS))) = [(True, ''debited''), (False, ''settled'')]"
  unfolding after_post_eq by code_simp

definition row_facts :: "tx_row \<Rightarrow> bool \<times> string \<times> string \<times> string \<times> int" where
  "row_facts t = (let det = detailFromRow tally_codec t in
     (lifecycle t, t_status t, td_source det, td_destination det, sint (td_amount det)))"

lemma demo_settled_facts:
  "map row_facts (transactions (w_db (after_poll RAIL_STATUS_SUCCESS)))
   = [(True, ''settled'', ''CUST:A'', ''CUST:B'', 7), (False, ''settled'', [], [], 0), (False, ''settled'', [], [], 0)]"
  unfolding after_poll_def after_post_eq by code_simp

lemma demo_settled:
  "map (\<lambda>t. (lifecycle t, t_status t)) (transactions (w_db (after_poll RAIL_STATUS_SUCCESS)))
   = [(True, ''settled''), (False, ''settled''), (False, ''settled'')]"
proof -
  have "map (\<lambda>t. (lifecycle t, t_status t)) ts = map (\<lambda>(l, s, _). (l, s)) (map row_facts ts)" for ts
    by (simp add: row_facts_def Let_def)
  then show ?thesis by (simp only: demo_settled_facts list.map prod.case)
qed

lemma demo_reversed_rows:
  "map (\<lambda>t. ((lifecycle t, t_status t), t_id t, t_type t, t_parent t)) (transactions (w_db (after_poll2 RAIL_STATUS_DECLINED)))
   = [((True, ''reversed''), 3, ''transfer'', None), ((False, ''settled''), 12, ''transfer'', None),
      ((False, ''settled''), 54, ''reversal'', Some 12)]"
  unfolding after_poll2_def after_poll_def after_post_eq by code_simp

lemma demo_reversed:
  "map (\<lambda>t. (lifecycle t, t_status t)) (transactions (w_db (after_poll2 RAIL_STATUS_DECLINED)))
   = [(True, ''reversed''), (False, ''settled''), (False, ''settled'')]"
  using arg_cong [OF demo_reversed_rows, of "map fst"] by (simp add: comp_def)

lemma demo_refund_rows:
  "map (\<lambda>t. (t_id t, t_type t, t_parent t)) (transactions (w_db (after_poll2 RAIL_STATUS_DECLINED)))
    = [(3, ''transfer'', None), (12, ''transfer'', None), (54, ''reversal'', Some 12)]"
  using arg_cong [OF demo_reversed_rows, of "map snd"] by (simp add: comp_def)

end
