(* ===== verification/SwitchClaims.thy ===== *)
theory SwitchClaims
  imports SwitchDemo
begin

text \<open>
  The properties of the transfer engine over every reachable world of \<open>SwitchSystem\<close>, with closed
  instances on the runs of \<open>SwitchDemo\<close>. Reachable means by the step relation of \<open>SwitchSystem\<close>: whole runs of
  the entry points one after another, posts whose Idempotency-Key is not the key of a leg, and callbacks
  that tell what the rail decided and report no success for a transfer that is not debited yet.
\<close>

section \<open>Reachable worlds\<close>

lemma runs_inv:
  assumes "fresh_db (w_db w0)" and "driver_env truth w0" and "sw_runs q cfg sha truth w0 w"
  shows "sw_inv truth (w_codec w0) (w_db w)"
proof -
  have "sane truth w0"
    using assms(1,2) fresh_inv by (simp add: sane_def driver_env_def world_ok_def)
  from runs_follow [OF assms(3) this] show ?thesis unfolding follows_def sane_def by metis
qed

text \<open>C1. Starting from a freshly provisioned database, every world the switch reaches by a sequence of posts,
  reads, poller ticks, callbacks, corrective requests, recovery sweeps and restarts, each run from its start
  to its end before the next begins, under any faults of the database and the network, satisfies the
  invariant: the journal is balanced, every entry is part of a leg, every leg belongs to a transfer and
  moves its amount between its accounts, every status agrees with the legs posted, and every unfinished
  transfer has an undelivered event that drives it. Three kinds of input are outside the statement, although
  the code accepts them: entry points that overlap in time; a post whose Idempotency-Key is the key of a leg
  (\<open>customer_key\<close>); and a callback that does not say what the rail decided, or that reports success for a
  transfer not yet debited (\<open>callback_ok\<close>). The last two do break the invariant: see
  \<open>taken_leg_key_settles_unpaid\<close> and \<open>early_callback_pays_undebited\<close> in \<open>ProgressClaims\<close>.\<close>

theorem reachable_invariant:
  assumes "fresh_db (w_db w0)" and "driver_env truth w0" and "sw_runs q cfg sha truth w0 w"
  shows "sw_inv truth (w_codec w0) (w_db w)"
  by (rule runs_inv [OF assms])

lemma demo_fresh: "fresh_db (w_db (sw_world s))"
  by (simp add: sw_world_def world_of_def fresh_db_def demo_db_def demo_account_def accounts_wf_def)

lemma demo_env: "s \<noteq> RAIL_STATUS_UNSPECIFIED \<Longrightarrow> driver_env (\<lambda>_. s) (sw_world s)"
  using sw_world_sane by (simp add: sane_def)

lemma reachable_invariant_witness:
  "sw_inv (\<lambda>_. RAIL_STATUS_SUCCESS) tally_codec (w_db (after_poll RAIL_STATUS_SUCCESS))
   \<and> map t_status (transactions (w_db (after_poll RAIL_STATUS_SUCCESS))) = [''settled'', ''settled'', ''settled'']"
proof -
  have "sw_inv (\<lambda>_. RAIL_STATUS_SUCCESS) (w_codec (sw_world RAIL_STATUS_SUCCESS)) (w_db (after_poll RAIL_STATUS_SUCCESS))"
    by (rule reachable_invariant [OF demo_fresh demo_env runs_poll(1)]) simp
  moreover have "w_codec (sw_world s) = tally_codec" for s by (simp add: sw_world_def)
  moreover have "map snd (map (\<lambda>t. (lifecycle t, t_status t)) (transactions (w_db (after_poll RAIL_STATUS_SUCCESS))))
      = [''settled'', ''settled'', ''settled'']"
    unfolding demo_settled by simp
  ultimately show ?thesis by (simp add: comp_def)
qed

section \<open>Money moves exactly as the status says\<close>

definition leg_posted :: "uuid_codec \<Rightarrow> db \<Rightarrow> tx_row \<Rightarrow> string \<Rightarrow> bool" where
  "leg_posted c d t l \<longleftrightarrow>
     (case leg_fact c d (t_id t) l of
        None \<Rightarrow> False
      | Some (v, es) \<Rightarrow> leg_posts d es (fst (leg_sides (detailFromRow c t) l)) (snd (leg_sides (detailFromRow c t) l))
          (td_amount (detailFromRow c t)))"

lemma leg_posted_iff:
  assumes "sw_inv truth c d" "transfer_row d i t" "l \<in> set leg_names"
  shows "leg_posted c d t l \<longleftrightarrow> leg_fact c d i l \<noteq> None"
  using sw_invD(5) [OF assms(1), of t] assms(2,3)
  by (auto simp: leg_posted_def transfer_ok_def legs_match_def transfer_row_def split: option.splits)

lemma leg_names_mem [simp]: "''debit'' \<in> set leg_names" "''settle'' \<in> set leg_names" "''reversal'' \<in> set leg_names"
  by (simp_all add: leg_names_def)

lemma legs_truth:
  assumes "statuses_match truth c t leg"
  shows "leg ''settle'' \<noteq> None \<Longrightarrow> truth (t_reference t) = RAIL_STATUS_SUCCESS"
    and "leg ''reversal'' \<noteq> None \<Longrightarrow> truth (t_reference t) = RAIL_STATUS_DECLINED"
proof -
  assume "leg ''settle'' \<noteq> None"
  then show "truth (t_reference t) = RAIL_STATUS_SUCCESS" using assms unfolding statuses_match_def by blast
next
  assume "leg ''reversal'' \<noteq> None"
  then have "t_status t \<in> {statusReversalPending, statusReversed}" using assms unfolding statuses_match_def by blast
  then show "truth (t_reference t) = RAIL_STATUS_DECLINED" using assms unfolding statuses_match_def by blast
qed

lemma statuses_outcome:
  assumes "statuses_match truth c t leg"
  shows "t_status t = statusSettled \<Longrightarrow> leg ''debit'' \<noteq> None \<and> leg ''settle'' \<noteq> None \<and> leg ''reversal'' = None \<and> truth (t_reference t) = RAIL_STATUS_SUCCESS"
    and "t_status t = statusReversed \<Longrightarrow> leg ''debit'' \<noteq> None \<and> leg ''reversal'' \<noteq> None \<and> leg ''settle'' = None \<and> truth (t_reference t) = RAIL_STATUS_DECLINED"
    and "t_status t = statusFailed \<Longrightarrow> leg ''debit'' = None \<and> leg ''settle'' = None \<and> leg ''reversal'' = None"
    and "\<not> (leg ''settle'' \<noteq> None \<and> leg ''reversal'' \<noteq> None)"
    and "leg ''settle'' \<noteq> None \<or> leg ''reversal'' \<noteq> None \<Longrightarrow> leg ''debit'' \<noteq> None"
proof -
  have moved: "\<exists>v es. leg ''debit'' = Some (v, es)" if "t_status t \<notin> {statusPending, statusFailed}"
    using assms that unfolding statuses_match_def by blast
  have stl: "truth (t_reference t) = RAIL_STATUS_SUCCESS \<and> t_status t \<notin> {statusPending, statusFailed}" if "leg ''settle'' \<noteq> None"
    using assms that unfolding statuses_match_def by blast
  have rev: "t_status t \<in> {statusReversalPending, statusReversed}" if "leg ''reversal'' \<noteq> None"
    using assms that unfolding statuses_match_def by blast
  have dec: "truth (t_reference t) = RAIL_STATUS_DECLINED" if "t_status t \<in> {statusReversalPending, statusReversed}"
    using assms that unfolding statuses_match_def by blast
  have fin: "t_status t = statusSettled \<Longrightarrow> leg ''settle'' \<noteq> None" "t_status t = statusReversed \<Longrightarrow> leg ''reversal'' \<noteq> None"
    "t_status t = statusFailed \<Longrightarrow> leg ''debit'' = None \<and> leg ''settle'' = None"
    using assms unfolding statuses_match_def by blast+
  show excl: "\<not> (leg ''settle'' \<noteq> None \<and> leg ''reversal'' \<noteq> None)" using stl rev dec by force
  show "leg ''debit'' \<noteq> None" if "leg ''settle'' \<noteq> None \<or> leg ''reversal'' \<noteq> None"
  proof -
    have "t_status t \<notin> {statusPending, statusFailed}" using that stl rev by auto
    then show ?thesis using moved by fastforce
  qed
  show "leg ''debit'' \<noteq> None \<and> leg ''settle'' \<noteq> None \<and> leg ''reversal'' = None \<and> truth (t_reference t) = RAIL_STATUS_SUCCESS"
    if "t_status t = statusSettled"
    using fin(1) [OF that] stl excl moved that by (cases "leg ''reversal''") auto
  show "leg ''debit'' \<noteq> None \<and> leg ''reversal'' \<noteq> None \<and> leg ''settle'' = None \<and> truth (t_reference t) = RAIL_STATUS_DECLINED"
    if "t_status t = statusReversed"
    using fin(2) [OF that] dec excl moved that by (cases "leg ''settle''") auto
  show "leg ''debit'' = None \<and> leg ''settle'' = None \<and> leg ''reversal'' = None" if "t_status t = statusFailed"
    using fin(3) [OF that] rev that by (cases "leg ''reversal''") auto
qed

text \<open>C2. In every world the step relation reaches (entry points run whole; no client uses a leg's key; callbacks
  are truthful and no success meets a pending transfer), a settled transfer has exactly its debit leg (source to settlement
  account) and its settlement leg (settlement account to destination), for its amount, and the rail
  accepted it; a reversed one has exactly its debit and the compensating leg, and the rail declined it; a
  failed one has moved nothing; no transfer is ever both settled and reversed in the ledger, and neither
  happens without the debit.\<close>

theorem transfer_outcomes:
  assumes "fresh_db (w_db w0)" and "driver_env truth w0" and "sw_runs q cfg sha truth w0 w"
    and "t \<in> set (transactions (w_db w))" and "lifecycle t"
  shows "let posted = leg_posted (w_codec w0) (w_db w) t; ref = t_reference t in
     (t_status t = statusSettled \<longrightarrow> posted ''debit'' \<and> posted ''settle'' \<and> \<not> posted ''reversal'' \<and> truth ref = RAIL_STATUS_SUCCESS)
   \<and> (t_status t = statusReversed \<longrightarrow> posted ''debit'' \<and> posted ''reversal'' \<and> \<not> posted ''settle'' \<and> truth ref = RAIL_STATUS_DECLINED)
   \<and> (t_status t = statusFailed \<longrightarrow> \<not> posted ''debit'' \<and> \<not> posted ''settle'' \<and> \<not> posted ''reversal'')
   \<and> \<not> (posted ''settle'' \<and> posted ''reversal'')
   \<and> (posted ''settle'' \<or> posted ''reversal'' \<longrightarrow> posted ''debit'')"
proof -
  have inv: "sw_inv truth (w_codec w0) (w_db w)" by (rule runs_inv [OF assms(1-3)])
  have row: "transfer_row (w_db w) (t_id t) t" using assms(4,5) by (simp add: transfer_row_def)
  note out = statuses_outcome [OF statuses_of [OF inv row]]
  show ?thesis
    unfolding Let_def leg_posted_iff [OF inv row leg_names_mem(1)] leg_posted_iff [OF inv row leg_names_mem(2)]
      leg_posted_iff [OF inv row leg_names_mem(3)] not_not
    using out by blast
qed

lemma demo_reversed_row:
  "\<exists>t \<in> set (transactions (w_db (after_poll2 RAIL_STATUS_DECLINED))). lifecycle t \<and> t_status t = statusReversed"
proof -
  have "(True, ''reversed'') \<in> set (map (\<lambda>t. (lifecycle t, t_status t)) (transactions (w_db (after_poll2 RAIL_STATUS_DECLINED))))"
    unfolding demo_reversed by simp
  then show ?thesis by (auto simp: go_const)
qed

lemma demo_settled_row:
  "\<exists>t \<in> set (transactions (w_db (after_poll RAIL_STATUS_SUCCESS))). lifecycle t \<and> t_status t = statusSettled"
proof -
  have "(True, ''settled'') \<in> set (map (\<lambda>t. (lifecycle t, t_status t)) (transactions (w_db (after_poll RAIL_STATUS_SUCCESS))))"
    unfolding demo_settled by simp
  then show ?thesis by (auto simp: go_const)
qed

lemma transfer_outcomes_witness:
  "\<exists>t \<in> set (transactions (w_db (after_poll2 RAIL_STATUS_DECLINED))). t_status t = statusReversed
     \<and> leg_posted tally_codec (w_db (after_poll2 RAIL_STATUS_DECLINED)) t ''debit''
     \<and> leg_posted tally_codec (w_db (after_poll2 RAIL_STATUS_DECLINED)) t ''reversal''
     \<and> \<not> leg_posted tally_codec (w_db (after_poll2 RAIL_STATUS_DECLINED)) t ''settle''"
proof -
  obtain t where t: "t \<in> set (transactions (w_db (after_poll2 RAIL_STATUS_DECLINED)))" "lifecycle t" "t_status t = statusReversed"
    using demo_reversed_row by blast
  have c: "w_codec (sw_world s) = tally_codec" for s by (simp add: sw_world_def)
  have "driver_env (\<lambda>_. RAIL_STATUS_DECLINED) (sw_world RAIL_STATUS_DECLINED)" by (rule demo_env) simp
  from transfer_outcomes [OF demo_fresh this runs_poll(2) t(1,2)] t show ?thesis
    unfolding Let_def c by blast
qed

text \<open>C6. No transfer is lost: in every reachable world a transfer that has not ended has an event in the
  outbox, not yet published, whose handler is the one its status calls for.\<close>

theorem unfinished_transfers_are_driven:
  assumes "fresh_db (w_db w0)" and "driver_env truth w0" and "sw_runs q cfg sha truth w0 w"
    and "t \<in> set (transactions (w_db w))" and "lifecycle t"
    and "t_status t \<in> {statusPending, statusDebited, statusInDoubt, statusReversalPending}"
  shows "\<exists>r \<in> set (outbox (w_db w)). o_aggregate_id r = t_id t \<and> o_event_type r = eventForStatus (t_status t)
    \<and> o_published_at r = None"
proof -
  have "driven (w_db w) t" using sw_invD(6) [OF runs_inv [OF assms(1-3)] assms(4,5)] .
  then show ?thesis using assms(6) unfolding driven_def by force
qed

lemma demo_debited_row:
  "\<exists>t \<in> set (transactions (w_db (after_post RAIL_STATUS_SUCCESS))). lifecycle t \<and> t_status t = statusDebited"
proof -
  have "(True, ''debited'') \<in> set (map (\<lambda>t. (lifecycle t, t_status t)) (transactions (w_db (after_post RAIL_STATUS_SUCCESS))))"
    unfolding demo_statuses by simp
  then show ?thesis by (auto simp: go_const)
qed

lemma unfinished_transfers_are_driven_witness:
  "\<exists>r \<in> set (outbox (w_db (after_post RAIL_STATUS_SUCCESS))). o_event_type r = EventDebited \<and> o_published_at r = None"
proof -
  obtain t where t: "t \<in> set (transactions (w_db (after_post RAIL_STATUS_SUCCESS)))" "lifecycle t" "t_status t = statusDebited"
    using demo_debited_row by blast
  have "driver_env (\<lambda>_. RAIL_STATUS_SUCCESS) (sw_world RAIL_STATUS_SUCCESS)" by (rule demo_env) simp
  from unfinished_transfers_are_driven [OF demo_fresh this runs_post [of default_tsq demo_config] t(1,2)] t(3)
  show ?thesis by auto
qed

text \<open>C7. History is never rewritten: from any reachable world on, accounts stay, the journal only grows at
  its end, and every transfer keeps its id, key, reference, parties, amount and time of initiation, its
  status moving only along legal edges, so an ended transfer never changes again.\<close>

theorem history_is_kept:
  assumes "fresh_db (w_db w0)" and "driver_env truth w0" and "sw_runs q cfg sha truth w0 w1"
    and "sw_runs q cfg sha truth w1 w2" and "t \<in> set (transactions (w_db w1))"
  shows "accounts (w_db w2) = accounts (w_db w1) \<and> prefix (entries (w_db w1)) (entries (w_db w2))
    \<and> (\<exists>u \<in> set (transactions (w_db w2)). evolves (w_codec w0) t u \<and> (isTerminalStatus (t_status t) \<longrightarrow> t_status u = t_status t))"
proof -
  have s0: "sane truth w0" using assms(1,2) fresh_inv by (simp add: sane_def driver_env_def world_ok_def)
  have f1: "follows truth w0 w1" by (rule runs_follow [OF assms(3) s0])
  then have f2: "follows truth w1 w2" using runs_follow [OF assms(4)] by (simp add: follows_def)
  have c: "w_codec w1 = w_codec w0" using f1 by (simp add: follows_def)
  have ev: "db_evolves (w_codec w0) (w_db w1) (w_db w2)" using f2 c by (simp add: follows_def)
  then obtain u where u: "u \<in> set (transactions (w_db w2))" "evolves (w_codec w0) t u"
    using assms(5) by (auto simp: db_evolves_def)
  have "t_status u = t_status t" if "isTerminalStatus (t_status t)"
  proof -
    have "canTransitionStatus\<^sup>*\<^sup>* (t_status t) (t_status u)" using u(2) by (simp add: evolves_def)
    then show ?thesis by (cases rule: converse_rtranclpE) (use terminal_no_edge [OF that] in auto)
  qed
  then show ?thesis using ev u by (auto simp: db_evolves_def)
qed

lemma history_is_kept_witness:
  "prefix (entries (w_db (after_post RAIL_STATUS_SUCCESS)))
     (entries (w_db (snd (poller_tick (driver_Handle default_tsq) demo_config (after_post RAIL_STATUS_SUCCESS)))))"
proof -
  obtain t where t: "t \<in> set (transactions (w_db (after_post RAIL_STATUS_SUCCESS)))" using demo_debited_row by blast
  have "driver_env (\<lambda>_. RAIL_STATUS_SUCCESS) (sw_world RAIL_STATUS_SUCCESS)" by (rule demo_env) simp
  moreover have "sw_runs default_tsq demo_config demo_sha (\<lambda>_. RAIL_STATUS_SUCCESS) (after_post RAIL_STATUS_SUCCESS)
      (snd (poller_tick (driver_Handle default_tsq) demo_config (after_post RAIL_STATUS_SUCCESS)))"
    by (rule runs_tick) (simp add: sw_runs_def)
  ultimately show ?thesis using history_is_kept [OF demo_fresh _ runs_post _ t] by blast
qed

section \<open>Recovery\<close>

text \<open>C9. The recovery sweep strands nothing: with a database that answers, after \<open>Recover\<close> every unfinished
  transfer has a live event (neither published nor dead-lettered), one that had none gets one of the type
  its status calls for, and the reported count is the number of stuck transfers.\<close>

theorem recovery_revives_stuck_transfers:
  assumes "no_faults w"
  shows "\<exists>ts. fst (Recover w) = Inr (length ts)
    \<and> (\<forall>t. t \<in> set ts \<longleftrightarrow> t \<in> set (transactions (w_db w)) \<and> resumable t
          \<and> \<not> (\<exists>r \<in> set (outbox (w_db w)). o_aggregate_id r = t_id t \<and> live r))
    \<and> (\<forall>t \<in> set ts. revived t (w_db (snd (Recover w))))
    \<and> (\<forall>t \<in> set (transactions (w_db w)). resumable t \<longrightarrow>
          (\<exists>r \<in> set (outbox (w_db (snd (Recover w)))). o_aggregate_id r = t_id t \<and> live r))"
proof -
  have nf: "e_fault (w_env w n) = NoFault" for n using assms by (simp add: no_faults_def)
  obtain ts where ts: "ListStuckTransfers (w_env w (w_tick w)) (w_db w) = Inr (ts, w_db w)"
    by (simp add: ListStuckTransfers_def)
  let ?w1 = "w\<lparr>w_tick := Suc (w_tick w)\<rparr>"
  have q: "run_stmt ListStuckTransfers w = (Inr ts, ?w1)" by (simp add: run_stmt_calm nf ts)
  obtain m w2 where rr: "recover_rows ts 0 ?w1 = (m, w2)" by force
  have run: "Recover w = (Inr m, w2)" using q rr by (simp add: Recover_def)
  note mem = ListStuckTransfers_Inr [OF ts, THEN conjunct2, rule_format]
  have ev: "eventForStatus (t_status t) \<noteq> []" if "t \<in> set ts" for t
    using that mem by (auto simp: resumable_def eventForStatus_def go_const)
  have "no_faults ?w1" using assms by (simp add: no_faults_def)
  note rv = recover_rows_revives [OF rr this]
  have all: "filter (\<lambda>t. eventForStatus (t_status t) \<noteq> []) ts = ts" using ev by (simp add: filter_id_conv)
  have sub: "set (outbox (w_db w)) \<subseteq> set (outbox (w_db w2))" using rv by simp
  have live: "\<exists>r \<in> set (outbox (w_db w2)). o_aggregate_id r = t_id t \<and> live r"
    if t: "t \<in> set (transactions (w_db w))" "resumable t" for t
  proof (cases "t \<in> set ts")
    case True
    then show ?thesis using rv ev by (auto simp: revived_def)
  next
    case False
    then show ?thesis using mem t sub by blast
  qed
  show ?thesis
    unfolding run fst_conv snd_conv
    by (rule exI [of _ ts]) (use rv all ev mem live in auto)
qed

definition stranded :: world where
  "stranded = (after_post RAIL_STATUS_SUCCESS)\<lparr>w_db := (w_db (after_post RAIL_STATUS_SUCCESS))\<lparr>outbox := []\<rparr>\<rparr>"

lemma recovery_revives_stuck_transfers_witness:
  "\<exists>r \<in> set (outbox (w_db (snd (Recover stranded)))). live r"
proof -
  have env: "w_env (after_post RAIL_STATUS_SUCCESS) = w_env (sw_world RAIL_STATUS_SUCCESS)"
    using runs_follow [OF runs_post [of default_tsq demo_config "\<lambda>_. RAIL_STATUS_SUCCESS"] sw_world_sane]
      act_frameD idempotent_Create_keeps sw_world_sane demo_customer_key
    unfolding after_post_eq sane_def by (metis (no_types, lifting) keeps_def prod.collapse rail_status.distinct(1))
  then have "no_faults stranded" by (simp add: no_faults_def stranded_def sw_world_def world_of_def small_env_def)
  note rec = recovery_revives_stuck_transfers [OF this]
  obtain t where t: "t \<in> set (transactions (w_db (after_post RAIL_STATUS_SUCCESS)))" "lifecycle t" "t_status t = statusDebited"
    using demo_debited_row by blast
  have "t_type t = ''transfer''"
    using sw_invD(5) [OF runs_inv [OF demo_fresh demo_env runs_post [of default_tsq demo_config]] t(1,2)]
    by (simp add: transfer_ok_def)
  then have "t \<in> set (transactions (w_db stranded))" "resumable t"
    using t by (simp_all add: stranded_def resumable_def go_const)
  then show ?thesis using rec by blast
qed

section \<open>The suspense account clears\<close>

text \<open>The net effect of a transfer's legs on an account: credits minus debits.\<close>

definition transfer_entries :: "uuid_codec \<Rightarrow> db \<Rightarrow> tx_row \<Rightarrow> entry list" where
  "transfer_entries c d t =
     concat (map (\<lambda>l. case leg_fact c d (t_id t) l of None \<Rightarrow> [] | Some (_, es) \<Rightarrow> es) leg_names)"

definition net_effect :: "uuid_codec \<Rightarrow> db \<Rightarrow> tx_row \<Rightarrow> account \<Rightarrow> int" where
  "net_effect c d t a =
     (let es = account_entries (a_id a) (transfer_entries c d t) in dir_sum Credit es - dir_sum Debit es)"

lemma leg_posts_net:
  assumes "leg_posts d es dr cr amt" and "find_account dr d = Some x" and "find_account cr d = Some y"
  shows "dir_sum Credit (account_entries i es) - dir_sum Debit (account_entries i es) =
    (if a_id y = i then sint amt else 0) - (if a_id x = i then sint amt else 0)"
  using assms by (auto simp: leg_posts_def account_entries_def entry_amount_def)

lemma account_ids:
  assumes "accounts_wf d" "find_account x d = Some a" "find_account y d = Some b"
  shows "a_id a = a_id b \<longleftrightarrow> x = y"
proof
  assume "a_id a = a_id b"
  moreover have "a \<in> set (accounts d)" "b \<in> set (accounts d)" "a_code a = x" "a_code b = y"
    using find_account_mem [OF assms(2)] find_account_mem [OF assms(3)] by simp_all
  moreover have "inj_on a_id (set (accounts d))" using assms(1) by (simp add: accounts_wf_def distinct_map)
  ultimately show "x = y" by (metis inj_onD)
qed (use assms in auto)



section \<open>The settlement account\<close>

text \<open>Every journal entry belongs to one leg of one transfer, so what an account holds is the sum of the net
  effects of the transfers.\<close>

lemma leg_fact_unique:
  assumes inv: "sw_inv truth c d" and l: "l \<in> set leg_names" "m \<in> set leg_names"
    and f: "leg_fact c d i l = Some (v, es)" "leg_fact c d j m = Some (v, es')"
  shows "i = j \<and> l = m"
proof -
  obtain x where x: "find_tx_by_key (legKey c i l) d = Some x" "t_id x = v" using f(1) by (auto simp: leg_fact_def)
  obtain y where y: "find_tx_by_key (legKey c j m) d = Some y" "t_id y = v" using f(2) by (auto simp: leg_fact_def)
  have "x = y"
    using row_by_id [OF sw_invD(2) [OF inv]] find_tx_by_key_mem [OF x(1)] find_tx_by_key_mem [OF y(1)] x(2) y(2) by auto
  then have "legKey c i l = legKey c j m"
    using find_tx_by_key_mem [OF x(1)] find_tx_by_key_mem [OF y(1)] by simp
  then show ?thesis using legKey_inj [OF sw_invD(1) [OF inv] l] by blast
qed

lemma entry_leg:
  assumes inv: "sw_inv truth c d" and e: "e \<in> set (entries d)"
  shows "\<exists>p. fst p \<in> t_id ` set (filter lifecycle (transactions d)) \<and> snd p \<in> set leg_names
    \<and> leg_fact c d (fst p) (snd p) = Some (e_transaction_id e, tx_entries (e_transaction_id e) (entries d))"
proof -
  obtain u i l where u: "u \<in> set (transactions d)" "t_id u = e_transaction_id e" "l \<in> set leg_names"
    "t_idempotency_key u = Some (legKey c i l)"
    using sw_invD(9) [OF inv] e unfolding entries_owned_def by blast
  obtain v where v: "find_tx_by_key (legKey c i l) d = Some v"
    using u(1,4) by (cases "find_tx_by_key (legKey c i l) d") (auto simp: find_tx_by_key_def find_None_all)
  have "v = u"
  proof (rule ccontr)
    assume "v \<noteq> u"
    moreover have "tx_clash v u" "tx_clash u v" using find_tx_by_key_mem [OF v] u(4) by (simp_all add: tx_clash_def)
    ultimately show False
      using ledger_invD(2) [OF sw_invD(2) [OF inv]] u(1) find_tx_by_key_mem [OF v]
      unfolding tx_unique_def sorted_wrt_iff_nth_less in_set_conv_nth by (metis linorder_neqE_nat)
  qed
  then have "leg_fact c d i l = Some (e_transaction_id e, tx_entries (e_transaction_id e) (entries d))"
    using v u(2) by (simp add: leg_fact_def)
  moreover obtain t where "t \<in> set (transactions d)" "lifecycle t" "t_id t = i"
    using sw_invD(3) [OF inv] u(1,3,4) unfolding legs_owned_def by metis
  ultimately show ?thesis using u(3) by (intro exI [of _ "(i, l)"]) auto
qed

definition leg_entries_of :: "uuid_codec \<Rightarrow> db \<Rightarrow> uuid \<Rightarrow> string \<Rightarrow> entry list" where
  "leg_entries_of c d i l = (case leg_fact c d i l of None \<Rightarrow> [] | Some (_, es) \<Rightarrow> es)"

lemma dir_sum_concat: "dir_sum x (concat ess) = sum_list (map (dir_sum x) ess)"
  by (induction ess) auto

lemma account_entries_concat: "account_entries a (concat ess) = concat (map (account_entries a) ess)"
  by (induction ess) (auto simp: account_entries_def)

lemma account_by_legs:
  assumes inv: "sw_inv truth c d"
  shows "dir_sum x (account_entries a (entries d))
    = (\<Sum>t \<leftarrow> filter lifecycle (transactions d). dir_sum x (account_entries a (transfer_entries c d t)))"
proof -
  let ?ts = "filter lifecycle (transactions d)"
  let ?P = "t_id ` set ?ts \<times> set leg_names"
  obtain f where f: "\<And>e. e \<in> set (entries d) \<Longrightarrow> fst (f e) \<in> t_id ` set ?ts \<and> snd (f e) \<in> set leg_names
      \<and> leg_fact c d (fst (f e)) (snd (f e)) = Some (e_transaction_id e, tx_entries (e_transaction_id e) (entries d))"
    using entry_leg [OF inv] by metis
  have part: "filter (\<lambda>e. f e = p) (entries d) = leg_entries_of c d (fst p) (snd p)" if p: "p \<in> ?P" for p
  proof (cases "leg_fact c d (fst p) (snd p)")
    case None
    have "f e \<noteq> p" if "e \<in> set (entries d)" for e using f [OF that] None by auto
    then show ?thesis using None by (auto simp: leg_entries_of_def filter_empty_conv)
  next
    case (Some q)
    then obtain v where v: "leg_fact c d (fst p) (snd p) = Some (v, tx_entries v (entries d))"
      by (auto simp: leg_fact_def)
    have "f e = p \<longleftrightarrow> e_transaction_id e = v" if e: "e \<in> set (entries d)" for e
    proof
      assume "e_transaction_id e = v"
      then show "f e = p"
        using leg_fact_unique [OF inv _ _ _ v] f [OF e] p by (metis mem_Times_iff prod_eqI)
    qed (use f [OF e] v in auto)
    then have "filter (\<lambda>e. f e = p) (entries d) = tx_entries v (entries d)"
      unfolding tx_entries_def by (intro filter_cong) auto
    then show ?thesis using v by (simp add: leg_entries_of_def)
  qed
  have dist: "distinct (map t_id ?ts)"
    using tx_unique_distinct [OF ledger_invD(2) [OF sw_invD(2) [OF inv]]] by (rule distinct_map_filter)
  have "dir_sum x (account_entries a (entries d))
      = (\<Sum>p \<in> ?P. dir_sum x (filter (\<lambda>e. f e = p) (account_entries a (entries d))))"
  proof (rule dir_sum_by)
    show "f ` set (account_entries a (entries d)) \<subseteq> ?P"
    proof (rule image_subsetI)
      fix e
      assume "e \<in> set (account_entries a (entries d))"
      then have "e \<in> set (entries d)" by (simp add: account_entries_def)
      from f [OF this] show "f e \<in> ?P" by (simp only: mem_Times_iff)
    qed
  qed simp
  also have "\<dots> = (\<Sum>p \<in> ?P. dir_sum x (account_entries a (leg_entries_of c d (fst p) (snd p))))"
  proof (rule sum.cong)
    fix p
    assume p: "p \<in> ?P"
    have "filter (\<lambda>e. f e = p) (account_entries a (entries d)) = account_entries a (filter (\<lambda>e. f e = p) (entries d))"
      by (simp add: account_entries_def conj_commute)
    then show "dir_sum x (filter (\<lambda>e. f e = p) (account_entries a (entries d)))
        = dir_sum x (account_entries a (leg_entries_of c d (fst p) (snd p)))" using part [OF p] by simp
  qed simp
  also have "\<dots> = (\<Sum>i \<in> t_id ` set ?ts. \<Sum>l \<in> set leg_names. dir_sum x (account_entries a (leg_entries_of c d i l)))"
    by (simp add: sum.cartesian_product split_def)
  also have "\<dots> = (\<Sum>i \<in> t_id ` set ?ts. \<Sum>l \<leftarrow> leg_names. dir_sum x (account_entries a (leg_entries_of c d i l)))"
    by (intro sum.cong refl sum_list_distinct_conv_sum_set [symmetric]) (simp add: leg_names_def)
  also have "\<dots> = (\<Sum>i \<leftarrow> map t_id ?ts. \<Sum>l \<leftarrow> leg_names. dir_sum x (account_entries a (leg_entries_of c d i l)))"
    by (subst sum_list_distinct_conv_sum_set [OF dist]) (simp only: set_map)
  also have "\<dots> = (\<Sum>t \<leftarrow> ?ts. dir_sum x (account_entries a (transfer_entries c d t)))"
    by (simp add: transfer_entries_def leg_entries_of_def account_entries_concat dir_sum_concat comp_def)
  finally show ?thesis .
qed

lemma account_net:
  assumes inv: "sw_inv truth c d"
  shows "dir_sum Credit (account_entries (a_id a) (entries d)) - dir_sum Debit (account_entries (a_id a) (entries d))
    = (\<Sum>t \<leftarrow> filter lifecycle (transactions d). net_effect c d t a)"
  unfolding account_by_legs [OF inv] net_effect_def Let_def by (simp add: sum_list_subtractf)

lemma settlement_net:
  assumes inv: "sw_inv truth c d" and t: "t \<in> set (transactions d)" "lifecycle t"
    and susp: "find_account settlementAccount d = Some susp"
    and other: "td_source (detailFromRow c t) \<noteq> settlementAccount" "td_destination (detailFromRow c t) \<noteq> settlementAccount"
  shows "net_effect c d t susp =
    (if leg_posted c d t ''debit'' \<and> \<not> leg_posted c d t ''settle'' \<and> \<not> leg_posted c d t ''reversal''
     then sint (Minor (td_amount (detailFromRow c t))) else 0)"
proof -
  let ?det = "detailFromRow c t" and ?amt = "sint (td_amount (detailFromRow c t))" and ?s = "a_id susp"
  have row: "transfer_row d (t_id t) t" using t by (simp add: transfer_row_def)
  have wf: "accounts_wf d" using ledger_invD(1) [OF sw_invD(2) [OF inv]] .
  define n where "n l = (let es = account_entries ?s (leg_entries_of c d (t_id t) l)
      in dir_sum Credit es - dir_sum Debit es)" for l
  have net: "net_effect c d t susp = n ''debit'' + n ''settle'' + n ''reversal''"
    by (simp add: net_effect_def transfer_entries_def leg_names_def n_def leg_entries_of_def Let_def)
  have leg: "n l = (if leg_posted c d t l then (if snd (leg_sides ?det l) = settlementAccount then ?amt else 0)
      - (if fst (leg_sides ?det l) = settlementAccount then ?amt else 0) else 0)" if l: "l \<in> set leg_names" for l
  proof (cases "leg_fact c d (t_id t) l")
    case None
    then show ?thesis using leg_posted_iff [OF inv row l] by (simp add: n_def leg_entries_of_def account_entries_def)
  next
    case (Some p)
    then obtain v es where f: "leg_fact c d (t_id t) l = Some (v, es)" by (metis prod.collapse)
    have lp: "leg_posts d es (fst (leg_sides ?det l)) (snd (leg_sides ?det l)) (td_amount ?det)"
      using sw_invD(5) [OF inv t] l f by (auto simp: transfer_ok_def legs_match_def)
    then obtain x y where xy: "find_account (fst (leg_sides ?det l)) d = Some x" "find_account (snd (leg_sides ?det l)) d = Some y"
      by (auto simp: leg_posts_def)
    have "leg_posted c d t l" using leg_posted_iff [OF inv row l] f by simp
    then show ?thesis
      using leg_posts_net [OF lp xy, of ?s] account_ids [OF wf xy(1) susp] account_ids [OF wf xy(2) susp] f
      by (simp add: n_def leg_entries_of_def Let_def)
  qed
  note out = statuses_outcome(4,5) [OF statuses_of [OF inv row]]
  have legs: "\<not> (leg_posted c d t ''settle'' \<and> leg_posted c d t ''reversal'')"
    "leg_posted c d t ''settle'' \<or> leg_posted c d t ''reversal'' \<Longrightarrow> leg_posted c d t ''debit''"
    unfolding leg_posted_iff [OF inv row leg_names_mem(1)] leg_posted_iff [OF inv row leg_names_mem(2)]
      leg_posted_iff [OF inv row leg_names_mem(3)] using out by blast+
  show ?thesis
    using legs other by (auto simp: net leg leg_sides_def)
qed

text \<open>C5. The settlement account holds exactly the money in flight: in every reachable world its credits
  exceed its debits by the sum of the amounts of the transfers that are debited in the ledger and neither
  paid out nor refunded there (no transfer naming the settlement account itself as a party). Those are
  transfers still under way, or under manual review; so when every transfer has ended settled, reversed or
  failed the account stands at zero, and what a manual review leaves is there and nothing else.\<close>

theorem settlement_holds_money_in_flight:
  assumes "fresh_db (w_db w0)" and "driver_env truth w0" and "sw_runs q cfg sha truth w0 w"
    and "find_account settlementAccount (w_db w) = Some susp"
    and "\<forall>t \<in> set (transactions (w_db w)). lifecycle t \<longrightarrow>
       settlementAccount \<notin> {td_source (detailFromRow (w_codec w0) t), td_destination (detailFromRow (w_codec w0) t)}"
  shows "let c = w_codec w0; d = w_db w; es = account_entries (a_id susp) (entries d); ts = filter lifecycle (transactions d);
       held = (\<lambda>t. leg_posted c d t ''debit'' \<and> \<not> leg_posted c d t ''settle'' \<and> \<not> leg_posted c d t ''reversal'');
       amount = (\<lambda>t. sint (Minor (td_amount (detailFromRow c t))))
     in dir_sum Credit es - dir_sum Debit es = sum_list (map amount (filter held ts))
      \<and> (\<forall>t \<in> set ts. held t \<longrightarrow> t_status t \<in> {statusPending, statusDebited, statusInDoubt, statusReversalPending, statusManualReview})
      \<and> (\<forall>t \<in> set ts. t_status t \<in> {statusDebited, statusInDoubt, statusReversalPending, statusManualReview} \<longrightarrow>
           held t \<or> leg_posted c d t ''settle'' \<or> leg_posted c d t ''reversal'')
      \<and> ((\<forall>t \<in> set ts. t_status t \<in> {statusSettled, statusReversed, statusFailed}) \<longrightarrow> dir_sum Credit es = dir_sum Debit es)"
proof -
  let ?c = "w_codec w0" and ?d = "w_db w" and ?ts = "filter lifecycle (transactions (w_db w))"
  let ?es = "account_entries (a_id susp) (entries ?d)"
  let ?held = "\<lambda>t. leg_posted ?c ?d t ''debit'' \<and> \<not> leg_posted ?c ?d t ''settle'' \<and> \<not> leg_posted ?c ?d t ''reversal''"
  let ?amount = "\<lambda>t. sint (Minor (td_amount (detailFromRow ?c t)))"
  have inv: "sw_inv truth ?c ?d" by (rule runs_inv [OF assms(1-3)])
  have part: "sum_list (map (\<lambda>t. if ?held t then ?amount t else 0) ts) = sum_list (map ?amount (filter ?held ts))" for ts
    by (induction ts) auto
  have "map (\<lambda>t. net_effect ?c ?d t susp) ?ts = map (\<lambda>t. if ?held t then ?amount t else 0) ?ts"
    by (rule map_cong [OF refl], rule settlement_net [OF inv _ _ assms(4)]) (use assms(5) in auto)
  then have sum: "dir_sum Credit ?es - dir_sum Debit ?es = sum_list (map ?amount (filter ?held ?ts))"
    unfolding account_net [OF inv] part [symmetric] by (rule arg_cong)
  have status: "(?held t \<longrightarrow> t_status t \<in> {statusPending, statusDebited, statusInDoubt, statusReversalPending, statusManualReview})
      \<and> (t_status t \<in> {statusDebited, statusInDoubt, statusReversalPending, statusManualReview} \<longrightarrow> leg_posted ?c ?d t ''debit'')"
    if "t \<in> set ?ts" for t
  proof -
    have row: "transfer_row ?d (t_id t) t" using that by (simp add: transfer_row_def)
    note sm = statuses_of [OF inv row]
    note posted = leg_posted_iff [OF inv row leg_names_mem(1)] leg_posted_iff [OF inv row leg_names_mem(2)]
      leg_posted_iff [OF inv row leg_names_mem(3)]
    have "t_status t \<in> set switch_statuses" using sm by (simp add: statuses_match_def)
    moreover have "t_status t \<notin> {statusSettled, statusReversed, statusFailed}" if "?held t"
      using that statuses_outcome(1,2,3) [OF sm] unfolding posted by auto
    moreover have "leg_posted ?c ?d t ''debit''" if "t_status t \<notin> {statusPending, statusFailed}"
      using sm that unfolding posted statuses_match_def by force
    ultimately show ?thesis by (auto simp: switch_statuses_def)
  qed
  have "filter ?held ?ts = []" if "\<forall>t \<in> set ?ts. t_status t \<in> {statusSettled, statusReversed, statusFailed}"
    using status that by (fastforce simp: filter_empty_conv)
  then have "(\<forall>t \<in> set ?ts. t_status t \<in> {statusSettled, statusReversed, statusFailed}) \<longrightarrow> dir_sum Credit ?es = dir_sum Debit ?es"
    using sum by auto
  then show ?thesis using sum status unfolding Let_def by blast
qed

lemma settlement_holds_money_in_flight_witness:
  "let es = account_entries 1 (entries (w_db (after_poll RAIL_STATUS_SUCCESS))) in dir_sum Credit es = dir_sum Debit es"
proof -
  let ?w = "after_poll RAIL_STATUS_SUCCESS" and ?c = "w_codec (sw_world RAIL_STATUS_SUCCESS)"
  have c: "?c = tally_codec" by (simp add: sw_world_def)
  have env: "driver_env (\<lambda>_. RAIL_STATUS_SUCCESS) (sw_world RAIL_STATUS_SUCCESS)" by (rule demo_env) simp
  have "accounts (w_db ?w) = accounts demo_db"
    using runs_follow [OF runs_poll(1) sw_world_sane] by (simp add: follows_def db_evolves_def sw_world_def world_of_def)
  then have susp: "find_account settlementAccount (w_db ?w) = Some (demo_account 1 ''SETTLEMENT'' ''liability'')"
    by (simp add: find_account_def demo_db_def demo_account_def settlementAccount_def)
  have rows: "row_facts t = (True, ''settled'', ''CUST:A'', ''CUST:B'', 7)" if "t \<in> set (transactions (w_db ?w))" "lifecycle t" for t
  proof -
    have "row_facts t \<in> set (map row_facts (transactions (w_db ?w)))" using that(1) by simp
    then show ?thesis using that(2) unfolding demo_settled_facts by (auto simp: row_facts_def Let_def)
  qed
  have parties: "\<forall>t \<in> set (transactions (w_db ?w)). lifecycle t \<longrightarrow>
       settlementAccount \<notin> {td_source (detailFromRow ?c t), td_destination (detailFromRow ?c t)}"
    using rows c by (auto simp: row_facts_def Let_def settlementAccount_def)
  have "\<forall>t \<in> set (filter lifecycle (transactions (w_db ?w))). t_status t \<in> {statusSettled, statusReversed, statusFailed}"
    using rows by (auto simp: row_facts_def Let_def go_const)
  then show ?thesis
    using settlement_holds_money_in_flight [OF demo_fresh env runs_poll(1) susp parties] unfolding Let_def
    by (simp add: demo_account_def)
qed

end
