(* ===== verification/RestClaims.thy ===== *)
theory RestClaims
  imports SwitchDemo
begin

text \<open>
  The properties of the REST surface: what it answers to which request, and what an accepted or a
  refused request did to the database.
\<close>

section \<open>Errors that carry no gRPC status\<close>

definition plain :: "err \<Rightarrow> bool" where
  "plain e \<longleftrightarrow> errors_as_grpc e = None"

lemma plain_simps [simp]:
  "plain (Sentinel s)" "plain (Infra i)" "plain (ErrMsg m)" "plain (pg_error c)"
  "plain (Wrap p e q) \<longleftrightarrow> plain e"
  by (simp_all add: plain_def)

definition tx_plain :: "'a tx \<Rightarrow> bool" where
  "tx_plain f \<longleftrightarrow> (\<forall>ev d e. f ev d = Inl e \<longrightarrow> plain e)"

definition act_plain :: "'a act \<Rightarrow> bool" where
  "act_plain m \<longleftrightarrow> (\<forall>w e w'. m w = (Inl e, w') \<longrightarrow> plain e)"

lemma act_plainD: "act_plain m \<Longrightarrow> m w = (Inl e, w') \<Longrightarrow> plain e"
  unfolding act_plain_def by blast

lemma run_tx_plain:
  "tx_plain f \<Longrightarrow> (\<And>d d' e. trg d d' = Some e \<Longrightarrow> plain e) \<Longrightarrow> act_plain (run_tx pre trg f)"
  by (fastforce simp: act_plain_def tx_plain_def run_tx_def take_env_def
      split: tx_fault.splits sum.splits prod.splits option.splits)

lemma run_stmt_plain: "tx_plain f \<Longrightarrow> act_plain (run_stmt f)"
  unfolding run_stmt_def by (rule run_tx_plain) (simp_all add: no_triggers_def)

lemma WithTx_plain: "tx_plain f \<Longrightarrow> act_plain (WithTx f)"
  unfolding WithTx_def by (rule run_tx_plain) (auto simp: commit_triggers_def split: if_splits)

lemma query_plain [simp]:
  "tx_plain (GetTransferByID i)" "tx_plain (ReserveIdempotencyKey k fp l)" "tx_plain (GetIdempotencyKey k)"
  "tx_plain (CompleteIdempotencyKey k st rsp io)" "tx_plain (InsertTransfer p)" "tx_plain (outbox_Append i ty pl)"
  by (auto simp: tx_plain_def GetTransferByID_def ReserveIdempotencyKey_def GetIdempotencyKey_def CompleteIdempotencyKey_def
      InsertTransfer_def insert_tx_row_def outbox_Append_def InsertOutboxEvent_def Let_def
      split: option.splits if_splits sum.splits)

lemma create_body_plain: "tx_plain (create_body key req)"
proof -
  have "plain e" if "create_body key req ev d = Inl e" for ev d e
    using that query_plain(5,6) unfolding tx_plain_def create_body_def by (auto split: sum.splits)
  then show ?thesis by (simp add: tx_plain_def)
qed

lemma store_load_plain: "act_plain (store_load i)"
proof -
  have "plain e" if "store_load i w = (Inl e, w')" for w e w'
  proof -
    obtain x w1 where "run_stmt (GetTransferByID i) w = (x, w1)" by force
    then show ?thesis using that act_plainD [OF run_stmt_plain [OF query_plain(1)]]
      by (auto simp: store_load_def split: sum.splits if_splits)
  qed
  then show ?thesis by (simp add: act_plain_def)
qed

lemma store_Get_plain: "act_plain (store_Get i)"
proof -
  have "plain e" if "store_Get i w = (Inl e, w')" for w e w'
    using that act_plainD [OF store_load_plain] by (auto simp: store_Get_def split: sum.splits prod.splits)
  then show ?thesis by (simp add: act_plain_def)
qed

lemma orchestrator_plain: "act_plain (orchestrator_Get i)" "act_plain (orchestrator_Create key req)"
proof -
  have "plain e" if "orchestrator_Get i w = (Inl e, w')" for w e w'
    using that act_plainD [OF store_Get_plain] by (auto simp: orchestrator_Get_def split: option.splits)
  then show "act_plain (orchestrator_Get i)" by (simp add: act_plain_def)
  have "plain e" if "orchestrator_Create key req w = (Inl e, w')" for w e w'
    using that act_plainD [OF store_Get_plain] act_plainD [OF WithTx_plain [OF create_body_plain]]
    by (auto simp: orchestrator_Create_def CreatePending_def request_Validate_def
        split: option.splits sum.splits prod.splits if_splits)
  then show "act_plain (orchestrator_Create key req)" by (simp add: act_plain_def)
qed

lemma idem_plain: "act_plain (idem_Reserve lease key fp)" "act_plain (idem_Complete key st io rsp)"
proof -
  have ip: "inProgressResult key r w \<noteq> (Inl e, w')" for r w e w'
    by (auto simp: inProgressResult_def take_env_def split: if_splits option.splits sum.splits prod.splits)
  have "plain e" if "idem_Reserve lease key fp w = (Inl e, w')" for w e w'
    using that act_plainD [OF run_stmt_plain [OF query_plain(2)]] act_plainD [OF run_stmt_plain [OF query_plain(3)]] ip
    by (auto simp: idem_Reserve_def split: sum.splits prod.splits if_splits)
  then show "act_plain (idem_Reserve lease key fp)" by (simp add: act_plain_def)
  have "plain e" if "idem_Complete key st io rsp w = (Inl e, w')" for w e w'
    using that act_plainD [OF run_stmt_plain [OF query_plain(4)]]
    by (auto simp: idem_Complete_def split: sum.splits prod.splits)
  then show "act_plain (idem_Complete key st io rsp)" by (simp add: act_plain_def)
qed

lemma idempotent_Create_plain: "act_plain (idempotent_Create sha lease key req)"
proof -
  have vj: "plain e" if "view_from_json r = Inl e" for r e
    using that by (auto simp: view_from_json_def split: option.splits sum.splits)
  have rc: "plain e" if "reserved_Create key req w = (Inl e, w')" for w e w'
    using that act_plainD [OF orchestrator_plain(2)] act_plainD [OF idem_plain(2)]
    by (auto simp: reserved_Create_def split: sum.splits prod.splits)
  have "plain e" if "idempotent_Create sha lease key req w = (Inl e, w')" for w e w'
    using that act_plainD [OF orchestrator_plain(1)] act_plainD [OF idem_plain(1)] vj rc
    by (auto simp: idempotent_Create_def request_Validate_def
        split: option.splits sum.splits prod.splits if_splits reserve_outcome.splits)
  then show ?thesis by (simp add: act_plain_def)
qed

section \<open>Statuses\<close>

text \<open>C16. The REST surface never answers 503: the ledger's backpressure, which the documents say reaches the
  client as 503 with Retry-After, is swallowed by the inline debit, so whatever the ledger answers and
  whatever else fails, a post is answered 202, 400, 404, 409 or 500, and a 500 hides the error text.\<close>

theorem post_never_answers_503:
  "hr_retry_after (fst (rest_create sha lease cid key body w)) = None
   \<and> (hr_status (fst (rest_create sha lease cid key body w)) \<in> {202, 400, 404, 409}
      \<or> hr_status (fst (rest_create sha lease cid key body w)) = 500
         \<and> map_of (hr_body (fst (rest_create sha lease cid key body w))) ''message'' = Some (JStr ''internal error''))"
proof -
  have err: "hr_retry_after (writeError cid e) = None \<and> (hr_status (writeError cid e) \<in> {400, 404, 409}
      \<or> hr_status (writeError cid e) = 500 \<and> map_of (hr_body (writeError cid e)) ''message'' = Some (JStr ''internal error''))"
    if "plain e" for e
    using that by (auto simp: writeError_def writeJSON_def classify_def Let_def isUnavailable_def plain_def)
  show ?thesis
    using err act_plainD [OF idempotent_Create_plain]
    by (auto simp: rest_create_def writeJSON_def split: option.splits sum.splits prod.splits)
qed

text \<open>A malformed post is refused with 400 before anything is read or written: no key, a body that does
  not decode (a fractional or textual amount included), a missing field, another currency, an amount
  that is not positive. The Idempotency-Key stays unused.\<close>

theorem bad_post_touches_nothing:
  assumes "key = [] \<or> (case decode_body body of None \<Rightarrow> True | Some req \<Rightarrow> request_Validate req \<noteq> None)"
  shows "hr_status (fst (rest_create sha lease cid key body w)) = 400 \<and> snd (rest_create sha lease cid key body w) = w"
  using assms
  by (auto simp: rest_create_def idempotent_Create_def request_Validate_def writeError_def writeJSON_def classify_def Let_def
      split: option.splits if_splits)

lemma bad_post_touches_nothing_witness:
  "hr_status (fst (rest_create demo_sha 30 ''c'' ''K''
     (BodyObject [(''source'', TokString ''A''), (''amount_minor'', TokNumber ''1.5'')]) (sw_world RAIL_STATUS_SUCCESS))) = 400"
proof -
  have "decode_body (BodyObject [(''source'', TokString ''A''), (''amount_minor'', TokNumber ''1.5'')]) = None"
    by (simp add: decode_member_def match_field_def body_fields_def decode_amount_def amount_UnmarshalJSON_def ParseInt_def
        is_digit_def digit_val_def)
  then show ?thesis using bad_post_touches_nothing by simp
qed

section \<open>An accepted post is durable\<close>

lemma evolves_transfer_row:
  "db_evolves c d d' \<Longrightarrow> transfer_row d i t \<Longrightarrow> \<exists>u. transfer_row d' i u \<and> evolves c t u"
  by (fastforce simp: db_evolves_def transfer_row_def evolves_def)

definition holds_request :: "uuid_codec \<Rightarrow> string \<Rightarrow> create_request \<Rightarrow> tx_row \<Rightarrow> bool" where
  "holds_request c key req t \<longleftrightarrow> t_idempotency_key t = Some key \<and> t_reference t = cr_reference req
     \<and> leg_sides (detailFromRow c t) ''debit'' = (cr_source req, settlementAccount)
     \<and> leg_sides (detailFromRow c t) ''settle'' = (settlementAccount, cr_destination req)
     \<and> td_amount (detailFromRow c t) = cr_amount req"

lemma holds_request_evolves: "holds_request c key req t \<Longrightarrow> evolves c t u \<Longrightarrow> holds_request c key req u"
  by (simp add: holds_request_def evolves_def)

lemma holds_request_new:
  "t_metadata t = transferMeta req \<Longrightarrow> t_idempotency_key t = Some key \<Longrightarrow> t_reference t = cr_reference req \<Longrightarrow>
   holds_request c key req t"
  by (simp add: holds_request_def leg_sides_def detailFromRow_def transferMeta_def meta_string_def meta_int64_def)

lemma Create_durable:
  assumes inv: "sw_inv truth (w_codec w) (w_db w)" and env: "driver_env truth w" and k: "customer_key (w_codec w) key"
    and run: "orchestrator_Create key req w = (Inr v, w')"
  shows "\<exists>t. transfer_row (w_db w') (t_id t) t \<and> holds_request (w_codec w) key req t
     \<and> v = view_of (w_codec w) (detailFromRow (w_codec w) t)"
proof -
  from run have valid: "request_Validate req = None" by (auto simp: orchestrator_Create_def split: option.splits)
  obtain x w1 where c: "CreatePending key req w = (x, w1)" by force
  with run valid obtain i where x: "x = Inr i" by (auto simp: orchestrator_Create_def split: sum.splits)
  from CreatePending_spec [OF inv k c] x obtain t0 where k1: "keeps truth w w1"
    and t0: "transfer_row (w_db w1) i t0" "holds_request (w_codec w) key req t0"
    using holds_request_new by blast
  obtain y w2 where h: "handleDebitRequested i w1 = (y, w2)" by force
  have inv1: "sw_inv truth (w_codec w1) (w_db w1)" by (rule keeps_inv [OF k1 inv])
  have k2: "keeps truth w1 w2"
    using handler_okD [OF handleDebitRequested_ok inv1 driver_env_keeps [OF env k1] t0(1) h] by blast
  have c1: "w_codec w1 = w_codec w" "w_codec w2 = w_codec w" using k1 k2 by (simp_all add: keeps_def)
  have "db_evolves (w_codec w) (w_db w1) (w_db w2)" using k2 inv1 c1 by (simp add: keeps_def)
  from evolves_transfer_row [OF this t0(1)] obtain t where t: "transfer_row (w_db w2) i t" "evolves (w_codec w) t0 t"
    by blast
  obtain z w3 where l: "store_load i w2 = (z, w3)" by force
  note sp = store_load_spec [OF l]
  from run valid c x h l obtain det where z: "z = Inr det" "v = view_of (w_codec w) det" "w' = w3"
    by (auto simp: orchestrator_Create_def store_Get_def c1 split: sum.splits)
  have inv2: "ledger_inv (w_db w2)" using sw_invD(2) [OF keeps_inv [OF k2 inv1]] .
  have id: "t_id t = i" "t \<in> set (transactions (w_db w2))" using t(1) by (simp_all add: transfer_row_def)
  have "find_tx i (w_db w2) = Some t" using find_tx_row [OF inv2 id(2)] id(1) by simp
  then have "v = view_of (w_codec w) (detailFromRow (w_codec w) t)" using sp z c1 by simp
  moreover have "w_db w' = w_db w2" using sp z by simp
  ultimately show ?thesis using t(1) id(1) holds_request_evolves [OF t0(2) t(2)] by auto
qed

lemma reserve_fresh:
  assumes "find_idem key (w_db w) = None" "idem_Reserve lease key fp w = (Inr res, w')"
  shows "rr_outcome res = OutcomeReserved"
proof -
  obtain y w1 where a: "run_stmt (ReserveIdempotencyKey key fp lease) w = (y, w1)" by force
  have "y = Inl e \<Longrightarrow> \<not> errors_is e ErrNoRows" for e
    using a assms(1) by (auto simp: run_stmt_def run_tx_def take_env_def ReserveIdempotencyKey_def no_triggers_def Let_def
        split: tx_fault.splits)
  then show ?thesis using assms(2) a by (auto simp: idem_Reserve_def only_outcome_def split: sum.splits if_splits)
qed

text \<open>C12. A 202 is a durable promise: if the first post under a key is answered 202, the database holds a
  transfer under that key with the request's parties and amount, the body is its view, and if it has not
  ended there is an unpublished event that drives it on, even if the inline debit failed.\<close>

theorem accepted_post_is_durable:
  assumes "sw_inv truth (w_codec w) (w_db w)" and "driver_env truth w" and "customer_key (w_codec w) key"
    and "find_idem key (w_db w) = None" and "decode_body body = Some req"
    and "hr_status (fst (rest_create sha lease cid key body w)) = 202"
  shows "\<exists>t. transfer_row (w_db (snd (rest_create sha lease cid key body w))) (t_id t) t
       \<and> holds_request (w_codec w) key req t \<and> driven (w_db (snd (rest_create sha lease cid key body w))) t
       \<and> hr_body (fst (rest_create sha lease cid key body w)) = toResponse (view_of (w_codec w) (detailFromRow (w_codec w) t))"
proof -
  have err: "hr_status (writeError cid e) \<noteq> 202" for e
    by (auto simp: writeError_def writeJSON_def classify_def Let_def)
  obtain r w' where ic: "idempotent_Create sha lease key req w = (r, w')" by force
  obtain v where r: "r = Inr v" and post: "rest_create sha lease cid key body w = (writeJSON cid 202 (toResponse v), w')"
    using assms(5,6) ic err by (cases r) (auto simp: rest_create_def split: if_splits)
  have valid: "request_Validate req = None" using ic r by (auto simp: idempotent_Create_def split: option.splits)
  obtain x w1 where rs: "idem_Reserve lease key (Fingerprint sha req) w = (x, w1)" by force
  then obtain res where x: "x = Inr res" using ic r valid by (cases x) (auto simp: idempotent_Create_def)
  have "rr_outcome res = OutcomeReserved" by (rule reserve_fresh [OF assms(4) rs [unfolded x]])
  then have rc: "reserved_Create key req w1 = (Inr v, w')"
    using ic r valid rs x by (simp add: idempotent_Create_def)
  have k1: "keeps truth w w1" by (rule idem_Reserve_keeps [OF rs])
  have inv1: "sw_inv truth (w_codec w1) (w_db w1)" by (rule keeps_inv [OF k1 assms(1)])
  have c1: "w_codec w1 = w_codec w" using k1 by (simp add: keeps_def)
  obtain z w2 where o: "orchestrator_Create key req w1 = (z, w2)" by force
  obtain y w3 where cm: "idem_Complete key IdemSucceeded (uuid_Parse (w_codec w2) (vw_id v)) (Some (view_to_json v)) w2 = (y, w3)"
    by force
  have z1: "z = Inr v" using rc o by (auto simp: reserved_Create_def split: sum.splits prod.splits)
  have z: "z = Inr v" "w' = w3" using rc o cm z1 by (auto simp: reserved_Create_def split: sum.splits)
  have key1: "customer_key (w_codec w1) key" using assms(3) c1 by simp
  note env1 = driver_env_keeps [OF assms(2) k1]
  from Create_durable [OF inv1 env1 key1 o [unfolded z(1)]] obtain t where
    t: "transfer_row (w_db w2) (t_id t) t" "holds_request (w_codec w) key req t"
      "v = view_of (w_codec w) (detailFromRow (w_codec w) t)"
    using c1 by auto
  have k2: "keeps truth w w2" by (rule keeps_trans [OF k1 orchestrator_Create_keeps [OF inv1 env1 key1 o]])
  have "keeps truth w w3" by (rule keeps_trans [OF k2 idem_Complete_keeps [OF cm]])
  then have inv3: "sw_inv truth (w_codec w) (w_db w3)" using assms(1) by (simp add: keeps_def)
  have "\<exists>ks. w_db w3 = (w_db w2)\<lparr>idem_keys := ks\<rparr>" by (rule idem_Complete_db [OF cm])
  then have t3: "transfer_row (w_db w3) (t_id t) t" using t(1) by (auto simp: transfer_row_def)
  then have "driven (w_db w3) t" using sw_invD(6) [OF inv3] by (simp add: transfer_row_def)
  then show ?thesis using post z t t3 by (auto simp: writeJSON_def)
qed

lemma demo_post_accepted:
  "hr_status (fst (rest_create demo_sha defaultIdempotencyLease ''cid'' ''K'' demo_body (sw_world RAIL_STATUS_SUCCESS))) = 202"
proof -
  have "(case fst (idempotent_Create demo_sha defaultIdempotencyLease ''K'' demo_creq (sw_world RAIL_STATUS_SUCCESS)) of
      Inl e \<Rightarrow> False | Inr v \<Rightarrow> vw_state v = ''DEBITED'')"
    by code_simp
  then show ?thesis by (auto simp: rest_create_def demo_decode writeJSON_def split: sum.splits prod.splits)
qed

lemma accepted_post_is_durable_witness:
  "\<exists>t. transfer_row (w_db (after_post RAIL_STATUS_SUCCESS)) (t_id t) t \<and> holds_request tally_codec ''K'' demo_creq t
     \<and> driven (w_db (after_post RAIL_STATUS_SUCCESS)) t"
proof -
  have k: "w_codec (sw_world RAIL_STATUS_SUCCESS) = tally_codec" by (simp add: sw_world_def)
  have "find_idem ''K'' (w_db (sw_world RAIL_STATUS_SUCCESS)) = None"
    by (simp add: sw_world_def world_of_def demo_db_def find_idem_def)
  from accepted_post_is_durable [OF _ _ demo_customer_key this demo_decode demo_post_accepted]
  show ?thesis using sw_world_sane [of RAIL_STATUS_SUCCESS] unfolding sane_def after_post_def k by blast
qed

end
