(* ===== verification/IdempotencyClaims.thy ===== *)
theory IdempotencyClaims
  imports SwitchDemo
begin

text \<open>
  The properties of the idempotency layer: the fingerprint separates requests, a key that exists never
  runs a transfer again, and what happens to a key whose holder failed or crashed.
\<close>

section \<open>Properties\<close>

text \<open>The text whose hash is the fingerprint determines the request: two requests that differ in
  any field have different canonical forms, so a reused key with another body can pass as the same
  request only through a hash collision.\<close>

theorem fingerprint_json_injective:
  "fingerprint_json r = fingerprint_json r' \<longleftrightarrow> r = r'"
proof
  assume eq: "fingerprint_json r = fingerprint_json r'"
  from eq have "json_quote (cr_source r) @ '','' @ json_quote ''destination'' @ '':'' @ json_quote (cr_destination r)
     @ '','' @ json_quote ''amount_minor'' @ '':'' @ FormatInt (Minor (cr_amount r))
     @ '','' @ json_quote ''currency'' @ '':'' @ json_quote (cr_currency r)
     @ '','' @ json_quote ''reference'' @ '':'' @ json_quote (cr_reference r) @ ''}''
    = json_quote (cr_source r') @ '','' @ json_quote ''destination'' @ '':'' @ json_quote (cr_destination r')
     @ '','' @ json_quote ''amount_minor'' @ '':'' @ FormatInt (Minor (cr_amount r'))
     @ '','' @ json_quote ''currency'' @ '':'' @ json_quote (cr_currency r')
     @ '','' @ json_quote ''reference'' @ '':'' @ json_quote (cr_reference r') @ ''}''"
    by (simp add: fingerprint_json_def)
  note s = json_quote_prefix [OF this]
  from s have "json_quote (cr_destination r) @ '','' @ json_quote ''amount_minor'' @ '':'' @ FormatInt (Minor (cr_amount r))
     @ '','' @ json_quote ''currency'' @ '':'' @ json_quote (cr_currency r)
     @ '','' @ json_quote ''reference'' @ '':'' @ json_quote (cr_reference r) @ ''}''
    = json_quote (cr_destination r') @ '','' @ json_quote ''amount_minor'' @ '':'' @ FormatInt (Minor (cr_amount r'))
     @ '','' @ json_quote ''currency'' @ '':'' @ json_quote (cr_currency r')
     @ '','' @ json_quote ''reference'' @ '':'' @ json_quote (cr_reference r') @ ''}''"
    by simp
  note d = json_quote_prefix [OF this]
  from d have "FormatInt (Minor (cr_amount r)) @ CHR '','' # json_quote ''currency'' @ '':'' @ json_quote (cr_currency r)
     @ '','' @ json_quote ''reference'' @ '':'' @ json_quote (cr_reference r) @ ''}''
    = FormatInt (Minor (cr_amount r')) @ CHR '','' # json_quote ''currency'' @ '':'' @ json_quote (cr_currency r')
     @ '','' @ json_quote ''reference'' @ '':'' @ json_quote (cr_reference r') @ ''}''"
    by simp
  note a = FormatInt_prefix [OF this]
  from a have "json_quote (cr_currency r) @ '','' @ json_quote ''reference'' @ '':'' @ json_quote (cr_reference r) @ ''}''
    = json_quote (cr_currency r') @ '','' @ json_quote ''reference'' @ '':'' @ json_quote (cr_reference r') @ ''}''"
    by simp
  note c = json_quote_prefix [OF this]
  from c have "json_quote (cr_reference r) @ ''}'' = json_quote (cr_reference r') @ ''}''" by simp
  from json_quote_prefix [OF this] s d a c show "r = r'" by simp
qed simp

text \<open>C13. A duplicate Idempotency-Key is a no-op: once a record for the key exists, a further create
  under it (whatever body, whatever faults, before or after the lease) changes nothing in the
  database, so it can neither create a transfer nor move money. A view it returns for a request that
  was completed is the live view of the transfer bound to the key.\<close>

theorem duplicate_key_is_noop:
  assumes "find_idem key (w_db w) = Some r"
  shows "w_db (snd (idempotent_Create sha lease key req w)) = w_db w
    \<and> (k_fingerprint r \<noteq> Fingerprint sha req \<longrightarrow> (\<exists>e. fst (idempotent_Create sha lease key req w) = Inl e))
    \<and> (\<forall>v i. fst (idempotent_Create sha lease key req w) = Inr v \<longrightarrow> k_status r = IdemSucceeded \<longrightarrow>
         k_transaction_id r = Some i \<longrightarrow> codec_ok (w_codec w) \<longrightarrow>
         (\<exists>t. find_tx i (w_db w) = Some t \<and> v = view_of (w_codec w) (detailFromRow (w_codec w) t)))"
proof (cases "request_Validate req")
  case None
  obtain x w1 where rs: "idem_Reserve lease key (Fingerprint sha req) w = (x, w1)" by force
  note sp = Reserve_existing [OF assms rs]
  show ?thesis
  proof (cases x)
    case (Inl e)
    then show ?thesis using None rs sp by (simp add: idempotent_Create_def)
  next
    case (Inr res)
    note oc = sp [unfolded Inr]
    show ?thesis
    proof (cases "rr_outcome res")
      case OutcomeReplay
      show ?thesis
      proof (cases "rr_transaction_id res")
        case (Some i)
        obtain g w2 where o: "orchestrator_Get (uuid_String (w_codec w1) i) w1 = (g, w2)" by force
        have "idempotent_Create sha lease key req w = (g, w2)"
          using None rs Inr OutcomeReplay Some o by (simp add: idempotent_Create_def)
        then show ?thesis
          using orchestrator_Get_spec [OF o] oc Some OutcomeReplay by (auto simp: codec_parse)
      next
        case none: None
        then have "idempotent_Create sha lease key req w = (view_from_json (rr_response res), w1)"
          using None rs Inr OutcomeReplay by (simp add: idempotent_Create_def)
        then show ?thesis using oc none OutcomeReplay by auto
      qed
    qed (use None rs Inr oc in \<open>auto simp: idempotent_Create_def\<close>)
  qed
qed (simp add: idempotent_Create_def)

text \<open>C17. A key whose first attempt failed is stuck: although the code marks it failed "so a retry can
  proceed", every later request with the same body, under any faults and at any time, returns an error
  and changes nothing.\<close>

theorem failed_key_never_retries:
  assumes "find_idem key (w_db w) = Some r" and "k_status r = IdemFailed" and "k_response r = None"
    and "k_transaction_id r = None"
  shows "\<exists>e. fst (idempotent_Create sha lease key req w) = Inl e"
proof (cases "request_Validate req")
  case None
  obtain x w1 where rs: "idem_Reserve lease key (Fingerprint sha req) w = (x, w1)" by force
  note sp = Reserve_existing [OF assms(1) rs]
  show ?thesis
  proof (cases x)
    case (Inl e)
    then show ?thesis using None rs by (simp add: idempotent_Create_def)
  next
    case (Inr res)
    show ?thesis
      using None rs Inr sp [unfolded Inr] assms(2-4)
      by (cases "rr_outcome res"; cases "k_fingerprint r = Fingerprint sha req")
        (auto simp: idempotent_Create_def view_from_json_def)
  qed
qed (simp add: idempotent_Create_def)

text \<open>C18. A crashed holder does not block its key: when an in-progress key has outlived its lease and the
  transfer it created exists, the same request gets that transfer's live view, and nothing is created a
  second time.\<close>

theorem expired_key_reattaches:
  assumes "no_faults w" and "codec_ok (w_codec w)" and "ledger_inv (w_db w)" and "request_Validate req = None"
    and "find_idem key (w_db w) = Some r" and "k_fingerprint r = Fingerprint sha req"
    and "k_status r = IdemInProgress" and "k_transaction_id r = None" and "k_expires_at r = Some x"
    and "x \<le> e_now (w_env w (w_tick w + 2))"
    and "t \<in> set (transactions (w_db w))" and "lifecycle t" and "t_idempotency_key t = Some key"
  shows "fst (idempotent_Create sha lease key req w) = Inr (view_of (w_codec w) (detailFromRow (w_codec w) t))
    \<and> w_db (snd (idempotent_Create sha lease key req w)) = w_db w"
proof -
  have nf: "e_fault (w_env w n) = NoFault" for n using assms(1) by (simp add: no_faults_def)
  have key: "List.find (\<lambda>t. t_idempotency_key t = Some key \<and> lifecycle t) (transactions (w_db w)) = Some t"
  proof (cases "List.find (\<lambda>t. t_idempotency_key t = Some key \<and> lifecycle t) (transactions (w_db w))")
    case None
    then show ?thesis using assms(11-13) by (auto simp: find_None_iff)
  next
    case (Some u)
    then have u: "u \<in> set (transactions (w_db w))" "t_idempotency_key u = Some key" by (auto dest: find_Some_mem)
    have "u = t"
    proof (rule ccontr)
      assume "u \<noteq> t"
      then obtain i j where ij: "i < length (transactions (w_db w))" "j < length (transactions (w_db w))" "i \<noteq> j"
        "transactions (w_db w) ! i = u" "transactions (w_db w) ! j = t"
        using u(1) assms(11) by (metis in_set_conv_nth)
      have "\<not> tx_clash (transactions (w_db w) ! max i j) (transactions (w_db w) ! min i j)
          \<or> \<not> tx_clash (transactions (w_db w) ! min i j) (transactions (w_db w) ! max i j)"
        using ledger_invD(2) [OF assms(3)] ij unfolding tx_unique_def
        by (auto simp: sorted_wrt_iff_nth_less max_def min_def)
      then show False using u(2) assms(13) ij by (auto simp: tx_clash_def max_def min_def split: if_splits)
    qed
    then show ?thesis using Some by simp
  qed
  have t: "find_tx (t_id t) (w_db w) = Some t" by (rule find_tx_row [OF assms(3,11)])
  have "idem_Reserve lease key (Fingerprint sha req) w =
      (Inr \<lparr>rr_outcome = OutcomeReplay, rr_response = None, rr_status = IdemInProgress, rr_transaction_id = Some (t_id t)\<rparr>,
       w\<lparr>w_tick := w_tick w + 4\<rparr>)"
    using assms(5-10) key
    by (simp add: idem_Reserve_def inProgressResult_def run_stmt_calm nf ReserveIdempotencyKey_def GetIdempotencyKey_def
        GetTransferIDByIdempotencyKey_def take_env_def numeral_eq_Suc)
  then have run: "idempotent_Create sha lease key req w =
      orchestrator_Get (uuid_String (w_codec w) (t_id t)) (w\<lparr>w_tick := w_tick w + 4\<rparr>)"
    using assms(4) by (simp add: idempotent_Create_def)
  show ?thesis
    unfolding run
    by (simp add: orchestrator_Get_def codec_parse [OF assms(2)] store_Get_def store_load_def run_stmt_calm nf
        GetTransferByID_def t)
qed


section \<open>Witnesses\<close>

definition demo_idem_row :: "string \<Rightarrow> idem_row" where
  "demo_idem_row st = \<lparr>k_key = ''K'', k_fingerprint = ''h'', k_transaction_id = None, k_response = None,
     k_status = st, k_created_at = 0, k_expires_at = Some 0\<rparr>"

definition key_world :: "string \<Rightarrow> world" where
  "key_world st = (sw_world RAIL_STATUS_SUCCESS)\<lparr>w_db := demo_db\<lparr>idem_keys := [demo_idem_row st]\<rparr>\<rparr>"

lemma key_world_row: "find_idem ''K'' (w_db (key_world st)) = Some (demo_idem_row st)"
  by (simp add: key_world_def find_idem_def demo_idem_row_def)

lemma duplicate_key_is_noop_witness:
  "w_db (snd (idempotent_Create demo_sha 30 ''K'' demo_creq (key_world IdemInProgress))) = w_db (key_world IdemInProgress)"
  using duplicate_key_is_noop [OF key_world_row] by blast

lemma failed_key_never_retries_witness:
  "\<exists>e. fst (idempotent_Create demo_sha 30 ''K'' demo_creq (key_world IdemFailed)) = Inl e"
  by (rule failed_key_never_retries [OF key_world_row]) (simp_all add: demo_idem_row_def)

definition stuck_row :: tx_row where
  "stuck_row = \<lparr>t_id = 1, t_reference = ''R'', t_type = ''transfer'', t_status = ''pending'', t_idempotency_key = Some ''K'',
     t_parent = None, t_currency = ''NGN'', t_initiated_at = 0, t_settled_at = None, t_metadata = transferMeta demo_creq\<rparr>"

definition crashed_world :: world where
  "crashed_world = (key_world IdemInProgress)\<lparr>w_db := (w_db (key_world IdemInProgress))\<lparr>transactions := [stuck_row]\<rparr>\<rparr>"

lemma expired_key_reattaches_witness:
  "fst (idempotent_Create demo_sha 30 ''K'' demo_creq crashed_world)
   = Inr (view_of tally_codec (detailFromRow tally_codec stuck_row))"
proof -
  have fields: "w_codec crashed_world = tally_codec" "w_env crashed_world = small_env RAIL_STATUS_SUCCESS"
    "w_tick crashed_world = 0" "transactions (w_db crashed_world) = [stuck_row]" "entries (w_db crashed_world) = []"
    "accounts (w_db crashed_world) = accounts demo_db" "balances (w_db crashed_world) = (\<lambda>_. None)"
    by (simp_all add: crashed_world_def key_world_def sw_world_def world_of_def demo_db_def)
  have "no_faults crashed_world" by (simp add: no_faults_def fields small_env_def)
  moreover have "codec_ok (w_codec crashed_world)" by (simp add: fields tally_codec_ok)
  moreover have "ledger_inv (w_db crashed_world)"
    by (simp add: ledger_inv_def fields tx_unique_def journal_balanced_def cache_coherent_def account_entries_def
        accounts_wf_def demo_db_def demo_account_def)
  moreover have "request_Validate demo_creq = None"
    by (simp add: request_Validate_def demo_creq_def go_const)
  moreover have "find_idem ''K'' (w_db crashed_world) = Some (demo_idem_row IdemInProgress)"
    using key_world_row [of IdemInProgress] by (simp add: crashed_world_def find_idem_def)
  moreover have "k_fingerprint (demo_idem_row IdemInProgress) = Fingerprint demo_sha demo_creq"
    by (simp add: demo_idem_row_def Fingerprint_def demo_sha_def)
  moreover have "lifecycle stuck_row" by (simp add: lifecycle_def json_has_key_def stuck_row_def transferMeta_def)
  ultimately show ?thesis
    using expired_key_reattaches [of crashed_world demo_creq "''K''" "demo_idem_row IdemInProgress" demo_sha 0 stuck_row 30]
    by (simp add: fields demo_idem_row_def stuck_row_def small_env_def)
qed

end
