(* ===== verification/Matcher.thy ===== *)
theory Matcher
  imports Canonical GoError "HOL-Library.Product_Lexorder"
begin

text \<open>
  \<open>internal/reconcile/exceptions.go\<close> and \<open>matcher.go\<close>: the internal export is indexed by reference,
  the external stream is read once, and every gap becomes a categorized exception. The stream is the
  list of what \<open>Next\<close> answers until \<open>io.EOF\<close>. Go iterates over a map in an order of its own choosing,
  which is the parameter \<open>order\<close>; a Go map is a HOL map, \<open>map[string]bool\<close> a predicate.
\<close>

section \<open>exceptions.go\<close>

definition CategoryUnmatchedInternal :: string where [go_const]: "CategoryUnmatchedInternal = ''unmatched_internal''"
definition CategoryUnmatchedExternal :: string where [go_const]: "CategoryUnmatchedExternal = ''unmatched_external''"
definition CategoryAmountMismatch :: string where [go_const]: "CategoryAmountMismatch = ''amount_mismatch''"
definition CategoryPendingReversal :: string where [go_const]: "CategoryPendingReversal = ''pending_reversal''"
definition CategoryDuplicate :: string where [go_const]: "CategoryDuplicate = ''duplicate''"

lemma category_neq [simp]:
  "CategoryUnmatchedInternal \<noteq> CategoryUnmatchedExternal" "CategoryUnmatchedInternal \<noteq> CategoryAmountMismatch" "CategoryUnmatchedInternal \<noteq> CategoryPendingReversal" "CategoryUnmatchedInternal \<noteq> CategoryDuplicate"
  "CategoryUnmatchedExternal \<noteq> CategoryUnmatchedInternal" "CategoryUnmatchedExternal \<noteq> CategoryAmountMismatch" "CategoryUnmatchedExternal \<noteq> CategoryPendingReversal" "CategoryUnmatchedExternal \<noteq> CategoryDuplicate"
  "CategoryAmountMismatch \<noteq> CategoryUnmatchedInternal" "CategoryAmountMismatch \<noteq> CategoryUnmatchedExternal" "CategoryAmountMismatch \<noteq> CategoryPendingReversal" "CategoryAmountMismatch \<noteq> CategoryDuplicate"
  "CategoryPendingReversal \<noteq> CategoryUnmatchedInternal" "CategoryPendingReversal \<noteq> CategoryUnmatchedExternal" "CategoryPendingReversal \<noteq> CategoryAmountMismatch" "CategoryPendingReversal \<noteq> CategoryDuplicate"
  "CategoryDuplicate \<noteq> CategoryUnmatchedInternal" "CategoryDuplicate \<noteq> CategoryUnmatchedExternal" "CategoryDuplicate \<noteq> CategoryAmountMismatch" "CategoryDuplicate \<noteq> CategoryPendingReversal"
  by (simp_all add: go_const)

record recon_exception =
  x_category :: string
  x_reference :: string
  x_internal :: "canonical_record option"
  x_external :: "canonical_record option"
  x_delta :: "i64 option"

definition classifyUnmatchedInternal :: "canonical_record \<Rightarrow> (string \<Rightarrow> bool) \<Rightarrow> string" where
  "classifyUnmatchedInternal r settledReversals =
     (if r_type r = TypeTransfer \<and> (r_status r = StatusFailed \<or> r_status r = StatusTimedOut)
         \<and> \<not> settledReversals (r_reference r)
      then CategoryPendingReversal else CategoryUnmatchedInternal)"

section \<open>matcher.go\<close>

record match_result =
  mr_matched :: nat
  mr_exceptions :: "recon_exception list"

record index_entry =
  ix_rec :: canonical_record
  ix_matched :: bool

text \<open>\<open>time.Time.Sub\<close> saturates at the least and greatest \<open>Duration\<close>; \<open>-d\<close> wraps.\<close>

definition time_Sub :: "time \<Rightarrow> time \<Rightarrow> i64" where
  "time_Sub a b = word_of_int (max i64_min (min i64_max (a - b)))"

definition withinWindow :: "time \<Rightarrow> time \<Rightarrow> i64 \<Rightarrow> bool" where
  "withinWindow a b window =
     (if sint window \<le> 0 \<or> a = zero_time \<or> b = zero_time then True
      else (let d = time_Sub a b; d' = (if sint d < 0 then - d else d) in sint d' \<le> sint window))"

definition deltaKey :: "recon_exception \<Rightarrow> i64" where
  "deltaKey e = (case x_delta e of Some d \<Rightarrow> d | None \<Rightarrow> 0)"

definition exception_key :: "recon_exception \<Rightarrow> string \<times> string \<times> int" where
  "exception_key e = (x_category e, x_reference e, sint (deltaKey e))"

definition sortExceptions :: "recon_exception list \<Rightarrow> recon_exception list" where
  "sortExceptions ex = sort_key exception_key ex"

text \<open>The indexing loop: later records of a reference overwrite earlier ones.\<close>

definition index_one ::
  "canonical_record \<Rightarrow> (string \<rightharpoonup> index_entry) \<times> (string \<Rightarrow> bool) \<Rightarrow> (string \<rightharpoonup> index_entry) \<times> (string \<Rightarrow> bool)" where
  "index_one r st =
     (if r_type r = TypeReversal
      then (if r_status r = StatusSettled \<or> r_status r = StatusReversed
            then (fst st, (snd st)(r_reference r := True)) else st)
      else ((fst st)(r_reference r \<mapsto> \<lparr>ix_rec = r, ix_matched = False\<rparr>), snd st))"

definition build_index :: "canonical_record list \<Rightarrow> (string \<rightharpoonup> index_entry) \<times> (string \<Rightarrow> bool)" where
  "build_index rs = fold index_one rs (Map.empty, \<lambda>_. False)"

record match_state =
  ms_index :: "string \<rightharpoonup> index_entry"
  ms_seen :: "string \<Rightarrow> bool"
  ms_matched :: nat
  ms_exceptions :: "recon_exception list"

definition raise_exception :: "recon_exception \<Rightarrow> match_state \<Rightarrow> match_state" where
  "raise_exception e st = st\<lparr>ms_exceptions := ms_exceptions st @ [e]\<rparr>"

definition external_only :: "string \<Rightarrow> canonical_record \<Rightarrow> recon_exception" where
  "external_only cat ext =
     \<lparr>x_category = cat, x_reference = r_reference ext, x_internal = None, x_external = Some ext, x_delta = None\<rparr>"

definition disagree :: "canonical_record \<Rightarrow> canonical_record \<Rightarrow> i64 \<Rightarrow> bool" where
  "disagree ext rec window \<longleftrightarrow> r_amount ext \<noteq> r_amount rec \<or> r_currency ext \<noteq> r_currency rec
     \<or> \<not> withinWindow (r_initiated_at rec) (r_initiated_at ext) window"

definition mismatch :: "canonical_record \<Rightarrow> canonical_record \<Rightarrow> recon_exception" where
  "mismatch ext rec =
     \<lparr>x_category = CategoryAmountMismatch, x_reference = r_reference ext, x_internal = Some rec, x_external = Some ext,
      x_delta = Some (Minor (r_amount ext) - Minor (r_amount rec))\<rparr>"

definition match_one :: "i64 \<Rightarrow> canonical_record \<Rightarrow> match_state \<Rightarrow> match_state" where
  "match_one window ext st =
     (if ms_seen st (r_reference ext) then raise_exception (external_only CategoryDuplicate ext) st
      else (let st1 = st\<lparr>ms_seen := (ms_seen st)(r_reference ext := True)\<rparr> in
        (case ms_index st1 (r_reference ext) of
           None \<Rightarrow> raise_exception (external_only CategoryUnmatchedExternal ext) st1
         | Some ent \<Rightarrow>
             (let st2 = st1\<lparr>ms_index := (ms_index st1)(r_reference ext \<mapsto> ent\<lparr>ix_matched := True\<rparr>)\<rparr> in
              if disagree ext (ix_rec ent) window then raise_exception (mismatch ext (ix_rec ent)) st2
              else st2\<lparr>ms_matched := Suc (ms_matched st2)\<rparr>))))"

fun match_stream :: "i64 \<Rightarrow> (err + canonical_record) list \<Rightarrow> match_state \<Rightarrow> err + match_state" where
  "match_stream window [] st = Inr st"
| "match_stream window (Inl e # _) st = Inl (Wrap ''read external record: '' e [])"
| "match_stream window (Inr ext # rest) st = match_stream window rest (match_one window ext st)"

text \<open>The range loop over the index, in the runtime's order.\<close>

definition leftover :: "(string \<Rightarrow> bool) \<Rightarrow> canonical_record \<Rightarrow> recon_exception" where
  "leftover reversals r =
     \<lparr>x_category = classifyUnmatchedInternal r reversals, x_reference = r_reference r, x_internal = Some r,
      x_external = None, x_delta = None\<rparr>"

fun leftovers :: "(string \<Rightarrow> bool) \<Rightarrow> (string \<rightharpoonup> index_entry) \<Rightarrow> string list \<Rightarrow> recon_exception list" where
  "leftovers reversals ix [] = []"
| "leftovers reversals ix (k # ks) =
     (case ix k of
        None \<Rightarrow> leftovers reversals ix ks
      | Some ent \<Rightarrow>
          if ix_matched ent then leftovers reversals ix ks
          else leftover reversals (ix_rec ent) # leftovers reversals ix ks)"

definition Match ::
  "string list \<Rightarrow> canonical_record list \<Rightarrow> (err + canonical_record) list \<Rightarrow> i64 \<Rightarrow> err + match_result" where
  "Match order internal external window =
     (let (index, reversals) = build_index internal in
      (case match_stream window external
              \<lparr>ms_index = index, ms_seen = (\<lambda>_. False), ms_matched = 0, ms_exceptions = []\<rparr> of
         Inl e \<Rightarrow> Inl e
       | Inr st \<Rightarrow>
           Inr \<lparr>mr_matched = ms_matched st,
             mr_exceptions = sortExceptions (ms_exceptions st @ leftovers reversals (ms_index st) order)\<rparr>))"

end
