(* ===== verification/MatcherProps.thy ===== *)
theory MatcherProps
  imports Matcher
begin

text \<open>
  The matcher against a reference definition: one verdict per external row, from the row's position and
  the latest internal record of its reference, and one leftover per internal reference the file never
  names. Counting and order-independence follow.
\<close>

section \<open>The reference definition\<close>

definition latest :: "canonical_record list \<Rightarrow> string \<Rightarrow> canonical_record option" where
  "latest rs k = List.find (\<lambda>r. r_type r \<noteq> TypeReversal \<and> r_reference r = k) (rev rs)"

definition reversal_settled :: "canonical_record list \<Rightarrow> string \<Rightarrow> bool" where
  "reversal_settled rs k \<longleftrightarrow> (\<exists>r \<in> set rs. r_type r = TypeReversal \<and> (r_status r = StatusSettled \<or> r_status r = StatusReversed)
     \<and> r_reference r = k)"

definition row_verdict :: "canonical_record list \<Rightarrow> i64 \<Rightarrow> canonical_record list \<Rightarrow> nat \<Rightarrow> recon_exception option" where
  "row_verdict rs window es i =
     (let e = es ! i in
      if r_reference e \<in> r_reference ` set (take i es) then Some (external_only CategoryDuplicate e)
      else (case latest rs (r_reference e) of
          None \<Rightarrow> Some (external_only CategoryUnmatchedExternal e)
        | Some r \<Rightarrow> if disagree e r window then Some (mismatch e r) else None))"

definition external_gaps :: "canonical_record list \<Rightarrow> i64 \<Rightarrow> canonical_record list \<Rightarrow> recon_exception list" where
  "external_gaps rs window es = List.map_filter (row_verdict rs window es) [0..<length es]"

definition clean_rows :: "canonical_record list \<Rightarrow> i64 \<Rightarrow> canonical_record list \<Rightarrow> nat" where
  "clean_rows rs window es = length (filter (\<lambda>i. row_verdict rs window es i = None) [0..<length es])"

definition internal_gap :: "canonical_record list \<Rightarrow> canonical_record list \<Rightarrow> string \<Rightarrow> recon_exception option" where
  "internal_gap rs es k =
     (if k \<in> r_reference ` set es then None else map_option (leftover (reversal_settled rs)) (latest rs k))"

definition reference_match :: "string list \<Rightarrow> canonical_record list \<Rightarrow> canonical_record list \<Rightarrow> i64 \<Rightarrow> match_result" where
  "reference_match order rs es window =
     \<lparr>mr_matched = clean_rows rs window es,
      mr_exceptions = sortExceptions (external_gaps rs window es @ List.map_filter (internal_gap rs es) order)\<rparr>"

section \<open>The code computes it\<close>

lemma latest_snoc:
  "latest (rs @ [r]) k = (if r_type r \<noteq> TypeReversal \<and> r_reference r = k then Some r else latest rs k)"
  by (simp add: latest_def)

lemma build_index_eq:
  "build_index rs = (\<lambda>k. map_option (\<lambda>r. \<lparr>ix_rec = r, ix_matched = False\<rparr>) (latest rs k), reversal_settled rs)"
proof (induction rs rule: rev_induct)
  case Nil
  then show ?case by (auto simp: build_index_def latest_def reversal_settled_def fun_eq_iff)
next
  case (snoc r rs)
  then show ?case
    by (auto simp: build_index_def index_one_def fun_eq_iff latest_snoc reversal_settled_def)
qed

lemma match_stream_records: "match_stream window (map Inr es) st = Inr (fold (match_one window) es st)"
  by (induction es arbitrary: st) auto

lemma match_stream_error:
  "match_stream window xs st = Inl e \<longleftrightarrow>
     (\<exists>es e' ys. xs = map Inr es @ Inl e' # ys \<and> e = Wrap ''read external record: '' e' [])"
proof (induction window xs st rule: match_stream.induct)
  case (2 window e0 ys st)
  have "Inl e0 # ys = map Inr es @ Inl e' # zs \<longleftrightarrow> es = [] \<and> e0 = e' \<and> ys = zs" for es :: "canonical_record list" and e' zs
    by (cases es) auto
  then show ?case by auto
next
  case (3 window ext xs st)
  have "Inr ext # xs = map Inr es @ Inl e' # zs \<longleftrightarrow> (\<exists>es'. es = ext # es' \<and> xs = map Inr es' @ Inl e' # zs)" for es e' zs
    by (cases es) auto
  then show ?case using 3 by simp blast
qed auto

lemma verdict_snoc: "i < length es \<Longrightarrow> row_verdict rs window (es @ [e]) i = row_verdict rs window es i"
  by (simp add: row_verdict_def nth_append)

lemma gaps_snoc:
  "external_gaps rs window (es @ [e]) =
     external_gaps rs window es @ (case row_verdict rs window (es @ [e]) (length es) of None \<Rightarrow> [] | Some x \<Rightarrow> [x])"
  "clean_rows rs window (es @ [e]) =
     clean_rows rs window es + (case row_verdict rs window (es @ [e]) (length es) of None \<Rightarrow> 1 | Some x \<Rightarrow> 0)"
proof -
  have "filter (\<lambda>i. row_verdict rs window (es @ [e]) i \<noteq> None) [0..<length es] = filter (\<lambda>i. row_verdict rs window es i \<noteq> None) [0..<length es]"
    "filter (\<lambda>i. row_verdict rs window (es @ [e]) i = None) [0..<length es] = filter (\<lambda>i. row_verdict rs window es i = None) [0..<length es]"
    by (auto intro!: filter_cong simp: verdict_snoc)
  moreover have "map (the \<circ> row_verdict rs window (es @ [e])) (filter (\<lambda>i. row_verdict rs window es i \<noteq> None) [0..<length es])
      = map (the \<circ> row_verdict rs window es) (filter (\<lambda>i. row_verdict rs window es i \<noteq> None) [0..<length es])"
    by (auto simp: verdict_snoc)
  ultimately show "external_gaps rs window (es @ [e]) =
     external_gaps rs window es @ (case row_verdict rs window (es @ [e]) (length es) of None \<Rightarrow> [] | Some x \<Rightarrow> [x])"
    "clean_rows rs window (es @ [e]) =
     clean_rows rs window es + (case row_verdict rs window (es @ [e]) (length es) of None \<Rightarrow> 1 | Some x \<Rightarrow> 0)"
    by (auto simp: external_gaps_def clean_rows_def List.map_filter_def split: option.split)
qed

text \<open>What the loop's state is after the rows \<open>es\<close>.\<close>

definition after_rows :: "canonical_record list \<Rightarrow> i64 \<Rightarrow> canonical_record list \<Rightarrow> match_state" where
  "after_rows rs window es =
     \<lparr>ms_index = (\<lambda>k. map_option (\<lambda>r. \<lparr>ix_rec = r, ix_matched = k \<in> r_reference ` set es\<rparr>) (latest rs k)),
      ms_seen = (\<lambda>k. k \<in> r_reference ` set es), ms_matched = clean_rows rs window es,
      ms_exceptions = external_gaps rs window es\<rparr>"

lemma match_one_after: "match_one window e (after_rows rs window es) = after_rows rs window (es @ [e])"
proof (cases "r_reference e \<in> r_reference ` set es")
  case True
  then have "row_verdict rs window (es @ [e]) (length es) = Some (external_only CategoryDuplicate e)"
    by (simp add: row_verdict_def)
  moreover have "insert (r_reference e) (r_reference ` set es) = r_reference ` set es" using True by blast
  ultimately show ?thesis
    using True by (simp add: match_one_def after_rows_def raise_exception_def gaps_snoc)
next
  case False
  have ix: "(\<lambda>k. map_option (\<lambda>r. \<lparr>ix_rec = r, ix_matched = k \<in> r_reference ` set es\<rparr>) (latest rs k))(r_reference e \<mapsto>
        \<lparr>ix_rec = r, ix_matched = True\<rparr>)
      = (\<lambda>k. map_option (\<lambda>r. \<lparr>ix_rec = r, ix_matched = k = r_reference e \<or> k \<in> r_reference ` set es\<rparr>) (latest rs k))"
    if "latest rs (r_reference e) = Some r" for r
    using that False by (auto simp: fun_eq_iff)
  have none: "(\<lambda>k. map_option (\<lambda>r. \<lparr>ix_rec = r, ix_matched = k \<in> r_reference ` set es\<rparr>) (latest rs k))
      = (\<lambda>k. map_option (\<lambda>r. \<lparr>ix_rec = r, ix_matched = k = r_reference e \<or> k \<in> r_reference ` set es\<rparr>) (latest rs k))"
    if "latest rs (r_reference e) = None"
  proof (rule ext)
    fix k
    show "map_option (\<lambda>r. \<lparr>ix_rec = r, ix_matched = k \<in> r_reference ` set es\<rparr>) (latest rs k)
      = map_option (\<lambda>r. \<lparr>ix_rec = r, ix_matched = k = r_reference e \<or> k \<in> r_reference ` set es\<rparr>) (latest rs k)"
      using that by (cases "k = r_reference e") simp_all
  qed
  show ?thesis
  proof (cases "latest rs (r_reference e)")
    case None
    then show ?thesis
      using False none
      by (simp add: match_one_def after_rows_def raise_exception_def gaps_snoc row_verdict_def fun_upd_def fun_eq_iff)
  next
    case (Some r)
    then show ?thesis
      using False ix [OF Some]
      by (simp add: match_one_def after_rows_def raise_exception_def gaps_snoc row_verdict_def) (auto simp: fun_eq_iff)
  qed
qed

lemma fold_after: "fold (match_one window) es (after_rows rs window []) = after_rows rs window es"
proof (induction es rule: rev_induct)
  case (snoc e es)
  then show ?case by (simp add: match_one_after)
qed simp

lemma leftovers_eq:
  "leftovers (reversal_settled rs) (ms_index (after_rows rs window es)) order = List.map_filter (internal_gap rs es) order"
  by (induction order) (auto simp: after_rows_def internal_gap_def List.map_filter_def split: option.split)

lemma Match_reference: "Match order rs (map Inr es) window = Inr (reference_match order rs es window)"
proof -
  have "\<lparr>ms_index = \<lambda>k. map_option (\<lambda>r. \<lparr>ix_rec = r, ix_matched = False\<rparr>) (latest rs k), ms_seen = (\<lambda>_. False), ms_matched = 0,
      ms_exceptions = []\<rparr> = after_rows rs window []"
    by (simp add: after_rows_def clean_rows_def external_gaps_def List.map_filter_def)
  then show ?thesis
    by (simp add: Match_def build_index_eq match_stream_records fold_after leftovers_eq reference_match_def)
      (simp add: after_rows_def)
qed

section \<open>Counting\<close>

definition count_cat :: "string \<Rightarrow> recon_exception list \<Rightarrow> nat" where
  "count_cat c xs = length (filter (\<lambda>x. x_category x = c) xs)"

lemma count_cat_simps [simp]:
  "count_cat c [] = 0" "count_cat c (x # xs) = (if x_category x = c then 1 else 0) + count_cat c xs"
  "count_cat c (xs @ ys) = count_cat c xs + count_cat c ys"
  by (simp_all add: count_cat_def)

lemma count_cat_sort [simp]: "count_cat c (sortExceptions xs) = count_cat c xs"
  by (simp add: count_cat_def sortExceptions_def filter_sort)

lemma leftover_category: "x_category (leftover rv r) = CategoryPendingReversal \<or> x_category (leftover rv r) = CategoryUnmatchedInternal"
  by (simp add: leftover_def classifyUnmatchedInternal_def)

lemma exception_fields [simp]:
  "x_category (external_only c e) = c" "x_reference (external_only c e) = r_reference e"
  "x_category (mismatch e r) = CategoryAmountMismatch" "x_reference (mismatch e r) = r_reference e"
  "x_reference (leftover rv r) = r_reference r"
  by (simp_all add: external_only_def mismatch_def leftover_def)

lemma verdict_last:
  "row_verdict rs window (es @ [e]) (length es) =
     (if r_reference e \<in> r_reference ` set es then Some (external_only CategoryDuplicate e)
      else (case latest rs (r_reference e) of
          None \<Rightarrow> Some (external_only CategoryUnmatchedExternal e)
        | Some r \<Rightarrow> if disagree e r window then Some (mismatch e r) else None))"
  by (simp add: row_verdict_def)

lemma rows_accounted:
  "clean_rows rs window es + count_cat CategoryDuplicate (external_gaps rs window es)
     + count_cat CategoryUnmatchedExternal (external_gaps rs window es)
     + count_cat CategoryAmountMismatch (external_gaps rs window es) = length es"
  "count_cat CategoryPendingReversal (external_gaps rs window es) = 0"
  "count_cat CategoryUnmatchedInternal (external_gaps rs window es) = 0"
proof (induction es rule: rev_induct)
  case Nil
  case 1 show ?case by (simp add: clean_rows_def external_gaps_def List.map_filter_def)
  case 2 show ?case by (simp add: external_gaps_def List.map_filter_def)
  case 3 show ?case by (simp add: external_gaps_def List.map_filter_def)
next
  case (snoc e es)
  note v = verdict_last [of rs window es e]
  case 1 show ?case using snoc by (auto simp: gaps_snoc v split: option.split)
  case 2 show ?case using snoc by (auto simp: gaps_snoc v split: option.split)
  case 3 show ?case using snoc by (auto simp: gaps_snoc v split: option.split)
qed

lemma latest_Some: "latest rs k = Some r \<Longrightarrow> r \<in> set rs \<and> r_type r \<noteq> TypeReversal \<and> r_reference r = k"
  unfolding latest_def by (drule find_Some_mem) auto

lemma latest_None: "latest rs k = None \<longleftrightarrow> (\<forall>r \<in> set rs. r_type r \<noteq> TypeReversal \<longrightarrow> r_reference r \<noteq> k)"
  by (auto simp: latest_def find_None_iff)

definition internal_refs :: "canonical_record list \<Rightarrow> string set" where
  "internal_refs rs = r_reference ` {r \<in> set rs. r_type r \<noteq> TypeReversal}"

lemma latest_internal_refs: "latest rs k \<noteq> None \<longleftrightarrow> k \<in> internal_refs rs"
  by (auto simp: latest_None internal_refs_def)

lemma finite_internal_refs [simp]: "finite (internal_refs rs)"
  by (simp add: internal_refs_def)

lemma named_refs_accounted:
  "clean_rows rs window es + count_cat CategoryAmountMismatch (external_gaps rs window es)
     = card (internal_refs rs \<inter> r_reference ` set es)"
proof (induction es rule: rev_induct)
  case Nil
  then show ?case by (simp add: clean_rows_def external_gaps_def List.map_filter_def)
next
  case (snoc e es)
  let ?k = "r_reference e"
  consider "?k \<in> r_reference ` set es" | "?k \<notin> r_reference ` set es" "latest rs ?k = None"
    | r where "?k \<notin> r_reference ` set es" "latest rs ?k = Some r" by (cases "latest rs ?k") auto
  then show ?case
  proof cases
    case 1
    then have "r_reference ` set (es @ [e]) = r_reference ` set es" by auto
    then show ?thesis using snoc 1 by (simp add: gaps_snoc verdict_last)
  next
    case 2
    then have "?k \<notin> internal_refs rs" using latest_internal_refs by blast
    then show ?thesis using snoc 2 by (simp add: gaps_snoc verdict_last Int_insert_right)
  next
    case 3
    then have "?k \<in> internal_refs rs" using latest_internal_refs by blast
    then show ?thesis using snoc 3 by (simp add: gaps_snoc verdict_last Int_insert_right)
  qed
qed

definition enumerates :: "string list \<Rightarrow> canonical_record list \<Rightarrow> bool" where
  "enumerates order rs \<longleftrightarrow> distinct order \<and> set order = internal_refs rs"

lemma leftovers_accounted:
  assumes "enumerates order rs"
  shows "length (List.map_filter (internal_gap rs es) order) = card (internal_refs rs - r_reference ` set es)"
proof -
  have "length (List.map_filter (internal_gap rs es) order) = length (filter (\<lambda>k. internal_gap rs es k \<noteq> None) order)"
    by (simp add: List.map_filter_def)
  also have "\<dots> = card {k \<in> set order. internal_gap rs es k \<noteq> None}"
    using assms by (simp add: enumerates_def distinct_card [symmetric])
  also have "{k \<in> set order. internal_gap rs es k \<noteq> None} = internal_refs rs - r_reference ` set es"
    using assms latest_internal_refs by (fastforce simp: enumerates_def internal_gap_def)
  finally show ?thesis .
qed

lemma map_filter_mem: "x \<in> set (List.map_filter f xs) \<longleftrightarrow> (\<exists>y \<in> set xs. f y = Some x)"
  by (force simp: List.map_filter_def)

lemma internal_gap_Some:
  "internal_gap rs es k = Some x \<longleftrightarrow> k \<notin> r_reference ` set es \<and> (\<exists>r. latest rs k = Some r \<and> x = leftover (reversal_settled rs) r)"
  by (auto simp: internal_gap_def)

lemma leftover_counts:
  "count_cat CategoryPendingReversal (List.map_filter (internal_gap rs es) order)
     + count_cat CategoryUnmatchedInternal (List.map_filter (internal_gap rs es) order)
   = length (List.map_filter (internal_gap rs es) order)"
  "count_cat CategoryDuplicate (List.map_filter (internal_gap rs es) order) = 0"
  "count_cat CategoryUnmatchedExternal (List.map_filter (internal_gap rs es) order) = 0"
  "count_cat CategoryAmountMismatch (List.map_filter (internal_gap rs es) order) = 0"
proof -
  let ?l = "List.map_filter (internal_gap rs es) order"
  have cat: "x_category x = CategoryPendingReversal \<or> x_category x = CategoryUnmatchedInternal" if "x \<in> set ?l" for x
    using that leftover_category by (auto simp: map_filter_mem internal_gap_Some)
  have "\<forall>x \<in> set xs. x_category x = CategoryPendingReversal \<or> x_category x = CategoryUnmatchedInternal \<Longrightarrow>
      count_cat CategoryPendingReversal xs + count_cat CategoryUnmatchedInternal xs = length xs
      \<and> count_cat CategoryDuplicate xs = 0 \<and> count_cat CategoryUnmatchedExternal xs = 0 \<and> count_cat CategoryAmountMismatch xs = 0" for xs
    by (induction xs) auto
  then show "count_cat CategoryPendingReversal ?l + count_cat CategoryUnmatchedInternal ?l = length ?l"
    "count_cat CategoryDuplicate ?l = 0" "count_cat CategoryUnmatchedExternal ?l = 0" "count_cat CategoryAmountMismatch ?l = 0"
    using cat by blast+
qed

end
