(* ===== verification/MatcherOrder.thy ===== *)
theory MatcherOrder
  imports MatcherProps
begin

text \<open>
  Which reorderings of its inputs the report does not see: the order the runtime iterates over the index
  in, always; the order of the rows on either side, when references are not reused for different rows.
\<close>

section \<open>Stable sorting of permuted lists\<close>

lemma filter_key_mset:
  assumes "mset xs = mset ys" and "inj_on f (set xs)"
  shows "filter (\<lambda>x. f x = k) xs = filter (\<lambda>x. f x = k) ys"
proof (cases "\<exists>a \<in> set xs. f a = k")
  case True
  then obtain a where a: "a \<in> set xs" "f a = k" by blast
  have only: "x \<in> set zs \<Longrightarrow> f x = k \<longleftrightarrow> x = a" if "set zs = set xs" for x zs
    using a assms(2) that by (auto dest: inj_onD)
  have rep: "filter (\<lambda>x. f x = k) zs = replicate (count_list zs a) a" if "set zs \<subseteq> set xs" for zs
    using that by (induction zs) (use a assms(2) in \<open>auto dest: inj_onD\<close>)
  have "set ys = set xs" using assms(1) mset_eq_setD by metis
  moreover have "count_list xs a = count_list ys a" using assms(1) by (metis count_mset)
  ultimately show ?thesis using rep by simp
next
  case False
  have "set ys = set xs" using assms(1) mset_eq_setD by metis
  then show ?thesis using False by (auto simp: filter_empty_conv)
qed

lemma sort_key_cong:
  assumes "mset xs = mset ys" and "\<And>k. filter (\<lambda>x. f x = k) xs = filter (\<lambda>x. f x = k) ys"
  shows "sort_key f xs = sort_key f ys"
proof (rule properties_for_sort_key)
  show "mset (sort_key f ys) = mset xs" using assms(1) by simp
  show "sorted (map f (sort_key f ys))" by simp
  fix k
  show "filter (\<lambda>x. f k = f x) (sort_key f ys) = filter (\<lambda>x. f k = f x) xs"
    using assms(2) [of "f k"] sort_key_stable [of f "f k" ys] by (simp add: eq_commute)
qed

lemma sort_key_mset: "mset xs = mset ys \<Longrightarrow> inj_on f (set xs) \<Longrightarrow> sort_key f xs = sort_key f ys"
  by (rule sort_key_cong) (auto intro: filter_key_mset)

section \<open>The runtime's iteration order\<close>

lemma map_filter_mset:
  assumes "mset xs = mset ys"
  shows "mset (List.map_filter f xs) = mset (List.map_filter f ys)"
  unfolding List.map_filter_def mset_map mset_filter assms ..

lemma leftovers_inj: "inj_on exception_key (set (List.map_filter (internal_gap rs es) order))"
proof (rule inj_onI)
  fix x y
  assume "x \<in> set (List.map_filter (internal_gap rs es) order)" "y \<in> set (List.map_filter (internal_gap rs es) order)"
    and eq: "exception_key x = exception_key y"
  then obtain k r k' r' where x: "latest rs k = Some r" "x = leftover (reversal_settled rs) r"
    and y: "latest rs k' = Some r'" "y = leftover (reversal_settled rs) r'"
    by (auto simp: map_filter_mem internal_gap_Some)
  have "r_reference r = k" "r_reference r' = k'" using latest_Some x(1) y(1) by blast+
  then have "k = k'" using eq by (simp add: exception_key_def x(2) y(2))
  then show "x = y" using x y by simp
qed

lemma enumerates_mset: "enumerates a rs \<Longrightarrow> enumerates b rs' \<Longrightarrow> internal_refs rs = internal_refs rs' \<Longrightarrow> mset a = mset b"
  by (metis enumerates_def set_eq_iff_mset_eq_distinct)

lemma iteration_order:
  assumes "enumerates order rs" "enumerates order' rs"
  shows "sortExceptions (xs @ List.map_filter (internal_gap rs es) order)
       = sortExceptions (xs @ List.map_filter (internal_gap rs es) order')"
  unfolding sortExceptions_def
proof (rule sort_key_cong)
  have ms: "mset (List.map_filter (internal_gap rs es) order) = mset (List.map_filter (internal_gap rs es) order')"
    using map_filter_mset [OF enumerates_mset [OF assms refl]] .
  then show "mset (xs @ List.map_filter (internal_gap rs es) order) = mset (xs @ List.map_filter (internal_gap rs es) order')"
    by simp
  fix k
  show "filter (\<lambda>x. exception_key x = k) (xs @ List.map_filter (internal_gap rs es) order)
      = filter (\<lambda>x. exception_key x = k) (xs @ List.map_filter (internal_gap rs es) order')"
    using filter_key_mset [OF ms leftovers_inj] by simp
qed

section \<open>The order of the rows\<close>

definition first_verdict :: "canonical_record list \<Rightarrow> i64 \<Rightarrow> canonical_record \<Rightarrow> recon_exception option" where
  "first_verdict rs window e =
     (case latest rs (r_reference e) of
        None \<Rightarrow> Some (external_only CategoryUnmatchedExternal e)
      | Some r \<Rightarrow> if disagree e r window then Some (mismatch e r) else None)"

definition one_row_per_ref :: "canonical_record list \<Rightarrow> bool" where
  "one_row_per_ref es \<longleftrightarrow> inj_on r_reference (set es)"

lemma verdict_first:
  "row_verdict rs window (es @ [e]) (length es) =
     (if r_reference e \<in> r_reference ` set es then Some (external_only CategoryDuplicate e) else first_verdict rs window e)"
  by (simp add: verdict_last first_verdict_def)

text \<open>With one row (possibly repeated) per reference, the exceptions as a multiset.\<close>

definition opt_mset :: "'a option \<Rightarrow> 'a multiset" where
  "opt_mset x = (case x of None \<Rightarrow> {#} | Some a \<Rightarrow> {#a#})"

definition gap_mset :: "canonical_record list \<Rightarrow> i64 \<Rightarrow> canonical_record list \<Rightarrow> recon_exception multiset" where
  "gap_mset rs window es =
     (\<Sum>e \<in> set es. opt_mset (first_verdict rs window e))
     + image_mset (external_only CategoryDuplicate) (mset es - mset_set (set es))"

lemma gaps_mset: "one_row_per_ref es \<Longrightarrow> mset (external_gaps rs window es) = gap_mset rs window es"
proof (induction es rule: rev_induct)
  case Nil
  then show ?case by (simp add: gap_mset_def external_gaps_def List.map_filter_def)
next
  case (snoc e es)
  have IH: "mset (external_gaps rs window es) = gap_mset rs window es"
    using snoc by (simp add: one_row_per_ref_def)
  have mem: "r_reference e \<in> r_reference ` set es \<longleftrightarrow> e \<in> set es"
    using snoc.prems by (auto simp: one_row_per_ref_def dest: inj_onD)
  have sub: "mset_set (set es) \<subseteq># mset es"
    by (metis mset_remdups_subset_eq mset_set_set set_remdups distinct_remdups)
  show ?case
  proof (cases "e \<in> set es")
    case True
    then have "mset (es @ [e]) - mset_set (set (es @ [e])) = (mset es - mset_set (set es)) + {#e#}"
      using multiset_diff_union_assoc [OF sub, of "{#e#}"] by (simp add: insert_absorb)
    then show ?thesis
      using True mem IH by (simp add: gaps_snoc verdict_first gap_mset_def insert_absorb)
  next
    case False
    then have "mset (es @ [e]) - mset_set (set (es @ [e])) = mset es - mset_set (set es)"
      by simp
    then show ?thesis
      using False mem IH
      by (cases "first_verdict rs window e") (simp_all add: gaps_snoc verdict_first gap_mset_def opt_mset_def)
  qed
qed

lemma clean_rows_set:
  "one_row_per_ref es \<Longrightarrow> clean_rows rs window es = card {e \<in> set es. first_verdict rs window e = None}"
proof (induction es rule: rev_induct)
  case Nil
  then show ?case by (simp add: clean_rows_def)
next
  case (snoc e es)
  have IH: "clean_rows rs window es = card {e \<in> set es. first_verdict rs window e = None}"
    using snoc by (simp add: one_row_per_ref_def)
  have mem: "r_reference e \<in> r_reference ` set es \<longleftrightarrow> e \<in> set es"
    using snoc.prems by (auto simp: one_row_per_ref_def dest: inj_onD)
  have set_eq: "{x \<in> set (es @ [e]). first_verdict rs window x = None}
      = (if first_verdict rs window e = None then insert e {x \<in> set es. first_verdict rs window x = None}
         else {x \<in> set es. first_verdict rs window x = None})"
    by auto
  show ?case
    unfolding set_eq
    using mem IH
    by (cases "first_verdict rs window e"; cases "e \<in> set es") (simp_all add: gaps_snoc verdict_first insert_absorb)
qed

lemma gap_forms:
  assumes "x \<in> set (external_gaps rs window es @ List.map_filter (internal_gap rs es) order)"
  obtains (one_side) e c where "e \<in> set es" "x = external_only c e" "c \<in> {CategoryDuplicate, CategoryUnmatchedExternal}"
  | (two_sides) e r where "e \<in> set es" "latest rs (r_reference e) = Some r" "x = mismatch e r"
  | (internal) r where "latest rs (r_reference r) = Some r" "x = leftover (reversal_settled rs) r"
  using assms unfolding set_append Un_iff external_gaps_def map_filter_mem internal_gap_Some
proof (elim disjE bexE)
  fix i
  assume i: "i \<in> set [0..<length es]" "row_verdict rs window es i = Some x"
  then have e: "es ! i \<in> set es" by simp
  consider "x = external_only CategoryDuplicate (es ! i)" | "x = external_only CategoryUnmatchedExternal (es ! i)"
    | r where "latest rs (r_reference (es ! i)) = Some r" "x = mismatch (es ! i) r"
    using i(2) by (auto simp: row_verdict_def Let_def split: if_splits option.splits)
  then show thesis using one_side [OF e] two_sides [OF e] by cases auto
next
  fix k
  assume "k \<in> set order" "k \<notin> r_reference ` set es \<and> (\<exists>r. latest rs k = Some r \<and> x = leftover (reversal_settled rs) r)"
  then show thesis using latest_Some internal by metis
qed

lemma gaps_inj:
  assumes "one_row_per_ref es"
  shows "inj_on exception_key (set (external_gaps rs window es @ List.map_filter (internal_gap rs es) order))"
proof (rule inj_onI)
  fix x y
  assume x: "x \<in> set (external_gaps rs window es @ List.map_filter (internal_gap rs es) order)"
    and y: "y \<in> set (external_gaps rs window es @ List.map_filter (internal_gap rs es) order)"
    and eq: "exception_key x = exception_key y"
  have cat: "x_category x = x_category y" "x_reference x = x_reference y" using eq by (simp_all add: exception_key_def)
  have inj: "e = e'" if "e \<in> set es" "e' \<in> set es" "r_reference e = r_reference e'" for e e'
    using assms that by (auto simp: one_row_per_ref_def dest: inj_onD)
  have cats: "x_category (leftover rv r) \<noteq> CategoryDuplicate" "x_category (leftover rv r) \<noteq> CategoryUnmatchedExternal"
    "x_category (leftover rv r) \<noteq> CategoryAmountMismatch" for rv r
    using leftover_category [of rv r] by auto
  show "x = y"
    using x
  proof (cases rule: gap_forms)
    case x: (one_side e c)
    show ?thesis
      using y
    proof (cases rule: gap_forms)
      case (one_side e' c')
      then show ?thesis using x cat inj [OF x(1) one_side(1)] by simp
    qed (use x cat cats cats [symmetric] in simp_all)
  next
    case x: (two_sides e r)
    show ?thesis
      using y
    proof (cases rule: gap_forms)
      case (two_sides e' r')
      then show ?thesis using x cat inj [OF x(1) two_sides(1)] by simp
    qed (use x cat cats cats [symmetric] in simp_all)
  next
    case x: (internal r)
    show ?thesis
      using y
    proof (cases rule: gap_forms)
      case (internal r')
      have "r_reference r = r_reference r'" using cat(2) unfolding x(2) internal(2) by simp
      then have "Some r = Some r'" using x(1) internal(1) by metis
      then show ?thesis using x(2) internal(2) by simp
    next
      case (one_side e c)
      then have "x_category x = CategoryDuplicate \<or> x_category x = CategoryUnmatchedExternal" unfolding cat(1) by simp
      then show ?thesis using cats unfolding x(2) by blast
    next
      case (two_sides e r)
      then have "x_category x = CategoryAmountMismatch" unfolding cat(1) by simp
      then show ?thesis using cats unfolding x(2) by blast
    qed
  qed
qed

lemma latest_mset:
  assumes "mset rs = mset rs'" and "inj_on r_reference {r \<in> set rs. r_type r \<noteq> TypeReversal}"
  shows "latest rs = latest rs'"
proof
  fix k
  have set_eq: "set rs' = set rs" using assms(1) mset_eq_setD by metis
  show "latest rs k = latest rs' k"
  proof (cases "latest rs k")
    case None
    then have "latest rs' k = None" unfolding latest_None set_eq .
    then show ?thesis using None by simp
  next
    case (Some r)
    then have "latest rs' k \<noteq> None" using latest_None [of rs' k] set_eq latest_Some [OF Some] by auto
    then obtain r' where r': "latest rs' k = Some r'" by blast
    have "r = r'"
      using latest_Some [OF Some] latest_Some [OF r'] set_eq by (intro inj_onD [OF assms(2)]) auto
    then show ?thesis using Some r' by simp
  qed
qed

lemma rows_order:
  assumes "mset rs = mset rs'" and "inj_on r_reference {r \<in> set rs. r_type r \<noteq> TypeReversal}"
    and "mset es = mset es'" and "one_row_per_ref es" and "enumerates order rs" and "enumerates order' rs'"
  shows "reference_match order rs es window = reference_match order' rs' es' window"
proof -
  have l: "latest rs = latest rs'" by (rule latest_mset [OF assms(1,2)])
  have sets: "set rs' = set rs" "set es' = set es" using assms(1,3) mset_eq_setD by metis+
  have rv: "reversal_settled rs = reversal_settled rs'" by (simp add: fun_eq_iff reversal_settled_def sets)
  have fv: "first_verdict rs window = first_verdict rs' window" by (simp add: fun_eq_iff first_verdict_def l)
  have gap: "internal_gap rs es = internal_gap rs' es'" by (simp add: fun_eq_iff internal_gap_def l rv sets)
  have one: "one_row_per_ref es'" using assms(4) sets by (simp add: one_row_per_ref_def)
  have "mset order = mset order'"
    by (rule enumerates_mset [OF assms(5,6)]) (simp add: internal_refs_def sets)
  then have "mset (external_gaps rs window es @ List.map_filter (internal_gap rs es) order)
      = mset (external_gaps rs' window es' @ List.map_filter (internal_gap rs' es') order')"
    using map_filter_mset gap by (simp add: gaps_mset [OF assms(4)] gaps_mset [OF one] gap_mset_def fv sets assms(3))
  then have "sortExceptions (external_gaps rs window es @ List.map_filter (internal_gap rs es) order)
      = sortExceptions (external_gaps rs' window es' @ List.map_filter (internal_gap rs' es') order')"
    unfolding sortExceptions_def by (rule sort_key_mset) (rule gaps_inj [OF assms(4)])
  then show ?thesis
    by (simp add: reference_match_def clean_rows_set [OF assms(4)] clean_rows_set [OF one] fv sets)
qed

end
