(* ===== verification/MatcherClaims.thy ===== *)
theory MatcherClaims
  imports MatcherOrder
begin

text \<open>
  The properties of reconciliation matching.
\<close>

section \<open>Witness data\<close>

definition demo_record :: "string \<Rightarrow> int \<Rightarrow> string \<Rightarrow> time \<Rightarrow> canonical_record" where
  "demo_record ref amt st at =
     \<lparr>r_transaction_id = [], r_reference = ref, r_source = ''CUST-001'', r_destination = ''CUST-002'',
      r_amount = word_of_int amt, r_currency = ''NGN'', r_type = TypeTransfer, r_status = st, r_initiated_at = at,
      r_settled_at = None, r_metadata = []\<rparr>"

definition demo_internal :: "canonical_record list" where
  "demo_internal = [demo_record ''A'' 5 StatusSettled 0, demo_record ''B'' 7 StatusFailed 0, demo_record ''C'' 9 StatusSettled 0]"

definition demo_external :: "canonical_record list" where
  "demo_external = [demo_record ''A'' 5 StatusSettled 0, demo_record ''A'' 5 StatusSettled 0, demo_record ''C'' 8 StatusSettled 0,
     demo_record ''D'' 1 StatusSettled 0]"

lemma demo_record_simps [simp]:
  "r_reference (demo_record ref amt st at) = ref" "r_type (demo_record ref amt st at) = TypeTransfer"
  "r_amount (demo_record ref amt st at) = word_of_int amt" "r_status (demo_record ref amt st at) = st"
  "r_initiated_at (demo_record ref amt st at) = at" "r_currency (demo_record ref amt st at) = ''NGN''"
  by (simp_all add: demo_record_def)

lemma demo_enumerates: "enumerates [''A'', ''B'', ''C''] demo_internal" "enumerates [''C'', ''A'', ''B''] demo_internal"
proof -
  have "internal_refs demo_internal = {''A'', ''B'', ''C''}"
  proof -
    have "internal_refs rs = set (map r_reference (filter (\<lambda>r. r_type r \<noteq> TypeReversal) rs))" for rs
      by (auto simp: internal_refs_def)
    from this [of demo_internal] show ?thesis by (simp add: demo_internal_def del: set_map set_filter)
  qed
  then show "enumerates [''A'', ''B'', ''C''] demo_internal" "enumerates [''C'', ''A'', ''B''] demo_internal"
    by (auto simp: enumerates_def)
qed

section \<open>What the report says\<close>

text \<open>C27. The one-pass matcher, with its mutable index and its seen set, computes the reference definition:
  each row of the file gets a verdict from its position and the latest internal record of its reference,
  each internal reference the file never names becomes a leftover, and the whole is stably sorted.\<close>

theorem matcher_equivalence:
  "Match order rs (map Inr es) window = Inr (reference_match order rs es window)"
  by (rule Match_reference)

text \<open>C28. Nothing is lost or counted twice: every row of the external file is matched, a duplicate,
  unknown internally or a mismatch, every internal reference is matched, mismatched, unmatched or a
  pending reversal, and the exceptions come out in category, reference and delta order.\<close>

theorem matcher_accounts_for_everything:
  assumes "enumerates order rs" and "Match order rs (map Inr es) window = Inr res"
  shows "mr_matched res + count_cat CategoryDuplicate (mr_exceptions res)
       + count_cat CategoryUnmatchedExternal (mr_exceptions res)
       + count_cat CategoryAmountMismatch (mr_exceptions res) = length es
     \<and> mr_matched res + count_cat CategoryAmountMismatch (mr_exceptions res)
       + count_cat CategoryUnmatchedInternal (mr_exceptions res)
       + count_cat CategoryPendingReversal (mr_exceptions res) = card (internal_refs rs)
     \<and> sorted (map exception_key (mr_exceptions res))"
proof -
  let ?ext = "external_gaps rs window es" and ?left = "List.map_filter (internal_gap rs es) order"
  have res: "res = reference_match order rs es window" using assms(2) by (simp add: Match_reference)
  have split: "card (internal_refs rs) = card (internal_refs rs \<inter> r_reference ` set es) + card (internal_refs rs - r_reference ` set es)"
    by (metis card_Int_Diff finite_internal_refs)
  show ?thesis
    unfolding res reference_match_def
    using rows_accounted [of rs window es] leftover_counts [of rs es order] named_refs_accounted [of rs window es]
      leftovers_accounted [OF assms(1), of es] split
    by (simp add: sortExceptions_def [symmetric]) (simp add: sortExceptions_def)
qed

text \<open>The runtime's map iteration order never shows: for any internal and external input, malformed
  rows included, two runs that iterate over the index in different orders give the same result.\<close>

theorem iteration_order_is_invisible:
  assumes "enumerates order rs" and "enumerates order' rs"
  shows "Match order rs external window = Match order' rs external window"
proof (cases "\<exists>es. external = map Inr es")
  case True
  then show ?thesis
    using iteration_order [OF assms] by (auto simp: Match_reference reference_match_def)
next
  case False
  have "(\<exists>es. xs = map Inr es) \<or> (\<exists>e. \<forall>st. match_stream window xs st = Inl e)" for xs
  proof (induction xs)
    case (Cons x xs)
    then show ?case
    proof (cases x)
      case (Inr r)
      have "map Inr (r # es) = Inr r # map Inr es" for es by simp
      then show ?thesis using Cons Inr by (metis match_stream.simps(3))
    qed simp
  qed simp
  then obtain e where "match_stream window external st = Inl e" for st using False by metis
  then show ?thesis by (simp add: Match_def split: prod.split)
qed

text \<open>The report does not depend on the order of the rows on either side, as long as a reference names
  one transfer internally and one row externally, however often it is repeated.\<close>

theorem row_order_is_invisible:
  assumes "mset rs = mset rs'" and "inj_on r_reference {r \<in> set rs. r_type r \<noteq> TypeReversal}"
    and "mset es = mset es'" and "one_row_per_ref es" and "enumerates order rs" and "enumerates order' rs'"
  shows "Match order rs (map Inr es) window = Match order' rs' (map Inr es') window"
  using rows_order [OF assms] by (simp add: Match_reference)

text \<open>Without that condition it does depend on it, although the matcher says it is independent of the
  row order: two rows of one reference with different amounts give a match and a duplicate one way round,
  a mismatch and a duplicate the other.\<close>

theorem row_order_shows_in_duplicates:
  "\<exists>rs es es' res res'. mset es = mset es'
     \<and> Match [''A''] rs (map Inr es) 120 = Inr res \<and> Match [''A''] rs (map Inr es') 120 = Inr res'
     \<and> mr_matched res = 1 \<and> mr_matched res' = 0 \<and> mr_exceptions res \<noteq> mr_exceptions res'"
proof -
  let ?a = "demo_record ''A'' 5 StatusSettled 0" and ?b = "demo_record ''A'' 6 StatusSettled 0"
  let ?m = "\<lambda>es. reference_match [''A''] [?a] es 120"
  have "mr_matched (?m [?a, ?b]) = 1" "mr_matched (?m [?b, ?a]) = 0"
    by code_simp+
  moreover have "map x_category (mr_exceptions (?m [?a, ?b])) = [CategoryDuplicate]"
    "map x_category (mr_exceptions (?m [?b, ?a])) = [CategoryAmountMismatch, CategoryDuplicate]"
    by code_simp+
  ultimately have "mr_matched (?m [?a, ?b]) = 1 \<and> mr_matched (?m [?b, ?a]) = 0 \<and> mr_exceptions (?m [?a, ?b]) \<noteq> mr_exceptions (?m [?b, ?a])"
    by (metis list.distinct(1) list.inject)
  moreover have "mset [?a, ?b] = mset [?b, ?a]" by simp
  ultimately show ?thesis using Match_reference by metis
qed

text \<open>A row that cannot be read fails the whole run: no result is produced, exactly when some \<open>Next\<close>
  fails, and the error wraps the first such failure.\<close>

theorem unreadable_row_fails_the_run:
  "Match order rs external window = Inl e \<longleftrightarrow>
     (\<exists>es e' more. external = map Inr es @ Inl e' # more \<and> e = Wrap ''read external record: '' e' [])"
proof -
  have "Match order rs external window = Inl e \<longleftrightarrow> match_stream window external
      \<lparr>ms_index = fst (build_index rs), ms_seen = (\<lambda>_. False), ms_matched = 0, ms_exceptions = []\<rparr> = Inl e"
    by (simp add: Match_def split: prod.split sum.split)
  then show ?thesis by (simp only: match_stream_error)
qed

text \<open>The tolerance window fails open: an external time more than 292 years after the internal one
  saturates the subtraction at the least duration, whose negation is itself, so the pair counts as within
  any window, while the same distance the other way round is refused by every smaller window.\<close>

theorem far_future_is_within_the_window:
  assumes "b - a \<ge> 2 ^ 63" and "0 < sint window" and "a \<noteq> zero_time" and "b \<noteq> zero_time"
  shows "withinWindow a b window \<and> (withinWindow b a window \<longleftrightarrow> sint window = i64_max)"
proof -
  have low: "time_Sub a b = word_of_int i64_min" using assms(1) by (simp add: time_Sub_def i64_min_def i64_max_def)
  have high: "time_Sub b a = word_of_int i64_max" using assms(1) by (simp add: time_Sub_def i64_min_def i64_max_def)
  have "sint (word_of_int i64_min :: i64) = i64_min" "sint (word_of_int i64_max :: i64) = i64_max"
    by (rule sint_of_int_i64, simp add: in_i64_def i64_min_def i64_max_def)+
  moreover have "- (word_of_int i64_min :: i64) = word_of_int i64_min" by (simp add: i64_min_def)
  moreover have "sint window \<le> i64_max" using sint_i64_bounds(2) [of window] by (simp add: i64_max_def)
  ultimately show ?thesis
    using assms(2-4) by (auto simp: withinWindow_def low high Let_def i64_min_def i64_max_def)
qed

section \<open>Witnesses\<close>

lemma matcher_accounts_for_everything_witness:
  "card (internal_refs demo_internal) = 3"
proof -
  let ?r = "reference_match [''A'', ''B'', ''C''] demo_internal demo_external 120"
  have "Match [''A'', ''B'', ''C''] demo_internal (map Inr demo_external) 120 = Inr ?r" by (rule Match_reference)
  from matcher_accounts_for_everything [OF demo_enumerates(1) this]
  have "mr_matched ?r + count_cat CategoryAmountMismatch (mr_exceptions ?r)
       + count_cat CategoryUnmatchedInternal (mr_exceptions ?r)
       + count_cat CategoryPendingReversal (mr_exceptions ?r) = card (internal_refs demo_internal)" by blast
  moreover have "mr_matched ?r + count_cat CategoryAmountMismatch (mr_exceptions ?r)
       + count_cat CategoryUnmatchedInternal (mr_exceptions ?r)
       + count_cat CategoryPendingReversal (mr_exceptions ?r) = 3" by code_simp
  ultimately show ?thesis by simp
qed

lemma iteration_order_is_invisible_witness:
  "Match [''A'', ''B'', ''C''] demo_internal (map Inr demo_external) 120 = Match [''C'', ''A'', ''B''] demo_internal (map Inr demo_external) 120"
  by (rule iteration_order_is_invisible [OF demo_enumerates])

lemma row_order_is_invisible_witness:
  "Match [''A'', ''B'', ''C''] demo_internal (map Inr demo_external) 120
   = Match [''C'', ''A'', ''B''] demo_internal (map Inr (rev demo_external)) 120"
  by (rule row_order_is_invisible [OF _ _ _ _ demo_enumerates])
    (auto simp: demo_internal_def demo_external_def one_row_per_ref_def inj_on_def)

lemma far_future_is_within_the_window_witness:
  "withinWindow 1780000000000000000 13569465600000000000 120000000000"
proof -
  have "sint (120000000000 :: i64) = 120000000000" using sint_of_int_i64 [of 120000000000] by (simp add: in_i64_def)
  then show ?thesis
    using far_future_is_within_the_window [of 13569465600000000000 1780000000000000000 120000000000]
    by (simp add: zero_time_def)
qed

end
