(* ===== verification/Mockrail.thy ===== *)
theory Mockrail
  imports Complex_Main World
begin

text \<open>
  \<open>internal/mockrail/server.go\<close>: the rail simulator the switch is run against. Each decision is a
  threshold on a hash of the seed, the reference and the dimension. A \<open>float64\<close> is the rational it
  denotes; \<open>float64(h)\<close> of an integer rounds to 53 bits, ties to even, which the comparison sees.
  What the simulator hands to the callback goroutines is the list of callbacks it started.
\<close>

unbundle bit_operations_syntax

section \<open>Configuration\<close>

record rail_config =
  rl_latency :: time
  rl_seed :: i64
  rl_p_timeout :: rat
  rl_p_decline :: rat
  rl_p_duplicate :: rat
  rl_p_tsq_timeout :: rat
  rl_callback :: bool

definition NewServer :: "time \<Rightarrow> rail_config" where
  "NewServer latency = \<lparr>rl_latency = latency, rl_seed = 0, rl_p_timeout = 0, rl_p_decline = 0, rl_p_duplicate = 0,
     rl_p_tsq_timeout = 0, rl_callback = False\<rparr>"

section \<open>u01\<close>

text \<open>\<open>hash/fnv\<close>'s 64-bit FNV-1a over a list of bytes.\<close>

definition fnv_offset :: "64 word" where "fnv_offset = 14695981039346656037"
definition fnv_prime :: "64 word" where "fnv_prime = 1099511628211"

fun fnv64a :: "64 word list \<Rightarrow> 64 word \<Rightarrow> 64 word" where
  "fnv64a [] h = h"
| "fnv64a (b # bs) h = fnv64a bs ((h XOR b) * fnv_prime)"

definition seed_bytes :: "i64 \<Rightarrow> 64 word list" where
  "seed_bytes seed = map (\<lambda>i. take_bit 8 (drop_bit (8 * i) seed)) [0..<8]"

definition text_bytes :: "string \<Rightarrow> 64 word list" where
  "text_bytes s = map of_char s"

definition u01_hash :: "i64 \<Rightarrow> string \<Rightarrow> string \<Rightarrow> 64 word" where
  "u01_hash seed ref dimension =
     fnv64a (seed_bytes seed @ text_bytes ref @ [0] @ text_bytes dimension) fnv_offset"

text \<open>\<open>float64(h)\<close>: bits beyond the 53rd are rounded, ties to even.\<close>

function excess_bits :: "int \<Rightarrow> nat" where
  "excess_bits n = (if n < 2 ^ 53 then 0 else Suc (excess_bits (n div 2)))"
  by auto
termination by (relation "measure nat") auto

definition float64_of_int :: "int \<Rightarrow> int" where
  "float64_of_int n =
     (let u = 2 ^ excess_bits n; q = n div u; r = n mod u
      in (if u < 2 * r \<or> u = 2 * r \<and> odd q then q + 1 else q) * u)"

definition u01 :: "i64 \<Rightarrow> string \<Rightarrow> string \<Rightarrow> rat" where
  "u01 seed ref dimension = of_int (float64_of_int (uint (u01_hash seed ref dimension))) / 2 ^ 64"

definition fires :: "rail_config \<Rightarrow> string \<Rightarrow> string \<Rightarrow> rat \<Rightarrow> bool" where
  "fires cfg ref dimension p =
     (if p \<le> 0 then False else if p \<ge> 1 then True else u01 (rl_seed cfg) ref dimension < p)"

definition trueDecline :: "rail_config \<Rightarrow> string \<Rightarrow> bool" where
  "trueDecline cfg ref = fires cfg ref ''decline'' (rl_p_decline cfg)"

section \<open>The handlers\<close>

text \<open>\<open>delay\<close>: \<open>ctx\<close> is the error of a context that is done before the latency has passed.\<close>

definition rail_delay :: "rail_config \<Rightarrow> err option \<Rightarrow> err option" where
  "rail_delay cfg ctx = (if rl_latency cfg \<le> 0 then None else ctx)"

definition SendToRail :: "rail_config \<Rightarrow> err option \<Rightarrow> string \<Rightarrow> (err + rail_status) \<times> (string \<times> bool) list" where
  "SendToRail cfg ctx ref =
     (case rail_delay cfg ctx of
        Some e \<Rightarrow> (Inl e, [])
      | None \<Rightarrow>
          if fires cfg ref ''send_timeout'' (rl_p_timeout cfg)
          then (Inl (GrpcStatus GrpcDeadlineExceeded ''rail timed out (no answer)''), [])
          else if trueDecline cfg ref then (Inr RAIL_STATUS_DECLINED, [])
          else (Inr RAIL_STATUS_SUCCESS,
            if rl_callback cfg \<and> fires cfg ref ''duplicate'' (rl_p_duplicate cfg)
            then [(ref, False), (ref, False)] else []))"

definition QueryStatus :: "rail_config \<Rightarrow> err option \<Rightarrow> string \<Rightarrow> err + rail_status" where
  "QueryStatus cfg ctx ref =
     (case rail_delay cfg ctx of
        Some e \<Rightarrow> Inl e
      | None \<Rightarrow>
          if fires cfg ref ''tsq_timeout'' (rl_p_tsq_timeout cfg)
          then Inl (GrpcStatus GrpcDeadlineExceeded ''tsq timed out'')
          else if trueDecline cfg ref then Inr RAIL_STATUS_DECLINED
          else Inr RAIL_STATUS_SUCCESS)"

section \<open>Rounding\<close>

lemmas [simp del] = excess_bits.simps

lemma excess_bits_small: "n < 2 ^ 53 \<Longrightarrow> excess_bits n = 0"
  by (subst excess_bits.simps) simp

lemma excess_bits_bounds: "2 ^ 53 \<le> n \<Longrightarrow> 2 ^ (excess_bits n + 52) \<le> n \<and> n < 2 ^ (excess_bits n + 53)"
proof (induction n rule: excess_bits.induct)
  case (1 n)
  have e: "excess_bits n = Suc (excess_bits (n div 2))" using 1 by (subst excess_bits.simps) simp
  show ?case
  proof (cases "n < 2 ^ 54")
    case True
    then have "n div 2 < 2 ^ 53" by simp
    then show ?thesis using 1 True by (simp add: e excess_bits_small)
  next
    case False
    then have "2 ^ 53 \<le> n div 2" by simp
    then have "2 ^ (excess_bits (n div 2) + 52) \<le> n div 2 \<and> n div 2 < 2 ^ (excess_bits (n div 2) + 53)"
      using 1 by simp
    moreover have "2 * a \<le> n" "n < 2 * b" if "a \<le> n div 2" "n div 2 < b" for a b
      using that by presburger+
    ultimately have "2 * 2 ^ (excess_bits (n div 2) + 52) \<le> n" "n < 2 * 2 ^ (excess_bits (n div 2) + 53)"
      by blast+
    then show ?thesis unfolding e by (simp only: add_Suc power_Suc)
  qed
qed

lemma excess_bits_unique:
  assumes "2 ^ (k + 52) \<le> n" and "n < 2 ^ (k + 53)" and "0 < k"
  shows "excess_bits n = k"
proof -
  have big: "2 ^ 53 \<le> n"
  proof -
    have "(2::int) ^ 53 \<le> 2 ^ (k + 52)" by (rule power_increasing) (use assms(3) in auto)
    then show ?thesis using assms(1) by linarith
  qed
  note b = excess_bits_bounds [OF big]
  have "excess_bits n + 52 < k + 53" "k + 52 < excess_bits n + 53"
  proof -
    have "(2::int) ^ (excess_bits n + 52) < 2 ^ (k + 53)" "(2::int) ^ (k + 52) < 2 ^ (excess_bits n + 53)"
      using b assms by linarith+
    then show "excess_bits n + 52 < k + 53" "k + 52 < excess_bits n + 53"
      using power_less_imp_less_exp [of "2::int"] by simp_all
  qed
  then show ?thesis by simp
qed

text \<open>\<open>float64\<close> of a \<open>uint64\<close> is between 0 and \<open>2^64\<close>, and reaches \<open>2^64\<close> from the top 1024 values.\<close>

lemma float64_range:
  assumes "0 \<le> n" and "n < 2 ^ 64"
  shows "0 \<le> float64_of_int n \<and> float64_of_int n \<le> 2 ^ 64 \<and> (float64_of_int n = 2 ^ 64 \<longleftrightarrow> 2 ^ 64 - 1024 \<le> n)"
proof (cases "n < 2 ^ 63")
  case True
  show ?thesis
  proof (cases "n < 2 ^ 53")
    case True
    then show ?thesis using assms by (simp add: float64_of_int_def excess_bits_small)
  next
    case False
    let ?k = "excess_bits n" and ?u = "2 ^ excess_bits n :: int"
    have b: "2 ^ (?k + 52) \<le> n" "n < 2 ^ (?k + 53)" using excess_bits_bounds [of n] False by simp_all
    have "?k + 52 < 63" using b(1) \<open>n < 2 ^ 63\<close> power_less_imp_less_exp [of "2::int" "?k + 52" 63] by linarith
    then have k: "?k + 53 \<le> 63" by simp
    have q: "n div ?u < 2 ^ 53"
    proof (rule ccontr)
      assume "\<not> n div ?u < 2 ^ 53"
      have "0 \<le> n mod ?u" by simp
      then have le: "n div ?u * ?u \<le> n" using div_mult_mod_eq [of n ?u] by linarith
      from \<open>\<not> n div ?u < 2 ^ 53\<close> have "2 ^ 53 * ?u \<le> n div ?u * ?u" by (intro mult_right_mono) auto
      also note le
      finally show False using b(2) by (simp add: power_add)
    qed
    have "float64_of_int n \<le> 2 ^ 53 * ?u"
      using q by (simp add: float64_of_int_def Let_def)
    also have "\<dots> = 2 ^ (?k + 53)" by (simp add: power_add)
    also have "\<dots> \<le> (2::int) ^ 63" by (rule power_increasing) (use k in auto)
    finally have "float64_of_int n \<le> 2 ^ 63" .
    moreover have "0 \<le> n div ?u" using assms(1) by (simp add: pos_imp_zdiv_nonneg_iff)
    then have "0 \<le> float64_of_int n" by (simp add: float64_of_int_def Let_def)
    ultimately show ?thesis using True by auto
  qed
next
  case False
  then have e: "excess_bits n = 11" by (intro excess_bits_unique) (use assms in auto)
  define q r where "q = n div 2048" and "r = n mod 2048"
  then have n: "n = 2048 * q + r" "0 \<le> r" "r < 2048" by simp_all
  then have q: "0 \<le> q" "q \<le> 2 ^ 53 - 1" using assms by auto
  have f: "float64_of_int n = (if 1024 < r \<or> r = 1024 \<and> odd q then q + 1 else q) * 2048"
    by (auto simp: float64_of_int_def e Let_def q_def r_def)
  show ?thesis
  proof (cases "q = 2 ^ 53 - 1")
    case True
    then have "odd q" by simp
    then show ?thesis using f n True by auto
  next
    case False
    then have "q \<le> 2 ^ 53 - 2" using q by simp
    then show ?thesis using f n q by auto
  qed
qed

lemma u01_range: "0 \<le> u01 seed ref dm \<and> u01 seed ref dm \<le> 1"
proof -
  have "0 \<le> uint (u01_hash seed ref dm)" "uint (u01_hash seed ref dm) < 2 ^ 64"
    using uint_bounded [of "u01_hash seed ref dm"] by simp_all
  note f = float64_range [OF this]
  then have "(0::rat) \<le> of_int (float64_of_int (uint (u01_hash seed ref dm)))"
    "(of_int (float64_of_int (uint (u01_hash seed ref dm))) :: rat) \<le> of_int (2 ^ 64)"
    by (simp_all only: of_int_0_le_iff of_int_le_iff)
  then show ?thesis by (simp add: u01_def)
qed

end
