(* ===== verification/RailClaims.thy ===== *)
theory RailClaims
  imports SwitchClaims Mockrail
begin

text \<open>
  The properties of the rail simulator, and of the switch run against it: the simulator is a rail that
  tells the truth whenever it answers, which is all the switch needs.
\<close>

definition rail_truth :: "rail_config \<Rightarrow> string \<Rightarrow> rail_status" where
  "rail_truth cfg ref = (if trueDecline cfg ref then RAIL_STATUS_DECLINED else RAIL_STATUS_SUCCESS)"

definition mockrail_answer :: "rail_config \<Rightarrow> string \<Rightarrow> rail_status \<Rightarrow> bool" where
  "mockrail_answer cfg ref s \<longleftrightarrow> (\<exists>ctx. fst (SendToRail cfg ctx ref) = Inr s \<or> QueryStatus cfg ctx ref = Inr s)"

lemma Send_cases:
  "(\<exists>e. SendToRail cfg ctx ref = (Inl e, []) \<and> (ctx = Some e \<or> errors_as_grpc e = Some GrpcDeadlineExceeded))
   \<or> fst (SendToRail cfg ctx ref) = Inr (rail_truth cfg ref)
     \<and> set (snd (SendToRail cfg ctx ref)) \<subseteq> {(ref, False)} \<and> length (snd (SendToRail cfg ctx ref)) \<le> 2
     \<and> (snd (SendToRail cfg ctx ref) \<noteq> [] \<longrightarrow> rail_truth cfg ref = RAIL_STATUS_SUCCESS)"
  by (cases ctx) (auto simp: SendToRail_def rail_truth_def rail_delay_def)

lemma Query_cases:
  "(\<exists>e. QueryStatus cfg ctx ref = Inl e \<and> (ctx = Some e \<or> errors_as_grpc e = Some GrpcDeadlineExceeded))
   \<or> QueryStatus cfg ctx ref = Inr (rail_truth cfg ref)"
  by (cases ctx) (auto simp: QueryStatus_def rail_truth_def rail_delay_def)

lemma mockrail_answer_truth: "mockrail_answer cfg ref s \<Longrightarrow> s = rail_truth cfg ref"
  unfolding mockrail_answer_def
proof (elim exE disjE)
  fix ctx
  assume "fst (SendToRail cfg ctx ref) = Inr s"
  then show ?thesis using Send_cases [of cfg ctx ref] by auto
next
  fix ctx
  assume "QueryStatus cfg ctx ref = Inr s"
  then show ?thesis using Query_cases [of cfg ctx ref] by auto
qed

text \<open>The simulated rail never contradicts itself: whatever it answers about a reference, on the send or
  on any status query, at any time, is the same definite outcome, every failure to answer is one the
  switch takes for "no answer" (a deadline) or the caller's own context, and the duplicate callbacks are
  success callbacks for transfers that did succeed, at most two of them.\<close>

theorem rail_never_contradicts_itself:
  assumes "mockrail_answer cfg ref s" and "mockrail_answer cfg ref s'"
  shows "s = s' \<and> s \<noteq> RAIL_STATUS_UNSPECIFIED
    \<and> (\<forall>e. fst (SendToRail cfg ctx ref) = Inl e \<longrightarrow> ctx \<noteq> Some e \<longrightarrow> isIndeterminate e)
    \<and> (\<forall>e. QueryStatus cfg ctx ref = Inl e \<longrightarrow> ctx \<noteq> Some e \<longrightarrow> isIndeterminate e)
    \<and> length (snd (SendToRail cfg ctx ref)) \<le> 2
    \<and> (\<forall>cb \<in> set (snd (SendToRail cfg ctx ref)). cb = (ref, False) \<and> s = RAIL_STATUS_SUCCESS)"
proof -
  have s: "s = rail_truth cfg ref" "s' = rail_truth cfg ref" using mockrail_answer_truth assms by blast+
  moreover have "rail_truth cfg ref \<noteq> RAIL_STATUS_UNSPECIFIED" by (simp add: rail_truth_def)
  ultimately show ?thesis
    using Send_cases [of cfg ctx ref] Query_cases [of cfg ctx ref] by (auto simp: isIndeterminate_def)
qed

text \<open>C29. End to end against the simulator, under every interleaving, fault pattern and amount of chaos: a
  transfer the switch settled is one the rail did not decline, one it reversed is one the rail declined,
  a settlement leg is in the ledger only for the former and a reversal leg only for the latter.\<close>

theorem switch_agrees_with_mockrail:
  assumes "fresh_db (w_db w0)" and "world_ok w0"
    and "\<forall>n ref s. e_rail (w_env w0 n) ref = Inr s \<longrightarrow> mockrail_answer cfg ref s"
    and "sw_runs q pc sha (rail_truth cfg) w0 w" and "t \<in> set (transactions (w_db w))" and "lifecycle t"
  shows "(t_status t = statusSettled \<or> leg_posted (w_codec w0) (w_db w) t ''settle'' \<longrightarrow> \<not> trueDecline cfg (t_reference t))
    \<and> (t_status t = statusReversed \<or> leg_posted (w_codec w0) (w_db w) t ''reversal'' \<longrightarrow> trueDecline cfg (t_reference t))"
proof -
  have "driver_env (rail_truth cfg) w0"
    unfolding driver_env_def using assms(2,3) mockrail_answer_truth by blast
  then have inv: "sw_inv (rail_truth cfg) (w_codec w0) (w_db w)" by (rule runs_inv [OF assms(1) _ assms(4)])
  have row: "transfer_row (w_db w) (t_id t) t" using assms(5,6) by (simp add: transfer_row_def)
  let ?leg = "leg_fact (w_codec w0) (w_db w) (t_id t)"
  have sm: "statuses_match (rail_truth cfg) (w_codec w0) t ?leg" by (rule statuses_of [OF inv row])
  have legs: "?leg ''settle'' \<noteq> None \<Longrightarrow> rail_truth cfg (t_reference t) = RAIL_STATUS_SUCCESS"
    "?leg ''reversal'' \<noteq> None \<Longrightarrow> rail_truth cfg (t_reference t) = RAIL_STATUS_DECLINED"
    using legs_truth [OF sm] by blast+
  note out = statuses_outcome(1,2) [OF sm]
  show ?thesis
    unfolding leg_posted_iff [OF inv row leg_names_mem(2)] leg_posted_iff [OF inv row leg_names_mem(3)]
    using legs out by (auto simp: rail_truth_def split: if_splits)
qed

text \<open>The hash is mapped to the unit interval, but not to the half-open one the code's comment promises:
  rounding sends exactly the 1024 greatest hashes to 1. A knob at 0 never fires, one at 1 always does,
  and turning a knob up never stops it from firing.\<close>

theorem u01_bounds:
  "0 \<le> u01 seed ref dm \<and> u01 seed ref dm \<le> 1
   \<and> (u01 seed ref dm = 1 \<longleftrightarrow> 2 ^ 64 - 1024 \<le> uint (u01_hash seed ref dm))
   \<and> \<not> fires cfg ref dm 0 \<and> fires cfg ref dm 1
   \<and> {p. fires cfg ref dm p} = {p. 0 < p \<and> (1 \<le> p \<or> u01 (rl_seed cfg) ref dm < p)}"
proof -
  have h: "0 \<le> uint (u01_hash seed ref dm)" "uint (u01_hash seed ref dm) < 2 ^ 64"
    using uint_bounded [of "u01_hash seed ref dm"] by simp_all
  have "u01 seed ref dm = 1 \<longleftrightarrow> of_int (float64_of_int (uint (u01_hash seed ref dm))) = (of_int (2 ^ 64) :: rat)"
    by (simp add: u01_def)
  also have "\<dots> \<longleftrightarrow> float64_of_int (uint (u01_hash seed ref dm)) = 2 ^ 64" by (rule of_int_eq_iff)
  finally have "u01 seed ref dm = 1 \<longleftrightarrow> 2 ^ 64 - 1024 \<le> uint (u01_hash seed ref dm)" using float64_range [OF h] by simp
  then show ?thesis using u01_range [of seed ref dm] by (auto simp: fires_def)
qed

section \<open>Witnesses\<close>

lemma calm_rail: "mockrail_answer (NewServer 0) ref RAIL_STATUS_SUCCESS" "rail_truth (NewServer 0) = (\<lambda>_. RAIL_STATUS_SUCCESS)"
  by (simp_all add: mockrail_answer_def SendToRail_def QueryStatus_def rail_delay_def NewServer_def trueDecline_def fires_def
      rail_truth_def fun_eq_iff)

lemma rail_never_contradicts_itself_witness: "length (snd (SendToRail (NewServer 0) None ''R'')) \<le> 2"
  using rail_never_contradicts_itself [OF calm_rail(1) calm_rail(1)] by blast

lemma switch_agrees_with_mockrail_witness:
  "\<exists>t \<in> set (transactions (w_db (after_poll RAIL_STATUS_SUCCESS))). t_status t = statusSettled \<and> \<not> trueDecline (NewServer 0) (t_reference t)"
proof -
  obtain t where t: "t \<in> set (transactions (w_db (after_poll RAIL_STATUS_SUCCESS)))" "lifecycle t" "t_status t = statusSettled"
    using demo_settled_row by blast
  have "sane (\<lambda>_. RAIL_STATUS_SUCCESS) (sw_world RAIL_STATUS_SUCCESS)" by (rule sw_world_sane) simp
  then have ok: "world_ok (sw_world RAIL_STATUS_SUCCESS)" by (simp add: sane_def driver_env_def)
  have env: "\<forall>n ref s. e_rail (w_env (sw_world RAIL_STATUS_SUCCESS) n) ref = Inr s \<longrightarrow> mockrail_answer (NewServer 0) ref s"
    using calm_rail(1) by (simp add: sw_world_def world_of_def small_env_def)
  have "\<not> trueDecline (NewServer 0) (t_reference t)"
    using switch_agrees_with_mockrail [OF demo_fresh ok env _ t(1,2)] runs_poll(1) t(3) unfolding calm_rail(2) by blast
  then show ?thesis using t by blast
qed

end
