(* ===== verification/GoCsv.thy ===== *)
theory GoCsv
  imports Strconv
begin

text \<open>
  The parts of \<open>encoding/csv\<close> the settlement adapters use: a \<open>Reader\<close> with comma as separator and its
  defaults otherwise (no comments, strict quotes, no trimming), and a \<open>Writer\<close> with its defaults. The
  reader is a scanner over the bytes after line-end normalisation; the line and column its errors name
  are not modelled. White space of the writer's first-rune test is ASCII.
\<close>

section \<open>Reading\<close>

datatype csv_error = CsvBareQuote | CsvQuote | CsvFieldCount

fun csv_error_msg :: "csv_error \<Rightarrow> string" where
  "csv_error_msg CsvBareQuote = ''bare \" in non-quoted field''"
| "csv_error_msg CsvQuote = ''extraneous or missing \" in quoted-field''"
| "csv_error_msg CsvFieldCount = ''wrong number of fields''"

abbreviation newline :: char where "newline \<equiv> CHR 0x0A"
abbreviation carriage_return :: char where "carriage_return \<equiv> CHR 0x0D"
abbreviation quote_char :: char where "quote_char \<equiv> CHR 0x22"
abbreviation comma :: char where "comma \<equiv> CHR 0x2C"

text \<open>\<open>readLine\<close> turns a final \<open>\r\n\<close> into \<open>\n\<close> and drops a \<open>\r\<close> before the end of the file.\<close>

fun normalize_lines :: "string \<Rightarrow> string" where
  "normalize_lines [] = []"
| "normalize_lines [c] = (if c = carriage_return then [] else [c])"
| "normalize_lines (c # d # cs) =
     (if c = carriage_return \<and> d = newline then newline # normalize_lines cs else c # normalize_lines (d # cs))"

datatype csv_mode = FieldStart | Bare | Quoted | QuoteSeen

text \<open>\<open>readRecord\<close>, called until the end of the file or an error: \<open>f\<close> is the field being read and
  \<open>fs\<close> the fields before it. Empty lines between records are skipped.\<close>

fun csv_scan :: "csv_mode \<Rightarrow> string \<Rightarrow> string list \<Rightarrow> string \<Rightarrow> (csv_error + string list) list" where
  "csv_scan FieldStart f fs [] = (if fs = [] then [] else [Inr (fs @ [[]])])"
| "csv_scan FieldStart f fs (c # cs) =
     (if c = newline then (if fs = [] then csv_scan FieldStart [] [] cs else Inr (fs @ [[]]) # csv_scan FieldStart [] [] cs)
      else if c = comma then csv_scan FieldStart [] (fs @ [[]]) cs
      else if c = quote_char then csv_scan Quoted [] fs cs
      else csv_scan Bare [c] fs cs)"
| "csv_scan Bare f fs [] = [Inr (fs @ [f])]"
| "csv_scan Bare f fs (c # cs) =
     (if c = newline then Inr (fs @ [f]) # csv_scan FieldStart [] [] cs
      else if c = comma then csv_scan FieldStart [] (fs @ [f]) cs
      else if c = quote_char then [Inl CsvBareQuote]
      else csv_scan Bare (f @ [c]) fs cs)"
| "csv_scan Quoted f fs [] = [Inl CsvQuote]"
| "csv_scan Quoted f fs (c # cs) =
     (if c = quote_char then csv_scan QuoteSeen f fs cs else csv_scan Quoted (f @ [c]) fs cs)"
| "csv_scan QuoteSeen f fs [] = [Inr (fs @ [f])]"
| "csv_scan QuoteSeen f fs (c # cs) =
     (if c = quote_char then csv_scan Quoted (f @ [quote_char]) fs cs
      else if c = comma then csv_scan FieldStart [] (fs @ [f]) cs
      else if c = newline then Inr (fs @ [f]) # csv_scan FieldStart [] [] cs
      else [Inl CsvQuote])"

definition csv_rows :: "string \<Rightarrow> (csv_error + string list) list" where
  "csv_rows bytes = csv_scan FieldStart [] [] (normalize_lines bytes)"

text \<open>\<open>FieldsPerRecord\<close> when positive: \<open>Read\<close> reports a record of another length as an error.\<close>

definition check_fields :: "nat \<Rightarrow> csv_error + string list \<Rightarrow> csv_error + string list" where
  "check_fields n r = (case r of Inl e \<Rightarrow> Inl e | Inr fs \<Rightarrow> if length fs = n then Inr fs else Inl CsvFieldCount)"

section \<open>Writing\<close>

definition fieldNeedsQuotes :: "string \<Rightarrow> bool" where
  "fieldNeedsQuotes f =
     (case f of
        [] \<Rightarrow> False
      | c # cs \<Rightarrow> f = [CHR 0x5C, CHR ''.''] \<or> list_ex (\<lambda>x. x \<in> {newline, carriage_return, quote_char, comma}) f \<or> is_space c)"

definition csv_field :: "string \<Rightarrow> string" where
  "csv_field f =
     (if fieldNeedsQuotes f
      then quote_char # concat (map (\<lambda>c. if c = quote_char then [quote_char, quote_char] else [c]) f) @ [quote_char]
      else f)"

fun csv_fields :: "string list \<Rightarrow> string" where
  "csv_fields [] = []"
| "csv_fields [f] = csv_field f"
| "csv_fields (f # fs) = csv_field f @ comma # csv_fields fs"

definition csv_write_row :: "string list \<Rightarrow> string" where
  "csv_write_row fs = csv_fields fs @ [newline]"

section \<open>Reading back what was written\<close>

lemma normalize_lines_id: "carriage_return \<notin> set s \<Longrightarrow> normalize_lines s = s"
  by (induction s rule: normalize_lines.induct) auto

lemma scan_bare:
  "list_all (\<lambda>x. x \<notin> {newline, carriage_return, quote_char, comma}) g \<Longrightarrow>
   csv_scan Bare f fs (g @ rest) = csv_scan Bare (f @ g) fs rest"
  by (induction g arbitrary: f) auto

lemma scan_quoted:
  "csv_scan Quoted f fs (concat (map (\<lambda>c. if c = quote_char then [quote_char, quote_char] else [c]) g) @ rest)
   = csv_scan Quoted (f @ g) fs rest"
  by (induction g arbitrary: f) auto

text \<open>After a written field comes a comma or a line end.\<close>

lemma scan_field:
  assumes "rest = comma # rest' \<or> rest = newline # rest'" and "f \<noteq> [] \<or> fs \<noteq> [] \<or> rest = comma # rest'"
  shows "csv_scan FieldStart [] fs (csv_field f @ rest) =
    (if rest = comma # rest' then csv_scan FieldStart [] (fs @ [f]) rest' else Inr (fs @ [f]) # csv_scan FieldStart [] [] rest')"
proof (cases "fieldNeedsQuotes f")
  case True
  then have "csv_scan FieldStart [] fs (csv_field f @ rest) = csv_scan QuoteSeen f fs rest"
    using scan_quoted [of "[]" fs f "quote_char # rest"] by (simp add: csv_field_def)
  then show ?thesis using assms(1) by auto
next
  case False
  show ?thesis
  proof (cases f)
    case Nil
    then show ?thesis using assms False by (auto simp: csv_field_def)
  next
    case (Cons c g)
    have no: "\<not> list_ex (\<lambda>x. x \<in> {newline, carriage_return, quote_char, comma}) f"
      using False Cons by (simp add: fieldNeedsQuotes_def)
    then have g: "list_all (\<lambda>x. x \<notin> {newline, carriage_return, quote_char, comma}) g"
      and c: "c \<noteq> newline" "c \<noteq> comma" "c \<noteq> quote_char"
      using Cons by (auto simp: list_all_iff list_ex_iff)
    have "csv_scan FieldStart [] fs (csv_field f @ rest) = csv_scan Bare f fs rest"
      using False Cons c scan_bare [OF g, of "[c]" fs rest] by (simp add: csv_field_def)
    then show ?thesis using assms(1) by auto
  qed
qed

lemma scan_fields:
  "row \<noteq> [] \<Longrightarrow> row \<noteq> [[]] \<or> fs \<noteq> [] \<Longrightarrow>
   csv_scan FieldStart [] fs (csv_fields row @ newline # rest) = Inr (fs @ row) # csv_scan FieldStart [] [] rest"
proof (induction row arbitrary: fs rule: csv_fields.induct)
  case (2 f)
  then show ?case using scan_field [of "newline # rest" rest f fs] by auto
next
  case (3 f g gs)
  have "csv_scan FieldStart [] fs (csv_field f @ comma # csv_fields (g # gs) @ newline # rest)
      = csv_scan FieldStart [] (fs @ [f]) (csv_fields (g # gs) @ newline # rest)"
    using scan_field [of "comma # csv_fields (g # gs) @ newline # rest" "csv_fields (g # gs) @ newline # rest" f fs] by simp
  then show ?case using 3 by simp
qed simp

lemma csv_field_no_cr: "carriage_return \<notin> set f \<Longrightarrow> carriage_return \<notin> set (csv_field f)"
  by (auto simp: csv_field_def)

lemma csv_fields_no_cr: "\<forall>f \<in> set row. carriage_return \<notin> set f \<Longrightarrow> carriage_return \<notin> set (csv_fields row)"
  by (induction row rule: csv_fields.induct) (auto simp: csv_field_no_cr)

text \<open>A file of rows without carriage returns, none of them a single empty field, reads back exactly.\<close>

lemma csv_roundtrip:
  assumes "\<forall>row \<in> set rows. row \<noteq> [] \<and> row \<noteq> [[]] \<and> (\<forall>f \<in> set row. carriage_return \<notin> set f)"
  shows "csv_rows (concat (map csv_write_row rows)) = map Inr rows"
proof -
  have "carriage_return \<notin> set (concat (map csv_write_row rows))"
    using assms csv_fields_no_cr by (auto simp: csv_write_row_def)
  moreover have "csv_scan FieldStart [] [] (concat (map csv_write_row rows)) = map Inr rows"
    using assms by (induction rows) (auto simp: csv_write_row_def scan_fields)
  ultimately show ?thesis by (simp add: csv_rows_def normalize_lines_id)
qed

end
