(* ===== verification/GoTime.thy ===== *)
theory GoTime
  imports Money
begin

text \<open>
  The parts of Go's \<open>time\<close> the reconciliation adapters use: \<open>Format(time.RFC3339)\<close> in UTC,
  \<open>time.Parse(time.RFC3339, _)\<close> with its leniencies (a one-digit hour, a fraction of a second after a
  point or a comma, offsets up to 24:60), and the strict form \<open>Time.UnmarshalJSON\<close> demands. An instant
  is nanoseconds since the Unix epoch; the calendar is the proleptic Gregorian one.
\<close>

section \<open>The calendar\<close>

definition is_leap :: "int \<Rightarrow> bool" where
  "is_leap y \<longleftrightarrow> y mod 4 = 0 \<and> (y mod 100 \<noteq> 0 \<or> y mod 400 = 0)"

definition days_in :: "int \<Rightarrow> int \<Rightarrow> int" where
  "days_in y m = (if m = 2 then (if is_leap y then 29 else 28) else if m \<in> {4, 6, 9, 11} then 30 else 31)"

definition days_in_year :: "int \<Rightarrow> int" where
  "days_in_year y = (if is_leap y then 366 else 365)"

text \<open>Days from the first day of year 0 to the first day of year \<open>y\<close>.\<close>

definition days_before_year :: "int \<Rightarrow> int" where
  "days_before_year y = 365 * y + (y + 3) div 4 - (y + 99) div 100 + (y + 399) div 400"

lemma ceil_div_step:
  fixes j k y :: int
  assumes "0 < k" and "j = k - 1"
  shows "(y + 1 + j) div k = (y + j) div k + (if y mod k = 0 then 1 else 0)"
proof -
  define q r where "q = y div k" and "r = y mod k"
  have y: "y = k * q + r" "0 \<le> r" "r < k" using assms by (simp_all add: q_def r_def)
  have up: "(y + 1 + j) div k = q + 1" by (rule int_div_pos_eq [of _ _ _ r]) (use y assms in \<open>simp_all add: algebra_simps\<close>)
  show ?thesis
  proof (cases "r = 0")
    case True
    have "(y + j) div k = q" by (rule int_div_pos_eq [of _ _ _ j]) (use y True assms in simp_all)
    then show ?thesis using up True by (simp add: r_def)
  next
    case False
    have "(y + j) div k = q + 1" by (rule int_div_pos_eq [of _ _ _ "r - 1"]) (use y False assms in \<open>simp_all add: algebra_simps\<close>)
    then show ?thesis using up False by (simp add: r_def)
  qed
qed

lemma days_before_year_step: "days_before_year (y + 1) = days_before_year y + days_in_year y"
proof -
  have c: "(y + 1 + 3) div 4 = (y + 3) div 4 + (if y mod 4 = 0 then 1 else 0)"
    "(y + 1 + 99) div 100 = (y + 99) div 100 + (if y mod 100 = 0 then 1 else 0)"
    "(y + 1 + 399) div 400 = (y + 399) div 400 + (if y mod 400 = 0 then 1 else 0)"
    by (rule ceil_div_step, simp, simp)+
  have dvd: "y mod 400 = 0 \<Longrightarrow> y mod 100 = 0" "y mod 100 = 0 \<Longrightarrow> y mod 4 = 0"
    using dvd_trans [of 100 400 y] dvd_trans [of 4 100 y] by (simp_all add: dvd_eq_mod_eq_0)
  have count: "365 * (y + 1) + (a + (if p then 1 else 0)) - (b + (if q then 1 else 0)) + (d + (if r then 1 else 0))
      = 365 * y + a - b + d + (if p \<and> (\<not> q \<or> r) then 366 else 365)"
    if "r \<longrightarrow> q" "q \<longrightarrow> p" for a b d :: int and p q r
    using that by (cases p; cases q; cases r) simp_all
  show ?thesis
    unfolding days_before_year_def days_in_year_def is_leap_def c by (rule count) (use dvd in simp_all)
qed

definition days_before_month :: "int \<Rightarrow> int \<Rightarrow> int" where
  "days_before_month y m = sum_list (map (days_in y) [1..m - 1])"

definition epoch_days :: int where
  "epoch_days = 719528"

definition day_number :: "int \<Rightarrow> int \<Rightarrow> int \<Rightarrow> int" where
  "day_number y m d = days_before_year y + days_before_month y m + (d - 1)"

text \<open>The year and month a day falls in, by stepping forward from a year that is not too late.\<close>

function year_from :: "int \<Rightarrow> int \<Rightarrow> int" where
  "year_from n y = (if n < days_before_year (y + 1) then y else year_from n (y + 1))"
  by auto
termination
  by (relation "measure (\<lambda>(n, y). nat (n - days_before_year y))")
    (auto simp: days_before_year_step days_in_year_def split: if_splits)

declare year_from.simps [simp del]

fun month_from :: "nat \<Rightarrow> int \<Rightarrow> int \<Rightarrow> int \<Rightarrow> int \<times> int" where
  "month_from 0 y m d = (m, d)"
| "month_from (Suc k) y m d = (if d < days_in y m then (m, d) else month_from k y (m + 1) (d - days_in y m))"

definition civil :: "int \<Rightarrow> int \<times> int \<times> int" where
  "civil n =
     (let y = year_from n (if 0 \<le> n then n div 366 else n div 365 - 1);
          (m, d) = month_from 11 y 1 (n - days_before_year y)
      in (y, m, d + 1))"

section \<open>Format\<close>

definition second :: int where "second = 1000000000"

definition format_rfc3339 :: "time \<Rightarrow> string" where
  "format_rfc3339 t =
     (let s = t div second; (y, m, d) = civil (s div 86400 + epoch_days); r = s mod 86400
      in pad_zero 4 y @ ''-'' @ pad_zero 2 m @ ''-'' @ pad_zero 2 d @ ''T''
         @ pad_zero 2 (r div 3600) @ '':'' @ pad_zero 2 (r div 60 mod 60) @ '':'' @ pad_zero 2 (r mod 60) @ ''Z'')"

section \<open>Parse\<close>

text \<open>\<open>getnum\<close>: one or two digits, exactly two when \<open>fixed\<close>.\<close>

fun getnum :: "bool \<Rightarrow> string \<Rightarrow> (int \<times> string) option" where
  "getnum fixed [] = None"
| "getnum fixed [c] = (if is_digit c \<and> \<not> fixed then Some (int (digit_val c), []) else None)"
| "getnum fixed (c # d # cs) =
     (if \<not> is_digit c then None
      else if is_digit d then Some (10 * int (digit_val c) + int (digit_val d), cs)
      else if fixed then None else Some (int (digit_val c), d # cs))"

fun skip_char :: "char \<Rightarrow> string \<Rightarrow> string option" where
  "skip_char c [] = None"
| "skip_char c (d # ds) = (if c = d then Some ds else None)"

definition parse_year :: "string \<Rightarrow> (int \<times> string) option" where
  "parse_year s =
     (case s of
        a # b # c # d # rest \<Rightarrow>
          if is_digit a \<and> is_digit b \<and> is_digit c \<and> is_digit d
          then Some (1000 * int (digit_val a) + 100 * int (digit_val b) + 10 * int (digit_val c) + int (digit_val d), rest)
          else None
      | _ \<Rightarrow> None)"

definition nanos :: "string \<Rightarrow> int" where
  "nanos ds = (let k = take 9 ds in foldl (\<lambda>n c. 10 * n + int (digit_val c)) 0 k * 10 ^ (9 - length k))"

definition parse_fraction :: "string \<Rightarrow> int \<times> string" where
  "parse_fraction s =
     (case s of
        p # d # _ \<Rightarrow> if (p = CHR ''.'' \<or> p = CHR '','') \<and> is_digit d
          then (nanos (takeWhile is_digit (tl s)), dropWhile is_digit (tl s)) else (0, s)
      | _ \<Rightarrow> (0, s))"

text \<open>\<open>Z07:00\<close>: the offset in seconds.\<close>

definition parse_zone :: "string \<Rightarrow> (int \<times> string) option" where
  "parse_zone s =
     (case s of
        [] \<Rightarrow> None
      | c # cs \<Rightarrow>
          if c = CHR ''Z'' then Some (0, cs)
          else (case cs of
              h1 # h2 # col # m1 # m2 # rest \<Rightarrow>
                if col \<noteq> CHR '':'' then None
                else (case (getnum True [h1, h2], getnum True [m1, m2]) of
                    (Some (h, _), Some (m, _)) \<Rightarrow>
                      if 24 < h \<or> 60 < m then None
                      else if c = CHR ''+'' then Some ((h * 60 + m) * 60, rest)
                      else if c = CHR ''-'' then Some (- ((h * 60 + m) * 60), rest)
                      else None
                  | _ \<Rightarrow> None)
            | _ \<Rightarrow> None))"

definition parse_date :: "string \<Rightarrow> (int \<times> string) option" where
  "parse_date s = Option.bind (parse_year s) (\<lambda>(y, s). Option.bind (skip_char CHR ''-'' s) (\<lambda>s.
     Option.bind (getnum True s) (\<lambda>(m, s). if m < 1 \<or> 12 < m then None else
     Option.bind (skip_char CHR ''-'' s) (\<lambda>s. Option.bind (getnum True s) (\<lambda>(d, s).
       if d < 1 \<or> days_in y m < d then None else Some (day_number y m d, s))))))"

definition parse_clock :: "string \<Rightarrow> (int \<times> string) option" where
  "parse_clock s = Option.bind (getnum False s) (\<lambda>(h, s). if 24 \<le> h then None else
     Option.bind (skip_char CHR '':'' s) (\<lambda>s. Option.bind (getnum True s) (\<lambda>(m, s). if 60 \<le> m then None else
     Option.bind (skip_char CHR '':'' s) (\<lambda>s. Option.bind (getnum True s) (\<lambda>(sec, s).
       if 60 \<le> sec then None
       else (case parse_fraction s of (ns, s) \<Rightarrow> Some (((h * 60 + m) * 60 + sec) * second + ns, s)))))))"

definition parse_rfc3339 :: "string \<Rightarrow> time option" where
  "parse_rfc3339 s = Option.bind (parse_date s) (\<lambda>(day, s). Option.bind (skip_char CHR ''T'' s) (\<lambda>s.
     Option.bind (parse_clock s) (\<lambda>(clock, s). Option.bind (parse_zone s) (\<lambda>(off, s).
       if s \<noteq> [] then None else Some ((day - epoch_days) * 86400 * second + clock - off * second)))))"

text \<open>\<open>parseStrictRFC3339\<close>: what the template parse lets through and RFC 3339 does not.\<close>

definition parse_strict :: "string \<Rightarrow> time option" where
  "parse_strict s =
     (case parse_rfc3339 s of
        None \<Rightarrow> None
      | Some t \<Rightarrow>
          if s ! 12 = CHR '':'' then None
          else if s ! 19 = CHR '','' then None
          else if last s \<noteq> CHR ''Z''
            \<and> (24 \<le> 10 * digit_val (s ! (length s - 5)) + digit_val (s ! (length s - 4))
               \<or> 60 \<le> 10 * digit_val (s ! (length s - 2)) + digit_val (s ! (length s - 1)))
          then None else Some t)"

section \<open>The calendar round-trips\<close>

lemma year_from_spec:
  "days_before_year y \<le> n \<Longrightarrow> days_before_year (year_from n y) \<le> n \<and> n < days_before_year (year_from n y + 1)"
proof (induction n y rule: year_from.induct)
  case (1 n y)
  show ?case
  proof (cases "n < days_before_year (y + 1)")
    case True
    then show ?thesis using 1 by (simp add: year_from.simps [of n y])
  next
    case False
    then show ?thesis using 1 by (simp add: year_from.simps [of n y])
  qed
qed

lemma days_in_bounds: "28 \<le> days_in y m \<and> days_in y m \<le> 31"
  by (simp add: days_in_def)

lemma days_before_month_step: "1 \<le> m \<Longrightarrow> days_before_month y (m + 1) = days_before_month y m + days_in y m"
proof -
  assume "1 \<le> m"
  then have "[1..m] = [1..m - 1] @ [m]" using upto_rec2 [of 1 m] by simp
  then show ?thesis by (simp add: days_before_month_def)
qed

lemma month_from_spec:
  assumes "1 \<le> m" "0 \<le> d" "m + int k = 12" "d < days_in_year y - days_before_month y m"
  shows "case month_from k y m d of (m', d') \<Rightarrow> 1 \<le> m' \<and> m' \<le> 12 \<and> 0 \<le> d' \<and> d' < days_in y m'
    \<and> days_before_month y m' + d' = days_before_month y m + d"
  using assms
proof (induction k arbitrary: m d)
  case 0
  have "days_before_month y 12 = days_in_year y - 31"
    by (simp add: days_before_month_def days_in_year_def days_in_def upto.simps)
  then show ?case using 0 by (simp add: days_in_def)
next
  case (Suc k)
  show ?case
  proof (cases "d < days_in y m")
    case True
    then show ?thesis using Suc.prems by simp
  next
    case False
    then show ?thesis
      using Suc.IH [of "m + 1" "d - days_in y m"] Suc.prems days_before_month_step [of m y]
      by (simp add: algebra_simps split: prod.splits)
  qed
qed

lemma year_start: "days_before_year (if 0 \<le> n then n div 366 else n div 365 - 1) \<le> n"
proof -
  have start: "days_before_year y \<le> n" if y: "y = (if 0 \<le> n then n div 366 else n div 365 - 1)" for y
  proof -
    define a b c where "a = (y + 3) div 4" and "b = (y + 99) div 100" and "c = (y + 399) div 400"
    have "4 * a \<le> y + 3" "y \<le> 100 * b" "400 * c \<le> y + 399" unfolding a_def b_def c_def by linarith+
    moreover have "365 * y + a - b + c \<le> 366 * y" if "y \<in> {0, 1, 2}" using that by (auto simp: a_def b_def c_def)
    moreover have "0 \<le> n \<Longrightarrow> 366 * y \<le> n \<and> 0 \<le> y" "n < 0 \<Longrightarrow> 365 * y + 365 \<le> n \<and> y < 0"
      using y by (simp_all add: pos_imp_zdiv_nonneg_iff) (linarith+)
    ultimately show ?thesis
      unfolding days_before_year_def a_def [symmetric] b_def [symmetric] c_def [symmetric]
      by (cases "0 \<le> n"; cases "y \<in> {0, 1, 2}") auto
  qed
  then show ?thesis by blast
qed

lemma civil_spec:
  assumes "civil n = (y, m, d)"
  shows "1 \<le> m \<and> m \<le> 12 \<and> 1 \<le> d \<and> d \<le> days_in y m \<and> day_number y m d = n"
proof -
  define y0 where "y0 = year_from n (if 0 \<le> n then n div 366 else n div 365 - 1)"
  have y0: "days_before_year y0 \<le> n" "n < days_before_year y0 + days_in_year y0"
    using year_from_spec [OF year_start [of n]] by (simp_all add: y0_def days_before_year_step)
  obtain m' d' where md: "month_from 11 y0 1 (n - days_before_year y0) = (m', d')" by force
  have "days_before_month y0 1 = 0" by (simp add: days_before_month_def)
  then have "case month_from 11 y0 1 (n - days_before_year y0) of (m', d') \<Rightarrow> 1 \<le> m' \<and> m' \<le> 12 \<and> 0 \<le> d' \<and> d' < days_in y0 m'
      \<and> days_before_month y0 m' + d' = days_before_month y0 1 + (n - days_before_year y0)"
    by (intro month_from_spec) (use y0 in auto)
  moreover have "y = y0" "m = m'" "d = d' + 1"
    using assms md by (simp_all add: civil_def Let_def y0_def)
  ultimately show ?thesis
    using md by (simp add: day_number_def days_before_month_def)
qed

section \<open>Parsing reads back what formatting wrote\<close>

lemma zero_digit: "digit_char 0 = CHR ''0''"
  by code_simp

lemma replicate_few: "replicate 3 x = [x, x, x]" "replicate 2 x = [x, x]"
  by (simp_all add: numeral_eq_Suc)

text \<open>The four digits of a number below 10000, from its quotients.\<close>

lemma pad_zero_four:
  assumes "n < 10000" and q: "q1 = n div 10" "q2 = q1 div 10" "q3 = q2 div 10"
  shows "pad_zero 4 (int n) = [digit_char q3, digit_char (q2 mod 10), digit_char (q1 mod 10), digit_char (n mod 10)]"
proof -
  have big: "dec_nat m = dec_nat (m div 10) @ [digit_char (m mod 10)]" if "10 \<le> m" for m
    using dec_nat_big [OF that] .
  have q3: "q3 < 10" using assms by simp
  consider "n < 10" | "10 \<le> n" "q1 < 10" | "10 \<le> q1" "q2 < 10" | "10 \<le> q2" by linarith
  then show ?thesis
  proof cases
    case 1
    then have "q1 = 0" "q2 = 0" "q3 = 0" using q by simp_all
    then show ?thesis using 1 by (simp add: pad_zero_def dec_nat_small zero_digit replicate_few)
  next
    case 2
    then have "q2 = 0" "q3 = 0" using q by simp_all
    then show ?thesis
      using 2 big [of n] by (simp add: pad_zero_def dec_nat_small zero_digit replicate_few q(1) [symmetric])
  next
    case 3
    then have "q3 = 0" "10 \<le> n" using q by simp_all
    then show ?thesis
      using 3 big [of n] big [of q1] by (simp add: pad_zero_def dec_nat_small zero_digit replicate_few q(1,2) [symmetric])
  next
    case 4
    then have "10 \<le> q1" "10 \<le> n" using q by simp_all
    then show ?thesis
      using 4 q3 big [of n] big [of q1] big [of q2]
      by (simp add: pad_zero_def dec_nat_small zero_digit replicate_few q [symmetric])
  qed
qed

lemma parse_year_pad: "0 \<le> y \<Longrightarrow> y < 10000 \<Longrightarrow> parse_year (pad_zero 4 y @ rest) = Some (y, rest)"
proof -
  assume y: "0 \<le> y" "y < 10000"
  define n q1 q2 q3 where "n = nat y" and "q1 = n div 10" and "q2 = q1 div 10" and "q3 = q2 div 10"
  have n: "n < 10000" "y = int n" using y by (simp_all add: n_def)
  have q3: "q3 < 10" using n(1) by (simp add: q1_def q2_def q3_def)
  have "n = 10 * q1 + n mod 10" "q1 = 10 * q2 + q1 mod 10" "q2 = 10 * q3 + q2 mod 10"
    by (simp_all add: q1_def q2_def q3_def)
  then have "1000 * q3 + 100 * (q2 mod 10) + 10 * (q1 mod 10) + n mod 10 = n" by linarith
  then have "int (1000 * q3 + 100 * (q2 mod 10) + 10 * (q1 mod 10) + n mod 10) = y" using n(2) by simp
  then have "1000 * int q3 + 100 * int (q2 mod 10) + 10 * int (q1 mod 10) + int (n mod 10) = y"
    by (simp only: of_nat_add of_nat_mult of_nat_numeral)
  then show ?thesis
    using pad_zero_four [OF n(1) q1_def q2_def q3_def] q3 unfolding n(2) by (simp add: parse_year_def)
qed

lemma pad_zero_pair:
  assumes "0 \<le> k" "k < 100"
  shows "pad_zero 2 k = [digit_char (nat k div 10), digit_char (nat k mod 10)]"
proof -
  have lt: "nat k div 10 < 10" "nat k < 100" using assms by simp_all
  show ?thesis
  proof (cases "nat k < 10")
    case True
    then show ?thesis using pad_zero_two [of "nat k"] assms by (simp add: dec_nat_small zero_digit)
  next
    case False
    then have "dec_nat (nat k) = [digit_char (nat k div 10), digit_char (nat k mod 10)]"
      using dec_nat_big [of "nat k"] dec_nat_small [OF lt(1)] by simp
    then show ?thesis using pad_zero_two [OF lt(2)] assms False by simp
  qed
qed

lemma getnum_pad: "0 \<le> k \<Longrightarrow> k < 100 \<Longrightarrow> getnum fixed (pad_zero 2 k @ rest) = Some (k, rest)"
proof -
  assume k: "0 \<le> k" "k < 100"
  have lt: "nat k div 10 < 10" using k by simp
  have "int (10 * (nat k div 10) + nat k mod 10) = k" using k by simp
  then have val: "10 * int (nat k div 10) + int (nat k mod 10) = k" by (simp only: of_nat_add of_nat_mult of_nat_numeral)
  show ?thesis using pad_zero_pair [OF k] lt val by simp
qed

definition in_years :: "time \<Rightarrow> bool" where
  "in_years t \<longleftrightarrow> - 62167219200 * second \<le> t \<and> t < 253402300800 * second"

lemma days_before_year_mono: "y \<le> y' \<Longrightarrow> days_before_year y \<le> days_before_year y'"
proof (induction y' rule: int_ge_induct)
  case (step y')
  then show ?case by (simp add: days_before_year_step days_in_year_def)
qed simp

lemma in_years_civil:
  assumes "in_years t" and "civil (t div second div 86400 + epoch_days) = (y, m, d)"
  shows "0 \<le> y \<and> y < 10000"
proof -
  let ?n = "t div second div 86400 + epoch_days"
  have n: "0 \<le> ?n" "?n < 3652425"
    using assms(1) unfolding in_years_def second_def epoch_days_def by linarith+
  note c = civil_spec [OF assms(2)]
  have month: "0 \<le> days_before_month y m \<and> days_before_month y m + days_in y m \<le> days_in_year y"
  proof -
    have "1 \<le> m" "m \<le> 12" using c by simp_all
    then have "m \<in> set [1..12]" by simp
    then have "m \<in> {1, 2, 3, 4, 5, 6, 7, 8, 9, 10, 11, 12}" by (simp add: upto.simps)
    then show ?thesis
      by (elim insertE) (simp_all add: days_before_month_def days_in_year_def days_in_def upto.simps)
  qed
  have "days_before_year y \<le> ?n" "?n < days_before_year (y + 1)"
    using c month by (simp_all add: day_number_def days_before_year_step)
  moreover have "days_before_year 0 = 0" "days_before_year 10000 = 3652425" by (simp_all add: days_before_year_def)
  ultimately have "\<not> y + 1 \<le> 0" "\<not> 10000 \<le> y"
    using n days_before_year_mono [of "y + 1" 0] days_before_year_mono [of 10000 y] by linarith+
  then show ?thesis by simp
qed

lemma parse_clock_fraction:
  assumes "0 \<le> h" "h < 24" "0 \<le> mi" "mi < 60" "0 \<le> s" "s < 60" and "parse_fraction (f @ ''Z'') = (ns, ''Z'')"
  shows "parse_clock (pad_zero 2 h @ '':'' @ pad_zero 2 mi @ '':'' @ pad_zero 2 s @ f @ ''Z'')
      = Some (((h * 60 + mi) * 60 + s) * second + ns, ''Z'')"
  using assms getnum_pad [of h False] getnum_pad [of mi True] getnum_pad [of s True]
  by (simp add: parse_clock_def)

lemma parse_format:
  assumes "in_years t"
  shows "parse_rfc3339 (format_rfc3339 t) = Some (t div second * second)"
proof -
  let ?s = "t div second"
  obtain y m d where c: "civil (?s div 86400 + epoch_days) = (y, m, d)" by (metis prod_cases3)
  note y = in_years_civil [OF assms c] and md = civil_spec [OF c]
  let ?r = "?s mod 86400"
  have r: "0 \<le> ?r div 3600" "?r div 3600 < 24" "0 \<le> ?r div 60 mod 60" "?r div 60 mod 60 < 60" "0 \<le> ?r mod 60" "?r mod 60 < 60"
    by auto
  have clock: "(?r div 3600 * 60 + ?r div 60 mod 60) * 60 + ?r mod 60 = ?r"
  proof -
    have "?r div 3600 = ?r div 60 div 60" by (simp add: zdiv_zmult2_eq [of 60 ?r 60, simplified])
    then show ?thesis by simp
  qed
  have d: "1 \<le> d" "d < 100" "m < 100" using md days_in_bounds [of y m] by auto
  have date: "parse_date (pad_zero 4 y @ ''-'' @ pad_zero 2 m @ ''-'' @ pad_zero 2 d @ rest) = Some (?s div 86400 + epoch_days, rest)"
    for rest
    using y md d parse_year_pad [of y] getnum_pad [of m True] getnum_pad [of d True] by (simp add: parse_date_def)
  have time: "parse_clock (pad_zero 2 (?r div 3600) @ '':'' @ pad_zero 2 (?r div 60 mod 60) @ '':'' @ pad_zero 2 (?r mod 60) @ ''Z'')
      = Some (?r * second, ''Z'')"
    using parse_clock_fraction [OF r, of "[]" 0] unfolding clock by (simp add: parse_fraction_def)
  have "(?s div 86400) * 86400 + ?r = ?s" by simp
  then have "?s div 86400 * 86400 * second + ?r * second = ?s * second" by (simp flip: distrib_right)
  then show ?thesis
    using date time by (simp add: parse_rfc3339_def format_rfc3339_def Let_def c parse_zone_def)
qed

section \<open>JSON\<close>

text \<open>\<open>Time.MarshalJSON\<close> writes RFC 3339 with the fraction's digits up to the last that is not zero, and
  refuses years outside 0 to 9999.\<close>

fun fixed_digits :: "nat \<Rightarrow> nat \<Rightarrow> string" where
  "fixed_digits 0 n = []"
| "fixed_digits (Suc k) n = fixed_digits k (n div 10) @ [digit_char (n mod 10)]"

definition strip_zeros :: "string \<Rightarrow> string" where
  "strip_zeros s = rev (dropWhile (\<lambda>c. c = CHR ''0'') (rev s))"

definition fraction_text :: "int \<Rightarrow> string" where
  "fraction_text ns = (if ns = 0 then [] else CHR ''.'' # strip_zeros (fixed_digits 9 (nat ns)))"

definition format_nano :: "time \<Rightarrow> string" where
  "format_nano t = butlast (format_rfc3339 t) @ fraction_text (t mod second) @ ''Z''"

definition time_json :: "time \<Rightarrow> string option" where
  "time_json t = (if in_years t then Some (format_nano t) else None)"

definition digits_value :: "string \<Rightarrow> int" where
  "digits_value s = foldl (\<lambda>n c. 10 * n + int (digit_val c)) 0 s"

lemma digits_value_snoc [simp]: "digits_value (s @ [c]) = 10 * digits_value s + int (digit_val c)" "digits_value [] = 0"
  by (simp_all add: digits_value_def)

lemma digits_value_zeros: "digits_value (s @ replicate k CHR ''0'') = digits_value s * 10 ^ k"
proof (induction k)
  case (Suc k)
  have "s @ replicate (Suc k) CHR ''0'' = (s @ replicate k CHR ''0'') @ [CHR ''0'']" by (simp add: replicate_append_same)
  then show ?case using Suc by (simp only: digits_value_snoc) (simp add: digit_val_def)
qed simp

lemma fixed_digits_props: "length (fixed_digits k n) = k" "list_all is_digit (fixed_digits k n)"
  by (induction k arbitrary: n) auto

lemma fixed_digits_value: "n < 10 ^ k \<Longrightarrow> digits_value (fixed_digits k n) = int n"
proof (induction k arbitrary: n)
  case (Suc k)
  then have "n div 10 < 10 ^ k" by (simp add: less_mult_imp_div_less)
  then have IH: "digits_value (fixed_digits k (n div 10)) = int (n div 10)" by (rule Suc.IH)
  have "int (10 * (n div 10) + n mod 10) = int n" by simp
  then have "10 * int (n div 10) + int (n mod 10) = int n" by (simp only: of_nat_add of_nat_mult of_nat_numeral)
  then show ?case using IH by simp
qed simp

lemma strip_zeros_split: "\<exists>k. s = strip_zeros s @ replicate k CHR ''0''"
proof -
  define z where "z = takeWhile (\<lambda>c. c = CHR ''0'') (rev s)"
  have "z = replicate (length z) CHR ''0''"
    by (rule replicate_length_same [symmetric]) (auto simp: z_def dest: set_takeWhileD)
  then have rev: "rev z = replicate (length z) CHR ''0''" by (metis rev_replicate)
  have "rev s = z @ dropWhile (\<lambda>c. c = CHR ''0'') (rev s)" by (simp add: z_def)
  then have "rev (rev s) = rev (dropWhile (\<lambda>c. c = CHR ''0'') (rev s)) @ rev z" by (metis rev_append)
  then have "s = strip_zeros s @ replicate (length z) CHR ''0''" unfolding rev by (simp add: strip_zeros_def)
  then show ?thesis by blast
qed

lemma nanos_fraction:
  assumes "0 \<le> ns" "ns < second"
  shows "nanos (strip_zeros (fixed_digits 9 (nat ns))) = ns"
proof -
  let ?f = "fixed_digits 9 (nat ns)"
  obtain k where k: "?f = strip_zeros ?f @ replicate k CHR ''0''" using strip_zeros_split by blast
  have len: "length (strip_zeros ?f) + k = 9"
    using arg_cong [OF k, of length] fixed_digits_props(1) [of 9 "nat ns"] by simp
  have "nat ns < 10 ^ 9" using assms by (simp add: second_def)
  then have "digits_value ?f = ns" using fixed_digits_value assms by simp
  then have "ns = digits_value ?f" by (rule sym)
  also have "\<dots> = digits_value (strip_zeros ?f) * 10 ^ k" using digits_value_zeros k by metis
  finally have e: "ns = digits_value (strip_zeros ?f) * 10 ^ k" .
  have "length (strip_zeros ?f) \<le> 9" "9 - length (strip_zeros ?f) = k" using len by simp_all
  then have "nanos (strip_zeros ?f) = digits_value (strip_zeros ?f) * 10 ^ k"
    by (simp add: nanos_def digits_value_def [symmetric] Let_def)
  then show ?thesis using e by (rule trans [OF _ sym])
qed

lemma parse_fraction_text:
  assumes "0 \<le> ns" "ns < second"
  shows "parse_fraction (fraction_text ns @ ''Z'') = (ns, ''Z'')"
proof (cases "ns = 0")
  case True
  then show ?thesis by (simp add: fraction_text_def parse_fraction_def)
next
  case False
  let ?z = "strip_zeros (fixed_digits 9 (nat ns))"
  obtain k where k: "fixed_digits 9 (nat ns) = ?z @ replicate k CHR ''0''" using strip_zeros_split by blast
  have digits: "list_all is_digit ?z" using fixed_digits_props(2) [of 9 "nat ns"] k by (metis list_all_append)
  have "?z \<noteq> []" using nanos_fraction [OF assms] False by (auto simp: nanos_def)
  then obtain d ds where z: "?z = d # ds" by (cases ?z) auto
  have notZ: "\<not> is_digit CHR ''Z''" by (simp add: is_digit_def)
  have "takeWhile is_digit (?z @ ''Z'') = ?z" "dropWhile is_digit (?z @ ''Z'') = ''Z''"
    using digits notZ by (simp_all add: takeWhile_append dropWhile_append list_all_iff)
  then show ?thesis
    using False digits z nanos_fraction [OF assms] by (simp add: fraction_text_def parse_fraction_def)
qed

text \<open>The text \<open>MarshalJSON\<close> writes, taken apart.\<close>

lemma format_nano_split:
  assumes "civil (t div second div 86400 + epoch_days) = (y, m, d)"
  shows "format_nano t = pad_zero 4 y @ ''-'' @ pad_zero 2 m @ ''-'' @ pad_zero 2 d @ ''T''
     @ pad_zero 2 (t div second mod 86400 div 3600) @ '':'' @ pad_zero 2 (t div second mod 86400 div 60 mod 60) @ '':''
     @ pad_zero 2 (t div second mod 86400 mod 60) @ fraction_text (t mod second) @ ''Z''"
  using assms by (simp add: format_nano_def format_rfc3339_def Let_def butlast_append)

lemma two_digits: "0 \<le> k \<Longrightarrow> k < 100 \<Longrightarrow> \<exists>a b. pad_zero 2 k = [a, b] \<and> is_digit a \<and> is_digit b"
proof -
  assume k: "0 \<le> k" "k < 100"
  then have "nat k div 10 < 10" by simp
  then show ?thesis using pad_zero_pair [OF k] by simp
qed

lemma parse_strict_nano:
  assumes "in_years t"
  shows "parse_strict (format_nano t) = Some t"
proof -
  let ?s = "t div second" and ?ns = "t mod second"
  obtain y m d where c: "civil (?s div 86400 + epoch_days) = (y, m, d)" by (metis prod_cases3)
  note y = in_years_civil [OF assms c] and md = civil_spec [OF c]
  have d: "1 \<le> d" "d < 100" "m < 100" using md days_in_bounds [of y m] by auto
  let ?r = "?s mod 86400"
  have r: "0 \<le> ?r div 3600" "?r div 3600 < 24" "0 \<le> ?r div 60 mod 60" "?r div 60 mod 60 < 60" "0 \<le> ?r mod 60" "?r mod 60 < 60"
    by auto
  have clock: "(?r div 3600 * 60 + ?r div 60 mod 60) * 60 + ?r mod 60 = ?r"
  proof -
    have "?r div 3600 = ?r div 60 div 60" by (simp add: zdiv_zmult2_eq [of 60 ?r 60, simplified])
    then show ?thesis by simp
  qed
  have ns: "0 \<le> ?ns" "?ns < second" by (simp_all add: second_def)
  have date: "parse_date (pad_zero 4 y @ ''-'' @ pad_zero 2 m @ ''-'' @ pad_zero 2 d @ rest) = Some (?s div 86400 + epoch_days, rest)"
    for rest
    using y md d parse_year_pad [of y] getnum_pad [of m True] getnum_pad [of d True] by (simp add: parse_date_def)
  have time: "parse_clock (pad_zero 2 (?r div 3600) @ '':'' @ pad_zero 2 (?r div 60 mod 60) @ '':'' @ pad_zero 2 (?r mod 60)
      @ fraction_text ?ns @ ''Z'') = Some (?r * second + ?ns, ''Z'')"
    using parse_clock_fraction [OF r parse_fraction_text [OF ns]] unfolding clock .
  have "(?s div 86400) * 86400 + ?r = ?s" by simp
  then have "?s div 86400 * 86400 * second + ?r * second = ?s * second" by (simp flip: distrib_right)
  moreover have "?s * second + ?ns = t" by simp
  ultimately have total: "?s div 86400 * 86400 * second + (?r * second + ?ns) = t" by linarith
  then have parsed: "parse_rfc3339 (format_nano t) = Some t"
    using date time by (simp add: parse_rfc3339_def format_nano_split [OF c] parse_zone_def)
  obtain a1 a2 a3 a4 where a: "pad_zero 4 y = [a1, a2, a3, a4]"
    using pad_zero_four [of "nat y", OF _ refl refl refl] y by (metis int_nat_eq nat_less_iff of_nat_numeral)
  obtain b1 b2 c1 c2 h1 h2 m1 m2 s1 s2 where two: "pad_zero 2 m = [b1, b2]" "pad_zero 2 d = [c1, c2]"
    "pad_zero 2 (?r div 3600) = [h1, h2]" "is_digit h2" "pad_zero 2 (?r div 60 mod 60) = [m1, m2]"
    "pad_zero 2 (?r mod 60) = [s1, s2]"
    using two_digits [of m] two_digits [of d] two_digits [of "?r div 3600"] two_digits [of "?r div 60 mod 60"]
      two_digits [of "?r mod 60"] md d r by (smt (verit))
  have ch: "format_nano t = [a1, a2, a3, a4, CHR ''-'', b1, b2, CHR ''-'', c1, c2, CHR ''T'', h1, h2, CHR '':'', m1, m2, CHR '':'', s1, s2]
      @ fraction_text ?ns @ ''Z''"
    by (simp add: format_nano_split [OF c] a two)
  have "format_nano t ! 12 \<noteq> CHR '':''" using two(4) by (auto simp: ch is_digit_def)
  moreover have "format_nano t ! 19 \<noteq> CHR '',''" by (simp add: ch nth_append fraction_text_def)
  moreover have "last (format_nano t) = CHR ''Z''" by (simp add: ch)
  ultimately show ?thesis using parsed by (simp add: parse_strict_def)
qed

end
