(* ===== verification/Adapters.thy ===== *)
theory Adapters
  imports GoCsv GoTime Transport
begin

text \<open>
  \<open>internal/reconcile/adapters\<close>: the readers that normalize the internal export and the settlement files
  into canonical records, and the writer of settlement files. A reader's state is what is left of its
  input and its row counter; \<open>Next\<close> answers \<open>io.EOF\<close> when nothing is left. Opening and closing files is
  the operating system's. The wording of parse errors below the program's own prefix is abridged.
\<close>

section \<open>adapters.go, status.go\<close>

definition rowErr :: "nat \<Rightarrow> err \<Rightarrow> err" where
  "rowErr row e = Wrap [] (Sentinel ErrMalformedRow) ('': row '' @ dec_nat row @ '': '' @ err_text e)"

definition statusTokens :: "(string \<times> string) list" where
  "statusTokens =
     [(''00'', StatusSettled), (''SUCCESS'', StatusSettled), (''SUCCESSFUL'', StatusSettled), (''SETTLED'', StatusSettled),
      (''COMPLETED'', StatusSettled), (''01'', StatusPending), (''PENDING'', StatusPending), (''09'', StatusFailed),
      (''91'', StatusFailed), (''FAILED'', StatusFailed), (''DECLINED'', StatusFailed), (''REVERSED'', StatusReversed),
      (''TIMEOUT'', StatusTimedOut), (''TIMED_OUT'', StatusTimedOut)]"

definition parseStatus :: "string \<Rightarrow> err + string" where
  "parseStatus token =
     (let t = ToUpper (TrimSpace token) in
      if t = [] then Inr StatusSettled
      else (case map_of statusTokens t of
          Some s \<Rightarrow> Inr s
        | None \<Rightarrow> Inl (Sentinel ErrUnknownStatus)))"

definition parse_amount :: "string \<Rightarrow> err + i64" where
  "parse_amount s =
     (case ParseInt s of
        Inl e \<Rightarrow> Inl (ErrMsg (''strconv.ParseInt: parsing '' @ go_quote s @ '': '' @ num_err_msg e))
      | Inr v \<Rightarrow> Inr v)"

definition parse_time :: "string \<Rightarrow> err + time" where
  "parse_time s = (case parse_rfc3339 s of None \<Rightarrow> Inl (ErrMsg (''parsing time '' @ go_quote s)) | Some t \<Rightarrow> Inr t)"

definition csv_err :: "csv_error \<Rightarrow> err" where
  "csv_err e = ErrMsg (csv_error_msg e)"

section \<open>nibss.go\<close>

definition nibssColumns :: "string list" where
  "nibssColumns = [''session_id'', ''source_account'', ''beneficiary_account'', ''amount_kobo'', ''currency'', ''status'',
     ''transaction_date'']"

record csv_reader =
  cr_rows :: "(csv_error + string list) list"
  cr_row :: nat
  cr_index :: "string \<rightharpoonup> nat"

fun check_columns :: "nat \<Rightarrow> string list \<Rightarrow> string list \<Rightarrow> err option" where
  "check_columns i [] header = None"
| "check_columns i (col # cols) [] = None"
| "check_columns i (col # cols) (h # hs) =
     (if \<not> EqualFold (TrimSpace h) col
      then Some (Wrap [] (Sentinel ErrMissingColumn)
             ('': column '' @ dec_nat i @ '' is '' @ go_quote h @ '', want '' @ go_quote col))
      else check_columns (Suc i) cols hs)"

definition checkHeader :: "string list \<Rightarrow> string list \<Rightarrow> err option" where
  "checkHeader header want =
     (if length header \<noteq> length want
      then Some (Wrap [] (Sentinel ErrMalformedRow)
             ('': header has '' @ dec_nat (length header) @ '' columns, want '' @ dec_nat (length want)))
      else check_columns 0 want header)"

definition NewNIBSSReader :: "string \<Rightarrow> err + csv_reader" where
  "NewNIBSSReader bytes =
     (case map (check_fields (length nibssColumns)) (csv_rows bytes) of
        [] \<Rightarrow> Inl (Wrap ''read nibss header: '' (Sentinel ErrEOF) [])
      | Inl e # _ \<Rightarrow> Inl (Wrap ''read nibss header: '' (csv_err e) [])
      | Inr header # rows \<Rightarrow>
          (case checkHeader header nibssColumns of
             Some e \<Rightarrow> Inl e
           | None \<Rightarrow> Inr \<lparr>cr_rows = rows, cr_row = 1, cr_index = Map.empty\<rparr>))"

definition nibss_record :: "nat \<Rightarrow> string list \<Rightarrow> err + canonical_record" where
  "nibss_record row rec =
     (case parse_amount (TrimSpace (rec ! 3)) of
        Inl e \<Rightarrow> Inl (rowErr row (Wrap ''amount_kobo: '' e []))
      | Inr amount \<Rightarrow>
          (case parseStatus (rec ! 5) of
             Inl e \<Rightarrow> Inl (rowErr row (Wrap (''status '' @ go_quote (rec ! 5) @ '': '') e []))
           | Inr status \<Rightarrow>
               (case parse_time (TrimSpace (rec ! 6)) of
                  Inl e \<Rightarrow> Inl (rowErr row (Wrap ''transaction_date: '' e []))
                | Inr ts \<Rightarrow>
                    Inr \<lparr>r_transaction_id = [], r_reference = TrimSpace (rec ! 0), r_source = TrimSpace (rec ! 1),
                      r_destination = TrimSpace (rec ! 2), r_amount = FromMinor amount, r_currency = TrimSpace (rec ! 4),
                      r_type = TypeTransfer, r_status = status, r_initiated_at = ts, r_settled_at = None, r_metadata = []\<rparr>)))"

definition nibss_Next :: "csv_reader \<Rightarrow> (err + canonical_record) \<times> csv_reader" where
  "nibss_Next n =
     (case cr_rows n of
        [] \<Rightarrow> (Inl (Sentinel ErrEOF), n)
      | Inl e # rows \<Rightarrow> (Inl (rowErr (cr_row n + 1) (csv_err e)), n\<lparr>cr_rows := rows\<rparr>)
      | Inr rec # rows \<Rightarrow>
          (let n' = n\<lparr>cr_rows := rows, cr_row := cr_row n + 1\<rparr> in (nibss_record (cr_row n') rec, n')))"

section \<open>csv.go\<close>

definition colReference :: string where [go_const]: "colReference = ''reference''"
definition colAmountMinor :: string where [go_const]: "colAmountMinor = ''amount_minor''"
definition colCurrency :: string where [go_const]: "colCurrency = ''currency''"
definition colSource :: string where [go_const]: "colSource = ''source''"
definition colDestination :: string where [go_const]: "colDestination = ''destination''"
definition colInitiatedAt :: string where [go_const]: "colInitiatedAt = ''initiated_at''"
definition colStatus :: string where [go_const]: "colStatus = ''status''"

fun header_index :: "nat \<Rightarrow> string list \<Rightarrow> (string \<rightharpoonup> nat) \<Rightarrow> (string \<rightharpoonup> nat)" where
  "header_index i [] ix = ix"
| "header_index i (h # hs) ix = header_index (Suc i) hs (ix(ToLower (TrimSpace h) \<mapsto> i))"

definition NewCSVReader :: "string \<Rightarrow> err + csv_reader" where
  "NewCSVReader bytes =
     (case csv_rows bytes of
        [] \<Rightarrow> Inl (Wrap ''read csv header: '' (Sentinel ErrEOF) [])
      | Inl e # _ \<Rightarrow> Inl (Wrap ''read csv header: '' (csv_err e) [])
      | Inr header # rows \<Rightarrow>
          (let ix = header_index 0 header Map.empty in
           (case List.find (\<lambda>c. ix c = None) [colReference, colAmountMinor] of
              Some c \<Rightarrow> Inl (Wrap [] (Sentinel ErrMissingColumn) ('': '' @ go_quote c))
            | None \<Rightarrow> Inr \<lparr>cr_rows = rows, cr_row = 1, cr_index = ix\<rparr>)))"

definition csv_get :: "(string \<rightharpoonup> nat) \<Rightarrow> string list \<Rightarrow> string \<Rightarrow> string" where
  "csv_get ix rec col =
     (case ix col of
        None \<Rightarrow> []
      | Some i \<Rightarrow> if i \<ge> length rec then [] else TrimSpace (rec ! i))"

definition csv_record :: "(string \<rightharpoonup> nat) \<Rightarrow> nat \<Rightarrow> string list \<Rightarrow> err + canonical_record" where
  "csv_record ix row rec =
     (case parse_amount (csv_get ix rec colAmountMinor) of
        Inl e \<Rightarrow> Inl (rowErr row (Wrap ''amount_minor: '' e []))
      | Inr amount \<Rightarrow>
          (case parseStatus (csv_get ix rec colStatus) of
             Inl e \<Rightarrow> Inl (rowErr row (Wrap (''status '' @ go_quote (csv_get ix rec colStatus) @ '': '') e []))
           | Inr status \<Rightarrow>
               (let out = \<lparr>r_transaction_id = [], r_reference = csv_get ix rec colReference,
                      r_source = csv_get ix rec colSource, r_destination = csv_get ix rec colDestination,
                      r_amount = FromMinor amount, r_currency = csv_get ix rec colCurrency,
                      r_type = TypeTransfer, r_status = status, r_initiated_at = zero_time, r_settled_at = None, r_metadata = []\<rparr>;
                    raw = csv_get ix rec colInitiatedAt
                in if raw = [] then Inr out
                   else (case parse_time raw of
                       Inl e \<Rightarrow> Inl (rowErr row (Wrap ''initiated_at: '' e []))
                     | Inr ts \<Rightarrow> Inr (out\<lparr>r_initiated_at := ts\<rparr>)))))"

definition csv_Next :: "csv_reader \<Rightarrow> (err + canonical_record) \<times> csv_reader" where
  "csv_Next c =
     (case cr_rows c of
        [] \<Rightarrow> (Inl (Sentinel ErrEOF), c)
      | Inl e # rows \<Rightarrow> (Inl (rowErr (cr_row c + 1) (csv_err e)), c\<lparr>cr_rows := rows\<rparr>)
      | Inr rec # rows \<Rightarrow>
          (let c' = c\<lparr>cr_rows := rows, cr_row := cr_row c + 1\<rparr> in (csv_record (cr_index c') (cr_row c') rec, c')))"

section \<open>ledger.go\<close>

text \<open>
  What the JSON scanner hands to the decoder: one value per line, a record's members in order. Names
  match exactly or by ASCII case, unknown ones are ignored, the last of repeated ones counts; the text
  of a time is taken without escapes.
\<close>

datatype record_token = Plain json_token | Members "(string \<times> json_token) list"

datatype ledger_value = LvSyntaxError | LvNull | LvOther | LvObject "(string \<times> record_token) list"

definition record_fields :: "string list" where
  "record_fields = [''transaction_id'', ''reference'', ''source'', ''destination'', ''amount_minor'', ''currency'', ''type'',
     ''status'', ''initiated_at'', ''settled_at'', ''metadata'']"

definition match_name :: "string list \<Rightarrow> string \<Rightarrow> string option" where
  "match_name names name = (if name \<in> set names then Some name else List.find (\<lambda>f. EqualFold f name) names)"

fun map_set :: "string \<Rightarrow> string \<Rightarrow> (string \<times> string) list \<Rightarrow> (string \<times> string) list" where
  "map_set k v [] = [(k, v)]"
| "map_set k v ((k', v') # m) = (if k = k' then (k, v) # m else (k', v') # map_set k v m)"

fun decode_metadata :: "(string \<times> json_token) list \<Rightarrow> (string \<times> string) list \<Rightarrow> (string \<times> string) list option" where
  "decode_metadata [] m = Some m"
| "decode_metadata ((k, t) # ms) m =
     (case decode_string t [] of None \<Rightarrow> None | Some v \<Rightarrow> decode_metadata ms (map_set k v m))"

fun decode_plain :: "record_token \<Rightarrow> string \<Rightarrow> string option" where
  "decode_plain (Plain t) old = decode_string t old"
| "decode_plain (Members _) old = None"

definition decode_time :: "record_token \<Rightarrow> time \<Rightarrow> time option" where
  "decode_time t old =
     (case t of Plain TokNull \<Rightarrow> Some old | Plain (TokString s) \<Rightarrow> parse_strict s | _ \<Rightarrow> None)"

definition decode_field :: "string \<Rightarrow> record_token \<Rightarrow> canonical_record \<Rightarrow> canonical_record option" where
  "decode_field f t r =
     (if f = ''transaction_id'' then map_option (\<lambda>s. r\<lparr>r_transaction_id := s\<rparr>) (decode_plain t (r_transaction_id r))
      else if f = ''reference'' then map_option (\<lambda>s. r\<lparr>r_reference := s\<rparr>) (decode_plain t (r_reference r))
      else if f = ''source'' then map_option (\<lambda>s. r\<lparr>r_source := s\<rparr>) (decode_plain t (r_source r))
      else if f = ''destination'' then map_option (\<lambda>s. r\<lparr>r_destination := s\<rparr>) (decode_plain t (r_destination r))
      else if f = ''amount_minor'' then map_option (\<lambda>a. r\<lparr>r_amount := a\<rparr>) (case t of Plain u \<Rightarrow> decode_amount u | Members _ \<Rightarrow> None)
      else if f = ''currency'' then map_option (\<lambda>s. r\<lparr>r_currency := s\<rparr>) (decode_plain t (r_currency r))
      else if f = ''type'' then map_option (\<lambda>s. r\<lparr>r_type := s\<rparr>) (decode_plain t (r_type r))
      else if f = ''status'' then map_option (\<lambda>s. r\<lparr>r_status := s\<rparr>) (decode_plain t (r_status r))
      else if f = ''initiated_at'' then map_option (\<lambda>u. r\<lparr>r_initiated_at := u\<rparr>) (decode_time t (r_initiated_at r))
      else if f = ''settled_at'' then
        (if t = Plain TokNull then Some (r\<lparr>r_settled_at := None\<rparr>)
         else map_option (\<lambda>u. r\<lparr>r_settled_at := Some u\<rparr>) (decode_time t zero_time))
      else (case t of
          Members ms \<Rightarrow> map_option (\<lambda>m. r\<lparr>r_metadata := m\<rparr>) (decode_metadata ms (r_metadata r))
        | Plain TokNull \<Rightarrow> Some (r\<lparr>r_metadata := []\<rparr>)
        | Plain _ \<Rightarrow> None))"

fun decode_record :: "(string \<times> record_token) list \<Rightarrow> canonical_record \<Rightarrow> canonical_record option" where
  "decode_record [] r = Some r"
| "decode_record ((name, t) # ms) r =
     (case match_name record_fields name of
        None \<Rightarrow> decode_record ms r
      | Some f \<Rightarrow> (case decode_field f t r of None \<Rightarrow> None | Some r' \<Rightarrow> decode_record ms r'))"

definition empty_record :: canonical_record where
  "empty_record = \<lparr>r_transaction_id = [], r_reference = [], r_source = [], r_destination = [], r_amount = 0, r_currency = [],
     r_type = [], r_status = [], r_initiated_at = zero_time, r_settled_at = None, r_metadata = []\<rparr>"

definition ledger_Next :: "ledger_value list \<Rightarrow> (err + canonical_record) \<times> ledger_value list" where
  "ledger_Next vs =
     (case vs of
        [] \<Rightarrow> (Inl (Sentinel ErrEOF), [])
      | v # rest \<Rightarrow>
          (case (case v of LvObject ms \<Rightarrow> decode_record ms empty_record | LvNull \<Rightarrow> Some empty_record | _ \<Rightarrow> None) of
             None \<Rightarrow> (Inl (rowErr 0 (ErrMsg ''json'')), if v = LvSyntaxError then vs else rest)
           | Some r \<Rightarrow> (Inr r, rest)))"

section \<open>writer.go\<close>

definition statusToNIBSS :: "(string \<times> string) list" where
  "statusToNIBSS =
     [(StatusSettled, ''00''), (StatusPending, ''01''), (StatusFailed, ''09''), (StatusReversed, ''REVERSED''),
      (StatusTimedOut, ''TIMEOUT''), (StatusDebited, ''01'')]"

definition nibss_row :: "canonical_record \<Rightarrow> string list" where
  "nibss_row r =
     [r_reference r, r_source r, r_destination r, FormatInt (Minor (r_amount r)), r_currency r,
      (case map_of statusToNIBSS (r_status r) of Some token \<Rightarrow> token | None \<Rightarrow> ''00''),
      format_rfc3339 (r_initiated_at r)]"

definition WriteNIBSS :: "canonical_record list \<Rightarrow> string" where
  "WriteNIBSS recs = concat (map csv_write_row (nibssColumns # map nibss_row recs))"

end
