(* ===== verification/ReaderClaims.thy ===== *)
theory ReaderClaims
  imports Adapters
begin

text \<open>
  The readers as streams (the matcher's \<open>Stream\<close> interface is a locale, interpreted by each reader) and
  what they read: settlement files and ledger exports the program wrote itself come back as the same
  records, everything else is a record or a malformed-row error.
\<close>

section \<open>Streams\<close>

text \<open>What a consumer reads: records until \<open>io.EOF\<close> or the first other error, \<open>None\<close> if the fuel runs
  out first.\<close>

fun drain :: "nat \<Rightarrow> ('s \<Rightarrow> (err + canonical_record) \<times> 's) \<Rightarrow> 's \<Rightarrow> (err + canonical_record) list option" where
  "drain 0 nxt s = None"
| "drain (Suc n) nxt s =
     (case nxt s of
        (Inl e, s') \<Rightarrow> if errors_is e ErrEOF then Some [] else Some [Inl e]
      | (Inr r, s') \<Rightarrow> map_option ((#) (Inr r)) (drain n nxt s'))"

locale record_stream =
  fixes nxt :: "'s \<Rightarrow> (err + canonical_record) \<times> 's" and left :: "'s \<Rightarrow> nat"
  assumes progress: "nxt s = (Inr r, s') \<Longrightarrow> left s' < left s"
begin

lemma drain_returns: "left s < n \<Longrightarrow> \<exists>xs. drain n nxt s = Some xs \<and> length xs \<le> Suc (left s)"
proof (induction n arbitrary: s)
  case (Suc n)
  obtain x s' where x: "nxt s = (x, s')" by force
  show ?case
  proof (cases x)
    case (Inl e)
    then show ?thesis using x by simp
  next
    case (Inr r)
    have "left s' < left s" using progress x Inr by blast
    then show ?thesis using Suc.IH [of s'] Suc.prems x Inr by fastforce
  qed
qed simp

lemma drain_stable: "left s < n \<Longrightarrow> drain (n + k) nxt s = drain n nxt s"
proof (induction n arbitrary: s)
  case (Suc n)
  obtain x s' where x: "nxt s = (x, s')" by force
  show ?case
  proof (cases x)
    case (Inl e)
    then show ?thesis using x by simp
  next
    case (Inr r)
    have "left s' < n" using progress [of s r s'] x Inr Suc.prems by simp
    then show ?thesis using Suc.IH x Inr by simp
  qed
qed simp

end

abbreviation rows_left :: "csv_reader \<Rightarrow> nat" where
  "rows_left rd \<equiv> length (cr_rows rd)"

interpretation nibss: record_stream nibss_Next rows_left
  by unfold_locales (auto simp: nibss_Next_def Let_def split: list.splits sum.splits)

interpretation csv: record_stream csv_Next rows_left
  by unfold_locales (auto simp: csv_Next_def Let_def split: list.splits sum.splits)

interpretation ledger: record_stream ledger_Next length
  by unfold_locales (auto simp: ledger_Next_def split: list.splits option.splits if_splits)

text \<open>Fuel for the readers: draining a settlement file or a ledger export, well formed or not, stops at
  \<open>io.EOF\<close> or at the first error within one step per row left, and more fuel changes nothing.\<close>

theorem readers_terminate:
  "(\<exists>xs. drain (Suc (rows_left rd) + k) nibss_Next rd = Some xs \<and> length xs \<le> Suc (rows_left rd))
   \<and> (\<exists>xs. drain (Suc (rows_left rd) + k) csv_Next rd = Some xs \<and> length xs \<le> Suc (rows_left rd))
   \<and> (\<exists>xs. drain (Suc (length vs) + k) ledger_Next vs = Some xs \<and> length xs \<le> Suc (length vs))
   \<and> drain (Suc (rows_left rd) + k) nibss_Next rd = drain (Suc (rows_left rd)) nibss_Next rd
   \<and> drain (Suc (rows_left rd) + k) csv_Next rd = drain (Suc (rows_left rd)) csv_Next rd
   \<and> drain (Suc (length vs) + k) ledger_Next vs = drain (Suc (length vs)) ledger_Next vs"
  using nibss.drain_returns [of rd] csv.drain_returns [of rd] ledger.drain_returns [of vs]
    nibss.drain_stable [OF lessI, of rd k] csv.drain_stable [OF lessI, of rd k] ledger.drain_stable [OF lessI, of vs k]
  by (simp del: drain.simps)

section \<open>Malformed input\<close>

lemma rowErr_is [simp]: "errors_is (rowErr n e) s \<longleftrightarrow> s = ErrMalformedRow"
  by (auto simp: rowErr_def)

definition seven_fields :: "csv_reader \<Rightarrow> bool" where
  "seven_fields rd \<longleftrightarrow> (\<forall>fs. Inr fs \<in> set (cr_rows rd) \<longrightarrow> length fs = length nibssColumns)"

lemma length_of_checked: "Inr fs = check_fields n r \<Longrightarrow> length fs = n"
  by (auto simp: check_fields_def split: sum.splits if_splits)

text \<open>The NIBSS reader never indexes past a row: whatever the bytes, a reader that could be built holds
  only rows of the seven columns, every \<open>Next\<close> keeps it so, and what \<open>Next\<close> answers is a transfer record,
  \<open>io.EOF\<close> or an error the caller recognizes as a malformed row.\<close>

theorem nibss_reader_is_safe:
  assumes "NewNIBSSReader bytes = Inr rd0 \<or> seven_fields rd0"
  shows "seven_fields rd0 \<and> seven_fields (snd (nibss_Next rd0))
    \<and> (case fst (nibss_Next rd0) of
         Inr r \<Rightarrow> r_type r = TypeTransfer \<and> r_settled_at r = None
       | Inl e \<Rightarrow> e = Sentinel ErrEOF \<or> errors_is e ErrMalformedRow \<and> \<not> errors_is e ErrEOF)"
proof -
  have built: "seven_fields rd0"
    using assms
  proof
    assume "NewNIBSSReader bytes = Inr rd0"
    then obtain h rows where "map (check_fields (length nibssColumns)) (csv_rows bytes) = Inr h # rows" "cr_rows rd0 = rows"
      by (auto simp: NewNIBSSReader_def split: list.splits sum.splits option.splits)
    then have sub: "set (cr_rows rd0) \<subseteq> set (map (check_fields (length nibssColumns)) (csv_rows bytes))"
      by (simp only: set_subset_Cons)
    have "length fs = length nibssColumns" if fs: "Inr fs \<in> set (cr_rows rd0)" for fs
    proof -
      from sub fs have "Inr fs \<in> set (map (check_fields (length nibssColumns)) (csv_rows bytes))" by (rule subsetD)
      then obtain r where "Inr fs = check_fields (length nibssColumns) r" by (auto simp only: set_map image_iff)
      then show ?thesis by (rule length_of_checked)
    qed
    then show ?thesis by (simp add: seven_fields_def)
  qed
  have "set (cr_rows (snd (nibss_Next rd0))) \<subseteq> set (cr_rows rd0)"
    by (cases "cr_rows rd0"; cases "hd (cr_rows rd0)") (auto simp: nibss_Next_def Let_def)
  then have "seven_fields (snd (nibss_Next rd0))"
    using built unfolding seven_fields_def by blast
  moreover have "case fst (nibss_Next rd0) of
         Inr r \<Rightarrow> r_type r = TypeTransfer \<and> r_settled_at r = None
       | Inl e \<Rightarrow> e = Sentinel ErrEOF \<or> errors_is e ErrMalformedRow \<and> \<not> errors_is e ErrEOF"
    by (simp add: nibss_Next_def nibss_record_def Let_def split: list.split sum.split)
  ultimately show ?thesis using built by blast
qed

lemma check_columns_None:
  "length header = length cols \<Longrightarrow> check_columns i cols header = None \<longleftrightarrow> list_all2 (\<lambda>h c. EqualFold (TrimSpace h) c) header cols"
  by (induction i cols header rule: check_columns.induct) auto

text \<open>A settlement file whose header is not the seven NIBSS columns in order, up to case and surrounding
  space, is refused: a shifted file fails instead of mapping its columns wrongly.\<close>

theorem nibss_header_is_exact:
  "(\<exists>rd. NewNIBSSReader bytes = Inr rd) \<longleftrightarrow>
     (\<exists>header rows. csv_rows bytes = Inr header # rows
        \<and> list_all2 (\<lambda>h c. EqualFold (TrimSpace h) c) header nibssColumns)"
proof (cases "csv_rows bytes")
  case Nil
  then show ?thesis by (simp add: NewNIBSSReader_def)
next
  case (Cons first rows)
  show ?thesis
  proof (cases first)
    case (Inl e)
    then show ?thesis using Cons by (simp add: NewNIBSSReader_def check_fields_def)
  next
    case (Inr header)
    then show ?thesis
      using Cons check_columns_None [of header nibssColumns 0] list_all2_lengthD [of _ header nibssColumns]
      by (auto simp: NewNIBSSReader_def check_fields_def checkHeader_def split: option.split)
  qed
qed

section \<open>Settlement files round-trip\<close>

definition nibss_status :: "string \<Rightarrow> string" where
  "nibss_status s =
     (if s \<in> {StatusPending, StatusDebited} then StatusPending
      else if s \<in> {StatusFailed, StatusReversed, StatusTimedOut} then s else StatusSettled)"

definition nibss_normal :: "canonical_record \<Rightarrow> canonical_record" where
  "nibss_normal r = r\<lparr>r_transaction_id := [], r_type := TypeTransfer, r_status := nibss_status (r_status r),
     r_initiated_at := r_initiated_at r div second * second, r_settled_at := None, r_metadata := []\<rparr>"

definition plain_text :: "string \<Rightarrow> bool" where
  "plain_text s \<longleftrightarrow> trimmed s \<and> carriage_return \<notin> set s"

definition nibss_writable :: "canonical_record \<Rightarrow> bool" where
  "nibss_writable r \<longleftrightarrow> plain_text (r_reference r) \<and> plain_text (r_source r) \<and> plain_text (r_destination r)
     \<and> plain_text (r_currency r) \<and> in_years (r_initiated_at r)"

definition nibss_token :: "string \<Rightarrow> string" where
  "nibss_token s = (case map_of statusToNIBSS s of Some token \<Rightarrow> token | None \<Rightarrow> ''00'')"

lemma token_status: "parseStatus (nibss_token s) = Inr (nibss_status s)"
proof -
  have tokens: "parseStatus ''00'' = Inr StatusSettled" "parseStatus ''01'' = Inr StatusPending" "parseStatus ''09'' = Inr StatusFailed"
    "parseStatus ''REVERSED'' = Inr StatusReversed" "parseStatus ''TIMEOUT'' = Inr StatusTimedOut"
    by code_simp+
  show ?thesis
    using tokens by (auto simp: nibss_token_def statusToNIBSS_def nibss_status_def go_const)
qed

lemma token_plain: "carriage_return \<notin> set (nibss_token s)"
  by (auto simp: nibss_token_def statusToNIBSS_def split: if_splits)

lemma digit_not_cr: "is_digit c \<Longrightarrow> c \<noteq> carriage_return"
  by (auto simp: is_digit_def)

lemma time_text:
  assumes "in_years t"
  shows "plain_text (format_rfc3339 t)"
proof -
  obtain y m d where c: "civil (t div second div 86400 + epoch_days) = (y, m, d)" by (metis prod_cases3)
  note y = in_years_civil [OF assms c]
  have n: "nat y < 10000" using y by linarith
  have four: "pad_zero 4 y = [digit_char (nat y div 10 div 10 div 10), digit_char (nat y div 10 div 10 mod 10),
      digit_char (nat y div 10 mod 10), digit_char (nat y mod 10)]"
  proof -
    show ?thesis using n pad_zero_four [OF _ refl refl refl, of "nat y"] y by simp
  qed
  have small: "nat y div 10 div 10 div 10 < 10" using n by simp
  have digits: "\<not> is_space (digit_char k)" "digit_char k \<noteq> carriage_return" if "k < 10" for k
    using digit_not_space [OF is_digit_digit_char [OF that]] is_digit_digit_char [OF that] by (auto simp: is_digit_def)
  have pad: "carriage_return \<notin> set (pad_zero 2 k)" if "0 \<le> k" for k
    using that digit_not_cr dec_nat_digits by (auto simp: pad_zero_def)
  have md: "0 \<le> m" "0 \<le> d" using civil_spec [OF c] by simp_all
  have fmt: "format_rfc3339 t = pad_zero 4 y @ ''-'' @ pad_zero 2 m @ ''-'' @ pad_zero 2 d @ ''T''
     @ pad_zero 2 (t div second mod 86400 div 3600) @ '':'' @ pad_zero 2 (t div second mod 86400 div 60 mod 60) @ '':''
     @ pad_zero 2 (t div second mod 86400 mod 60) @ ''Z''"
    by (simp add: format_rfc3339_def Let_def c)
  have "carriage_return \<notin> set (format_rfc3339 t)"
    unfolding fmt using pad md small digits by (auto simp: four pos_imp_zdiv_nonneg_iff dest: sym)
  moreover have "trimmed (format_rfc3339 t)" unfolding fmt trimmed_def four using digits [OF small] by (simp add: is_space_def)
  ultimately show ?thesis by (simp add: plain_text_def)
qed

lemma FormatInt_plain: "plain_text (FormatInt v)"
proof -
  have "carriage_return \<notin> set (dec_nat n)" for n using dec_nat_digits digit_not_cr by blast
  then show ?thesis using FormatInt_trimmed by (simp add: plain_text_def FormatInt_def dec_int_def)
qed

lemma nibss_row_back:
  "nibss_writable r \<Longrightarrow> nibss_record n (nibss_row r) = Inr (nibss_normal r)"
  using parse_format [of "r_initiated_at r"] time_text [of "r_initiated_at r"]
  by (simp add: nibss_writable_def plain_text_def nibss_record_def nibss_row_def nibss_token_def [symmetric] parse_amount_def
      TrimSpace_trimmed FormatInt_trimmed token_status parse_time_def nibss_normal_def numeral_eq_Suc)

lemma drain_nibss:
  "\<forall>r \<in> set rs. nibss_writable r \<Longrightarrow> cr_rows rd = map Inr (map nibss_row rs) \<Longrightarrow>
   drain (Suc (length rs)) nibss_Next rd = Some (map Inr (map nibss_normal rs))"
proof (induction rs arbitrary: rd)
  case (Cons r rs)
  have "nibss_Next rd = (Inr (nibss_normal r), rd\<lparr>cr_rows := map Inr (map nibss_row rs), cr_row := cr_row rd + 1\<rparr>)"
    using Cons.prems nibss_row_back by (simp add: nibss_Next_def)
  moreover have "drain (Suc (length rs)) nibss_Next (rd\<lparr>cr_rows := map Inr (map nibss_row rs), cr_row := cr_row rd + 1\<rparr>)
      = Some (map Inr (map nibss_normal rs))"
    using Cons by simp
  ultimately show ?case by (simp del: drain.simps(2) add: drain.simps(2) [of "Suc (length rs)"])
qed (simp add: nibss_Next_def)

lemma nibss_file_back:
  assumes "\<forall>r \<in> set rs. nibss_writable r"
  shows "\<exists>rd. NewNIBSSReader (WriteNIBSS rs) = Inr rd
     \<and> drain (Suc (rows_left rd)) nibss_Next rd = Some (map Inr (map nibss_normal rs))"
proof -
  have "\<forall>row \<in> set (nibssColumns # map nibss_row rs). row \<noteq> [] \<and> row \<noteq> [[]] \<and> (\<forall>f \<in> set row. carriage_return \<notin> set f)"
    using assms time_text FormatInt_plain token_plain
    by (auto simp: nibss_row_def nibss_token_def [symmetric] nibss_writable_def plain_text_def nibssColumns_def)
  then have rows: "csv_rows (WriteNIBSS rs) = map Inr (nibssColumns # map nibss_row rs)"
    unfolding WriteNIBSS_def by (rule csv_roundtrip)
  have "map (check_fields (length nibssColumns)) (map Inr (map nibss_row rs)) = map Inr (map nibss_row rs)"
    by (simp add: check_fields_def nibss_row_def nibssColumns_def)
  moreover have "checkHeader nibssColumns nibssColumns = None" by code_simp
  ultimately have "NewNIBSSReader (WriteNIBSS rs) = Inr \<lparr>cr_rows = map Inr (map nibss_row rs), cr_row = 1, cr_index = Map.empty\<rparr>"
    by (simp add: NewNIBSSReader_def rows check_fields_def)
  then show ?thesis using drain_nibss [OF assms] by (auto simp del: drain.simps)
qed

text \<open>C31. A settlement file the program writes is read back, byte for byte through the CSV layer, as the
  same records in the same order: reference, parties, amount, currency and the second of the time are
  exact (quotes, commas and line breaks in a field included), and the status is the one its token stands
  for. Fields must have no white space at their ends and no carriage return, and the year four digits.\<close>

theorem nibss_file_roundtrip:
  assumes "\<forall>r \<in> set rs. nibss_writable r"
  shows "\<exists>rd. NewNIBSSReader (WriteNIBSS rs) = Inr rd
     \<and> drain (Suc (rows_left rd)) nibss_Next rd = Some (map Inr (map nibss_normal rs))"
  by (rule nibss_file_back [OF assms])

section \<open>Witnesses\<close>

definition demo_nibss :: canonical_record where
  "demo_nibss = empty_record\<lparr>r_reference := ''R,1'', r_source := ''A'', r_destination := ''say \"hi\"'', r_amount := 750,
     r_currency := ''NGN'', r_type := TypeTransfer, r_status := StatusDebited, r_initiated_at := 1780218000000000001\<rparr>"

lemma demo_nibss_writable: "nibss_writable demo_nibss"
  by (simp add: demo_nibss_def nibss_writable_def plain_text_def trimmed_def is_space_def in_years_def second_def)

lemma nibss_file_roundtrip_witness:
  "\<exists>rd. NewNIBSSReader (WriteNIBSS [demo_nibss]) = Inr rd
     \<and> drain (Suc (rows_left rd)) nibss_Next rd = Some [Inr (nibss_normal demo_nibss)]"
  using nibss_file_roundtrip [of "[demo_nibss]"] demo_nibss_writable by simp

lemma nibss_reader_is_safe_witness:
  "seven_fields (snd (nibss_Next \<lparr>cr_rows = [Inr (nibss_row demo_nibss)], cr_row = 1, cr_index = Map.empty\<rparr>))"
  using nibss_reader_is_safe [of "[]" "\<lparr>cr_rows = [Inr (nibss_row demo_nibss)], cr_row = 1, cr_index = Map.empty\<rparr>"]
  by (simp add: seven_fields_def nibss_row_def nibssColumns_def)

section \<open>What the readers read\<close>

text \<open>What a row of a settlement file stands for, column by column. A status is one of the tokens, in any
  case and surrounded by any space; none at all means settled.\<close>

definition status_means :: "string \<Rightarrow> string \<Rightarrow> bool" where
  "status_means field s \<longleftrightarrow>
     (if TrimSpace field = [] then s = StatusSettled else (ToUpper (TrimSpace field), s) \<in> set statusTokens)"

inductive nibss_row_means :: "csv_error + string list \<Rightarrow> canonical_record \<Rightarrow> bool" where
  nibss_row_means_row: "ParseInt (TrimSpace amount) = Inr v \<Longrightarrow> status_means status s \<Longrightarrow> parse_rfc3339 (TrimSpace date) = Some ts \<Longrightarrow>
   nibss_row_means (Inr [session, source, beneficiary, amount, currency, status, date])
     \<lparr>r_transaction_id = [], r_reference = TrimSpace session, r_source = TrimSpace source,
      r_destination = TrimSpace beneficiary, r_amount = v, r_currency = TrimSpace currency, r_type = ''transfer'',
      r_status = s, r_initiated_at = ts, r_settled_at = None, r_metadata = []\<rparr>"

lemma statusTokens_key: "distinct (map fst statusTokens)"
  by code_simp

lemma ToUpper_Nil [simp]: "ToUpper s = [] \<longleftrightarrow> s = []"
  by (simp add: ToUpper_def)

lemma parseStatus_iff: "parseStatus field = Inr s \<longleftrightarrow> status_means field s"
  by (auto simp: parseStatus_def status_means_def Let_def map_of_eq_Some_iff [OF statusTokens_key, symmetric] split: option.splits)

lemma parse_amount_iff: "parse_amount x = Inr v \<longleftrightarrow> ParseInt x = Inr v"
  by (simp add: parse_amount_def split: sum.split)

lemma parse_time_iff: "parse_time x = Inr v \<longleftrightarrow> parse_rfc3339 x = Some v"
  by (simp add: parse_time_def split: option.split)

lemma seven_list: "length fs = 7 \<Longrightarrow> \<exists>a b c d e f g. fs = [a, b, c, d, e, f, g]"
  by (auto simp: length_Suc_conv numeral_eq_Suc)

lemma seven_columns: "length nibssColumns = 7"
  by (simp add: nibssColumns_def)

lemma nibss_record_iff:
  "(case check_fields 7 row of Inl e \<Rightarrow> False | Inr fs \<Rightarrow> nibss_record n fs = Inr r) \<longleftrightarrow> nibss_row_means row r"
proof
  assume l: "case check_fields 7 row of Inl e \<Rightarrow> False | Inr fs \<Rightarrow> nibss_record n fs = Inr r"
  then obtain fs where fs: "row = Inr fs" "length fs = 7" "nibss_record n fs = Inr r"
    by (auto simp: check_fields_def split: sum.splits if_splits)
  then obtain a b c d e f g where seven: "fs = [a, b, c, d, e, f, g]" using seven_list by blast
  obtain v s ts where "parse_amount (TrimSpace d) = Inr v" "parseStatus f = Inr s" "parse_time (TrimSpace g) = Inr ts"
    "r = \<lparr>r_transaction_id = [], r_reference = TrimSpace a, r_source = TrimSpace b, r_destination = TrimSpace c, r_amount = v,
       r_currency = TrimSpace e, r_type = ''transfer'', r_status = s, r_initiated_at = ts, r_settled_at = None, r_metadata = []\<rparr>"
    using fs(3) unfolding seven nibss_record_def by (auto simp: numeral_eq_Suc go_const split: sum.splits)
  then show "nibss_row_means row r"
    unfolding fs(1) seven parse_amount_iff parseStatus_iff parse_time_iff by (simp add: nibss_row_means_row)
next
  assume "nibss_row_means row r"
  then show "case check_fields 7 row of Inl e \<Rightarrow> False | Inr fs \<Rightarrow> nibss_record n fs = Inr r"
    by cases (simp add: check_fields_def nibss_record_def numeral_eq_Suc parse_amount_iff [symmetric] parseStatus_iff [symmetric]
        parse_time_iff [symmetric] go_const)
qed

text \<open>A row of a CSV under its header: a column is the last one whose name, trimmed and in lower case, is the
  one asked for; a file without the column, and a row too short for it, give the empty field.\<close>

definition columns_named :: "string list \<Rightarrow> string \<Rightarrow> nat list" where
  "columns_named header c = filter (\<lambda>i. ToLower (TrimSpace (header ! i)) = c) [0..<length header]"

definition csv_column :: "string list \<Rightarrow> string list \<Rightarrow> string \<Rightarrow> string" where
  "csv_column header fs c =
     (if columns_named header c = [] \<or> length fs \<le> last (columns_named header c) then []
      else TrimSpace (fs ! last (columns_named header c)))"

inductive csv_row_means :: "string list \<Rightarrow> csv_error + string list \<Rightarrow> canonical_record \<Rightarrow> bool" where
  csv_row_means_row: "ParseInt (csv_column h fs ''amount_minor'') = Inr v \<Longrightarrow> status_means (csv_column h fs ''status'') s \<Longrightarrow>
   (if csv_column h fs ''initiated_at'' = [] then ts = zero_time
    else parse_rfc3339 (csv_column h fs ''initiated_at'') = Some ts) \<Longrightarrow>
   csv_row_means h (Inr fs)
     \<lparr>r_transaction_id = [], r_reference = csv_column h fs ''reference'', r_source = csv_column h fs ''source'',
      r_destination = csv_column h fs ''destination'', r_amount = v, r_currency = csv_column h fs ''currency'', r_type = ''transfer'',
      r_status = s, r_initiated_at = ts, r_settled_at = None, r_metadata = []\<rparr>"

lemma header_index_eq:
  "header_index i hs ix c = (if columns_named hs c = [] then ix c else Some (i + last (columns_named hs c)))"
proof (induction hs arbitrary: i ix)
  case Nil
  then show ?case by (simp add: columns_named_def)
next
  case (Cons h hs)
  have up: "[0..<length (h # hs)] = 0 # map Suc [0..<length hs]" by (simp add: map_Suc_upt upt_conv_Cons del: upt_Suc)
  have "columns_named (h # hs) c = (if ToLower (TrimSpace h) = c then [0] else []) @ map Suc (columns_named hs c)"
    unfolding columns_named_def up by (simp add: filter_map comp_def)
  then show ?case using Cons by (cases "columns_named hs c = []") (auto simp: last_map)
qed

lemma csv_get_eq: "csv_get (header_index 0 h Map.empty) fs c = csv_column h fs c"
  by (simp add: csv_get_def csv_column_def header_index_eq)

lemma csv_record_iff:
  "csv_record (header_index 0 h Map.empty) n fs = Inr r \<longleftrightarrow> csv_row_means h (Inr fs) r"
proof
  assume "csv_record (header_index 0 h Map.empty) n fs = Inr r"
  then show "csv_row_means h (Inr fs) r"
    by (auto simp: csv_record_def csv_get_eq parse_amount_iff parseStatus_iff parse_time_iff go_const Let_def csv_row_means.simps
        split: sum.splits if_splits)
next
  assume "csv_row_means h (Inr fs) r"
  then show "csv_record (header_index 0 h Map.empty) n fs = Inr r"
    by cases (auto simp: csv_record_def csv_get_eq parse_amount_iff [symmetric] parseStatus_iff [symmetric] parse_time_iff [symmetric]
        go_const Let_def split: if_splits)
qed

text \<open>What a reader answers on the rows of a file, the next of which has number \<open>n\<close>: the records the rows
  stand for, up to the first row that stands for none, which is an error with its number.\<close>

inductive reads_rows :: "('row \<Rightarrow> canonical_record \<Rightarrow> bool) \<Rightarrow> nat \<Rightarrow> 'row list \<Rightarrow> (err + canonical_record) list \<Rightarrow> bool"
  for means where
  reads_end: "reads_rows means n [] []"
| reads_record: "means row r \<Longrightarrow> reads_rows means (Suc n) rows answers \<Longrightarrow> reads_rows means n (row # rows) (Inr r # answers)"
| reads_malformed: "\<forall>r. \<not> means row r \<Longrightarrow> reads_rows means n (row # rows) [Inl (rowErr n cause)]"

lemma nibss_record_err: "nibss_record n fs = Inl e \<Longrightarrow> \<exists>cause. e = rowErr n cause"
  by (auto simp: nibss_record_def split: sum.splits)

lemma csv_record_err: "csv_record ix n fs = Inl e \<Longrightarrow> \<exists>cause. e = rowErr n cause"
  by (auto simp: csv_record_def Let_def split: sum.splits if_splits)

lemma nibss_drain_reads:
  "cr_rows rd = map (check_fields 7) raw \<Longrightarrow> cr_row rd = n \<Longrightarrow>
   \<exists>answers. drain (Suc (length raw)) nibss_Next rd = Some answers \<and> reads_rows nibss_row_means (Suc n) raw answers"
proof (induction raw arbitrary: rd n)
  case Nil
  then show ?case by (auto simp: nibss_Next_def intro: reads_end)
next
  case (Cons row raw)
  show ?case
  proof (cases "\<exists>r. nibss_row_means row r")
    case True
    then obtain r where r: "nibss_row_means row r" by blast
    then obtain fs where fs: "check_fields 7 row = Inr fs" "nibss_record (Suc n) fs = Inr r"
      using nibss_record_iff [where row = row and n = "Suc n" and r = r] by (auto split: sum.splits)
    define rd' where "rd' = rd\<lparr>cr_rows := map (check_fields 7) raw, cr_row := Suc n\<rparr>"
    have nxt: "nibss_Next rd = (Inr r, rd')" using Cons.prems fs by (simp add: nibss_Next_def rd'_def)
    obtain answers where a: "drain (Suc (length raw)) nibss_Next rd' = Some answers" "reads_rows nibss_row_means (Suc (Suc n)) raw answers"
      using Cons.IH [of rd' "Suc n"] by (auto simp: rd'_def)
    have "drain (Suc (length (row # raw))) nibss_Next rd = Some (Inr r # answers)"
      using nxt a(1) by (simp del: drain.simps(2) add: drain.simps(2) [of "Suc (length raw)"])
    then show ?thesis using reads_record [where means = nibss_row_means, OF r a(2)] by blast
  next
    case False
    obtain e rd' where nxt: "nibss_Next rd = (Inl e, rd')" and e: "\<exists>cause. e = rowErr (Suc n) cause"
    proof (cases "check_fields 7 row")
      case (Inl e)
      then show thesis using Cons.prems by (intro that) (auto simp: nibss_Next_def)
    next
      case (Inr fs)
      then obtain e where "nibss_record (Suc n) fs = Inl e"
        using False nibss_record_iff [where row = row and n = "Suc n"] by (cases "nibss_record (Suc n) fs") auto
      then show thesis using Cons.prems Inr nibss_record_err that by (simp add: nibss_Next_def)
    qed
    then show ?thesis using False by (auto intro: reads_malformed)
  qed
qed

lemma csv_drain_reads:
  "cr_rows rd = raw \<Longrightarrow> cr_row rd = n \<Longrightarrow> cr_index rd = header_index 0 h Map.empty \<Longrightarrow>
   \<exists>answers. drain (Suc (length raw)) csv_Next rd = Some answers \<and> reads_rows (csv_row_means h) (Suc n) raw answers"
proof (induction raw arbitrary: rd n)
  case Nil
  then show ?case by (auto simp: csv_Next_def intro: reads_end)
next
  case (Cons row raw)
  have inr: "\<exists>fs. row = Inr fs" if "csv_row_means h row r" for r using that by cases simp
  show ?case
  proof (cases "\<exists>r. csv_row_means h row r")
    case True
    then obtain r fs where r: "csv_row_means h row r" and row: "row = Inr fs" using inr by blast
    define rd' where "rd' = rd\<lparr>cr_rows := raw, cr_row := Suc n\<rparr>"
    have nxt: "csv_Next rd = (Inr r, rd')"
      using Cons.prems r csv_record_iff [of h "Suc n" fs r] by (simp add: csv_Next_def rd'_def row)
    obtain answers where a: "drain (Suc (length raw)) csv_Next rd' = Some answers" "reads_rows (csv_row_means h) (Suc (Suc n)) raw answers"
      using Cons.IH [of rd' "Suc n"] Cons.prems(3) by (auto simp: rd'_def)
    have "drain (Suc (length (row # raw))) csv_Next rd = Some (Inr r # answers)"
      using nxt a(1) by (simp del: drain.simps(2) add: drain.simps(2) [of "Suc (length raw)"])
    then show ?thesis using reads_record [where means = "csv_row_means h", OF r a(2)] by blast
  next
    case False
    obtain e rd' where nxt: "csv_Next rd = (Inl e, rd')" and e: "\<exists>cause. e = rowErr (Suc n) cause"
    proof (cases row)
      case (Inl e)
      then show thesis using Cons.prems by (intro that) (auto simp: csv_Next_def)
    next
      case (Inr fs)
      then obtain e where "csv_record (header_index 0 h Map.empty) (Suc n) fs = Inl e"
        using False csv_record_iff [of h "Suc n" fs] by (cases "csv_record (header_index 0 h Map.empty) (Suc n) fs") auto
      then show thesis using Cons.prems Inr csv_record_err that by (simp add: csv_Next_def)
    qed
    then show ?thesis using False by (auto intro: reads_malformed)
  qed
qed

text \<open>C30. Settlement files are read for what they say and no further: draining a NIBSS or CSV reader over
  any bytes ends with fuel for one step per row, and answers exactly the records the rows stand for, in
  their order, up to the first row that stands for none (a wrong number of NIBSS columns, a quoting error,
  an amount that is no 64-bit integer, an unknown status, an unreadable date), for which it answers a
  malformed-row error with that row's number; more fuel changes nothing.\<close>

theorem settlement_files_read_exactly:
  "(\<forall>rd. NewNIBSSReader bytes = Inr rd \<longrightarrow>
      (\<exists>answers. drain (Suc (rows_left rd) + k) nibss_Next rd = Some answers
         \<and> reads_rows nibss_row_means 2 (tl (csv_rows bytes)) answers))
   \<and> (\<forall>rd. NewCSVReader bytes = Inr rd \<longrightarrow>
      (\<exists>answers header. drain (Suc (rows_left rd) + k) csv_Next rd = Some answers
         \<and> hd (csv_rows bytes) = Inr header \<and> reads_rows (csv_row_means header) 2 (tl (csv_rows bytes)) answers))"
proof (intro conjI allI impI)
  fix rd
  assume "NewNIBSSReader bytes = Inr rd"
  then have rd: "cr_rows rd = map (check_fields 7) (tl (csv_rows bytes))" "cr_row rd = 1"
    by (auto simp: NewNIBSSReader_def seven_columns split: list.splits sum.splits option.splits)
  then have len: "rows_left rd = length (tl (csv_rows bytes))" by simp
  have "drain (Suc (rows_left rd) + k) nibss_Next rd = drain (Suc (rows_left rd)) nibss_Next rd"
    by (rule nibss.drain_stable) simp
  then show "\<exists>answers. drain (Suc (rows_left rd) + k) nibss_Next rd = Some answers
      \<and> reads_rows nibss_row_means 2 (tl (csv_rows bytes)) answers"
    using nibss_drain_reads [OF rd] unfolding len by (simp only: one_add_one [symmetric] Suc_eq_plus1)
next
  fix rd
  assume "NewCSVReader bytes = Inr rd"
  then obtain header where rd: "cr_rows rd = tl (csv_rows bytes)" "cr_row rd = 1" "cr_index rd = header_index 0 header Map.empty"
    and h: "hd (csv_rows bytes) = Inr header"
    by (auto simp: NewCSVReader_def Let_def split: list.splits sum.splits option.splits)
  have len: "rows_left rd = length (tl (csv_rows bytes))" using rd(1) by simp
  have "drain (Suc (rows_left rd) + k) csv_Next rd = drain (Suc (rows_left rd)) csv_Next rd"
    by (rule csv.drain_stable) simp
  then show "\<exists>answers header. drain (Suc (rows_left rd) + k) csv_Next rd = Some answers
      \<and> hd (csv_rows bytes) = Inr header \<and> reads_rows (csv_row_means header) 2 (tl (csv_rows bytes)) answers"
    using csv_drain_reads [OF rd] h unfolding len by (simp only: one_add_one [symmetric] Suc_eq_plus1) blast
qed

text \<open>A file of one good row and one whose amount is no number.\<close>

definition bad_row :: "string list" where
  "bad_row = [''R2'', ''A'', ''B'', ''x'', ''NGN'', ''00'', ''2026-01-01T00:00:00Z'']"

definition shifted_file :: string where
  "shifted_file = WriteNIBSS [demo_nibss] @ csv_write_row bad_row"

lemma shifted_file_csv: "csv_rows shifted_file = map Inr [nibssColumns, nibss_row demo_nibss, bad_row]"
proof -
  have bytes: "shifted_file = concat (map csv_write_row [nibssColumns, nibss_row demo_nibss, bad_row])"
    by (simp add: shifted_file_def WriteNIBSS_def)
  have "\<forall>row \<in> set [nibssColumns, nibss_row demo_nibss, bad_row]. row \<noteq> [] \<and> row \<noteq> [[]] \<and> (\<forall>f \<in> set row. carriage_return \<notin> set f)"
    using demo_nibss_writable time_text FormatInt_plain token_plain
    by (auto simp: nibss_row_def nibss_token_def [symmetric] nibss_writable_def plain_text_def nibssColumns_def bad_row_def)
  then show ?thesis unfolding bytes by (rule csv_roundtrip)
qed

lemma shifted_file_rows:
  "tl (csv_rows shifted_file) = [Inr (nibss_row demo_nibss), Inr bad_row]"
  "map_sum id rows_left (NewNIBSSReader shifted_file) = Inr 2"
proof -
  show "tl (csv_rows shifted_file) = [Inr (nibss_row demo_nibss), Inr bad_row]" by (simp add: shifted_file_csv)
  have "checkHeader nibssColumns nibssColumns = None" by code_simp
  then show "map_sum id rows_left (NewNIBSSReader shifted_file) = Inr 2"
    by (simp add: NewNIBSSReader_def shifted_file_csv check_fields_def)
qed

lemma settlement_files_read_exactly_witness:
  "\<exists>rd cause. NewNIBSSReader shifted_file = Inr rd \<and> drain 3 nibss_Next rd = Some [Inr (nibss_normal demo_nibss), Inl (rowErr 3 cause)]"
proof -
  obtain rd where rd: "NewNIBSSReader shifted_file = Inr rd" "rows_left rd = 2"
    using shifted_file_rows(2) by (cases "NewNIBSSReader shifted_file") auto
  obtain answers where a: "drain 3 nibss_Next rd = Some answers" "reads_rows nibss_row_means 2 (tl (csv_rows shifted_file)) answers"
    using settlement_files_read_exactly [of shifted_file 0] rd by (auto simp: numeral_3_eq_3 simp del: drain.simps)
  have bad: "\<not> nibss_row_means (Inr bad_row) r" for r
  proof
    assume "nibss_row_means (Inr bad_row) r"
    then obtain v where "ParseInt (TrimSpace ''x'') = Inr v" by cases (auto simp: bad_row_def)
    moreover have "(case ParseInt (TrimSpace ''x'') of Inl _ \<Rightarrow> True | Inr _ \<Rightarrow> False)" by code_simp
    ultimately show False by simp
  qed
  have "length (nibss_row demo_nibss) = 7" by (simp add: nibss_row_def)
  then have good: "nibss_row_means (Inr (nibss_row demo_nibss)) r \<longleftrightarrow> r = nibss_normal demo_nibss" for r
    using nibss_record_iff [where row = "Inr (nibss_row demo_nibss)" and n = 0 and r = r] nibss_row_back [OF demo_nibss_writable, of 0]
    by (auto simp: check_fields_def)
  from a(2) show ?thesis unfolding shifted_file_rows
  proof cases
    case (reads_record r answers')
    from reads_record(3) obtain cause where ans: "answers' = [Inl (rowErr 3 cause)]"
      by cases (use bad in auto)
    have "r = nibss_normal demo_nibss" using reads_record(2) good by simp
    then show ?thesis using rd(1) a(1) reads_record(1) ans by (intro exI [of _ rd] exI [of _ cause]) simp
  qed (use good in blast)
qed

end
