(* ===== verification/Fixture.thy ===== *)
theory Fixture
  imports Adapters MatcherOrder
begin

text \<open>
  \<open>internal/reconcile/fixture/fixture.go\<close>: the generator of paired inputs with known discrepancies.
  \<open>math/rand\<close> is a parameter: \<open>draw k\<close> is the k-th \<open>rng.Intn(999_900)\<close> and \<open>shuffle_internal\<close>,
  \<open>shuffle_external\<close> the two \<open>rng.Shuffle\<close>s. \<open>WriteJSONL\<close> is the encoder up to the byte syntax of JSON.
\<close>

section \<open>Generate\<close>

record fixture_spec =
  fs_count :: int
  fs_per_category :: int

record fixture =
  fx_internal :: "canonical_record list"
  fx_external :: "canonical_record list"
  fx_by_ref :: "(string \<times> string) list"
  fx_matched :: nat

record fixture_rng =
  rng_draw :: "nat \<Rightarrow> int"
  rng_shuffle_internal :: "canonical_record list \<Rightarrow> canonical_record list"
  rng_shuffle_external :: "canonical_record list \<Rightarrow> canonical_record list"

definition baseTime :: time where
  "baseTime = (day_number 2026 5 31 - epoch_days) * 86400 * second + 9 * 3600 * second"

definition matchOffset :: time where
  "matchOffset = 30 * second"

text \<open>\<open>baseTime.Add(time.Duration(i) * time.Minute)\<close>; the product wraps.\<close>

definition fixture_ts :: "nat \<Rightarrow> time" where
  "fixture_ts i = baseTime + sint (word_of_int (int i * (60 * second)) :: i64)"

definition fixture_amount :: "(nat \<Rightarrow> int) \<Rightarrow> nat \<Rightarrow> amount" where
  "fixture_amount draw k = FromMinor (word_of_int (100 + draw k))"

definition fixture_record :: "string \<Rightarrow> amount \<Rightarrow> string \<Rightarrow> string \<Rightarrow> time \<Rightarrow> canonical_record" where
  "fixture_record ref amt typ status t =
     \<lparr>r_transaction_id = [], r_reference = ref, r_source = ''CUST-001'', r_destination = ''CUST-002'', r_amount = amt,
      r_currency = ''NGN'', r_type = typ, r_status = status, r_initiated_at = t, r_settled_at = None, r_metadata = []\<rparr>"

definition settled_record :: "string \<Rightarrow> amount \<Rightarrow> nat \<Rightarrow> canonical_record" where
  "settled_record ref amt i = fixture_record ref amt TypeTransfer StatusSettled (fixture_ts i)"

definition shifted :: "canonical_record \<Rightarrow> canonical_record" where
  "shifted r = r\<lparr>r_initiated_at := r_initiated_at r + matchOffset\<rparr>"

text \<open>The internal records of the six loops; each draws its amounts where the one before it stopped.\<close>

definition clean_in :: "fixture_spec \<Rightarrow> (nat \<Rightarrow> int) \<Rightarrow> canonical_record list" where
  "clean_in sp draw = map (\<lambda>i. settled_record (''TXN-'' @ pad_zero 6 (int i)) (fixture_amount draw i) i) [0..<nat (fs_count sp)]"

definition section_records ::
  "fixture_spec \<Rightarrow> (nat \<Rightarrow> int) \<Rightarrow> nat \<Rightarrow> string \<Rightarrow> string \<Rightarrow> canonical_record list" where
  "section_records sp draw k name status =
     map (\<lambda>j. fixture_record (name @ pad_zero 4 (int j)) (fixture_amount draw (nat (fs_count sp) + k * nat (fs_per_category sp) + j))
        TypeTransfer status (fixture_ts j)) [0..<nat (fs_per_category sp)]"

definition mismatch_in :: "fixture_spec \<Rightarrow> (nat \<Rightarrow> int) \<Rightarrow> canonical_record list" where
  "mismatch_in sp draw = section_records sp draw 0 ''AMIS-'' StatusSettled"

definition mismatch_ex :: "fixture_spec \<Rightarrow> (nat \<Rightarrow> int) \<Rightarrow> canonical_record list" where
  "mismatch_ex sp draw =
     map2 (\<lambda>r j. (shifted r)\<lparr>r_amount := amount_Add (r_amount r) (FromMinor (word_of_int (100 * (int j + 1))))\<rparr>)
       (mismatch_in sp draw) [0..<nat (fs_per_category sp)]"

definition unmatched_in :: "fixture_spec \<Rightarrow> (nat \<Rightarrow> int) \<Rightarrow> canonical_record list" where
  "unmatched_in sp draw = section_records sp draw 1 ''UINT-'' StatusSettled"

definition unmatched_ex :: "fixture_spec \<Rightarrow> (nat \<Rightarrow> int) \<Rightarrow> canonical_record list" where
  "unmatched_ex sp draw = section_records sp draw 2 ''UEXT-'' StatusSettled"

definition duplicate_in :: "fixture_spec \<Rightarrow> (nat \<Rightarrow> int) \<Rightarrow> canonical_record list" where
  "duplicate_in sp draw = section_records sp draw 3 ''DUP-'' StatusSettled"

definition pending_in :: "fixture_spec \<Rightarrow> (nat \<Rightarrow> int) \<Rightarrow> canonical_record list" where
  "pending_in sp draw = section_records sp draw 4 ''PREV-'' StatusFailed"

definition labelled :: "string \<Rightarrow> canonical_record list \<Rightarrow> (string \<times> string) list" where
  "labelled cat rs = map (\<lambda>r. (r_reference r, cat)) rs"

definition Generate :: "fixture_rng \<Rightarrow> fixture_spec \<Rightarrow> fixture" where
  "Generate rng sp =
     (let draw = rng_draw rng; dup = duplicate_in sp draw in
      \<lparr>fx_internal = rng_shuffle_internal rng
         (clean_in sp draw @ mismatch_in sp draw @ unmatched_in sp draw @ dup @ pending_in sp draw),
       fx_external = rng_shuffle_external rng
         (map shifted (clean_in sp draw) @ mismatch_ex sp draw @ unmatched_ex sp draw
          @ concat (map (\<lambda>r. [shifted r, shifted r]) dup)),
       fx_by_ref = labelled CategoryAmountMismatch (mismatch_in sp draw)
         @ labelled CategoryUnmatchedInternal (unmatched_in sp draw)
         @ labelled CategoryUnmatchedExternal (unmatched_ex sp draw)
         @ labelled CategoryDuplicate dup @ labelled CategoryPendingReversal (pending_in sp draw),
       fx_matched = nat (fs_count sp) + nat (fs_per_category sp)\<rparr>)"

text \<open>\<open>ExpectedByCategory\<close>: one count per label written.\<close>

definition fx_by_category :: "fixture \<Rightarrow> string \<Rightarrow> nat" where
  "fx_by_category f c = length (filter (\<lambda>(_, c'). c' = c) (fx_by_ref f))"

section \<open>WriteJSONL\<close>

definition record_json :: "canonical_record \<Rightarrow> (string \<times> record_token) list option" where
  "record_json r =
     (case (time_json (r_initiated_at r), (case r_settled_at r of None \<Rightarrow> Some None | Some t \<Rightarrow> map_option Some (time_json t))) of
        (Some at, Some st) \<Rightarrow> Some
          ((if r_transaction_id r = [] then [] else [(''transaction_id'', Plain (TokString (r_transaction_id r)))])
           @ [(''reference'', Plain (TokString (r_reference r))), (''source'', Plain (TokString (r_source r))),
              (''destination'', Plain (TokString (r_destination r))),
              (''amount_minor'', Plain (TokNumber (amount_MarshalJSON (r_amount r)))),
              (''currency'', Plain (TokString (r_currency r))), (''type'', Plain (TokString (r_type r))),
              (''status'', Plain (TokString (r_status r))), (''initiated_at'', Plain (TokString at))]
           @ (case st of None \<Rightarrow> [] | Some s \<Rightarrow> [(''settled_at'', Plain (TokString s))])
           @ (if r_metadata r = [] then []
              else [(''metadata'', Members (map (\<lambda>(k, v). (k, TokString v)) (sort_key fst (r_metadata r))))]))
      | _ \<Rightarrow> None)"

fun WriteJSONL :: "canonical_record list \<Rightarrow> err + ledger_value list" where
  "WriteJSONL [] = Inr []"
| "WriteJSONL (r # rs) =
     (case record_json r of
        None \<Rightarrow> Inl (Wrap ''encode record: '' (ErrMsg ''json: year outside of range [0,9999]'') [])
      | Some ms \<Rightarrow> (case WriteJSONL rs of Inl e \<Rightarrow> Inl e | Inr vs \<Rightarrow> Inr (LvObject ms # vs)))"

section \<open>Decoding what was encoded\<close>

lemma map_set_new: "k \<notin> fst ` set m \<Longrightarrow> map_set k v m = m @ [(k, v)]"
  by (induction k v m rule: map_set.induct) auto

lemma decode_metadata_back:
  "distinct (map fst (m @ ms)) \<Longrightarrow> decode_metadata (map (\<lambda>(k, v). (k, TokString v)) ms) m = Some (m @ ms)"
proof (induction ms arbitrary: m)
  case (Cons kv ms)
  obtain k v where kv: "kv = (k, v)" by force
  have "k \<notin> fst ` set m" using Cons.prems kv by auto
  moreover have "distinct (map fst ((m @ [(k, v)]) @ ms))" using Cons.prems kv by simp
  ultimately show ?case using Cons.IH [of "m @ [(k, v)]"] kv by (simp add: map_set_new)
qed simp

lemma time_json_back: "time_json t = Some s \<Longrightarrow> parse_strict s = Some t"
  by (auto simp: time_json_def parse_strict_nano split: if_splits)

lemma match_record_field: "f \<in> set record_fields \<Longrightarrow> match_name record_fields f = Some f"
  by (simp add: match_name_def)

lemma match_record_fields:
  "match_name record_fields ''transaction_id'' = Some ''transaction_id''"
  "match_name record_fields ''reference'' = Some ''reference''"
  "match_name record_fields ''source'' = Some ''source''"
  "match_name record_fields ''destination'' = Some ''destination''"
  "match_name record_fields ''amount_minor'' = Some ''amount_minor''"
  "match_name record_fields ''currency'' = Some ''currency''"
  "match_name record_fields ''type'' = Some ''type''"
  "match_name record_fields ''status'' = Some ''status''"
  "match_name record_fields ''initiated_at'' = Some ''initiated_at''"
  "match_name record_fields ''settled_at'' = Some ''settled_at''"
  "match_name record_fields ''metadata'' = Some ''metadata''"
  by (rule match_record_field, simp add: record_fields_def)+

lemma decode_amount_back: "decode_amount (TokNumber (amount_MarshalJSON a)) = Some a"
  by (simp add: decode_amount_def amount_UnmarshalJSON_def amount_MarshalJSON_def)

lemma record_json_back:
  assumes "record_json r = Some ms" and "distinct (map fst (r_metadata r))"
  shows "decode_record ms empty_record = Some (r\<lparr>r_metadata := sort_key fst (r_metadata r)\<rparr>)"
proof -
  obtain at st where t: "time_json (r_initiated_at r) = Some at"
    "(case r_settled_at r of None \<Rightarrow> Some None | Some t \<Rightarrow> map_option Some (time_json t)) = Some st"
    and ms: "ms = (if r_transaction_id r = [] then [] else [(''transaction_id'', Plain (TokString (r_transaction_id r)))])
           @ [(''reference'', Plain (TokString (r_reference r))), (''source'', Plain (TokString (r_source r))),
              (''destination'', Plain (TokString (r_destination r))),
              (''amount_minor'', Plain (TokNumber (amount_MarshalJSON (r_amount r)))),
              (''currency'', Plain (TokString (r_currency r))), (''type'', Plain (TokString (r_type r))),
              (''status'', Plain (TokString (r_status r))), (''initiated_at'', Plain (TokString at))]
           @ (case st of None \<Rightarrow> [] | Some s \<Rightarrow> [(''settled_at'', Plain (TokString s))])
           @ (if r_metadata r = [] then []
              else [(''metadata'', Members (map (\<lambda>(k, v). (k, TokString v)) (sort_key fst (r_metadata r))))])"
    using assms(1) by (auto simp: record_json_def split: option.splits)
  have meta: "decode_metadata (map (\<lambda>(k, v). (k, TokString v)) (sort_key fst (r_metadata r))) [] = Some (sort_key fst (r_metadata r))"
    using decode_metadata_back [of "[]" "sort_key fst (r_metadata r)"] assms(2)
    by (metis append_Nil distinct_map distinct_sort set_sort)
  have at: "parse_strict at = Some (r_initiated_at r)" by (rule time_json_back [OF t(1)])
  note decode = match_record_fields decode_field_def decode_time_def decode_amount_back empty_record_def meta at
  show ?thesis
  proof (cases "r_settled_at r")
    case None
    then show ?thesis
      using t(2) unfolding ms by (cases "r_transaction_id r = []"; cases "r_metadata r = []") (simp_all add: decode)
  next
    case (Some u)
    then obtain s where s: "st = Some s" "time_json u = Some s" using t(2) by auto
    note su = time_json_back [OF s(2)]
    show ?thesis
      using s Some su unfolding ms by (cases "r_transaction_id r = []"; cases "r_metadata r = []") (simp_all add: decode)
  qed
qed

end
