(* ===== verification/FixtureProps.thy ===== *)
theory FixtureProps
  imports Fixture
begin

text \<open>
  What the matcher reports on inputs put together from labelled sections, and the references of the
  sections a fixture is put together from.
\<close>

section \<open>Inputs made of sections\<close>

definition label_of :: "recon_exception \<Rightarrow> string \<times> string" where
  "label_of x = (x_reference x, x_category x)"

lemma latest_distinct:
  assumes "distinct (map r_reference rs)" and "r \<in> set rs" and "r_type r \<noteq> TypeReversal"
  shows "latest rs (r_reference r) = Some r"
proof (cases "latest rs (r_reference r)")
  case None
  then show ?thesis using assms by (auto simp: latest_None)
next
  case (Some r')
  from latest_Some [OF this] have "r' \<in> set rs" "r_reference r' = r_reference r" by simp_all
  then show ?thesis using assms Some by (auto simp: distinct_map dest: inj_onD)
qed

lemma sum_distinct_list: "distinct xs \<Longrightarrow> (\<Sum>x \<in> set xs. f x) = (\<Sum>x \<leftarrow> xs. f x :: 'a multiset)"
  by (simp add: sum_list_distinct_conv_sum_set)

lemma sum_list_opt_None: "(\<And>x. x \<in> set xs \<Longrightarrow> f x = None) \<Longrightarrow> (\<Sum>x \<leftarrow> xs. opt_mset (f x)) = {#}"
  by (induction xs) (auto simp: opt_mset_def)

lemma sum_list_opt_Some: "(\<And>x. x \<in> set xs \<Longrightarrow> f x = Some (g x)) \<Longrightarrow> (\<Sum>x \<leftarrow> xs. opt_mset (f x)) = image_mset g (mset xs)"
  by (induction xs) (auto simp: opt_mset_def)

lemma label_external_only: "label_of (external_only c e) = (r_reference e, c)"
  by (simp add: label_of_def external_only_def)

lemma labels_external_only: "image_mset label_of (image_mset (external_only c) (mset es)) = mset (labelled c es)"
  by (simp add: image_mset.compositionality comp_def label_external_only labelled_def)

text \<open>Rows that agree (\<open>A\<close>), disagree (\<open>M\<close>), have no counterpart (\<open>X\<close>), and that come twice (\<open>D\<close>).\<close>

lemma external_sections:
  assumes rows: "mset es = mset (A @ M @ X @ D @ D)" and refs: "distinct (map r_reference (A @ M @ X @ D))"
    and rs: "distinct (map r_reference rs)" "\<forall>r \<in> set rs. r_type r \<noteq> TypeReversal"
    and agree: "\<forall>e \<in> set A \<union> set D. \<exists>r \<in> set rs. r_reference r = r_reference e \<and> \<not> disagree e r window"
    and wrong: "\<forall>e \<in> set M. \<exists>r \<in> set rs. r_reference r = r_reference e \<and> disagree e r window"
    and alone: "\<forall>e \<in> set X. r_reference e \<notin> r_reference ` set rs"
  shows "clean_rows rs window es = length A + length D"
    and "image_mset label_of (mset (external_gaps rs window es))
      = mset (labelled CategoryAmountMismatch M @ labelled CategoryUnmatchedExternal X @ labelled CategoryDuplicate D)"
proof -
  let ?B = "A @ M @ X @ D" and ?v = "first_verdict rs window"
  have set_es: "set es = set ?B" using mset_eq_setD [OF rows] by auto
  have one: "one_row_per_ref es" using refs unfolding one_row_per_ref_def set_es distinct_map by blast
  have dist: "distinct ?B" using refs distinct_map by blast
  have latest_rs: "latest rs (r_reference r) = Some r" if "r \<in> set rs" for r
    using latest_distinct [OF rs(1) that] rs(2) that by blast
  have v_agree: "?v e = None" if e: "e \<in> set A \<union> set D" for e
  proof -
    obtain r where r: "r \<in> set rs" "r_reference r = r_reference e" "\<not> disagree e r window" using bspec [OF agree e] by blast
    show ?thesis using latest_rs [OF r(1)] r(2,3) by (simp add: first_verdict_def)
  qed
  have v_wrong: "\<exists>r. ?v e = Some (mismatch e r)" if e: "e \<in> set M" for e
  proof -
    obtain r where r: "r \<in> set rs" "r_reference r = r_reference e" "disagree e r window" using bspec [OF wrong e] by blast
    then have "?v e = Some (mismatch e r)" using latest_rs [OF r(1)] by (simp add: first_verdict_def)
    then show ?thesis by blast
  qed
  have v_alone: "?v e = Some (external_only CategoryUnmatchedExternal e)" if e: "e \<in> set X" for e
  proof -
    have "latest rs (r_reference e) = None" using bspec [OF alone e] by (auto simp: latest_None image_iff)
    then show ?thesis by (simp add: first_verdict_def)
  qed
  obtain g where g: "\<And>e. e \<in> set M \<Longrightarrow> ?v e = Some (mismatch e (g e))" using v_wrong by metis
  have "{e \<in> set es. ?v e = None} = set (A @ D)"
  proof -
    have "?v e \<noteq> None" if "e \<in> set M" for e using v_wrong [OF that] by auto
    moreover have "?v e \<noteq> None" if "e \<in> set X" for e using v_alone [OF that] by auto
    ultimately show ?thesis unfolding set_es set_append using v_agree by blast
  qed
  moreover have "distinct (A @ D)" using dist by auto
  ultimately show "clean_rows rs window es = length A + length D"
    by (metis clean_rows_set [OF one] distinct_card length_append)
  have parts: "(\<Sum>e \<leftarrow> A. opt_mset (?v e)) = {#}" "(\<Sum>e \<leftarrow> D. opt_mset (?v e)) = {#}"
    using v_agree by (auto intro: sum_list_opt_None)
  have "(\<Sum>e \<in> set es. opt_mset (?v e)) = (\<Sum>e \<leftarrow> ?B. opt_mset (?v e))"
    unfolding set_es using dist by (rule sum_distinct_list)
  also have "\<dots> = image_mset (\<lambda>e. mismatch e (g e)) (mset M) + image_mset (external_only CategoryUnmatchedExternal) (mset X)"
    using parts sum_list_opt_Some [of M ?v, OF g] sum_list_opt_Some [of X ?v, OF v_alone] by simp
  finally have firsts: "(\<Sum>e \<in> set es. opt_mset (?v e))
      = image_mset (\<lambda>e. mismatch e (g e)) (mset M) + image_mset (external_only CategoryUnmatchedExternal) (mset X)" .
  have "mset_set (set es) = mset ?B" unfolding set_es using dist by (rule mset_set_set)
  then have twice: "mset es - mset_set (set es) = mset D" using rows by simp
  have m: "image_mset label_of (image_mset (\<lambda>e. mismatch e (g e)) (mset M)) = mset (labelled CategoryAmountMismatch M)"
    by (simp add: image_mset.compositionality comp_def label_of_def mismatch_def labelled_def)
  show "image_mset label_of (mset (external_gaps rs window es))
      = mset (labelled CategoryAmountMismatch M @ labelled CategoryUnmatchedExternal X @ labelled CategoryDuplicate D)"
    unfolding gaps_mset [OF one] gap_mset_def firsts twice image_mset_union m labels_external_only by simp
qed

text \<open>Internal records the file names (\<open>S\<close>), ones it does not name that are settled (\<open>U\<close>) or failed (\<open>P\<close>).\<close>

lemma map_filter_append: "List.map_filter f (xs @ ys) = List.map_filter f xs @ List.map_filter f ys"
  by (simp add: List.map_filter_def)

lemma map_filter_None: "(\<And>x. x \<in> set xs \<Longrightarrow> f x = None) \<Longrightarrow> List.map_filter f xs = []"
  by (simp add: List.map_filter_def)

lemma map_filter_Some: "(\<And>x. x \<in> set xs \<Longrightarrow> f (h x) = Some (g x)) \<Longrightarrow> List.map_filter f (map h xs) = map g xs"
  by (induction xs) (auto simp: List.map_filter_simps)

lemma internal_sections:
  assumes rows: "mset rs = mset (S @ U @ P)" and refs: "distinct (map r_reference rs)"
    and transfers: "\<forall>r \<in> set rs. r_type r = TypeTransfer" and order: "enumerates order rs"
    and named: "r_reference ` set S \<subseteq> r_reference ` set es"
    and unnamed: "\<forall>r \<in> set U \<union> set P. r_reference r \<notin> r_reference ` set es"
    and settled: "\<forall>r \<in> set U. r_status r = StatusSettled" and failed: "\<forall>r \<in> set P. r_status r = StatusFailed"
  shows "image_mset label_of (mset (List.map_filter (internal_gap rs es) order))
    = mset (labelled CategoryUnmatchedInternal U @ labelled CategoryPendingReversal P)"
proof -
  let ?f = "internal_gap rs es"
  have set_rs: "set rs = set (S @ U @ P)" using mset_eq_setD [OF rows] by simp
  have types: "r_type r \<noteq> TypeReversal" if "r \<in> set rs" for r using transfers that by (simp add: go_const)
  have "reversal_settled rs k \<longleftrightarrow> False" for k using types by (auto simp: reversal_settled_def)
  then have none: "reversal_settled rs = (\<lambda>_. False)" by auto
  have "internal_refs rs = set (map r_reference rs)" using types by (auto simp: internal_refs_def)
  then have "mset order = mset (map r_reference rs)"
    using order refs unfolding enumerates_def by (metis set_eq_iff_mset_eq_distinct)
  also have "\<dots> = mset (map r_reference (S @ U @ P))" using rows by (metis mset_map)
  finally have "mset (List.map_filter ?f order) = mset (List.map_filter ?f (map r_reference (S @ U @ P)))" by (rule map_filter_mset)
  moreover have "?f (r_reference r) = Some (leftover (\<lambda>_. False) r)" if r: "r \<in> set U \<union> set P" for r
  proof -
    have "r \<in> set rs" using r set_rs by auto
    then show ?thesis using latest_distinct [OF refs _ types] bspec [OF unnamed r] by (simp add: internal_gap_def none)
  qed
  then have "List.map_filter ?f (map r_reference (S @ U @ P)) = map (leftover (\<lambda>_. False)) (U @ P)"
  proof -
    have "?f k = None" if "k \<in> set (map r_reference S)" for k
      using named subsetD [OF named, of k] that by (simp add: internal_gap_def)
    then have "List.map_filter ?f (map r_reference S) = []" by (rule map_filter_None)
    moreover assume "\<And>r. r \<in> set U \<union> set P \<Longrightarrow> ?f (r_reference r) = Some (leftover (\<lambda>_. False) r)"
    then have "List.map_filter ?f (map r_reference (U @ P)) = map (leftover (\<lambda>_. False)) (U @ P)"
      by (intro map_filter_Some) simp
    ultimately show ?thesis by (simp add: map_filter_append)
  qed
  moreover have "label_of (leftover (\<lambda>_. False) r) = (r_reference r, CategoryPendingReversal)" if r: "r \<in> set P" for r
  proof -
    have "r_type r = TypeTransfer" using transfers set_rs r by auto
    then show ?thesis using bspec [OF failed r] by (simp add: label_of_def leftover_def classifyUnmatchedInternal_def)
  qed
  then have "image_mset label_of (image_mset (leftover (\<lambda>_. False)) (mset P)) = mset (labelled CategoryPendingReversal P)"
    unfolding labelled_def multiset.map_comp mset_map comp_def by (intro image_mset_cong) simp
  moreover have "image_mset label_of (image_mset (leftover (\<lambda>_. False)) (mset U)) = mset (labelled CategoryUnmatchedInternal U)"
    unfolding labelled_def multiset.map_comp mset_map comp_def
    by (intro image_mset_cong) (simp add: label_of_def leftover_def classifyUnmatchedInternal_def settled go_const)
  ultimately show ?thesis by (simp add: multiset.map_comp)
qed

section \<open>The sections of a fixture\<close>

lemma digits_value_dec_nat: "digits_value (dec_nat n) = int n"
proof (induction n rule: dec_nat.induct)
  case (1 n)
  show ?case
  proof (cases "n < 10")
    case True
    then show ?thesis by (simp add: dec_nat_small digits_value_def)
  next
    case False
    then have "digits_value (dec_nat (n div 10)) = int (n div 10)" using "1.IH" by simp
    moreover have "int (10 * (n div 10) + n mod 10) = int n" by simp
    then have "10 * int (n div 10) + int (n mod 10) = int n" by (simp only: of_nat_add of_nat_mult of_nat_numeral)
    ultimately show ?thesis using False by (simp add: dec_nat_big)
  qed
qed

lemma digits_value_pad: "digits_value (pad_zero w (int n)) = int n"
proof -
  have "digits_value (replicate k CHR ''0'' @ s) = digits_value s" for k s
    by (induction k) (simp_all add: digits_value_def digit_val_def)
  then show ?thesis by (simp add: pad_zero_def digits_value_dec_nat)
qed

lemma pad_zero_inj: "pad_zero w (int m) = pad_zero w (int n) \<longleftrightarrow> m = n"
proof
  assume "pad_zero w (int m) = pad_zero w (int n)"
  then have "digits_value (pad_zero w (int m)) = digits_value (pad_zero w (int n))" by (rule arg_cong)
  then have "int m = int n" by (simp only: digits_value_pad)
  then show "m = n" by simp
qed simp

lemmas section_defs = clean_in_def section_records_def mismatch_in_def mismatch_ex_def unmatched_in_def unmatched_ex_def
  duplicate_in_def pending_in_def settled_record_def fixture_record_def

definition numbered :: "string \<Rightarrow> nat \<Rightarrow> nat \<Rightarrow> string list" where
  "numbered s w n = map (\<lambda>i. s @ pad_zero w (int i)) [0..<n]"

lemma numbered_distinct [simp]: "distinct (numbered s w n)"
  by (simp add: numbered_def distinct_map inj_on_def pad_zero_inj)

lemma numbered_disjoint [simp]:
  assumes "take 2 s \<noteq> take 2 s'" and "2 \<le> length s" and "2 \<le> length s'"
  shows "set (numbered s w n) \<inter> set (numbered s' w' n') = {}"
proof -
  have "s @ pad_zero w (int i) \<noteq> s' @ pad_zero w' (int j)" for i j
  proof
    assume "s @ pad_zero w (int i) = s' @ pad_zero w' (int j)"
    then have "take 2 (s @ pad_zero w (int i)) = take 2 (s' @ pad_zero w' (int j))" by (rule arg_cong)
    then show False using assms by simp
  qed
  then show ?thesis by (auto simp: numbered_def)
qed

lemma numbered_notin:
  "x \<in> set (numbered s w n) \<Longrightarrow> take 2 s \<noteq> take 2 s' \<Longrightarrow> 2 \<le> length s \<Longrightarrow> 2 \<le> length s' \<Longrightarrow> x \<notin> set (numbered s' w' n')"
  using numbered_disjoint [of s s' w n w' n'] by blast

lemma section_refs [simp]:
  "map r_reference (clean_in sp draw) = numbered ''TXN-'' 6 (nat (fs_count sp))"
  "map r_reference (mismatch_in sp draw) = numbered ''AMIS-'' 4 (nat (fs_per_category sp))"
  "map r_reference (mismatch_ex sp draw) = numbered ''AMIS-'' 4 (nat (fs_per_category sp))"
  "map r_reference (unmatched_in sp draw) = numbered ''UINT-'' 4 (nat (fs_per_category sp))"
  "map r_reference (unmatched_ex sp draw) = numbered ''UEXT-'' 4 (nat (fs_per_category sp))"
  "map r_reference (duplicate_in sp draw) = numbered ''DUP-'' 4 (nat (fs_per_category sp))"
  "map r_reference (pending_in sp draw) = numbered ''PREV-'' 4 (nat (fs_per_category sp))"
  subgoal by (simp add: section_defs numbered_def)
  subgoal by (simp add: section_defs numbered_def)
  subgoal by (rule nth_equalityI) (simp_all add: section_defs shifted_def numbered_def)
  subgoal by (simp add: section_defs numbered_def)
  subgoal by (simp add: section_defs numbered_def)
  subgoal by (simp add: section_defs numbered_def)
  subgoal by (simp add: section_defs numbered_def)
  done

lemma shifted_ref [simp]: "map r_reference (map shifted rs) = map r_reference rs"
  by (simp add: shifted_def)

text \<open>The sections of the two sides, in the form the lemmas above take them.\<close>

lemma section_records_mem:
  "r \<in> set (section_records sp draw k name status) \<Longrightarrow> r_type r = TypeTransfer \<and> r_status r = status \<and> r_currency r = ''NGN''"
  by (auto simp: section_records_def fixture_record_def)

lemma set_refs: "map r_reference rs = map f xs \<Longrightarrow> r_reference ` set rs = f ` set xs"
  by (metis list.set_map)

lemma zip_in_sections:
  "length (clean_in sp draw) = nat (fs_count sp)" "length (mismatch_in sp draw) = nat (fs_per_category sp)"
  "length (mismatch_ex sp draw) = nat (fs_per_category sp)" "length (duplicate_in sp draw) = nat (fs_per_category sp)"
  by (simp_all add: section_defs)

lemma internal_refs_distinct:
  "distinct (map r_reference (clean_in sp draw @ mismatch_in sp draw @ unmatched_in sp draw @ duplicate_in sp draw @ pending_in sp draw))"
  unfolding map_append section_refs by (simp add: Int_Un_distrib)

lemma external_refs_distinct:
  "distinct (map r_reference (map shifted (clean_in sp draw) @ mismatch_ex sp draw @ unmatched_ex sp draw @ map shifted (duplicate_in sp draw)))"
  unfolding map_append shifted_ref section_refs by (simp add: Int_Un_distrib)

end
