(* ===== verification/FixtureClaims.thy ===== *)
theory FixtureClaims
  imports FixtureProps MatcherClaims ReaderClaims
begin

text \<open>
  The fixture generator against the matcher: every injected discrepancy is recalled with its label, and
  nothing else; and the export it writes reads back.
\<close>

lemma shifted_agrees:
  assumes "sint window \<le> 0 \<or> 30 * second \<le> sint window"
  shows "\<not> disagree (shifted r) r window"
proof -
  have d: "time_Sub t (t + matchOffset) = - word_of_int 30000000000" for t
    by (simp add: time_Sub_def matchOffset_def second_def i64_min_def i64_max_def)
  have "sint (- word_of_int 30000000000 :: i64) = - 30000000000" "sint (word_of_int 30000000000 :: i64) = 30000000000"
    by (simp_all add: sint_of_int_i64 in_i64_def flip: of_int_minus)
  then have "withinWindow t (t + matchOffset) window" for t
    using assms by (auto simp: withinWindow_def d second_def)
  then show ?thesis by (simp add: disagree_def shifted_def)
qed

lemma injected_delta:
  assumes "int j + 1 < 2 ^ 62"
  shows "amount_Add a (FromMinor (word_of_int (100 * (int j + 1)))) \<noteq> a"
proof -
  have "\<not> (2::int) ^ 62 dvd int j + 1" using assms zdvd_imp_le [of "2 ^ 62" "int j + 1"] by auto
  moreover have "coprime (2::int) 25" by simp
  then have "coprime ((2::int) ^ 62) 25" by (simp only: coprime_power_left_iff simp_thms)
  ultimately have "\<not> (2::int) ^ 62 dvd 25 * (int j + 1)" by (simp only: coprime_dvd_mult_right_iff not_False_eq_True)
  then have "\<not> (4::int) * 2 ^ 62 dvd 4 * (25 * (int j + 1))" unfolding dvd_mult_cancel_left by simp
  moreover have pow: "(2::int) ^ 64 = 4 * 2 ^ 62" and prod: "100 * (int j + 1) = 4 * (25 * (int j + 1))" by simp_all
  ultimately have "\<not> (2::int) ^ 64 dvd 100 * (int j + 1)" unfolding pow prod by (simp only: not_False_eq_True)
  then have "(word_of_int (100 * (int j + 1)) :: i64) \<noteq> 0"
    unfolding word_of_int_eq_0_iff by (simp only: len_num0 len_num1 len_bit0 mult_1_right) simp
  then show ?thesis by (simp add: amount_Add_def FromMinor_def)
qed

lemma mismatch_ex_pairs:
  assumes "e \<in> set (mismatch_ex sp draw)" and "fs_per_category sp < 2 ^ 62"
  shows "\<exists>r \<in> set (mismatch_in sp draw). r_reference r = r_reference e \<and> r_amount e \<noteq> r_amount r"
proof -
  obtain i where i: "i < nat (fs_per_category sp)"
    and e: "e = (shifted (mismatch_in sp draw ! i))\<lparr>r_amount :=
      amount_Add (r_amount (mismatch_in sp draw ! i)) (FromMinor (word_of_int (100 * (int i + 1))))\<rparr>"
    using assms(1) by (auto simp: mismatch_ex_def set_zip)
  have "int i + 1 < 2 ^ 62" using i assms(2) by linarith
  then have "r_amount e \<noteq> r_amount (mismatch_in sp draw ! i)" unfolding e using injected_delta by simp
  moreover have "mismatch_in sp draw ! i \<in> set (mismatch_in sp draw)" using i by (intro nth_mem) (simp add: section_defs)
  ultimately show ?thesis using e by (auto simp: shifted_def)
qed

section \<open>Recall\<close>

lemma fixture_recalled:
  assumes "\<And>xs. mset (rng_shuffle_internal rng xs) = mset xs" and "\<And>xs. mset (rng_shuffle_external rng xs) = mset xs"
    and "fs_per_category sp < 2 ^ 62" and "sint window \<le> 0 \<or> 30 * second \<le> sint window"
    and "enumerates order (fx_internal (Generate rng sp))"
  shows "\<exists>res. Match order (fx_internal (Generate rng sp)) (map Inr (fx_external (Generate rng sp))) window = Inr res
    \<and> mr_matched res = fx_matched (Generate rng sp)
    \<and> image_mset label_of (mset (mr_exceptions res)) = mset (fx_by_ref (Generate rng sp))
    \<and> (\<forall>c. count_cat c (mr_exceptions res) = fx_by_category (Generate rng sp) c)"
proof -
  let ?f = "Generate rng sp" and ?d = "rng_draw rng"
  let ?C = "clean_in sp ?d" and ?Mi = "mismatch_in sp ?d" and ?Me = "mismatch_ex sp ?d" and ?U = "unmatched_in sp ?d"
  let ?X = "unmatched_ex sp ?d" and ?D = "duplicate_in sp ?d" and ?P = "pending_in sp ?d"
  let ?rs = "fx_internal ?f" and ?es = "fx_external ?f"
  have rs: "mset ?rs = mset (?C @ ?Mi @ ?U @ ?D @ ?P)" by (simp add: Generate_def Let_def assms(1))
  have twice: "mset (concat (map (\<lambda>r. [shifted r, shifted r]) rs)) = mset (map shifted rs @ map shifted rs)" for rs
    by (induction rs) auto
  have es: "mset ?es = mset (map shifted ?C @ ?Me @ ?X @ map shifted ?D @ map shifted ?D)"
    by (simp add: Generate_def Let_def assms(2) twice)
  have set_rs: "set ?rs = set (?C @ ?Mi @ ?U @ ?D @ ?P)" and set_es: "set ?es = set (map shifted ?C @ ?Me @ ?X @ map shifted ?D)"
    using mset_eq_setD [OF rs] mset_eq_setD [OF es] by auto
  have irefs: "distinct (map r_reference ?rs)"
    using internal_refs_distinct [of sp ?d] mset_eq_imp_distinct_iff rs by (metis mset_map)
  have refs: "r_reference ` set ?C = set (numbered ''TXN-'' 6 (nat (fs_count sp)))"
    "r_reference ` set ?Mi = set (numbered ''AMIS-'' 4 (nat (fs_per_category sp)))"
    "r_reference ` set ?Me = set (numbered ''AMIS-'' 4 (nat (fs_per_category sp)))"
    "r_reference ` set ?U = set (numbered ''UINT-'' 4 (nat (fs_per_category sp)))"
    "r_reference ` set ?X = set (numbered ''UEXT-'' 4 (nat (fs_per_category sp)))"
    "r_reference ` set ?D = set (numbered ''DUP-'' 4 (nat (fs_per_category sp)))"
    "r_reference ` set ?P = set (numbered ''PREV-'' 4 (nat (fs_per_category sp)))"
    by (simp_all only: section_refs flip: set_map)
  have shifted_refs: "r_reference ` set (map shifted xs) = r_reference ` set xs" for xs
    by (simp only: shifted_ref flip: set_map)
  have irefs_set: "r_reference ` set ?rs = r_reference ` set ?C \<union> r_reference ` set ?Mi \<union> r_reference ` set ?U \<union> r_reference ` set ?D \<union> r_reference ` set ?P"
    and erefs_set: "r_reference ` set ?es = r_reference ` set ?C \<union> r_reference ` set ?Me \<union> r_reference ` set ?X \<union> r_reference ` set ?D"
    unfolding set_rs set_es set_append image_Un shifted_refs by blast+
  have transfers: "\<forall>r \<in> set ?rs. r_type r = TypeTransfer"
    unfolding set_rs by (auto simp: section_defs)
  then have plain: "\<forall>r \<in> set ?rs. r_type r \<noteq> TypeReversal" by (simp add: go_const)
  have agree: "\<exists>r \<in> set ?rs. r_reference r = r_reference e \<and> \<not> disagree e r window"
    if e: "e \<in> set (map shifted ?C) \<union> set (map shifted ?D)" for e
  proof -
    obtain r where "r \<in> set ?rs" "e = shifted r" using e set_rs by auto
    then show ?thesis using shifted_agrees [OF assms(4)] by (auto simp: shifted_def)
  qed
  have wrong: "\<exists>r \<in> set ?rs. r_reference r = r_reference e \<and> disagree e r window" if e: "e \<in> set ?Me" for e
    using mismatch_ex_pairs [OF e assms(3)] set_rs by (auto simp: disagree_def)
  have alone: "r_reference e \<notin> r_reference ` set ?rs" if e: "e \<in> set ?X" for e
  proof -
    have "r_reference e \<in> r_reference ` set ?X" using e by (rule imageI)
    then show ?thesis unfolding irefs_set refs using numbered_notin by fastforce
  qed
  have unnamed: "r_reference r \<notin> r_reference ` set ?es" if r: "r \<in> set ?U \<union> set ?P" for r
  proof -
    have "r_reference r \<in> r_reference ` set ?U \<union> r_reference ` set ?P" using r by blast
    then show ?thesis unfolding erefs_set refs using numbered_notin by fastforce
  qed
  have "\<forall>e \<in> set (map shifted ?C) \<union> set (map shifted ?D). \<exists>r \<in> set ?rs. r_reference r = r_reference e \<and> \<not> disagree e r window"
    "\<forall>e \<in> set ?Me. \<exists>r \<in> set ?rs. r_reference r = r_reference e \<and> disagree e r window"
    "\<forall>e \<in> set ?X. r_reference e \<notin> r_reference ` set ?rs"
    using agree wrong alone by blast+
  note ext = external_sections [OF es external_refs_distinct irefs plain this]
  have rs': "mset ?rs = mset ((?C @ ?Mi @ ?D) @ ?U @ ?P)" unfolding rs by simp
  have named: "r_reference ` set (?C @ ?Mi @ ?D) \<subseteq> r_reference ` set ?es"
    unfolding erefs_set set_append image_Un refs by blast
  have status: "\<forall>r \<in> set ?U. r_status r = StatusSettled" "\<forall>r \<in> set ?P. r_status r = StatusFailed"
    by (auto simp: section_defs)
  have "\<forall>r \<in> set ?U \<union> set ?P. r_reference r \<notin> r_reference ` set ?es" using unnamed by blast
  note int = internal_sections [OF rs' irefs transfers assms(5) named this status]
  let ?res = "reference_match order ?rs ?es window"
  have labels: "image_mset label_of (mset (mr_exceptions ?res)) = mset (fx_by_ref ?f)"
  proof -
    have lab: "labelled c xs = map (\<lambda>k. (k, c)) (map r_reference xs)" for c xs by (simp add: labelled_def)
    have "image_mset label_of (mset (mr_exceptions ?res)) = image_mset label_of (mset (external_gaps ?rs window ?es))
        + image_mset label_of (mset (List.map_filter (internal_gap ?rs ?es) order))"
      by (simp add: reference_match_def sortExceptions_def)
    also have "\<dots> = mset (fx_by_ref ?f)"
      unfolding ext(2) int by (simp add: Generate_def Let_def lab del: map_map)
    finally show ?thesis .
  qed
  have "count_cat c (mr_exceptions ?res) = fx_by_category ?f c" for c
  proof -
    have count: "count_cat c xs = size (filter_mset (\<lambda>p. snd p = c) (image_mset label_of (mset xs)))" for xs
      by (induction xs) (simp_all add: label_of_def)
    have "fx_by_category ?f c = size (filter_mset (\<lambda>p. snd p = c) (mset (fx_by_ref ?f)))"
      by (simp add: fx_by_category_def case_prod_beta' flip: mset_filter)
    then show ?thesis by (simp add: count labels)
  qed
  moreover have "mr_matched ?res = fx_matched ?f"
    unfolding reference_match_def by (simp add: ext(1)) (simp add: Generate_def Let_def section_defs)
  ultimately show ?thesis using Match_reference labels by blast
qed

text \<open>C32. The fixture's promise holds for every size, draw of amounts and shuffle, not only for the sample the
  tests run: with a window of at least the thirty seconds the generator shifts the settlement times by (or
  none), the matcher reports exactly the injected discrepancies, each under its label, matches exactly the
  promised number of rows, and the tally by category is the promised one.\<close>

theorem fixture_recall:
  assumes "\<And>xs. mset (rng_shuffle_internal rng xs) = mset xs" and "\<And>xs. mset (rng_shuffle_external rng xs) = mset xs"
    and "fs_per_category sp < 2 ^ 62" and "sint window \<le> 0 \<or> 30 * second \<le> sint window"
    and "enumerates order (fx_internal (Generate rng sp))"
  shows "\<exists>res. Match order (fx_internal (Generate rng sp)) (map Inr (fx_external (Generate rng sp))) window = Inr res
    \<and> mr_matched res = fx_matched (Generate rng sp)
    \<and> image_mset label_of (mset (mr_exceptions res)) = mset (fx_by_ref (Generate rng sp))
    \<and> (\<forall>c. count_cat c (mr_exceptions res) = fx_by_category (Generate rng sp) c)"
  by (rule fixture_recalled [OF assms])

section \<open>The export round-trips\<close>

definition export_normal :: "canonical_record \<Rightarrow> canonical_record" where
  "export_normal r = r\<lparr>r_metadata := sort_key fst (r_metadata r)\<rparr>"

lemma record_json_None:
  "record_json r = None \<longleftrightarrow> \<not> in_years (r_initiated_at r) \<or> (\<exists>t. r_settled_at r = Some t \<and> \<not> in_years t)"
  by (auto simp: record_json_def time_json_def split: option.splits)

lemma WriteJSONL_back:
  "\<forall>r \<in> set rs. distinct (map fst (r_metadata r)) \<Longrightarrow> WriteJSONL rs = Inr vs
    \<Longrightarrow> length vs = length rs \<and> drain (Suc (length vs)) ledger_Next vs = Some (map Inr (map export_normal rs))"
proof (induction rs arbitrary: vs)
  case Nil
  then show ?case by (simp add: ledger_Next_def)
next
  case (Cons r rs)
  then obtain ms ws where ms: "record_json r = Some ms" and ws: "WriteJSONL rs = Inr ws" "vs = LvObject ms # ws"
    by (auto split: option.splits sum.splits)
  have IH: "length ws = length rs" "drain (Suc (length ws)) ledger_Next ws = Some (map Inr (map export_normal rs))"
    using Cons.IH [OF _ ws(1)] Cons.prems(1) by (auto simp del: drain.simps)
  have "ledger_Next vs = (Inr (export_normal r), ws)"
    using record_json_back [OF ms] Cons.prems(1) by (simp add: ledger_Next_def ws(2) export_normal_def)
  then have "drain (Suc (length vs)) ledger_Next vs = map_option ((#) (Inr (export_normal r))) (drain (length vs) ledger_Next ws)"
    by simp
  moreover have "length vs = Suc (length ws)" using ws(2) by simp
  ultimately show ?case using IH by (simp del: drain.simps)
qed

lemma WriteJSONL_error: "WriteJSONL rs = Inl e \<Longrightarrow> \<exists>r \<in> set rs. record_json r = None"
  by (induction rs arbitrary: e) (auto split: option.splits sum.splits)

text \<open>C33. The internal export round-trips through the JSONL file: reading the written file back gives the
  same records in the same order, up to the order of a record's metadata keys, for any reference, account
  and metadata text (of valid UTF-8, which \<open>encoding/json\<close> keeps as it is), amount and time; writing fails only for a time outside the years RFC 3339 can express.\<close>

theorem jsonl_roundtrip:
  assumes "\<forall>r \<in> set rs. distinct (map fst (r_metadata r))"
  shows "case WriteJSONL rs of
      Inr vs \<Rightarrow> drain (Suc (length vs)) ledger_Next vs = Some (map Inr (map export_normal rs))
    | Inl e \<Rightarrow> \<exists>r \<in> set rs. \<not> in_years (r_initiated_at r) \<or> (\<exists>t. r_settled_at r = Some t \<and> \<not> in_years t)"
  using WriteJSONL_back [OF assms] WriteJSONL_error [of rs] by (auto simp: record_json_None simp del: drain.simps split: sum.split)

section \<open>Witnesses\<close>

definition demo_rng :: fixture_rng where
  "demo_rng = \<lparr>rng_draw = int, rng_shuffle_internal = rev, rng_shuffle_external = (\<lambda>xs. xs)\<rparr>"

definition demo_spec :: fixture_spec where
  "demo_spec = \<lparr>fs_count = 1, fs_per_category = 1\<rparr>"

definition demo_order :: "string list" where
  "demo_order = [''UINT-0000'', ''TXN-000000'', ''DUP-0000'', ''PREV-0000'', ''AMIS-0000'']"

lemma demo_fixture_order: "enumerates demo_order (fx_internal (Generate demo_rng demo_spec))"
proof -
  have "list_all (\<lambda>r. r_type r = TypeTransfer) (fx_internal (Generate demo_rng demo_spec))"
    and keys: "map r_reference (fx_internal (Generate demo_rng demo_spec)) = [''PREV-0000'', ''DUP-0000'', ''UINT-0000'', ''AMIS-0000'', ''TXN-000000'']"
    by code_simp+
  moreover have "internal_refs rs = set (map r_reference rs)" if "list_all (\<lambda>r. r_type r = TypeTransfer) rs" for rs
    using that by (auto simp: internal_refs_def list_all_iff go_const)
  ultimately have "internal_refs (fx_internal (Generate demo_rng demo_spec)) = set (map r_reference (fx_internal (Generate demo_rng demo_spec)))"
    by blast
  moreover have "set [''PREV-0000'', ''DUP-0000'', ''UINT-0000'', ''AMIS-0000'', ''TXN-000000''] = set demo_order" "distinct demo_order"
    by (auto simp: demo_order_def)
  ultimately show ?thesis unfolding enumerates_def keys by simp
qed

lemma fixture_recall_witness:
  "\<exists>res. Match demo_order (fx_internal (Generate demo_rng demo_spec)) (map Inr (fx_external (Generate demo_rng demo_spec)))
     (word_of_int (120 * second)) = Inr res \<and> mr_matched res = 2"
proof -
  have w: "sint (word_of_int (120 * second) :: i64) = 120 * second" by (rule sint_of_int_i64) (simp add: in_i64_def second_def)
  have "fx_matched (Generate demo_rng demo_spec) = 2" by (simp add: Generate_def demo_spec_def Let_def)
  then show ?thesis
    using fixture_recall [of demo_rng demo_spec "word_of_int (120 * second)" demo_order] demo_fixture_order w
    by (auto simp: demo_rng_def demo_spec_def second_def)
qed

lemma jsonl_roundtrip_witness:
  "\<exists>vs. WriteJSONL [demo_record ''A'' 5 StatusSettled 0] = Inr vs
     \<and> drain (Suc (length vs)) ledger_Next vs = Some [Inr (export_normal (demo_record ''A'' 5 StatusSettled 0))]"
proof -
  have "record_json (demo_record ''A'' 5 StatusSettled 0) \<noteq> None"
    by (simp add: record_json_None demo_record_def in_years_def second_def)
  then show ?thesis
    using jsonl_roundtrip [of "[demo_record ''A'' 5 StatusSettled 0]"]
    by (auto simp: demo_record_def split: sum.splits option.splits)
qed

end
