(* ===== verification/Report.thy ===== *)
theory Report
  imports MatcherProps
begin

text \<open>
  \<open>internal/reconcile/report.go\<close>: the rendered outcome of a reconciliation pass. A Go map that counts
  is the list of its bindings in the order of their first write, which \<open>Text\<close> sorts by key.
  \<open>JSON\<close> encodes the report as it is.
\<close>

fun count_up :: "string \<Rightarrow> (string \<times> nat) list \<Rightarrow> (string \<times> nat) list" where
  "count_up c [] = [(c, 1)]"
| "count_up c ((k, n) # m) = (if k = c then (k, Suc n) # m else (k, n) # count_up c m)"

definition count_of :: "(string \<times> nat) list \<Rightarrow> string \<Rightarrow> nat" where
  "count_of m c = (case map_of m c of Some n \<Rightarrow> n | None \<Rightarrow> 0)"

definition by_category :: "recon_exception list \<Rightarrow> (string \<times> nat) list" where
  "by_category xs = fold (\<lambda>e. count_up (x_category e)) xs []"

record report =
  rp_internal_source :: string
  rp_external_source :: string
  rp_matched_count :: nat
  rp_exception_count :: nat
  rp_by_category :: "(string \<times> nat) list"
  rp_exceptions :: "recon_exception list"

definition NewReport :: "string \<Rightarrow> string \<Rightarrow> match_result \<Rightarrow> report" where
  "NewReport internalSrc externalSrc res =
     \<lparr>rp_internal_source = internalSrc, rp_external_source = externalSrc, rp_matched_count = mr_matched res,
      rp_exception_count = length (mr_exceptions res), rp_by_category = by_category (mr_exceptions res),
      rp_exceptions = mr_exceptions res\<rparr>"

section \<open>Text\<close>

text \<open>\<open>%-20s\<close> and \<open>%+d\<close>.\<close>

definition pad_right :: "nat \<Rightarrow> string \<Rightarrow> string" where
  "pad_right w s = s @ replicate (w - length s) (CHR '' '')"

definition signed_int :: "i64 \<Rightarrow> string" where
  "signed_int v = (if 0 \<le> sint v then ''+'' else []) @ FormatInt v"

definition side_detail :: "canonical_record option \<Rightarrow> string" where
  "side_detail side =
     (case side of Some r \<Rightarrow> '' amount='' @ amount_String (r_amount r) @ '' status='' @ r_status r | None \<Rightarrow> [])"

definition exceptionDetail :: "recon_exception \<Rightarrow> string" where
  "exceptionDetail e =
     (if x_category e = CategoryAmountMismatch
      then '' internal='' @ (case x_internal e of Some r \<Rightarrow> amount_String (FromMinor (Minor (r_amount r))) | None \<Rightarrow> [])
         @ '' external='' @ (case x_external e of Some r \<Rightarrow> amount_String (FromMinor (Minor (r_amount r))) | None \<Rightarrow> [])
         @ '' delta='' @ signed_int (deltaKey e)
      else if x_category e = CategoryPendingReversal \<or> x_category e = CategoryUnmatchedInternal then side_detail (x_internal e)
      else if x_category e = CategoryUnmatchedExternal \<or> x_category e = CategoryDuplicate then side_detail (x_external e)
      else [])"

definition text_lines :: "string list \<Rightarrow> string" where
  "text_lines ls = concat (map (\<lambda>l. l @ [CHR 0x0A]) ls)"

definition exception_line :: "recon_exception \<Rightarrow> string" where
  "exception_line e = ''  ['' @ x_category e @ ''] ref='' @ x_reference e @ exceptionDetail e"

definition category_line :: "(string \<times> nat) list \<Rightarrow> string \<Rightarrow> string" where
  "category_line m c = ''    '' @ pad_right 20 c @ '' '' @ dec_nat (count_of m c)"

definition Text :: "report \<Rightarrow> string" where
  "Text r = text_lines
     ([''Reconciliation report'',
       ''  internal:   '' @ rp_internal_source r,
       ''  external:   '' @ rp_external_source r,
       ''  matched:    '' @ dec_nat (rp_matched_count r),
       ''  exceptions: '' @ dec_nat (rp_exception_count r)]
      @ (if rp_by_category r = [] then []
         else ''  by category:'' # map (category_line (rp_by_category r)) (sort (map fst (rp_by_category r))))
      @ (if rp_exceptions r = [] then [] else ''exceptions:'' # map exception_line (rp_exceptions r)))"

section \<open>The tally\<close>

lemma map_of_count_up: "map_of (count_up c m) k = (if k = c then Some (Suc (count_of m c)) else map_of m k)"
  by (induction c m rule: count_up.induct) (auto simp: count_of_def)

lemma keys_count_up: "map fst (count_up c m) = (if c \<in> fst ` set m then map fst m else map fst m @ [c])"
  by (induction c m rule: count_up.induct) auto

lemma sum_count_up: "sum_list (map snd (count_up c m)) = Suc (sum_list (map snd m))"
  by (induction c m rule: count_up.induct) auto

lemma by_category_snoc: "by_category (xs @ [e]) = count_up (x_category e) (by_category xs)"
  by (simp add: by_category_def)

lemma by_category_count: "map_of (by_category xs) c = (if count_cat c xs = 0 then None else Some (count_cat c xs))"
  by (induction xs rule: rev_induct) (simp add: by_category_def, auto simp: by_category_snoc map_of_count_up count_of_def split: if_splits)

lemma by_category_keys: "distinct (map fst (by_category xs)) \<and> set (map fst (by_category xs)) = x_category ` set xs"
proof (induction xs rule: rev_induct)
  case (snoc e xs)
  then show ?case by (auto simp: by_category_snoc keys_count_up simp del: set_map simp flip: set_map)
qed (simp add: by_category_def)

lemma by_category_total: "sum_list (map snd (by_category xs)) = length xs"
  by (induction xs rule: rev_induct) (simp add: by_category_def, simp add: by_category_snoc sum_count_up)

end
