(* ===== verification/ReconStore.thy ===== *)
theory ReconStore
  imports Report Fixture World
begin

text \<open>
  \<open>internal/reconcile/store.go\<close> over the queries of \<open>recondb/recon.sql.go\<close> and the two tables of the
  schema they touch, with their column checks and keys. The tables are disjoint from the ones of \<open>db\<close>,
  so they are a database of their own; a call meets the same faults as any other transaction.
\<close>

section \<open>Tables\<close>

text \<open>The \<open>summary\<close> column is the document of \<open>runSummary\<close>, \<open>None\<close> its default \<open>'{}'\<close>; a record column
  is the document \<open>json.Marshal\<close> makes of the record.\<close>

record run_summary =
  sm_input_fingerprint :: string
  sm_matched :: nat
  sm_by_category :: "(string \<times> nat) list"

record recon_run =
  rn_id :: uuid
  rn_started_at :: time
  rn_finished_at :: "time option"
  rn_internal_source :: string
  rn_external_source :: string
  rn_status :: string
  rn_matched_count :: i32
  rn_exception_count :: i32
  rn_summary :: "run_summary option"

type_synonym record_document = "(string \<times> record_token) list"

record insert_exception_params =
  xp_run_id :: uuid
  xp_category :: string
  xp_reference :: "string option"
  xp_internal_record :: "record_document option"
  xp_external_record :: "record_document option"
  xp_delta_minor :: "i64 option"

record exception_row =
  xr_id :: uuid
  xr_params :: insert_exception_params
  xr_created_at :: time

record recon_db =
  recon_runs :: "recon_run list"
  recon_exceptions :: "exception_row list"

type_synonym 'a rtx = "env \<Rightarrow> recon_db \<Rightarrow> err + ('a \<times> recon_db)"

definition check_category :: "string \<Rightarrow> bool" where
  "check_category c \<longleftrightarrow> c \<in> {''unmatched_internal'', ''unmatched_external'', ''amount_mismatch'', ''pending_reversal'', ''duplicate''}"

section \<open>Queries\<close>

definition InsertReconRun :: "string \<Rightarrow> string \<Rightarrow> recon_run rtx" where
  "InsertReconRun internal external ev d =
     (if list_ex (\<lambda>r. rn_id r = e_uuid ev 0) (recon_runs d) then Inl (pg_error sql_unique_violation)
      else (let r = \<lparr>rn_id = e_uuid ev 0, rn_started_at = e_now ev, rn_finished_at = None, rn_internal_source = internal,
              rn_external_source = external, rn_status = ''running'', rn_matched_count = 0, rn_exception_count = 0,
              rn_summary = None\<rparr>
            in Inr (r, d\<lparr>recon_runs := recon_runs d @ [r]\<rparr>)))"

text \<open>\<open>n\<close> numbers the statement's draw of \<open>gen_random_uuid()\<close> within its transaction.\<close>

definition InsertReconException :: "nat \<Rightarrow> insert_exception_params \<Rightarrow> exception_row rtx" where
  "InsertReconException n p ev d =
     (if \<not> check_category (xp_category p) then Inl (pg_error sql_check_violation)
      else if list_ex (\<lambda>x. xr_id x = e_uuid ev n) (recon_exceptions d) then Inl (pg_error sql_unique_violation)
      else if \<not> list_ex (\<lambda>r. rn_id r = xp_run_id p) (recon_runs d) then Inl (pg_error sql_foreign_key_violation)
      else (let x = \<lparr>xr_id = e_uuid ev n, xr_params = p, xr_created_at = e_now ev\<rparr>
            in Inr (x, d\<lparr>recon_exceptions := recon_exceptions d @ [x]\<rparr>)))"

record finish_run_params =
  fp_id :: uuid
  fp_matched_count :: i32
  fp_exception_count :: i32
  fp_summary :: run_summary

definition FinishReconRun :: "finish_run_params \<Rightarrow> recon_run rtx" where
  "FinishReconRun p ev d =
     (let upd = (\<lambda>r. if rn_id r = fp_id p
          then r\<lparr>rn_finished_at := Some (e_now ev), rn_status := ''completed'', rn_matched_count := fp_matched_count p,
                 rn_exception_count := fp_exception_count p, rn_summary := Some (fp_summary p)\<rparr> else r);
          d' = d\<lparr>recon_runs := map upd (recon_runs d)\<rparr>
      in (case List.find (\<lambda>r. rn_id r = fp_id p) (recon_runs d') of
            Some r \<Rightarrow> Inr (r, d')
          | None \<Rightarrow> Inl (Sentinel ErrNoRows)))"

definition has_fingerprint :: "string \<Rightarrow> recon_run \<Rightarrow> bool" where
  "has_fingerprint fp r \<longleftrightarrow> rn_status r = ''completed'' \<and> map_option sm_input_fingerprint (rn_summary r) = Some fp"

definition FindCompletedRunByFingerprint :: "string \<Rightarrow> recon_run rtx" where
  "FindCompletedRunByFingerprint fp ev d =
     (case sort_key (\<lambda>r. - rn_started_at r) (filter (has_fingerprint fp) (recon_runs d)) of
        r # _ \<Rightarrow> Inr (r, d)
      | [] \<Rightarrow> Inl (Sentinel ErrNoRows))"

section \<open>The store\<close>

record recon_world =
  rw_db :: recon_db
  rw_env :: "nat \<Rightarrow> env"
  rw_tick :: nat

type_synonym 'a ract = "recon_world \<Rightarrow> (err + 'a) \<times> recon_world"

text \<open>\<open>withTx\<close>, and with an empty prefix a statement on the pool. As for the ledger's wrapper, a failed
  rollback joined to the error it follows is left out.\<close>

definition recon_withTx :: "string \<Rightarrow> 'a rtx \<Rightarrow> 'a ract" where
  "recon_withTx pre f w =
     (case tx_outcome pre (\<lambda>_ _. None) f (rw_env w (rw_tick w)) (rw_db w) of
        (r, d) \<Rightarrow> (r, w\<lparr>rw_tick := Suc (rw_tick w), rw_db := d\<rparr>))"

definition FindByFingerprint :: "string \<Rightarrow> uuid option ract" where
  "FindByFingerprint fp w =
     (case recon_withTx [] (FindCompletedRunByFingerprint fp) w of
        (Inl e, w1) \<Rightarrow>
          if errors_is e ErrNoRows then (Inr None, w1) else (Inl (Wrap ''find run by fingerprint: '' e []), w1)
      | (Inr run, w1) \<Rightarrow> (Inr (Some (rn_id run)), w1))"

definition marshal_side :: "string \<Rightarrow> canonical_record option \<Rightarrow> err + record_document option" where
  "marshal_side pre side =
     (case side of
        None \<Rightarrow> Inr None
      | Some r \<Rightarrow>
          (case record_json r of
             Some b \<Rightarrow> Inr (Some b)
           | None \<Rightarrow> Inl (Wrap pre (ErrMsg ''json: year outside of range [0,9999]'') [])))"

definition exceptionParams :: "uuid \<Rightarrow> recon_exception \<Rightarrow> err + insert_exception_params" where
  "exceptionParams runID ex =
     (case marshal_side ''marshal internal record: '' (x_internal ex) of
        Inl e \<Rightarrow> Inl e
      | Inr idoc \<Rightarrow>
          (case marshal_side ''marshal external record: '' (x_external ex) of
             Inl e \<Rightarrow> Inl e
           | Inr edoc \<Rightarrow>
               Inr \<lparr>xp_run_id = runID, xp_category = x_category ex,
                    xp_reference = (if x_reference ex = [] then None else Some (x_reference ex)),
                    xp_internal_record = idoc, xp_external_record = edoc, xp_delta_minor = x_delta ex\<rparr>))"

fun insert_exceptions :: "nat \<Rightarrow> uuid \<Rightarrow> recon_exception list \<Rightarrow> unit rtx" where
  "insert_exceptions n run [] ev d = Inr ((), d)"
| "insert_exceptions n run (ex # exs) ev d =
     (case exceptionParams run ex of
        Inl e \<Rightarrow> Inl e
      | Inr p \<Rightarrow>
          (case InsertReconException n p ev d of
             Inl e \<Rightarrow> Inl (Wrap ''insert exception: '' e [])
           | Inr (_, d1) \<Rightarrow> insert_exceptions (Suc n) run exs ev d1))"

definition summary_of :: "string \<Rightarrow> match_result \<Rightarrow> run_summary" where
  "summary_of fp res = \<lparr>sm_input_fingerprint = fp, sm_matched = mr_matched res, sm_by_category = by_category (mr_exceptions res)\<rparr>"

definition persist_body :: "string \<Rightarrow> string \<Rightarrow> string \<Rightarrow> match_result \<Rightarrow> uuid rtx" where
  "persist_body internalSrc externalSrc fp res ev d =
     (case InsertReconRun internalSrc externalSrc ev d of
        Inl e \<Rightarrow> Inl (Wrap ''insert run: '' e [])
      | Inr (run, d1) \<Rightarrow>
          (case insert_exceptions 1 (rn_id run) (mr_exceptions res) ev d1 of
             Inl e \<Rightarrow> Inl e
           | Inr (_, d2) \<Rightarrow>
               (case FinishReconRun \<lparr>fp_id = rn_id run, fp_matched_count = word_of_int (int (mr_matched res)),
                       fp_exception_count = word_of_int (int (length (mr_exceptions res))),
                       fp_summary = summary_of fp res\<rparr> ev d2 of
                  Inl e \<Rightarrow> Inl (Wrap ''finish run: '' e [])
                | Inr (_, d3) \<Rightarrow> Inr (rn_id run, d3))))"

definition Persist :: "string \<Rightarrow> string \<Rightarrow> string \<Rightarrow> match_result \<Rightarrow> uuid ract" where
  "Persist internalSrc externalSrc fp res = recon_withTx ''begin tx: '' (persist_body internalSrc externalSrc fp res)"

end
