(* ===== verification/Reconcile.thy ===== *)
theory Reconcile
  imports ReconStore ReaderClaims Transport
begin

text \<open>
  \<open>cmd/reconcile\<close>: the command line that ties the reconciliation parts together (\<open>main.go\<close>,
  \<open>feedback.go\<close>), with \<open>determinism.go\<close>. Files are their contents, fixed for the run; what the JSON
  scanner makes of a text, SHA-256, dialling and the map order are parameters. The switch is reached
  over the network of its \<open>world\<close>; flag parsing (cobra, viper) hands over a \<open>config\<close>.
\<close>

section \<open>The run's surroundings\<close>

record config =
  cf_internal :: string
  cf_external :: string
  cf_ext_format :: string
  cf_window :: i64
  cf_format :: string
  cf_db_url :: string
  cf_no_persist :: bool
  cf_switch_addr :: string

record cli_env =
  ce_open :: "string \<Rightarrow> err + string"
  ce_json :: "string \<Rightarrow> ledger_value list"
  ce_order :: "canonical_record list \<Rightarrow> string list"
  ce_sha_hex :: "string \<Rightarrow> string"
  ce_dial :: "string \<Rightarrow> err option"
  ce_pool :: "string \<Rightarrow> err option"
  ce_write :: "err option"

datatype cli_output = OutText string | OutJSON report

record cli_world =
  cl_switch :: world
  cl_recon :: recon_world
  cl_stdout :: "cli_output list"
  cl_stderr :: "string list"

type_synonym 'a cli = "cli_world \<Rightarrow> (err + 'a) \<times> cli_world"

definition print_err :: "string \<Rightarrow> cli_world \<Rightarrow> cli_world" where
  "print_err s w = w\<lparr>cl_stderr := cl_stderr w @ [s]\<rparr>"

section \<open>Inputs\<close>

lemma ledger_Next_less: "ledger_Next vs = (Inr r, vs') \<Longrightarrow> length vs' < length vs"
  by (auto simp: ledger_Next_def split: list.splits ledger_value.splits option.splits)

function read_internal :: "ledger_value list \<Rightarrow> canonical_record list \<Rightarrow> err + canonical_record list" where
  "read_internal vs recs =
     (case ledger_Next vs of
        (Inl e, _) \<Rightarrow> if e = Sentinel ErrEOF then Inr recs else Inl (Wrap ''read internal export: '' e [])
      | (Inr r, vs') \<Rightarrow> read_internal vs' (recs @ [r]))"
  by auto
termination by (relation "measure (\<lambda>(vs, _). length vs)") (auto dest: ledger_Next_less [OF sym])

declare read_internal.simps [simp del]

definition open_file :: "cli_env \<Rightarrow> string \<Rightarrow> string \<Rightarrow> err + string" where
  "open_file env what path =
     (case ce_open env path of
        Inl e \<Rightarrow> Inl (Wrap (''open '' @ what @ '' '' @ go_quote path @ '': '') e [])
      | Inr bytes \<Rightarrow> Inr bytes)"

definition OpenLedgerFile :: "cli_env \<Rightarrow> string \<Rightarrow> err + ledger_value list" where
  "OpenLedgerFile env path =
     (case open_file env ''ledger export'' path of Inl e \<Rightarrow> Inl e | Inr bytes \<Rightarrow> Inr (ce_json env bytes))"

definition OpenNIBSSFile :: "cli_env \<Rightarrow> string \<Rightarrow> err + csv_reader" where
  "OpenNIBSSFile env path =
     (case open_file env ''nibss file'' path of Inl e \<Rightarrow> Inl e | Inr bytes \<Rightarrow> NewNIBSSReader bytes)"

definition OpenCSVFile :: "cli_env \<Rightarrow> string \<Rightarrow> err + csv_reader" where
  "OpenCSVFile env path =
     (case open_file env ''csv file'' path of Inl e \<Rightarrow> Inl e | Inr bytes \<Rightarrow> NewCSVReader bytes)"

definition readInternal :: "cli_env \<Rightarrow> string \<Rightarrow> err + canonical_record list" where
  "readInternal env path = (case OpenLedgerFile env path of Inl e \<Rightarrow> Inl e | Inr vs \<Rightarrow> read_internal vs [])"

text \<open>The stream the matcher pulls from a reader, up to its end or first error (\<open>readers_terminate\<close> says
  the rows left are fuel enough).\<close>

definition stream_of :: "(csv_reader \<Rightarrow> (err + canonical_record) \<times> csv_reader) \<Rightarrow> csv_reader \<Rightarrow> (err + canonical_record) list" where
  "stream_of nxt rd = (case drain (Suc (rows_left rd)) nxt rd of Some xs \<Rightarrow> xs | None \<Rightarrow> [])"

definition openExternal :: "cli_env \<Rightarrow> string \<Rightarrow> string \<Rightarrow> err + (err + canonical_record) list" where
  "openExternal env path fmt =
     (if fmt = ''nibss'' then (case OpenNIBSSFile env path of Inl e \<Rightarrow> Inl e | Inr rd \<Rightarrow> Inr (stream_of nibss_Next rd))
      else if fmt = ''csv'' then (case OpenCSVFile env path of Inl e \<Rightarrow> Inl e | Inr rd \<Rightarrow> Inr (stream_of csv_Next rd))
      else Inl (ErrMsg (''unknown --external-format '' @ go_quote fmt @ '' (want nibss|csv)'')))"

section \<open>Output\<close>

definition marshals :: "canonical_record option \<Rightarrow> bool" where
  "marshals side \<longleftrightarrow> (case side of Some r \<Rightarrow> record_json r \<noteq> None | None \<Rightarrow> True)"

definition report_JSON :: "report \<Rightarrow> err + report" where
  "report_JSON r =
     (if list_all (\<lambda>e. marshals (x_internal e) \<and> marshals (x_external e)) (rp_exceptions r) then Inr r
      else Inl (Wrap ''marshal report: '' (ErrMsg ''json: year outside of range [0,9999]'') []))"

definition write_out :: "cli_env \<Rightarrow> cli_output \<Rightarrow> unit cli" where
  "write_out env out w = (case ce_write env of Some e \<Rightarrow> (Inl e, w) | None \<Rightarrow> (Inr (), w\<lparr>cl_stdout := cl_stdout w @ [out]\<rparr>))"

definition render :: "cli_env \<Rightarrow> report \<Rightarrow> string \<Rightarrow> unit cli" where
  "render env r fmt w =
     (if fmt = ''text'' then write_out env (OutText (Text r)) w
      else if fmt = ''json'' then (case report_JSON r of Inl e \<Rightarrow> (Inl e, w) | Inr j \<Rightarrow> write_out env (OutJSON j) w)
      else (Inl (ErrMsg (''unknown --format '' @ go_quote fmt @ '' (want text|json)'')), w))"

section \<open>Feedback\<close>

definition corrective_call :: "string \<Rightarrow> (string \<times> bool) cli" where
  "corrective_call ref w = (case rpc (grpc_CorrectiveReversal ref) (cl_switch w) of (r, sw) \<Rightarrow> (r, w\<lparr>cl_switch := sw\<rparr>))"

fun feedback_loop :: "recon_exception list \<Rightarrow> nat \<Rightarrow> nat \<Rightarrow> cli_world \<Rightarrow> (nat \<times> nat) \<times> cli_world" where
  "feedback_loop [] sent failed w = ((sent, failed), w)"
| "feedback_loop (x # xs) sent failed w =
     (if x_category x \<noteq> CategoryPendingReversal then feedback_loop xs sent failed w
      else (case corrective_call (x_reference x) w of
          (Inl e, w1) \<Rightarrow>
            feedback_loop xs sent (Suc failed)
              (print_err (''reconcile: feedback '' @ x_reference x @ '' failed: '' @ err_text e @ [CHR 0x0A]) w1)
        | (Inr (state, requeued), w1) \<Rightarrow>
            feedback_loop xs (Suc sent) failed
              (print_err (''reconcile: feedback '' @ x_reference x @ '' -> state='' @ state @ '' requeued=''
                 @ (if requeued then ''true'' else ''false'') @ [CHR 0x0A]) w1)))"

definition sendFeedback :: "cli_env \<Rightarrow> string \<Rightarrow> match_result \<Rightarrow> unit cli" where
  "sendFeedback env switchAddr res w =
     (case ce_dial env switchAddr of
        Some e \<Rightarrow> (Inl (Wrap (''dial switchd '' @ go_quote switchAddr @ '': '') e []), w)
      | None \<Rightarrow>
          (case feedback_loop (mr_exceptions res) 0 0 w of
             ((sent, failed), w1) \<Rightarrow>
               (if 0 < failed then Inl (ErrMsg (''reconcile: '' @ dec_nat failed @ '' corrective call(s) failed'')) else Inr (),
                print_err (''reconcile: feedback sent='' @ dec_nat sent @ '' failed='' @ dec_nat failed @ [CHR 0x0A]) w1)))"

section \<open>Persistence\<close>

text \<open>What the two files put into the hash: each file's bytes and a zero byte.\<close>

fun fingerprint_input :: "cli_env \<Rightarrow> string list \<Rightarrow> err + string" where
  "fingerprint_input env [] = Inr []"
| "fingerprint_input env (p # ps) =
     (case ce_open env p of
        Inl e \<Rightarrow> Inl (Wrap (''fingerprint open '' @ go_quote p @ '': '') e [])
      | Inr bytes \<Rightarrow> (case fingerprint_input env ps of Inl e \<Rightarrow> Inl e | Inr rest \<Rightarrow> Inr (bytes @ [CHR 0x00] @ rest)))"

definition FileFingerprint :: "cli_env \<Rightarrow> string list \<Rightarrow> err + string" where
  "FileFingerprint env paths =
     (case fingerprint_input env paths of Inl e \<Rightarrow> Inl e | Inr bytes \<Rightarrow> Inr (ce_sha_hex env bytes))"

definition lift_recon :: "'a ract \<Rightarrow> 'a cli" where
  "lift_recon m w = (case m (cl_recon w) of (r, rw) \<Rightarrow> (r, w\<lparr>cl_recon := rw\<rparr>))"

definition persist_run :: "cli_env \<Rightarrow> config \<Rightarrow> match_result \<Rightarrow> unit cli" where
  "persist_run env cfg res w =
     (case ce_pool env (cf_db_url cfg) of
        Some e \<Rightarrow> (Inl (Wrap ''connect db: '' e []), w)
      | None \<Rightarrow>
          (case FileFingerprint env [cf_internal cfg, cf_external cfg] of
             Inl e \<Rightarrow> (Inl e, w)
           | Inr fp \<Rightarrow>
               (case lift_recon (FindByFingerprint fp) w of
                  (Inl e, w1) \<Rightarrow> (Inl e, w1)
                | (Inr (Some i), w1) \<Rightarrow>
                    (Inr (), print_err (''reconcile: identical inputs already reconciled (run ''
                       @ uuid_String (w_codec (cl_switch w1)) i @ ''); not persisting again'' @ [CHR 0x0A]) w1)
                | (Inr None, w1) \<Rightarrow>
                    (case lift_recon (Persist (cf_internal cfg) (cf_external cfg) fp res) w1 of
                       (Inl e, w2) \<Rightarrow> (Inl e, w2)
                     | (Inr i, w2) \<Rightarrow>
                         (Inr (), print_err (''reconcile: persisted run '' @ uuid_String (w_codec (cl_switch w2)) i @ [CHR 0x0A]) w2)))))"

section \<open>The run\<close>

definition run_inputs :: "cli_env \<Rightarrow> config \<Rightarrow> err + match_result" where
  "run_inputs env cfg =
     (case readInternal env (cf_internal cfg) of
        Inl e \<Rightarrow> Inl e
      | Inr internal \<Rightarrow>
          (case openExternal env (cf_external cfg) (cf_ext_format cfg) of
             Inl e \<Rightarrow> Inl e
           | Inr external \<Rightarrow> Match (ce_order env internal) internal external (cf_window cfg)))"

definition runReconcile :: "cli_env \<Rightarrow> config \<Rightarrow> unit cli" where
  "runReconcile env cfg w =
     (if cf_internal cfg = [] \<or> cf_external cfg = [] then (Inl (ErrMsg ''both --internal and --external are required''), w)
      else (case run_inputs env cfg of
          Inl e \<Rightarrow> (Inl e, w)
        | Inr res \<Rightarrow>
            (case render env (NewReport (cf_internal cfg) (cf_external cfg) res) (cf_format cfg) w of
               (Inl e, w1) \<Rightarrow> (Inl e, w1)
             | (Inr _, w1) \<Rightarrow>
                 (case (if cf_switch_addr cfg = [] then (Inr (), w1) else sendFeedback env (cf_switch_addr cfg) res w1) of
                    (Inl e, w2) \<Rightarrow> (Inl e, w2)
                  | (Inr _, w2) \<Rightarrow> if cf_no_persist cfg then (Inr (), w2) else persist_run env cfg res w2))))"

end
