(* ===== verification/ReconStoreProps.thy ===== *)
theory ReconStoreProps
  imports ReconStore
begin

text \<open>
  The reconciliation tables: what one persisted run writes, the invariant of the tables, and the archive
  (fingerprint to outcome) they implement.
\<close>

section \<open>What a persisted run writes\<close>

definition gap_content :: "insert_exception_params \<Rightarrow> string \<times> string option \<times> record_document option \<times> record_document option \<times> i64 option" where
  "gap_content p = (xp_category p, xp_reference p, xp_internal_record p, xp_external_record p, xp_delta_minor p)"

definition exception_content :: "recon_exception \<Rightarrow> string \<times> string option \<times> record_document option \<times> record_document option \<times> i64 option" where
  "exception_content e = (x_category e, (if x_reference e = [] then None else Some (x_reference e)),
     Option.bind (x_internal e) record_json, Option.bind (x_external e) record_json, x_delta e)"

lemma marshal_side_Inr: "marshal_side pre side = Inr j \<Longrightarrow> j = Option.bind side record_json"
  by (auto simp: marshal_side_def split: option.splits)

lemma exceptionParams_Inr:
  "exceptionParams run e = Inr p \<Longrightarrow> xp_run_id p = run \<and> gap_content p = exception_content e"
  by (auto simp: exceptionParams_def gap_content_def exception_content_def dest!: marshal_side_Inr split: sum.splits)

lemma InsertReconException_Inr:
  assumes "InsertReconException n p ev d = Inr (x, d')"
  shows "d' = d\<lparr>recon_exceptions := recon_exceptions d @ [x]\<rparr>" "xr_params x = p" "check_category (xp_category p)"
  using assms by (auto simp: InsertReconException_def Let_def split: if_splits)

lemma insert_exceptions_Inr:
  "insert_exceptions n run exs ev d = Inr (u, d') \<Longrightarrow>
     \<exists>xs. d' = d\<lparr>recon_exceptions := recon_exceptions d @ xs\<rparr>
       \<and> (\<forall>x \<in> set xs. xp_run_id (xr_params x) = run \<and> check_category (xp_category (xr_params x)))
       \<and> map (\<lambda>x. gap_content (xr_params x)) xs = map exception_content exs"
proof (induction exs arbitrary: n d)
  case Nil
  then show ?case by (intro exI [of _ "[]"]) simp
next
  case (Cons e exs)
  then obtain p x d1 where p: "exceptionParams run e = Inr p" and x: "InsertReconException n p ev d = Inr (x, d1)"
    and rest: "insert_exceptions (Suc n) run exs ev d1 = Inr (u, d')"
    by (auto split: sum.splits prod.splits)
  note ins = InsertReconException_Inr [OF x]
  obtain xs where xs: "d' = d1\<lparr>recon_exceptions := recon_exceptions d1 @ xs\<rparr>"
    "\<forall>x \<in> set xs. xp_run_id (xr_params x) = run \<and> check_category (xp_category (xr_params x))"
    "map (\<lambda>x. gap_content (xr_params x)) xs = map exception_content exs"
    using Cons.IH [OF rest] by blast
  show ?case using xs ins exceptionParams_Inr [OF p] by (intro exI [of _ "x # xs"]) simp
qed

definition completed_run :: "env \<Rightarrow> string \<Rightarrow> string \<Rightarrow> string \<Rightarrow> match_result \<Rightarrow> recon_run" where
  "completed_run ev internal external fp res =
     \<lparr>rn_id = e_uuid ev 0, rn_started_at = e_now ev, rn_finished_at = Some (e_now ev), rn_internal_source = internal,
      rn_external_source = external, rn_status = ''completed'', rn_matched_count = word_of_int (int (mr_matched res)),
      rn_exception_count = word_of_int (int (length (mr_exceptions res))), rn_summary = Some (summary_of fp res)\<rparr>"

lemma persist_body_Inr:
  assumes "persist_body internal external fp res ev d = Inr (i, d')"
  obtains xs where "e_uuid ev 0 \<notin> rn_id ` set (recon_runs d)"
    and "d' = \<lparr>recon_runs = recon_runs d @ [completed_run ev internal external fp res], recon_exceptions = recon_exceptions d @ xs\<rparr>"
    and "\<forall>x \<in> set xs. xp_run_id (xr_params x) = e_uuid ev 0 \<and> check_category (xp_category (xr_params x))"
    and "map (\<lambda>x. gap_content (xr_params x)) xs = map exception_content (mr_exceptions res)"
proof -
  obtain run d1 where run: "InsertReconRun internal external ev d = Inr (run, d1)"
    using assms by (auto simp: persist_body_def split: sum.splits prod.splits)
  then have fresh: "e_uuid ev 0 \<notin> rn_id ` set (recon_runs d)" and d1: "d1 = d\<lparr>recon_runs := recon_runs d @ [run]\<rparr>"
    and id: "rn_id run = e_uuid ev 0"
    and fields: "rn_started_at run = e_now ev" "rn_internal_source run = internal" "rn_external_source run = external"
    by (auto simp: InsertReconRun_def Let_def list_ex_iff split: if_splits)
  obtain u d2 where d2: "insert_exceptions 1 (rn_id run) (mr_exceptions res) ev d1 = Inr (u, d2)"
    using assms run by (auto simp: persist_body_def split: sum.splits prod.splits)
  obtain xs where xs: "d2 = d1\<lparr>recon_exceptions := recon_exceptions d1 @ xs\<rparr>"
    "\<forall>x \<in> set xs. xp_run_id (xr_params x) = rn_id run \<and> check_category (xp_category (xr_params x))"
    "map (\<lambda>x. gap_content (xr_params x)) xs = map exception_content (mr_exceptions res)"
    using insert_exceptions_Inr [OF d2] by blast
  let ?upd = "\<lambda>r. if rn_id r = rn_id run
    then r\<lparr>rn_finished_at := Some (e_now ev), rn_status := ''completed'', rn_matched_count := word_of_int (int (mr_matched res)),
      rn_exception_count := word_of_int (int (length (mr_exceptions res))), rn_summary := Some (summary_of fp res)\<rparr> else r"
  have "d' = d2\<lparr>recon_runs := map ?upd (recon_runs d2)\<rparr>"
    using assms run d2 by (auto simp: persist_body_def FinishReconRun_def Let_def split: sum.splits prod.splits option.splits)
  moreover have "map ?upd (recon_runs d) = recon_runs d" by (rule map_idI) (use fresh id in \<open>auto simp: image_iff\<close>)
  moreover have "?upd run = completed_run ev internal external fp res" using fields id by (simp add: completed_run_def)
  ultimately have "d' = \<lparr>recon_runs = recon_runs d @ [completed_run ev internal external fp res], recon_exceptions = recon_exceptions d @ xs\<rparr>"
    using xs(1) d1 by simp
  then show ?thesis using that fresh xs(2,3) id by simp
qed

section \<open>The invariant\<close>

definition run_exceptions :: "recon_db \<Rightarrow> uuid \<Rightarrow> exception_row list" where
  "run_exceptions d i = filter (\<lambda>x. xp_run_id (xr_params x) = i) (recon_exceptions d)"

text \<open>A finished run: its counts and its summary agree with the exceptions stored for it.\<close>

definition run_ok :: "recon_db \<Rightarrow> recon_run \<Rightarrow> bool" where
  "run_ok d r \<longleftrightarrow> rn_status r = ''completed'' \<and> rn_finished_at r \<noteq> None
     \<and> (\<exists>s. rn_summary r = Some s \<and> rn_matched_count r = word_of_int (int (sm_matched s))
        \<and> rn_exception_count r = word_of_int (int (length (run_exceptions d (rn_id r))))
        \<and> (\<forall>c. count_of (sm_by_category s) c = length (filter (\<lambda>x. xp_category (xr_params x) = c) (run_exceptions d (rn_id r)))))"

definition fingerprint_of :: "recon_run \<Rightarrow> string option" where
  "fingerprint_of r = map_option sm_input_fingerprint (rn_summary r)"

definition recon_inv :: "recon_db \<Rightarrow> bool" where
  "recon_inv d \<longleftrightarrow> distinct (map rn_id (recon_runs d)) \<and> distinct (map fingerprint_of (recon_runs d))
     \<and> (\<forall>r \<in> set (recon_runs d). run_ok d r)
     \<and> (\<forall>x \<in> set (recon_exceptions d). xp_run_id (xr_params x) \<in> rn_id ` set (recon_runs d)
          \<and> check_category (xp_category (xr_params x)))"

lemma recon_inv_empty: "recon_inv \<lparr>recon_runs = [], recon_exceptions = []\<rparr>"
  by (simp add: recon_inv_def)

lemma run_exceptions_old:
  "\<forall>x \<in> set xs. xp_run_id (xr_params x) = j \<Longrightarrow> i \<noteq> j
    \<Longrightarrow> run_exceptions \<lparr>recon_runs = rs, recon_exceptions = recon_exceptions d @ xs\<rparr> i = run_exceptions d i"
  by (auto simp: run_exceptions_def filter_empty_conv)

lemma run_exceptions_new:
  assumes "\<forall>x \<in> set xs. xp_run_id (xr_params x) = j" and "\<forall>x \<in> set (recon_exceptions d). xp_run_id (xr_params x) \<noteq> j"
  shows "run_exceptions \<lparr>recon_runs = rs, recon_exceptions = recon_exceptions d @ xs\<rparr> j = xs"
proof -
  have "filter (\<lambda>x. xp_run_id (xr_params x) = j) xs = xs" using assms(1) by (auto simp: filter_id_conv)
  moreover have "filter (\<lambda>x. xp_run_id (xr_params x) = j) (recon_exceptions d) = []" using assms(2) by (simp add: filter_empty_conv)
  ultimately show ?thesis by (simp add: run_exceptions_def)
qed

lemma count_contents:
  "map (\<lambda>x. gap_content (xr_params x)) xs = map exception_content exs
    \<Longrightarrow> length (filter (\<lambda>x. xp_category (xr_params x) = c) xs) = count_cat c exs"
proof (induction xs arbitrary: exs)
  case (Cons x xs)
  then obtain e exs' where "exs = e # exs'" by (cases exs) auto
  then show ?case using Cons by (auto simp: gap_content_def exception_content_def)
qed simp

section \<open>The archive\<close>

record archived =
  ar_matched :: nat
  ar_by_category :: "(string \<times> nat) list"
  ar_gaps :: "(string \<times> string option \<times> record_document option \<times> record_document option \<times> i64 option) list"

type_synonym archive = "string \<rightharpoonup> archived"

text \<open>The specification: the first outcome filed under a fingerprint stays.\<close>

definition archive_add :: "string \<Rightarrow> archived \<Rightarrow> archive \<Rightarrow> archive" where
  "archive_add fp a A = (case A fp of None \<Rightarrow> A(fp \<mapsto> a) | Some _ \<Rightarrow> A)"

definition archived_result :: "match_result \<Rightarrow> archived" where
  "archived_result res = \<lparr>ar_matched = mr_matched res, ar_by_category = by_category (mr_exceptions res),
     ar_gaps = map exception_content (mr_exceptions res)\<rparr>"

text \<open>The abstraction: what the tables say about a fingerprint.\<close>

definition archived_run :: "recon_db \<Rightarrow> recon_run \<Rightarrow> archived option" where
  "archived_run d r = map_option (\<lambda>s. \<lparr>ar_matched = sm_matched s, ar_by_category = sm_by_category s,
     ar_gaps = map (\<lambda>x. gap_content (xr_params x)) (run_exceptions d (rn_id r))\<rparr>) (rn_summary r)"

definition archive_of :: "recon_db \<Rightarrow> archive" where
  "archive_of d fp = (case List.find (has_fingerprint fp) (recon_runs d) of Some r \<Rightarrow> archived_run d r | None \<Rightarrow> None)"

lemma persist_inv:
  assumes inv: "recon_inv d" and body: "persist_body internal external fp res ev d = Inr (i, d')"
    and new: "List.find (has_fingerprint fp) (recon_runs d) = None"
  shows "recon_inv d'" and "archive_of d' = (archive_of d)(fp \<mapsto> archived_result res)"
proof -
  obtain xs where fresh: "e_uuid ev 0 \<notin> rn_id ` set (recon_runs d)"
    and d': "d' = \<lparr>recon_runs = recon_runs d @ [completed_run ev internal external fp res], recon_exceptions = recon_exceptions d @ xs\<rparr>"
    and xs: "\<forall>x \<in> set xs. xp_run_id (xr_params x) = e_uuid ev 0 \<and> check_category (xp_category (xr_params x))"
    and contents: "map (\<lambda>x. gap_content (xr_params x)) xs = map exception_content (mr_exceptions res)"
    using persist_body_Inr [OF body] by metis
  let ?r = "completed_run ev internal external fp res"
  have rid: "rn_id ?r = e_uuid ev 0" and rfp: "fingerprint_of ?r = Some fp"
    by (simp_all add: completed_run_def fingerprint_of_def summary_of_def)
  have old: "run_exceptions d' (rn_id r) = run_exceptions d (rn_id r)" if "r \<in> set (recon_runs d)" for r
  proof -
    have "rn_id r \<noteq> e_uuid ev 0" using fresh imageI [OF that, of rn_id] by metis
    then show ?thesis unfolding d' using xs by (intro run_exceptions_old) auto
  qed
  have mine: "run_exceptions d' (rn_id ?r) = xs"
  proof -
    have "\<forall>x \<in> set (recon_exceptions d). xp_run_id (xr_params x) \<noteq> e_uuid ev 0"
      using inv fresh unfolding recon_inv_def by metis
    then show ?thesis unfolding d' rid using xs by (intro run_exceptions_new) auto
  qed
  have compl: "rn_status r = ''completed''" if "r \<in> set (recon_runs d)" for r
    using inv that by (auto simp: recon_inv_def run_ok_def)
  have nofp: "fingerprint_of r \<noteq> Some fp" if "r \<in> set (recon_runs d)" for r
    using new that compl [OF that] by (auto simp: find_None_iff has_fingerprint_def fingerprint_of_def)
  have "run_ok d' ?r"
    using count_contents [OF contents] map_eq_imp_length_eq [OF contents]
    unfolding run_ok_def mine by (simp add: completed_run_def summary_of_def count_of_def by_category_count)
  moreover have "run_ok d' r" if "r \<in> set (recon_runs d)" for r
    using inv that unfolding run_ok_def old [OF that] by (auto simp: recon_inv_def run_ok_def)
  moreover have "Some fp \<notin> fingerprint_of ` set (recon_runs d)" using nofp by (metis imageE)
  ultimately show "recon_inv d'"
    using inv fresh xs unfolding recon_inv_def by (auto simp: d' rid rfp del: imageE)
  show "archive_of d' = (archive_of d)(fp \<mapsto> archived_result res)"
  proof
    fix k
    have mine_arch: "archived_run d' ?r = Some (archived_result res)"
      by (simp add: archived_run_def mine contents archived_result_def) (simp add: completed_run_def summary_of_def)
    have keep: "archived_run d' r = archived_run d r" if "List.find (has_fingerprint k) (recon_runs d) = Some r" for r
    proof -
      have "r \<in> set (recon_runs d)" using that by (auto simp: find_Some_iff)
      then show ?thesis by (simp add: archived_run_def old)
    qed
    have hit: "has_fingerprint k ?r \<longleftrightarrow> k = fp" by (auto simp: has_fingerprint_def completed_run_def summary_of_def)
    show "archive_of d' k = ((archive_of d)(fp \<mapsto> archived_result res)) k"
      using new mine_arch keep hit by (auto simp: archive_of_def d' find_append split: option.split)
  qed
qed

end
