(* ===== verification/ReconcileProps.thy ===== *)
theory ReconcileProps
  imports Reconcile ReconStoreProps SwitchSystem MatcherOrder
begin

text \<open>
  The parts of a reconcile run: the archive the store is to the command line (an interface the tables
  implement), reading the inputs, and what the feedback does to the switch.
\<close>

section \<open>The store as an archive\<close>

locale run_archive =
  fixes lookup :: "string \<Rightarrow> 's \<Rightarrow> (err + uuid option) \<times> 's"
    and enter :: "string \<Rightarrow> match_result \<Rightarrow> 's \<Rightarrow> (err + uuid) \<times> 's"
    and arch :: "'s \<Rightarrow> archive"
    and ok :: "'s \<Rightarrow> bool"
  assumes lookup_law: "lookup fp s = (r, s') \<Longrightarrow> ok s \<Longrightarrow>
      ok s' \<and> arch s' = arch s \<and> (\<forall>x. r = Inr x \<longrightarrow> (x = None \<longleftrightarrow> arch s fp = None))"
    and enter_law: "enter fp res s = (q, s') \<Longrightarrow> ok s \<Longrightarrow> arch s fp = None \<Longrightarrow>
      ok s' \<and> (arch s' = arch s \<and> (\<exists>e. q = Inl e) \<or> arch s' = (arch s)(fp \<mapsto> archived_result res))"
begin

lemma filed_already:
  assumes "ok s" and "lookup fp s = (Inr (Some i), s')"
  shows "ok s' \<and> arch s' = archive_add fp a (arch s)"
  using lookup_law [OF assms(2,1)] by (auto simp: archive_add_def split: option.split)

lemma filed_once:
  assumes "ok s" and "lookup fp s = (Inr None, s1)" and "enter fp res s1 = (r, s2)"
  shows "ok s2 \<and> (arch s2 = arch s \<and> (\<exists>e. r = Inl e) \<or> arch s2 = archive_add fp (archived_result res) (arch s))"
proof -
  have "ok s1" "arch s1 = arch s" "arch s fp = None" using lookup_law [OF assms(2,1)] by simp_all
  then show ?thesis using enter_law [OF assms(3)] by (simp add: archive_add_def)
qed

end

lemma recon_withTx_cases:
  assumes "recon_withTx pre f w = (r, w')"
  obtains (unchanged) e where "r = Inl e" "rw_db w' = rw_db w" "\<forall>s. \<not> errors_is e s"
  | (committed) a where "f (rw_env w (rw_tick w)) (rw_db w) = Inr (a, rw_db w')" "r = Inr a \<or> (\<exists>e. r = Inl e \<and> (\<forall>s. \<not> errors_is e s))"
  | (refused) e where "f (rw_env w (rw_tick w)) (rw_db w) = Inl e" "r = Inl e" "rw_db w' = rw_db w"
  using assms by (fastforce simp: recon_withTx_def tx_outcome_def split: tx_fault.splits sum.splits prod.splits)

lemma sort_key_hd:
  assumes "sort_key f (filter P xs) = x # ys"
  shows "x \<in> set xs \<and> P x"
proof -
  have "set (x # ys) = set (filter P xs)" unfolding assms [symmetric] by simp
  then show ?thesis by auto
qed

lemma sort_key_Nil: "sort_key f xs = [] \<longleftrightarrow> xs = []"
  by (metis length_0_conv length_sort)

lemma Find_spec:
  "FindCompletedRunByFingerprint fp ev d = Inr (run, d') \<Longrightarrow> d' = d \<and> run \<in> set (recon_runs d) \<and> has_fingerprint fp run"
  "FindCompletedRunByFingerprint fp ev d = Inl e \<Longrightarrow> e = Sentinel ErrNoRows \<and> filter (has_fingerprint fp) (recon_runs d) = []"
  by (auto simp: FindCompletedRunByFingerprint_def sort_key_Nil dest!: sort_key_hd split: list.splits)

lemma archive_None:
  assumes "recon_inv d"
  shows "archive_of d fp = None \<longleftrightarrow> (\<forall>r \<in> set (recon_runs d). \<not> has_fingerprint fp r)"
proof (cases "List.find (has_fingerprint fp) (recon_runs d)")
  case None
  then have "archive_of d fp = None" by (simp add: archive_of_def)
  then show ?thesis using None by (auto simp: find_None_iff)
next
  case (Some r)
  then have "r \<in> set (recon_runs d)" "has_fingerprint fp r" by (auto simp: find_Some_iff)
  then show ?thesis using Some by (auto simp: archive_of_def archived_run_def has_fingerprint_def)
qed

interpretation recon: run_archive FindByFingerprint "Persist src ext" "\<lambda>w. archive_of (rw_db w)" "\<lambda>w. recon_inv (rw_db w)"
  for src ext
proof
  fix fp s r s'
  assume run: "FindByFingerprint fp s = (r, s')" and ok: "recon_inv (rw_db s)"
  obtain x w1 where f: "recon_withTx [] (FindCompletedRunByFingerprint fp) s = (x, w1)" by force
  then have w1: "w1 = s'" using run by (auto simp: FindByFingerprint_def split: sum.splits if_splits)
  from f have "rw_db s' = rw_db s \<and> (\<forall>y. r = Inr y \<longrightarrow> (y = None \<longleftrightarrow> archive_of (rw_db s) fp = None))"
  proof (cases rule: recon_withTx_cases)
    case (unchanged e)
    then show ?thesis using run f unchanged w1 by (auto simp: FindByFingerprint_def split: if_splits)
  next
    case (committed a)
    then show ?thesis using run f w1 Find_spec(1) [OF committed(1)] archive_None [OF ok]
      by (auto simp: FindByFingerprint_def split: if_splits)
  next
    case (refused e)
    then show ?thesis using run f w1 Find_spec(2) [OF refused(1)] archive_None [OF ok]
      by (auto simp: FindByFingerprint_def filter_empty_conv)
  qed
  then show "recon_inv (rw_db s') \<and> archive_of (rw_db s') = archive_of (rw_db s) \<and> (\<forall>x. r = Inr x \<longrightarrow> (x = None \<longleftrightarrow> archive_of (rw_db s) fp = None))"
    using ok by simp
next
  fix fp res s r s'
  assume run: "Persist src ext fp res s = (r, s')" and ok: "recon_inv (rw_db s)" and none: "archive_of (rw_db s) fp = None"
  have new: "List.find (has_fingerprint fp) (recon_runs (rw_db s)) = None"
    using none archive_None [OF ok] by (simp add: find_None_iff)
  from run [unfolded Persist_def] show "recon_inv (rw_db s') \<and> (archive_of (rw_db s') = archive_of (rw_db s) \<and> (\<exists>e. r = Inl e)
      \<or> archive_of (rw_db s') = (archive_of (rw_db s))(fp \<mapsto> archived_result res))"
    by (cases rule: recon_withTx_cases) (use ok persist_inv [OF ok _ new] in auto)
qed

section \<open>Feedback\<close>

text \<open>What a corrective call may do to the switch's database: append \<open>reversal.requested\<close> events, and only
  for transfers with the reference that are in \<open>reversal_pending\<close>.\<close>

definition requeues :: "string \<Rightarrow> db \<Rightarrow> outbox_row list \<Rightarrow> bool" where
  "requeues ref d rs \<longleftrightarrow> (\<forall>r \<in> set rs. o_event_type r = EventReversalRequested
     \<and> (\<exists>t \<in> set (transactions d). lifecycle t \<and> t_reference t = ref \<and> t_status t = statusReversalPending \<and> t_id t = o_aggregate_id r))"

definition only_requeued :: "db \<Rightarrow> outbox_row list \<Rightarrow> db \<Rightarrow> bool" where
  "only_requeued d rs d' \<longleftrightarrow> d' = d\<lparr>outbox := outbox d @ rs, outbox_seq := outbox_seq d + length rs\<rparr>"

lemma only_requeued_refl: "only_requeued d [] d"
  by (simp add: only_requeued_def)

lemma only_requeued_trans: "only_requeued d rs d1 \<Longrightarrow> only_requeued d1 rs' d2 \<Longrightarrow> only_requeued d (rs @ rs') d2"
  by (auto simp: only_requeued_def)

lemma only_requeued_frame:
  "only_requeued d rs d' \<Longrightarrow> transactions d' = transactions d \<and> entries d' = entries d \<and> balances d' = balances d
     \<and> accounts d' = accounts d \<and> idem_keys d' = idem_keys d \<and> outbox d' = outbox d @ rs"
  by (auto simp: only_requeued_def)

lemma outbox_Append_row:
  assumes "outbox_Append i ty p ev d = Inr (u, d')"
  shows "\<exists>row. o_event_type row = ty \<and> o_aggregate_id row = i
    \<and> d' = d\<lparr>outbox := outbox d @ [row], outbox_seq := Suc (outbox_seq d)\<rparr>"
proof -
  have "d' = d\<lparr>outbox := outbox d @ [last (outbox d')], outbox_seq := Suc (outbox_seq d)\<rparr>
      \<and> o_event_type (last (outbox d')) = ty \<and> o_aggregate_id (last (outbox d')) = i"
    using assms by (auto simp: outbox_Append_def InsertOutboxEvent_def Let_def)
  then show ?thesis by blast
qed

lemma RequeueReversal_only:
  assumes "driver_RequeueReversal ref w = (r, w')"
  shows "\<exists>rs. only_requeued (w_db w) rs (w_db w') \<and> requeues ref (w_db w) rs \<and> length rs \<le> 1"
proof -
  obtain x w1 where l: "loadByReference ref w = (x, w1)" by force
  note sp = loadByReference_spec [OF l]
  have same: "\<exists>rs. only_requeued (w_db w) rs (w_db w1) \<and> requeues ref (w_db w) rs \<and> length rs \<le> 1"
    using sp only_requeued_refl [of "w_db w"] by (intro exI [of _ "[]"]) (simp add: requeues_def)
  show ?thesis
  proof (cases x)
    case (Inl e)
    then show ?thesis using assms l same by (auto simp: driver_RequeueReversal_def store_RequeueReversal_def)
  next
    case (Inr det)
    then obtain t where t: "transfer_row (w_db w) (t_id t) t" "t_reference t = ref" and det: "det = detailFromRow (w_codec w) t"
      using sp by auto
    show ?thesis
    proof (cases "td_status det = statusReversalPending")
      case False
      then show ?thesis using assms l Inr same by (auto simp: driver_RequeueReversal_def store_RequeueReversal_def)
    next
      case True
      obtain y w2 where m: "WithTx (outbox_Append (td_id det) EventReversalRequested (eventPayload det)) w1 = (y, w2)" by force
      have w2: "w' = w2"
        using assms l Inr True m by (auto simp: driver_RequeueReversal_def store_RequeueReversal_def split: sum.splits)
      have mem: "t \<in> set (transactions (w_db w))" "lifecycle t" "t_status t = statusReversalPending" "t_id t = td_id det"
        using t True by (auto simp: transfer_row_def det detailFromRow_def)
      from m [unfolded WithTx_def] show ?thesis
      proof (cases rule: run_tx_cases)
        case (unchanged e)
        then show ?thesis using w2 sp only_requeued_refl [of "w_db w"] by (intro exI [of _ "[]"]) (simp add: requeues_def)
      next
        case (committed a d)
        then obtain row where row: "o_event_type row = EventReversalRequested" "o_aggregate_id row = td_id det"
          "d = (w_db w)\<lparr>outbox := outbox (w_db w) @ [row], outbox_seq := Suc (outbox_seq (w_db w))\<rparr>"
          using sp outbox_Append_row [OF committed(1)] by auto
        have "only_requeued (w_db w) [row] (w_db w')"
          unfolding w2 committed(3) row(3) only_requeued_def by simp
        moreover have "requeues ref (w_db w) [row]" using mem t(2) row(1,2) by (auto simp: requeues_def)
        ultimately show ?thesis by (intro exI [of _ "[row]"]) simp
      qed
    qed
  qed
qed

text \<open>A switch answer, whatever the network does to it: the step, if the server ran it at all.\<close>

lemma rpc_cases:
  assumes "rpc server w = (r, w')"
  obtains (lost) "w' = w\<lparr>w_tick := Suc (w_tick w)\<rparr>"
  | (served) x where "server (w\<lparr>w_tick := Suc (w_tick w)\<rparr>) = (x, w')" "r = x \<or> (\<exists>e. r = Inl e)"
  using assms by (cases "server (w\<lparr>w_tick := Suc (w_tick w)\<rparr>)")
    (auto simp: rpc_def take_env_def split: rpc_fault.splits)

lemma corrective_call_spec:
  assumes "corrective_call ref w = (r, w')"
  shows "\<exists>rs. only_requeued (w_db (cl_switch w)) rs (w_db (cl_switch w')) \<and> requeues ref (w_db (cl_switch w)) rs \<and> length rs \<le> 1"
    and "sane truth (cl_switch w) \<Longrightarrow> follows truth (cl_switch w) (cl_switch w')"
    and "cl_recon w' = cl_recon w \<and> cl_stdout w' = cl_stdout w \<and> cl_stderr w' = cl_stderr w"
proof -
  let ?w1 = "(cl_switch w)\<lparr>w_tick := Suc (w_tick (cl_switch w))\<rparr>"
  obtain x sw where rpc: "rpc (grpc_CorrectiveReversal ref) (cl_switch w) = (x, sw)" by force
  then have sw: "cl_switch w' = sw" and "cl_recon w' = cl_recon w \<and> cl_stdout w' = cl_stdout w \<and> cl_stderr w' = cl_stderr w"
    using assms by (auto simp: corrective_call_def)
  then show "cl_recon w' = cl_recon w \<and> cl_stdout w' = cl_stdout w \<and> cl_stderr w' = cl_stderr w" by simp
  have ran: "sw = ?w1 \<or> (\<exists>y. driver_RequeueReversal ref ?w1 = (y, sw))"
    using rpc by (cases rule: rpc_cases) (auto dest: grpc_CorrectiveReversal_world)
  show "\<exists>rs. only_requeued (w_db (cl_switch w)) rs (w_db (cl_switch w')) \<and> requeues ref (w_db (cl_switch w)) rs \<and> length rs \<le> 1"
    using ran
  proof
    assume "sw = ?w1"
    then show ?thesis unfolding sw using only_requeued_refl [of "w_db (cl_switch w)"] by (intro exI [of _ "[]"]) (simp add: requeues_def)
  next
    assume "\<exists>y. driver_RequeueReversal ref ?w1 = (y, sw)"
    then show ?thesis unfolding sw using RequeueReversal_only [of ref ?w1] by auto
  qed
  assume sane: "sane truth (cl_switch w)"
  have f1: "follows truth (cl_switch w) ?w1" by (rule follows_same_db [OF sane]) simp_all
  then have "sane truth ?w1" by (simp add: follows_def)
  then have "follows truth ?w1 sw"
    using ran RequeueReversal_keeps follows_keeps follows_refl unfolding sane_def by metis
  then show "follows truth (cl_switch w) (cl_switch w')" unfolding sw using follows_trans [OF f1] by blast
qed

definition pending_refs :: "recon_exception list \<Rightarrow> string set" where
  "pending_refs xs = x_reference ` {x \<in> set xs. x_category x = CategoryPendingReversal}"

lemma feedback_loop_spec:
  assumes "feedback_loop xs sent failed w = ((s, f), w')"
  shows "s + f = sent + failed + count_cat CategoryPendingReversal xs"
    and "cl_recon w' = cl_recon w \<and> cl_stdout w' = cl_stdout w"
    and "length (cl_stderr w') = length (cl_stderr w) + count_cat CategoryPendingReversal xs"
    and "\<exists>rs. only_requeued (w_db (cl_switch w)) rs (w_db (cl_switch w')) \<and> length rs \<le> count_cat CategoryPendingReversal xs
      \<and> (\<forall>r \<in> set rs. \<exists>ref \<in> pending_refs xs. requeues ref (w_db (cl_switch w)) [r])"
    and "sane truth (cl_switch w) \<Longrightarrow> follows truth (cl_switch w) (cl_switch w')"
proof -
  let ?goal = "\<lambda>xs sent failed w s f w'. s + f = sent + failed + count_cat CategoryPendingReversal xs
    \<and> (cl_recon w' = cl_recon w \<and> cl_stdout w' = cl_stdout w)
    \<and> length (cl_stderr w') = length (cl_stderr w) + count_cat CategoryPendingReversal xs
    \<and> (\<exists>rs. only_requeued (w_db (cl_switch w)) rs (w_db (cl_switch w')) \<and> length rs \<le> count_cat CategoryPendingReversal xs
      \<and> (\<forall>r \<in> set rs. \<exists>ref \<in> pending_refs xs. requeues ref (w_db (cl_switch w)) [r]))
    \<and> (sane truth (cl_switch w) \<longrightarrow> follows truth (cl_switch w) (cl_switch w'))"
  have "?goal xs sent failed w s f w'"
    using assms
  proof (induction xs arbitrary: sent failed w)
    case Nil
    then show ?case using only_requeued_refl follows_refl by fastforce
  next
    case (Cons x xs)
    show ?case
    proof (cases "x_category x = CategoryPendingReversal")
      case False
      then have "pending_refs (x # xs) = pending_refs xs" by (auto simp: pending_refs_def)
      then show ?thesis using Cons.IH [of sent failed w] Cons.prems False by simp
    next
      case True
      have refs: "x_reference x \<in> pending_refs (x # xs)" "pending_refs xs \<subseteq> pending_refs (x # xs)"
        using True by (auto simp: pending_refs_def)
      obtain a w1 where call: "corrective_call (x_reference x) w = (a, w1)" by force
      note cs = corrective_call_spec [OF call]
      obtain rs where rs: "only_requeued (w_db (cl_switch w)) rs (w_db (cl_switch w1))" "requeues (x_reference x) (w_db (cl_switch w)) rs" "length rs \<le> 1"
        using cs(1) by blast
      obtain sent' failed' w2 where next_call: "feedback_loop xs sent' failed' w2 = ((s, f), w')" and one: "sent' + failed' = Suc (sent + failed)"
        and w2: "cl_switch w2 = cl_switch w1" "cl_recon w2 = cl_recon w1" "cl_stdout w2 = cl_stdout w1" "length (cl_stderr w2) = Suc (length (cl_stderr w1))"
        using Cons.prems call True by (cases a) (auto simp: print_err_def)
      from Cons.IH [OF next_call] w2 cs(3) one
      have IH: "s + f = Suc (sent + failed) + count_cat CategoryPendingReversal xs"
        "cl_recon w' = cl_recon w \<and> cl_stdout w' = cl_stdout w"
        "length (cl_stderr w') = Suc (length (cl_stderr w)) + count_cat CategoryPendingReversal xs"
        and IHs: "sane truth (cl_switch w1) \<longrightarrow> follows truth (cl_switch w1) (cl_switch w')"
        and IHr: "\<exists>rs'. only_requeued (w_db (cl_switch w1)) rs' (w_db (cl_switch w')) \<and> length rs' \<le> count_cat CategoryPendingReversal xs
          \<and> (\<forall>r \<in> set rs'. \<exists>ref \<in> pending_refs xs. requeues ref (w_db (cl_switch w1)) [r])"
        by simp_all
      obtain rs' where rs': "only_requeued (w_db (cl_switch w1)) rs' (w_db (cl_switch w'))" "length rs' \<le> count_cat CategoryPendingReversal xs"
          "\<forall>r \<in> set rs'. \<exists>ref \<in> pending_refs xs. requeues ref (w_db (cl_switch w1)) [r]"
        using IHr by blast
      have tx: "transactions (w_db (cl_switch w1)) = transactions (w_db (cl_switch w))" using only_requeued_frame [OF rs(1)] by simp
      have "\<forall>r \<in> set (rs @ rs'). \<exists>ref \<in> pending_refs (x # xs). requeues ref (w_db (cl_switch w)) [r]"
        using rs(2) rs'(3) refs unfolding requeues_def tx by fastforce
      moreover have "length (rs @ rs') \<le> count_cat CategoryPendingReversal (x # xs)" using rs(3) rs'(2) True by simp
      moreover have "sane truth (cl_switch w) \<longrightarrow> follows truth (cl_switch w) (cl_switch w')"
        using cs(2) IHs follows_trans by (metis follows_def)
      ultimately show ?thesis using only_requeued_trans [OF rs(1) rs'(1)] IH True by auto
    qed
  qed
  then show "s + f = sent + failed + count_cat CategoryPendingReversal xs" "cl_recon w' = cl_recon w \<and> cl_stdout w' = cl_stdout w"
    "length (cl_stderr w') = length (cl_stderr w) + count_cat CategoryPendingReversal xs"
    "\<exists>rs. only_requeued (w_db (cl_switch w)) rs (w_db (cl_switch w')) \<and> length rs \<le> count_cat CategoryPendingReversal xs
      \<and> (\<forall>r \<in> set rs. \<exists>ref \<in> pending_refs xs. requeues ref (w_db (cl_switch w)) [r])"
    "sane truth (cl_switch w) \<Longrightarrow> follows truth (cl_switch w) (cl_switch w')"
    by blast+
qed

end
