(* ===== verification/ReconcileClaims.thy ===== *)
theory ReconcileClaims
  imports ReconcileProps FixtureClaims SwitchDemo
begin

text \<open>
  The properties of a reconcile run: what it files, what it does to the switch, and the order of its
  effects.
\<close>

section \<open>The archive of runs\<close>

lemma lift_recon_eq: "lift_recon m w = (r, w') \<longleftrightarrow> m (cl_recon w) = (r, cl_recon w') \<and> w' = w\<lparr>cl_recon := cl_recon w'\<rparr>"
  by (auto simp: lift_recon_def split: prod.splits)

lemma lift_recon_frame: "lift_recon m w = (r, w') \<Longrightarrow> cl_switch w' = cl_switch w \<and> cl_stdout w' = cl_stdout w"
  by (auto simp: lift_recon_def split: prod.splits)

lemma persist_run_spec:
  assumes run: "persist_run env cfg res w = (r, w')" and inv: "recon_inv (rw_db (cl_recon w))"
    and fp: "FileFingerprint env [cf_internal cfg, cf_external cfg] = Inr fp"
  shows "recon_inv (rw_db (cl_recon w')) \<and> cl_switch w' = cl_switch w \<and> cl_stdout w' = cl_stdout w
    \<and> (archive_of (rw_db (cl_recon w')) = archive_of (rw_db (cl_recon w)) \<and> (\<exists>e. r = Inl e)
       \<or> archive_of (rw_db (cl_recon w')) = archive_add fp (archived_result res) (archive_of (rw_db (cl_recon w))))"
proof (cases "ce_pool env (cf_db_url cfg)")
  case (Some e)
  then show ?thesis using run inv by (auto simp: persist_run_def)
next
  case None
  obtain x w1 where lift1: "lift_recon (FindByFingerprint fp) w = (x, w1)" by force
  note look = lift_recon_eq [THEN iffD1, OF lift1, THEN conjunct1] and w1 = lift_recon_frame [OF lift1]
  note kept = recon.lookup_law [OF look inv]
  consider (err) e where "x = Inl e" | (known) i where "x = Inr (Some i)" | (new) "x = Inr None"
    by (metis option.exhaust sum.exhaust)
  then show ?thesis
  proof cases
    case err
    then have "r = Inl e" "w' = w1" using run None fp lift1 by (simp_all add: persist_run_def)
    then show ?thesis using kept w1 err by simp
  next
    case known
    have f: "FindByFingerprint fp (cl_recon w) = (Inr (Some i), cl_recon w1)" using look known by simp
    have "cl_recon w' = cl_recon w1 \<and> cl_switch w' = cl_switch w1 \<and> cl_stdout w' = cl_stdout w1"
      using run None fp lift1 known by (auto simp: persist_run_def print_err_def)
    then show ?thesis using recon.filed_already [OF inv f, of "archived_result res"] w1 by simp
  next
    case new
    have f: "FindByFingerprint fp (cl_recon w) = (Inr None, cl_recon w1)" using look new by simp
    obtain y w2 where lift2: "lift_recon (Persist (cf_internal cfg) (cf_external cfg) fp res) w1 = (y, w2)" by force
    note put = lift_recon_eq [THEN iffD1, OF lift2, THEN conjunct1] and w2 = lift_recon_frame [OF lift2]
    have "cl_recon w' = cl_recon w2 \<and> cl_switch w' = cl_switch w2 \<and> cl_stdout w' = cl_stdout w2 \<and> (\<forall>e. y = Inl e \<longrightarrow> r = Inl e)"
      using run None fp lift1 lift2 new by (cases y) (auto simp: persist_run_def print_err_def)
    then show ?thesis using recon.filed_once [OF inv f put] w1 w2 by auto
  qed
qed

text \<open>C35. Persisting refines an archive from input fingerprints to outcomes in which the first outcome stays:
  under every fault (a lost commit included) a run either leaves the archive alone and reports an error, or
  adds exactly its own outcome if the fingerprint was new and nothing otherwise; a run that reports success
  did the latter. Every stored run is finished, its counts and its summary agree with the stored exceptions,
  and no fingerprint has two runs, so reconciling the same files again never double-counts.\<close>

theorem persist_refines_archive:
  assumes "persist_run env cfg res w = (r, w')" and "recon_inv (rw_db (cl_recon w))"
    and "FileFingerprint env [cf_internal cfg, cf_external cfg] = Inr fp"
  shows "recon_inv (rw_db (cl_recon w')) \<and> cl_switch w' = cl_switch w
    \<and> (archive_of (rw_db (cl_recon w')) = archive_of (rw_db (cl_recon w)) \<and> (\<exists>e. r = Inl e)
       \<or> archive_of (rw_db (cl_recon w')) = archive_add fp (archived_result res) (archive_of (rw_db (cl_recon w))))"
  using persist_run_spec [OF assms] by blast

section \<open>Feedback to the switch\<close>

lemma match_stream_ok: "match_stream window xs st = Inr st' \<Longrightarrow> \<exists>es. xs = map Inr es"
proof (induction window xs st rule: match_stream.induct)
  case (3 window e xs st)
  then obtain es where "xs = map Inr es" by auto
  then show ?case by (intro exI [of _ "e # es"]) simp
qed simp_all

lemma pending_from_failed:
  assumes "Match order rs ext window = Inr res" and "k \<in> pending_refs (mr_exceptions res)"
  shows "\<exists>r \<in> set rs. r_reference r = k \<and> r_type r = TypeTransfer \<and> (r_status r = StatusFailed \<or> r_status r = StatusTimedOut)"
proof -
  obtain es where ext: "ext = map Inr es"
    using assms(1) match_stream_ok by (fastforce simp: Match_def split: prod.splits sum.splits)
  then have res: "res = reference_match order rs es window" using assms(1) by (simp add: Match_reference)
  obtain x where x: "x \<in> set (mr_exceptions res)" "x_category x = CategoryPendingReversal" "x_reference x = k"
    using assms(2) by (auto simp: pending_refs_def)
  then have "x \<in> set (external_gaps rs window es @ List.map_filter (internal_gap rs es) order)"
    by (simp add: res reference_match_def sortExceptions_def)
  then show ?thesis
  proof (cases rule: gap_forms)
    case (one_side e c)
    then show ?thesis using x(2) by (auto simp: external_only_def)
  next
    case (two_sides e r)
    then show ?thesis using x(2) by (simp add: mismatch_def)
  next
    case (internal r)
    then have "classifyUnmatchedInternal r (reversal_settled rs) = CategoryPendingReversal" "r_reference r = k"
      using x(2,3) by (simp_all add: leftover_def)
    then show ?thesis using latest_Some [OF internal(1)] by (auto simp: classifyUnmatchedInternal_def split: if_splits)
  qed
qed

lemma sendFeedback_spec:
  assumes "sendFeedback env addr res w = (r, w')"
  shows "cl_recon w' = cl_recon w \<and> cl_stdout w' = cl_stdout w"
    and "sane truth (cl_switch w) \<Longrightarrow> follows truth (cl_switch w) (cl_switch w')"
    and "\<exists>rs. only_requeued (w_db (cl_switch w)) rs (w_db (cl_switch w')) \<and> length rs \<le> count_cat CategoryPendingReversal (mr_exceptions res)
      \<and> (\<forall>x \<in> set rs. \<exists>ref \<in> pending_refs (mr_exceptions res). requeues ref (w_db (cl_switch w)) [x])"
proof -
  consider (undialled) "w' = w" | (sent) s f w1 where "feedback_loop (mr_exceptions res) 0 0 w = ((s, f), w1)"
      "cl_switch w' = cl_switch w1" "cl_recon w' = cl_recon w1" "cl_stdout w' = cl_stdout w1"
    using assms by (auto simp: sendFeedback_def print_err_def split: option.splits prod.splits)
  then have "(cl_recon w' = cl_recon w \<and> cl_stdout w' = cl_stdout w) \<and> (sane truth (cl_switch w) \<longrightarrow> follows truth (cl_switch w) (cl_switch w'))
    \<and> (\<exists>rs. only_requeued (w_db (cl_switch w)) rs (w_db (cl_switch w')) \<and> length rs \<le> count_cat CategoryPendingReversal (mr_exceptions res)
      \<and> (\<forall>x \<in> set rs. \<exists>ref \<in> pending_refs (mr_exceptions res). requeues ref (w_db (cl_switch w)) [x]))" for truth
  proof cases
    case undialled
    then show ?thesis using only_requeued_refl follows_refl by fastforce
  next
    case sent
    note fl = feedback_loop_spec [OF sent(1)]
    show ?thesis unfolding sent(2-4) using fl(2,4) fl(5) [of truth] by blast
  qed
  then show "cl_recon w' = cl_recon w \<and> cl_stdout w' = cl_stdout w"
    "sane truth (cl_switch w) \<Longrightarrow> follows truth (cl_switch w) (cl_switch w')"
    "\<exists>rs. only_requeued (w_db (cl_switch w)) rs (w_db (cl_switch w')) \<and> length rs \<le> count_cat CategoryPendingReversal (mr_exceptions res)
      \<and> (\<forall>x \<in> set rs. \<exists>ref \<in> pending_refs (mr_exceptions res). requeues ref (w_db (cl_switch w)) [x])"
    by blast+
qed

text \<open>The stages of a run, with the world each one leaves.\<close>

lemma write_out_cases: "write_out env out w = (r, w') \<Longrightarrow> w' = w \<and> (\<exists>e. r = Inl e) \<or> w' = w\<lparr>cl_stdout := cl_stdout w @ [out]\<rparr> \<and> r = Inr ()"
  by (auto simp: write_out_def split: option.splits)

lemma render_cases:
  assumes "render env rep fmt w = (r, w')"
  shows "w' = w \<and> (\<exists>e. r = Inl e) \<or> w' = w\<lparr>cl_stdout := cl_stdout w @ [if fmt = ''text'' then OutText (Text rep) else OutJSON rep]\<rparr> \<and> r = Inr ()"
  using assms by (auto simp: render_def report_JSON_def dest!: write_out_cases split: if_splits)

lemma persist_run_frame:
  assumes "persist_run env cfg res w = (r, w')"
  shows "cl_switch w' = cl_switch w \<and> cl_stdout w' = cl_stdout w"
  using assms by (auto simp: persist_run_def print_err_def dest!: lift_recon_frame split: option.splits sum.splits prod.splits)

lemma runReconcile_stages:
  assumes "runReconcile env cfg w = (r, w')"
  obtains (stopped) e where "r = Inl e" "w' = w"
  | (printed) res w1 x w2 where "run_inputs env cfg = Inr res"
      "w1 = w\<lparr>cl_stdout := cl_stdout w @ [if cf_format cfg = ''text'' then OutText (Text (NewReport (cf_internal cfg) (cf_external cfg) res))
         else OutJSON (NewReport (cf_internal cfg) (cf_external cfg) res)]\<rparr>"
      "(if cf_switch_addr cfg = [] then (Inr (), w1) else sendFeedback env (cf_switch_addr cfg) res w1) = (x, w2)"
      "case x of Inl e \<Rightarrow> r = Inl e \<and> w' = w2
         | Inr _ \<Rightarrow> (if cf_no_persist cfg then (Inr (), w2) else persist_run env cfg res w2) = (r, w')"
proof (cases "cf_internal cfg = [] \<or> cf_external cfg = []")
  case True
  then show ?thesis using assms stopped by (auto simp: runReconcile_def)
next
  case given: False
  show ?thesis
  proof (cases "run_inputs env cfg")
    case (Inl e)
    then show ?thesis using assms given stopped by (auto simp: runReconcile_def)
  next
    case (Inr res)
    obtain y w1 where rend: "render env (NewReport (cf_internal cfg) (cf_external cfg) res) (cf_format cfg) w = (y, w1)" by force
    obtain x w2 where fb: "(if cf_switch_addr cfg = [] then (Inr (), w1) else sendFeedback env (cf_switch_addr cfg) res w1) = (x, w2)"
      by (metis surj_pair)
    from render_cases [OF rend] show ?thesis
    proof
      assume "w1 = w \<and> (\<exists>e. y = Inl e)"
      then show ?thesis using assms given Inr rend stopped by (auto simp: runReconcile_def)
    next
      assume p: "w1 = w\<lparr>cl_stdout := cl_stdout w @ [if cf_format cfg = ''text'' then OutText (Text (NewReport (cf_internal cfg) (cf_external cfg) res))
         else OutJSON (NewReport (cf_internal cfg) (cf_external cfg) res)]\<rparr> \<and> y = Inr ()"
      have "case x of Inl e \<Rightarrow> r = Inl e \<and> w' = w2
         | Inr _ \<Rightarrow> (if cf_no_persist cfg then (Inr (), w2) else persist_run env cfg res w2) = (r, w')"
        using assms given Inr rend p fb by (cases x) (auto simp: runReconcile_def)
      then show ?thesis using printed [OF Inr _ fb] p by blast
    qed
  qed
qed

lemma run_feedback:
  assumes "runReconcile env cfg w = (r, w')"
  shows "sane truth (cl_switch w) \<Longrightarrow> follows truth (cl_switch w) (cl_switch w')"
    and "\<exists>rs. only_requeued (w_db (cl_switch w)) rs (w_db (cl_switch w'))
      \<and> (\<forall>x \<in> set rs. \<exists>res. run_inputs env cfg = Inr res \<and> (\<exists>ref \<in> pending_refs (mr_exceptions res). requeues ref (w_db (cl_switch w)) [x]))"
proof -
  have "(sane truth (cl_switch w) \<longrightarrow> follows truth (cl_switch w) (cl_switch w'))
    \<and> (\<exists>rs. only_requeued (w_db (cl_switch w)) rs (w_db (cl_switch w'))
      \<and> (\<forall>x \<in> set rs. \<exists>res. run_inputs env cfg = Inr res \<and> (\<exists>ref \<in> pending_refs (mr_exceptions res). requeues ref (w_db (cl_switch w)) [x])))"
    for truth
    using assms
  proof (cases rule: runReconcile_stages)
    case (stopped e)
    then show ?thesis using only_requeued_refl follows_refl by fastforce
  next
    case (printed res w1 x w2)
    have same: "cl_switch w1 = cl_switch w" unfolding printed(2) by simp
    have last: "cl_switch w' = cl_switch w2"
      using printed(4) persist_run_frame by (auto split: sum.splits if_splits)
    show ?thesis
    proof (cases "cf_switch_addr cfg = []")
      case True
      then have "cl_switch w2 = cl_switch w" using printed(3) same by auto
      then show ?thesis unfolding last using only_requeued_refl follows_refl by fastforce
    next
      case False
      then have "sendFeedback env (cf_switch_addr cfg) res w1 = (x, w2)" using printed(3) by simp
      note fb = sendFeedback_spec [OF this]
      show ?thesis unfolding last using fb(2) [of truth] fb(3) printed(1) unfolding same by blast
    qed
  qed
  then show "sane truth (cl_switch w) \<Longrightarrow> follows truth (cl_switch w) (cl_switch w')"
    "\<exists>rs. only_requeued (w_db (cl_switch w)) rs (w_db (cl_switch w'))
      \<and> (\<forall>x \<in> set rs. \<exists>res. run_inputs env cfg = Inr res \<and> (\<exists>ref \<in> pending_refs (mr_exceptions res). requeues ref (w_db (cl_switch w)) [x]))"
    by blast+
qed

text \<open>C36. A reconcile run cannot harm the switch it feeds back to, whatever the inputs report and whatever the
  network and the database do: the switch invariant and the history are kept, no entry is posted, no status
  and no balance changes, and all that is added is \<open>reversal.requested\<close> events, each for a transfer that is in
  \<open>reversal_pending\<close> and whose reference the report lists as a pending reversal.\<close>

theorem feedback_is_safe:
  assumes "runReconcile env cfg w = (r, w')" and "sane truth (cl_switch w)"
  shows "follows truth (cl_switch w) (cl_switch w')
    \<and> entries (w_db (cl_switch w')) = entries (w_db (cl_switch w))
    \<and> transactions (w_db (cl_switch w')) = transactions (w_db (cl_switch w))
    \<and> balances (w_db (cl_switch w')) = balances (w_db (cl_switch w))
    \<and> (\<exists>rs. outbox (w_db (cl_switch w')) = outbox (w_db (cl_switch w)) @ rs
        \<and> (\<forall>x \<in> set rs. o_event_type x = EventReversalRequested
             \<and> (\<exists>t \<in> set (transactions (w_db (cl_switch w))). t_id t = o_aggregate_id x \<and> t_status t = statusReversalPending
                  \<and> (\<exists>res. run_inputs env cfg = Inr res \<and> t_reference t \<in> pending_refs (mr_exceptions res)))))"
proof -
  obtain rs where rs: "only_requeued (w_db (cl_switch w)) rs (w_db (cl_switch w'))"
    "\<forall>x \<in> set rs. \<exists>res. run_inputs env cfg = Inr res \<and> (\<exists>ref \<in> pending_refs (mr_exceptions res). requeues ref (w_db (cl_switch w)) [x])"
    using run_feedback(2) [OF assms(1)] by blast
  have "\<forall>x \<in> set rs. o_event_type x = EventReversalRequested
      \<and> (\<exists>t \<in> set (transactions (w_db (cl_switch w))). t_id t = o_aggregate_id x \<and> t_status t = statusReversalPending
           \<and> (\<exists>res. run_inputs env cfg = Inr res \<and> t_reference t \<in> pending_refs (mr_exceptions res)))"
    using rs(2) unfolding requeues_def by fastforce
  then show ?thesis using only_requeued_frame [OF rs(1)] run_feedback(1) [OF assms] by blast
qed

text \<open>C37. With an export that tells the truth the feedback loop never closes: the matcher calls a transfer a
  pending reversal only if its record says failed or timed out, and the switch re-queues only transfers in
  \<open>reversal_pending\<close>. If the statuses of the internal records are the switch's own, a run re-queues nothing and
  leaves the switch's database as it is.\<close>

theorem truthful_feedback_never_requeues:
  assumes "runReconcile env cfg w = (r, w')"
    and "\<And>internal x t. readInternal env (cf_internal cfg) = Inr internal \<Longrightarrow> x \<in> set internal \<Longrightarrow> r_type x = TypeTransfer
      \<Longrightarrow> t \<in> set (transactions (w_db (cl_switch w))) \<Longrightarrow> lifecycle t \<Longrightarrow> t_reference t = r_reference x \<Longrightarrow> r_status x = t_status t"
  shows "w_db (cl_switch w') = w_db (cl_switch w)"
proof -
  obtain rs where rs: "only_requeued (w_db (cl_switch w)) rs (w_db (cl_switch w'))"
    "\<forall>x \<in> set rs. \<exists>res. run_inputs env cfg = Inr res \<and> (\<exists>ref \<in> pending_refs (mr_exceptions res). requeues ref (w_db (cl_switch w)) [x])"
    using run_feedback(2) [OF assms(1)] by blast
  have "x \<notin> set rs" for x
  proof
    assume "x \<in> set rs"
    then obtain res ref t where res: "run_inputs env cfg = Inr res" "ref \<in> pending_refs (mr_exceptions res)"
      and t: "t \<in> set (transactions (w_db (cl_switch w)))" "lifecycle t" "t_reference t = ref" "t_status t = statusReversalPending"
      using rs(2) unfolding requeues_def by fastforce
    obtain internal external where inp: "readInternal env (cf_internal cfg) = Inr internal"
      "Match (ce_order env internal) internal external (cf_window cfg) = Inr res"
      using res(1) by (auto simp: run_inputs_def split: sum.splits)
    obtain y where y: "y \<in> set internal" "r_reference y = ref" "r_type y = TypeTransfer" "r_status y = StatusFailed \<or> r_status y = StatusTimedOut"
      using pending_from_failed [OF inp(2) res(2)] by blast
    have "r_status y = statusReversalPending" using assms(2) [OF inp(1) y(1,3) t(1,2)] t(3,4) y(2) by simp
    then show False using y(4) by (auto simp: go_const)
  qed
  then have "rs = []" by (cases rs) auto
  then show ?thesis using rs(1) by (simp add: only_requeued_def)
qed

text \<open>C38. The order of a run's effects: a run that prints nothing did nothing at all and failed; what a run
  prints is the report of its inputs, once; and it files a result only after the report was printed and, if
  feedback is on, after every corrective call succeeded. So a failing feedback does keep the run out of the
  archive, which the comment on the feedback step denies.\<close>

theorem run_effects_in_order:
  assumes "runReconcile env cfg w = (r, w')"
  shows "(cl_stdout w' = cl_stdout w \<and> w' = w \<and> (\<exists>e. r = Inl e))
    \<or> (\<exists>res out. run_inputs env cfg = Inr res \<and> cl_stdout w' = cl_stdout w @ [out]
        \<and> out \<in> {OutText (Text (NewReport (cf_internal cfg) (cf_external cfg) res)), OutJSON (NewReport (cf_internal cfg) (cf_external cfg) res)}
        \<and> (cl_recon w' = cl_recon w
            \<or> \<not> cf_no_persist cfg \<and> (\<exists>w1 w2. cl_recon w1 = cl_recon w \<and> persist_run env cfg res w2 = (r, w')
                \<and> (if cf_switch_addr cfg = [] then w2 = w1 else sendFeedback env (cf_switch_addr cfg) res w1 = (Inr (), w2)))))"
  using assms
proof (cases rule: runReconcile_stages)
  case (stopped e)
  then show ?thesis by simp
next
  case (printed res w1 x w2)
  let ?out = "if cf_format cfg = ''text'' then OutText (Text (NewReport (cf_internal cfg) (cf_external cfg) res))
         else OutJSON (NewReport (cf_internal cfg) (cf_external cfg) res)"
  have w1: "cl_recon w1 = cl_recon w" "cl_stdout w1 = cl_stdout w @ [?out]" unfolding printed(2) by simp_all
  have w2: "cl_recon w2 = cl_recon w" "cl_stdout w2 = cl_stdout w @ [?out]"
    using printed(3) sendFeedback_spec(1) [of env "cf_switch_addr cfg" res w1 x w2] w1 by (auto split: if_splits)
  have out: "?out \<in> {OutText (Text (NewReport (cf_internal cfg) (cf_external cfg) res)), OutJSON (NewReport (cf_internal cfg) (cf_external cfg) res)}"
    by simp
  have "cl_stdout w' = cl_stdout w @ [?out]"
    using printed(4) w2 persist_run_frame by (auto split: sum.splits if_splits)
  moreover have "cl_recon w' = cl_recon w
      \<or> \<not> cf_no_persist cfg \<and> persist_run env cfg res w2 = (r, w')
          \<and> (if cf_switch_addr cfg = [] then w2 = w1 else sendFeedback env (cf_switch_addr cfg) res w1 = (Inr (), w2))"
    using printed(3,4) w2 by (auto split: sum.splits if_splits)
  ultimately show ?thesis using printed(1) out w1(1) by blast
qed

section \<open>Where the archive's promise ends\<close>

text \<open>The zero byte between the files does not separate files that contain zero bytes.\<close>

lemma fingerprint_separator_ambiguous:
  assumes "ce_open env1 p = Inr (''a'' @ [CHR 0x00] @ ''b'')" "ce_open env1 q = Inr ''c''"
    and "ce_open env2 p = Inr ''a''" "ce_open env2 q = Inr (''b'' @ [CHR 0x00] @ ''c'')"
  shows "fingerprint_input env1 [p, q] = fingerprint_input env2 [p, q]"
  by (simp add: assms)

text \<open>Two runs of the same files at once: both look before either files, no key of the table stops the
  second, and the fingerprint is filed twice.\<close>

definition demo_recon :: recon_world where
  "demo_recon = \<lparr>rw_db = \<lparr>recon_runs = [], recon_exceptions = []\<rparr>, rw_env = small_env RAIL_STATUS_SUCCESS, rw_tick = 0\<rparr>"

lemma concurrent_runs_file_twice:
  "let (a, w1) = FindByFingerprint ''f'' demo_recon; (b, w2) = FindByFingerprint ''f'' w1;
       (c, w3) = Persist ''i'' ''e'' ''f'' \<lparr>mr_matched = 1, mr_exceptions = []\<rparr> w2;
       (d, w4) = Persist ''i'' ''e'' ''f'' \<lparr>mr_matched = 1, mr_exceptions = []\<rparr> w3
   in a = Inr None \<and> b = Inr None \<and> length (filter (has_fingerprint ''f'') (recon_runs (rw_db w4))) = 2"
  by code_simp

section \<open>Witnesses\<close>

text \<open>An export of one failed transfer, a settlement file without rows, and a switch that agrees.\<close>

definition demo_values :: "ledger_value list" where
  "demo_values = [LvObject [(''reference'', Plain (TokString ''T'')), (''type'', Plain (TokString ''transfer'')), (''status'', Plain (TokString ''failed''))]]"

definition demo_cli :: cli_env where
  "demo_cli = \<lparr>ce_open = (\<lambda>p. Inr (''reference,amount_minor'' @ [CHR 0x0A])), ce_json = (\<lambda>_. demo_values), ce_order = map r_reference,
     ce_sha_hex = (\<lambda>s. ''f''), ce_dial = (\<lambda>_. None), ce_pool = (\<lambda>_. None), ce_write = None\<rparr>"

definition demo_cfg :: config where
  "demo_cfg = \<lparr>cf_internal = ''i'', cf_external = ''e'', cf_ext_format = ''csv'', cf_window = 0, cf_format = ''text'', cf_db_url = ''db'',
     cf_no_persist = False, cf_switch_addr = ''s''\<rparr>"

definition failed_row :: tx_row where
  "failed_row = \<lparr>t_id = 9, t_reference = ''T'', t_type = ''transfer'', t_status = statusFailed, t_idempotency_key = Some ''K'', t_parent = None,
     t_currency = ''NGN'', t_initiated_at = 0, t_settled_at = None, t_metadata = [(''source'', JStr ''CUST:A'')]\<rparr>"

definition demo_cw :: "tx_row list \<Rightarrow> cli_world" where
  "demo_cw ts = \<lparr>cl_switch = (sw_world RAIL_STATUS_SUCCESS)\<lparr>w_db := demo_db\<lparr>transactions := ts\<rparr>\<rparr>,
     cl_recon = \<lparr>rw_db = \<lparr>recon_runs = [], recon_exceptions = []\<rparr>, rw_env = small_env RAIL_STATUS_SUCCESS, rw_tick = 0\<rparr>,
     cl_stdout = [], cl_stderr = []\<rparr>"

definition demo_end :: "tx_row list \<Rightarrow> (err + unit) \<times> cli_world" where
  "demo_end ts = runReconcile demo_cli demo_cfg (demo_cw ts)"

lemma demo_run_ok: "fst (demo_end [failed_row]) = Inr ()" "length (cl_stderr (snd (demo_end [failed_row]))) = 3"
  "length (recon_exceptions (rw_db (cl_recon (snd (demo_end [failed_row]))))) = 1"
  by code_simp+

definition demo_res :: match_result where
  "demo_res = \<lparr>mr_matched = 2, mr_exceptions = []\<rparr>"

lemma persist_refines_archive_witness:
  "archive_of (rw_db (cl_recon (snd (persist_run demo_cli demo_cfg demo_res (demo_cw []))))) ''f'' = Some (archived_result demo_res)"
proof -
  obtain r w' where run: "persist_run demo_cli demo_cfg demo_res (demo_cw []) = (r, w')" by force
  have "fst (persist_run demo_cli demo_cfg demo_res (demo_cw [])) = Inr ()" by code_simp
  then have r: "r = Inr ()" using run by simp
  have inv: "recon_inv (rw_db (cl_recon (demo_cw [])))" by (simp add: demo_cw_def recon_inv_empty)
  have fp: "FileFingerprint demo_cli [cf_internal demo_cfg, cf_external demo_cfg] = Inr ''f''"
    by (simp add: FileFingerprint_def demo_cli_def)
  have empty: "archive_of (rw_db (cl_recon (demo_cw []))) ''f'' = None" by (simp add: demo_cw_def archive_of_def)
  from persist_refines_archive [OF run inv fp] r
  have "archive_of (rw_db (cl_recon w')) = archive_add ''f'' (archived_result demo_res) (archive_of (rw_db (cl_recon (demo_cw []))))" by simp
  then show ?thesis unfolding run by (simp add: archive_add_def empty)
qed

lemma feedback_is_safe_witness: "entries (w_db (cl_switch (snd (demo_end [])))) = []"
proof -
  obtain r w' where run: "runReconcile demo_cli demo_cfg (demo_cw []) = (r, w')" by force
  have sw: "cl_switch (demo_cw []) = sw_world RAIL_STATUS_SUCCESS" by (simp add: demo_cw_def sw_world_def world_of_def demo_db_def)
  have "sane (\<lambda>_. RAIL_STATUS_SUCCESS) (cl_switch (demo_cw []))" unfolding sw by (rule sw_world_sane) simp
  from feedback_is_safe [OF run this] have "entries (w_db (cl_switch w')) = entries (w_db (cl_switch (demo_cw [])))" by blast
  then show ?thesis unfolding demo_end_def run by (simp add: demo_cw_def demo_db_def)
qed

lemma truthful_feedback_never_requeues_witness:
  "w_db (cl_switch (snd (demo_end [failed_row]))) = demo_db\<lparr>transactions := [failed_row]\<rparr>"
proof -
  obtain r w' where run: "runReconcile demo_cli demo_cfg (demo_cw [failed_row]) = (r, w')" by force
  have "(case readInternal demo_cli ''i'' of Inr xs \<Rightarrow> list_all (\<lambda>x. r_status x = statusFailed) xs | Inl _ \<Rightarrow> False)" by code_simp
  then have failed: "r_status x = statusFailed" if "readInternal demo_cli ''i'' = Inr internal" "x \<in> set internal" for internal x
    using that by (simp add: list_all_iff)
  have "w_db (cl_switch w') = w_db (cl_switch (demo_cw [failed_row]))"
    by (rule truthful_feedback_never_requeues [OF run]) (auto simp: demo_cfg_def demo_cw_def failed_row_def dest: failed)
  then show ?thesis unfolding demo_end_def run by (simp add: demo_cw_def)
qed

lemma run_effects_in_order_witness: "\<exists>out. cl_stdout (snd (demo_end [failed_row])) = [out]"
proof -
  obtain r w' where run: "runReconcile demo_cli demo_cfg (demo_cw [failed_row]) = (r, w')" by force
  have "r = Inr ()" using demo_run_ok(1) run by (simp add: demo_end_def)
  with run_effects_in_order [OF run] have "\<exists>out. cl_stdout w' = cl_stdout (demo_cw [failed_row]) @ [out]" by blast
  moreover have "cl_stdout (demo_cw [failed_row]) = []" by (simp add: demo_cw_def)
  ultimately show ?thesis by (simp add: demo_end_def run)
qed

end
