(* ===== verification/HealthyPost.thy ===== *)
theory HealthyPost
  imports SwitchLegs LedgerBalance
begin

text \<open>
  A healthy environment (no faults, identifiers that do not repeat, a clock that does not go back) and
  what it gives a leg post: an answer, unless the ledger has a reason to refuse the leg for good.
\<close>

section \<open>Healthy environments\<close>

text \<open>The rail may leave a call undecided but does not fail it otherwise.\<close>

definition healthy_env :: "env \<Rightarrow> bool" where
  "healthy_env ev \<longleftrightarrow> e_fault ev = NoFault \<and> e_rpc ev = RpcOk
     \<and> (\<forall>ref e. e_rail ev ref = Inl e \<longrightarrow> isIndeterminate e)"

definition used_ids :: "db \<Rightarrow> uuid set" where
  "used_ids d = t_id ` set (transactions d) \<union> e_id ` set (entries d)"

text \<open>From now on: no fault, the three identifiers a leg post draws are new, time does not go back.\<close>

definition healthy :: "world \<Rightarrow> bool" where
  "healthy w \<longleftrightarrow>
     (\<forall>n \<ge> w_tick w. healthy_env (w_env w n)
        \<and> (\<forall>k < 3. e_uuid (w_env w n) k \<notin> used_ids (w_db w))
        \<and> (\<forall>m \<ge> w_tick w. \<forall>k < 3. \<forall>l < 3. e_uuid (w_env w m) k = e_uuid (w_env w n) l \<longrightarrow> m = n \<and> k = l)
        \<and> (\<forall>m \<ge> n. e_now (w_env w n) \<le> e_now (w_env w m)))"

lemma healthyD:
  assumes "healthy w"
  shows "e_fault (w_env w (w_tick w)) = NoFault" "e_fault (w_env w (Suc (w_tick w))) = NoFault"
    "e_rpc (w_env w (w_tick w)) = RpcOk"
    "e_rail (w_env w (w_tick w)) ref = Inl e \<Longrightarrow> isIndeterminate e"
    "k < 3 \<Longrightarrow> e_uuid (w_env w (w_tick w)) k \<notin> used_ids (w_db w)"
    "k < 3 \<Longrightarrow> l < 3 \<Longrightarrow> e_uuid (w_env w (w_tick w)) k = e_uuid (w_env w (w_tick w)) l \<Longrightarrow> k = l"
    "w_tick w \<le> n \<Longrightarrow> n \<le> m \<Longrightarrow> e_now (w_env w n) \<le> e_now (w_env w m)"
  using assms unfolding healthy_def healthy_env_def by (blast, auto)

text \<open>What any number of calls does to the script: it is read further, and new identifiers are draws.\<close>

definition ticked :: "world \<Rightarrow> world \<Rightarrow> bool" where
  "ticked w w' \<longleftrightarrow> w_env w' = w_env w \<and> w_codec w' = w_codec w \<and> w_tick w \<le> w_tick w'
     \<and> used_ids (w_db w') \<subseteq> used_ids (w_db w)
          \<union> {e_uuid (w_env w m) k | m k. w_tick w \<le> m \<and> m < w_tick w' \<and> k < 3}"

lemma ticked_refl [simp]: "ticked w w"
  by (auto simp: ticked_def)

lemma ticked_trans:
  assumes "ticked w1 w2" "ticked w2 w3"
  shows "ticked w1 w3"
proof -
  let ?D = "\<lambda>a b. {e_uuid (w_env w1 m) k | m k. a \<le> m \<and> m < b \<and> k < 3}"
  have le: "w_tick w1 \<le> w_tick w2" "w_tick w2 \<le> w_tick w3" using assms by (auto simp: ticked_def)
  have sub: "?D (w_tick w1) (w_tick w2) \<subseteq> ?D (w_tick w1) (w_tick w3)" "?D (w_tick w2) (w_tick w3) \<subseteq> ?D (w_tick w1) (w_tick w3)"
    using le by (blast intro: order_less_le_trans order_trans)+
  then show ?thesis using assms unfolding ticked_def by (auto dest!: subsetD)
qed

lemma ticked_same_ids:
  "w_env w' = w_env w \<Longrightarrow> w_codec w' = w_codec w \<Longrightarrow> w_tick w \<le> w_tick w' \<Longrightarrow> used_ids (w_db w') \<subseteq> used_ids (w_db w) \<Longrightarrow>
   ticked w w'"
  by (auto simp: ticked_def)

lemma healthy_ticked: "healthy w \<Longrightarrow> ticked w w' \<Longrightarrow> healthy w'"
proof -
  assume h: "healthy w" and t: "ticked w w'"
  then have le: "w_tick w \<le> w_tick w'" and env: "w_env w' = w_env w"
    and ids: "used_ids (w_db w') \<subseteq> used_ids (w_db w)
          \<union> {e_uuid (w_env w m) k | m k. w_tick w \<le> m \<and> m < w_tick w' \<and> k < 3}"
    by (auto simp: ticked_def)
  have "e_uuid (w_env w n) k \<notin> used_ids (w_db w')" if n: "w_tick w' \<le> n" "k < 3" for n k
  proof
    assume "e_uuid (w_env w n) k \<in> used_ids (w_db w')"
    then consider "e_uuid (w_env w n) k \<in> used_ids (w_db w)"
      | m l where "e_uuid (w_env w n) k = e_uuid (w_env w m) l" "w_tick w \<le> m" "m < w_tick w'" "l < 3"
      using ids by blast
    then show False
    proof cases
      case 1
      then show False using h n le by (meson healthy_def order_trans)
    next
      case 2
      have "w_tick w \<le> n" using le n(1) by linarith
      then have "m = n" using h 2 n(2) unfolding healthy_def by metis
      then show False using 2(3) n(1) by simp
    qed
  qed
  then show ?thesis using h le unfolding healthy_def env by (meson order_trans)
qed

section \<open>A posting that nothing stops\<close>

lemma insert_entries_ok:
  "(\<And>e. e \<in> set es \<Longrightarrow> char3 (ei_currency e) \<noteq> None \<and> (ei_direction e = Debit \<or> ei_direction e = Credit)
      \<and> 0 < sint (ei_amount e) \<and> account_id_of accs (ei_account_code e) \<in> a_id ` set (accounts d)) \<Longrightarrow>
   i \<in> t_id ` set (transactions d) \<Longrightarrow>
   (\<And>k. n \<le> k \<Longrightarrow> k < n + length es \<Longrightarrow> e_uuid ev k \<notin> e_id ` set (entries d)) \<Longrightarrow>
   (\<And>k l. n \<le> k \<Longrightarrow> k < l \<Longrightarrow> l < n + length es \<Longrightarrow> e_uuid ev k \<noteq> e_uuid ev l) \<Longrightarrow>
   \<exists>d'. insert_entries n i accs es ev d = Inr ((), d')"
proof (induction es arbitrary: n d)
  case (Cons e es)
  have e: "char3 (ei_currency e) \<noteq> None" "ei_direction e = Debit \<or> ei_direction e = Credit" "0 < sint (ei_amount e)"
    "account_id_of accs (ei_account_code e) \<in> a_id ` set (accounts d)" "e_uuid ev n \<notin> e_id ` set (entries d)"
    using Cons.prems(1,3) by auto
  obtain cur where cur: "char3 (ei_currency e) = Some cur" using e(1) by blast
  define x where "x = \<lparr>e_id = e_uuid ev n, e_transaction_id = i, e_account_id = account_id_of accs (ei_account_code e),
    e_direction = ei_direction e, e_amount_minor = ei_amount e, e_currency = cur, e_created_at = e_now ev\<rparr>"
  define d1 where d1: "d1 = d\<lparr>entries := entries d @ [x]\<rparr>"
  have ex: "e_id x = e_uuid ev n" by (simp add: x_def)
  have refs: "list_ex (\<lambda>t. t_id t = i) (transactions d)"
    "list_ex (\<lambda>a. a_id a = account_id_of accs (ei_account_code e)) (accounts d)"
    "\<not> list_ex (\<lambda>y. e_id y = e_uuid ev n) (entries d)"
    using e(4,5) Cons.prems(2) by (auto simp: list_ex_iff) (metis imageI)
  have x: "InsertEntry n i (account_id_of accs (ei_account_code e)) (ei_direction e) (ei_amount e) (ei_currency e) ev d = Inr (x, d1)"
    using e(2,3) refs by (auto simp: InsertEntry_def Let_def check_direction_def cur x_def d1)
  have "\<exists>d'. insert_entries (Suc n) i accs es ev d1 = Inr ((), d')"
  proof (rule Cons.IH)
    show "e_uuid ev k \<notin> e_id ` set (entries d1)" if "Suc n \<le> k" "k < Suc n + length es" for k
      using Cons.prems(3) [of k] Cons.prems(4) [of n k] that by (auto simp: d1 ex)
  qed (use Cons.prems in \<open>auto simp: d1\<close>)
  then show ?case using x by simp
qed simp

lemma updateCachedBalances_ok:
  "(\<And>a. a \<in> snd ` set accs \<Longrightarrow> a \<in> set (accounts d) \<and> char3 (a_currency a) \<noteq> None \<and> sums_fit d a) \<Longrightarrow>
   \<exists>d'. updateCachedBalances accs ev d = Inr ((), d')"
proof (induction accs arbitrary: d)
  case (Cons p accs)
  obtain c a where p: "p = (c, a)" by force
  then have a: "a \<in> set (accounts d)" "char3 (a_currency a) \<noteq> None" "sums_fit d a" using Cons.prems by auto
  obtain dm cm where s: "SumEntriesByAccount (a_id a) ev d = Inr ((dm, cm), d)"
    using a(3) by (auto simp: SumEntriesByAccount_def sums_fit_def cast_bigint_def)
  obtain cur where cur: "char3 (a_currency a) = Some cur" using a(2) by blast
  have "list_ex (\<lambda>b. a_id b = a_id a) (accounts d)" using a(1) by (auto simp: list_ex_iff)
  then have "\<exists>bal. UpsertCachedBalance (a_id a) (DeriveBalance (a_type a) dm cm) (a_currency a) ev d = Inr ((), d\<lparr>balances := bal\<rparr>)"
    by (auto simp: UpsertCachedBalance_def cur)
  then obtain bal d2 where u: "UpsertCachedBalance (a_id a) (DeriveBalance (a_type a) dm cm) (a_currency a) ev d = Inr ((), d2)"
    and d2: "d2 = d\<lparr>balances := bal\<rparr>" by blast
  have "\<exists>d'. updateCachedBalances accs ev d2 = Inr ((), d')"
    by (rule Cons.IH) (use Cons.prems p in \<open>auto simp: d2 sums_fit_def\<close>)
  then show ?case using s u by (simp add: p)
qed simp

text \<open>The columns of the schema: a stored currency is three characters.\<close>

definition char3_columns :: "db \<Rightarrow> bool" where
  "char3_columns d \<longleftrightarrow> (\<forall>a \<in> set (accounts d). length (a_currency a) = 3)"

lemma dir_sum_filter_le:
  "(\<And>e. e \<in> set es \<Longrightarrow> 0 \<le> entry_amount e) \<Longrightarrow> dir_sum x (filter P es) \<le> dir_sum x es"
  by (induction es) (auto intro: add_increasing)

text \<open>Every sum of a balanced journal is bounded by the total of its debits.\<close>

lemma sums_fit_total:
  assumes pos: "positive_entries d" and bal: "dir_sum Credit (entries d) = dir_sum Debit (entries d)"
    and room: "dir_sum Debit (entries d) < 2 ^ 63"
  shows "sums_fit d a"
proof -
  have p: "0 \<le> entry_amount e" if "e \<in> set (entries d)" for e
    using pos that by (auto simp: positive_entries_def intro: less_imp_le)
  have "dir_sum x (account_entries (a_id a) (entries d)) \<le> dir_sum x (entries d)" for x
    unfolding account_entries_def by (rule dir_sum_filter_le) (rule p)
  from this [of Debit] this [of Credit] show ?thesis
    using dir_sum_account_nonneg [OF pos, of Debit "a_id a"] dir_sum_account_nonneg [OF pos, of Credit "a_id a"] bal room
    by (simp add: sums_fit_def in_i64_def)
qed


text \<open>The two entries of a leg, and what they do to the sums.\<close>

lemma leg_entries:
  assumes "list_all2 (entry_posts i accs) (pr_entries (leg_post c t dr cr key ty parent)) added"
  obtains e1 e2 where "added = [e1, e2]" "e_direction e1 = Debit" "e_direction e2 = Credit"
    "e_amount_minor e1 = tf_amount t" "e_amount_minor e2 = tf_amount t" "e_currency e1 = e_currency e2"
    "e_transaction_id e1 = i" "e_transaction_id e2 = i"
  using assms by (auto simp: list_all2_Cons1 entry_posts_def)

lemma leg_balances:
  assumes "e_direction e1 = Debit" "e_direction e2 = Credit" "e_amount_minor e1 = e_amount_minor e2"
    "e_currency e1 = e_currency e2"
  shows "currency_balanced [e1, e2]"
  using assms by (simp add: currency_balanced_def entry_amount_def)

definition parent_free :: "db \<Rightarrow> string \<Rightarrow> uuid option \<Rightarrow> bool" where
  "parent_free d ty parent \<longleftrightarrow> (\<forall>p. parent = Some p \<longrightarrow> p \<in> t_id ` set (transactions d)
     \<and> (ty = ''reversal'' \<longrightarrow> (\<forall>u \<in> set (transactions d). t_type u = ''reversal'' \<longrightarrow> t_parent u \<noteq> Some p)))"

lemma leg_post_body_ok:
  assumes inv: "ledger_inv d" and cols: "char3_columns d" and lp: "leg_possible d t dr cr"
    and cur: "length (tf_currency t) = 3" and free: "find_tx_by_key key d = None" and key: "key \<noteq> []"
    and ty: "check_tx_type ty" and par: "parent_free d ty parent"
    and fresh: "\<And>k. k < 3 \<Longrightarrow> e_uuid ev k \<notin> used_ids d"
    and inj: "\<And>k l. k < 3 \<Longrightarrow> l < 3 \<Longrightarrow> e_uuid ev k = e_uuid ev l \<Longrightarrow> k = l"
    and room: "dir_sum Debit (entries d) + sint (tf_amount t) < 2 ^ 63"
  shows "\<exists>i d'. post_body (leg_post c t dr cr key ty parent) ev d = Inr (i, d') \<and> commit_triggers d d' = None"
proof -
  let ?req = "leg_post c t dr cr key ty parent"
  have amt: "0 < sint (tf_amount t)" using lp by (simp add: leg_possible_def)
  have "find_account (ei_account_code e) d \<noteq> None" if "e \<in> set (pr_entries ?req)" for e
    using that lp by (auto simp: leg_possible_def)
  from resolveAccounts_known [OF this, of _ "[]" ev]
  obtain accs where r: "resolveAccounts [] (pr_entries ?req) ev d = Inr (accs, d)" by blast
  have res: "resolved d accs" and known: "\<forall>e \<in> set (pr_entries ?req). map_of accs (ei_account_code e) \<noteq> None"
    using resolveAccounts_Inr [OF r] by (auto simp: resolved_def)
  have accts: "snd ` set accs \<subseteq> set (accounts d)" by (rule resolved_accounts [OF res])
  define u where "u = \<lparr>t_id = e_uuid ev 0, t_reference = pr_reference ?req, t_type = ty, t_status = StatusSettled,
    t_idempotency_key = Some key, t_parent = parent, t_currency = tf_currency t, t_initiated_at = e_now ev,
    t_settled_at = None, t_metadata = []\<rparr>"
  let ?d2 = "d\<lparr>transactions := transactions d @ [u]\<rparr>"
  have clash: "\<not> tx_clash u v" if "v \<in> set (transactions d)" for v
  proof -
    have "e_uuid ev 0 \<noteq> t_id v" using fresh [of 0] that by (auto simp: used_ids_def)
    moreover have "t_idempotency_key v \<noteq> Some key"
      using free that by (simp add: find_tx_by_key_def find_None_all)
    moreover have "\<not> (ty = ''reversal'' \<and> t_type v = ''reversal'' \<and> parent = t_parent v \<and> parent \<noteq> None)"
      using par that by (cases parent) (auto simp: parent_free_def)
    ultimately show ?thesis by (auto simp: tx_clash_def u_def)
  qed
  have fields: "post_params ?req = \<lparr>it_reference = pr_reference ?req, it_type = ty, it_status = StatusSettled,
     it_idempotency_key = Some key, it_parent = parent, it_currency = tf_currency t, it_metadata = []\<rparr>"
    using key by (simp add: post_params_def leg_post_def post_from_proto_def leg_request_def marshalMetadata_def go_const
        entry_from_proto_def)
  have fk: "\<not> (case parent of None \<Rightarrow> False | Some p \<Rightarrow> \<not> list_ex (\<lambda>x. t_id x = p) (transactions d @ [u]))"
    using par by (auto simp: parent_free_def list_ex_iff split: option.split)
  have "insert_tx_row u ev d = Inr (u, ?d2)"
    using ty clash fk by (auto simp: insert_tx_row_def u_def list_ex_iff check_tx_status_def go_const split: option.split)
  then have t: "InsertTransaction 0 (post_params ?req) ev d = Inr (u, ?d2)"
    unfolding fields by (simp add: InsertTransaction_def char3_exact cur u_def)
  have "\<exists>d3. insert_entries 1 (t_id u) accs (pr_entries ?req) ev ?d2 = Inr ((), d3)"
  proof (rule insert_entries_ok)
    fix e
    assume e: "e \<in> set (pr_entries ?req)"
    then have "account_id_of accs (ei_account_code e) \<in> a_id ` snd ` set accs"
      using known account_id_of_mem by blast
    then have "account_id_of accs (ei_account_code e) \<in> a_id ` set (accounts ?d2)" using accts by auto
    then show "char3 (ei_currency e) \<noteq> None \<and> (ei_direction e = Debit \<or> ei_direction e = Credit) \<and> 0 < sint (ei_amount e)
        \<and> account_id_of accs (ei_account_code e) \<in> a_id ` set (accounts ?d2)"
      using e amt cur by (auto simp: char3_exact)
  next
    show "e_uuid ev k \<notin> e_id ` set (entries ?d2)" if "1 \<le> k" "k < 1 + length (pr_entries ?req)" for k
      using fresh [of k] that by (simp add: used_ids_def)
    show "e_uuid ev k \<noteq> e_uuid ev l" if "1 \<le> k" "k < l" "l < 1 + length (pr_entries ?req)" for k l
      using inj [of k l] that by auto
  qed simp
  then obtain d3 where e: "insert_entries 1 (t_id u) accs (pr_entries ?req) ev ?d2 = Inr ((), d3)" by blast
  from insert_entries_Inr [OF e] obtain added where d3: "d3 = ?d2\<lparr>entries := entries d @ added\<rparr>"
    and l2: "list_all2 (entry_posts (t_id u) accs) (pr_entries ?req) added" and wf: "\<forall>x \<in> set added. entry_wf ?d2 x"
    by auto
  obtain e1 e2 where ad: "added = [e1, e2]" "e_direction e1 = Debit" "e_direction e2 = Credit"
    "e_amount_minor e1 = tf_amount t" "e_amount_minor e2 = tf_amount t" "e_currency e1 = e_currency e2"
    "e_transaction_id e1 = t_id u" "e_transaction_id e2 = t_id u"
    by (rule leg_entries [OF l2])
  have pos: "positive_entries d3"
    using ledger_invD(6) [OF inv] wf by (auto simp: d3 positive_entries_def entry_wf_def)
  have fit: "sums_fit d3 a" for a
  proof (rule sums_fit_total [OF pos])
    show "dir_sum Credit (entries d3) = dir_sum Debit (entries d3)"
      using journal_conservation [OF ledger_invD(4) [OF inv]] ad by (simp add: d3 entry_amount_def)
    show "dir_sum Debit (entries d3) < 2 ^ 63" using room ad by (simp add: d3 entry_amount_def)
  qed
  have "\<exists>d4. updateCachedBalances accs ev d3 = Inr ((), d4)"
    by (rule updateCachedBalances_ok) (use accts cols fit in \<open>auto simp: d3 char3_columns_def char3_exact\<close>)
  then obtain d4 where b: "updateCachedBalances accs ev d3 = Inr ((), d4)" by blast
  have body: "post_body ?req ev d = Inr (t_id u, d4)" using r t e b by (simp add: post_body_def)
  have p: "entries d4 = entries d @ added"
  proof -
    have "inj_on a_id (snd ` set accs)" by (rule resolved_inj [OF ledger_invD(1) [OF inv] res])
    from updateCachedBalances_Inr [OF b pos this] show ?thesis by (auto simp: d3)
  qed
  have "t_id u \<notin> t_id ` set (transactions d)" using fresh [of 0] by (auto simp: u_def used_ids_def)
  then have "tx_entries (t_id u) (entries d4) = added"
    using tx_entries_fresh [OF inv] ad by (simp add: p tx_entries_def)
  then have "commit_triggers d d4 = None"
    using leg_balances [OF ad(2,3) _ ad(6)] ad by (simp add: commit_triggers_def p)
  then show ?thesis using body by blast
qed

lemma insert_entries_ids:
  "insert_entries n i accs es ev d = Inr (u, d') \<Longrightarrow>
   e_id ` set (entries d') \<subseteq> e_id ` set (entries d) \<union> e_uuid ev ` {n..<n + length es} \<and> transactions d' = transactions d"
proof (induction es arbitrary: n d)
  case (Cons e es)
  from Cons.prems obtain x d1 where x: "InsertEntry n i (account_id_of accs (ei_account_code e)) (ei_direction e) (ei_amount e) (ei_currency e) ev d = Inr (x, d1)"
    and rest: "insert_entries (Suc n) i accs es ev d1 = Inr (u, d')"
    by (auto split: sum.splits)
  have "e_id x = e_uuid ev n" "d1 = d\<lparr>entries := entries d @ [x]\<rparr>"
    using x by (auto simp: InsertEntry_def Let_def split: option.splits if_splits)
  moreover have "{n..<n + length (e # es)} = insert n {Suc n..<Suc n + length es}" by auto
  ultimately show ?case using Cons.IH [OF rest] by auto
qed simp

lemma updateCachedBalances_rows:
  "updateCachedBalances accs ev d = Inr (u, d') \<Longrightarrow> entries d' = entries d \<and> transactions d' = transactions d"
proof (induction accs arbitrary: d)
  case (Cons p accs)
  obtain c a where p: "p = (c, a)" by force
  from Cons.prems p obtain dm cm d1 x d2 where
    s: "SumEntriesByAccount (a_id a) ev d = Inr ((dm, cm), d1)" and
    up: "UpsertCachedBalance (a_id a) (DeriveBalance (a_type a) dm cm) (a_currency a) ev d1 = Inr (x, d2)" and
    rest: "updateCachedBalances accs ev d2 = Inr (u, d')"
    by (auto split: sum.splits)
  have "entries d2 = entries d \<and> transactions d2 = transactions d"
    using SumEntriesByAccount_Inr(1) [OF s] by (auto intro: UpsertCachedBalance_Inr [OF up])
  then show ?case using Cons.IH [OF rest] by simp
qed simp

lemma leg_post_body_ids:
  assumes "post_body (leg_post c t dr cr key ty parent) ev d = Inr (i, d')"
  shows "used_ids d' \<subseteq> used_ids d \<union> e_uuid ev ` {..<3}"
proof -
  from assms obtain accs d1 u d2 x d3 y where
    r: "resolveAccounts [] (pr_entries (leg_post c t dr cr key ty parent)) ev d = Inr (accs, d1)" and
    t: "InsertTransaction 0 (post_params (leg_post c t dr cr key ty parent)) ev d1 = Inr (u, d2)" and
    e: "insert_entries 1 (t_id u) accs (pr_entries (leg_post c t dr cr key ty parent)) ev d2 = Inr (x, d3)" and
    b: "updateCachedBalances accs ev d3 = Inr (y, d')"
    by (auto simp: post_body_def split: sum.splits prod.splits)
  have "d1 = d" using resolveAccounts_Inr [OF r] by (simp add: resolved_def)
  moreover have "e_id ` set (entries d3) \<subseteq> e_id ` set (entries d2) \<union> e_uuid ev ` {1..<3}"
    using insert_entries_ids [OF e] by (simp add: numeral_3_eq_3)
  moreover have "transactions d3 = transactions d2" using insert_entries_ids [OF e] by simp
  moreover have "e_uuid ev ` {1..<3} \<subseteq> e_uuid ev ` {..<3}" by (intro image_mono) auto
  moreover have "e_uuid ev 0 \<in> e_uuid ev ` {..<3}" by simp
  ultimately show ?thesis
    using InsertTransaction_Inr(1,2) [OF t] updateCachedBalances_rows [OF b] unfolding used_ids_def by auto
qed


section \<open>Leg posts in a healthy world\<close>

definition leg_room :: "db \<Rightarrow> transfer \<Rightarrow> bool" where
  "leg_room d t \<longleftrightarrow> dir_sum Debit (entries d) + sint (tf_amount t) < 2 ^ 63"

lemma leg_postable:
  assumes lp: "leg_possible d t dr cr" and cur: "length (tf_currency t) = 3" and ty: "check_tx_type ty"
  shows "postable (leg_post c t dr cr key ty parent) d"
proof -
  have "validate (leg_post c t dr cr key ty parent) = None"
    using lp by (simp add: leg_possible_def leg_post_validate)
  moreover have "pr_type (leg_post c t dr cr key ty parent) = ty"
    by (simp add: leg_post_def post_from_proto_def leg_request_def)
  ultimately show ?thesis
    using lp cur ty by (auto simp: postable_def leg_possible_def char3_exact post_params_def check_tx_status_def go_const)
qed

text \<open>Fresh or repeated, a leg that is possible is answered with an id.\<close>

lemma PostTransaction_leg_healthy:
  assumes h: "healthy w" and inv: "ledger_inv (w_db w)" and cols: "char3_columns (w_db w)"
    and lp: "leg_possible (w_db w) t dr cr" and cur: "length (tf_currency t) = 3" and key: "key \<noteq> []"
    and ty: "check_tx_type ty"
    and new: "find_tx_by_key key (w_db w) = None \<Longrightarrow> parent_free (w_db w) ty parent \<and> leg_room (w_db w) t"
  shows "\<exists>i w'. PostTransaction (leg_post c t dr cr key ty parent) w = (Inr i, w') \<and> ticked w w'"
proof (cases "find_tx_by_key key (w_db w)")
  case (Some u)
  have "PostTransaction (leg_post c t dr cr key ty parent) w = (Inr (t_id u), w\<lparr>w_tick := w_tick w + 2\<rparr>)"
    by (rule PostTransaction_repost_ok [OF leg_postable [OF lp cur ty]])
      (use Some key healthyD(1,2) [OF h] in simp_all)
  then show ?thesis by (auto intro!: ticked_same_ids)
next
  case None
  let ?req = "leg_post c t dr cr key ty parent" and ?ev = "w_env w (w_tick w)"
  have v: "validate ?req = None" using lp by (simp add: leg_possible_def leg_post_validate)
  note n = new [OF None, unfolded leg_room_def]
  have "\<exists>i d'. post_body ?req ?ev (w_db w) = Inr (i, d') \<and> commit_triggers (w_db w) d' = None"
    by (rule leg_post_body_ok [OF inv cols lp cur None key ty conjunct1 [OF n] healthyD(5,6) [OF h] conjunct2 [OF n]])
  then obtain i d' where b: "post_body ?req ?ev (w_db w) = Inr (i, d')" "commit_triggers (w_db w) d' = None" by blast
  have "PostTransaction ?req w = (Inr i, w\<lparr>w_tick := Suc (w_tick w), w_db := d'\<rparr>)"
    by (rule PostTransaction_ok [OF v]) (rule tx_outcome_no_fault(1) [where f = "post_body ?req" and triggers = commit_triggers, OF healthyD(1) [OF h] b])
  moreover have "used_ids d' \<subseteq> used_ids (w_db w) \<union> {e_uuid (w_env w m) k | m k. w_tick w \<le> m \<and> m < Suc (w_tick w) \<and> k < 3}"
    using leg_post_body_ids [OF b(1)] by fastforce
  ultimately show ?thesis by (auto simp: ticked_def)
qed

text \<open>A leg that is not possible is refused for good.\<close>

lemma PostTransaction_leg_refused:
  assumes h: "healthy w" and no: "\<not> leg_possible (w_db w) t dr cr"
  shows "\<exists>e w'. PostTransaction (leg_post c t dr cr key ty parent) w = (Inl e, w')
    \<and> isTerminalLedgerError (postErrToStatus e) \<and> ticked w w'"
proof (cases "validate (leg_post c t dr cr key ty parent)")
  case (Some e)
  have "isTerminalLedgerError (postErrToStatus e)"
    using postErrToStatus_validation [OF Some] by (simp add: isTerminalLedgerError_def)
  then show ?thesis using Some by (simp add: PostTransaction_def)
next
  case None
  then have "0 < sint (tf_amount t)" by (simp add: validate_None_iff)
  then have "\<exists>e \<in> set (pr_entries (leg_post c t dr cr key ty parent)). find_account (ei_account_code e) (w_db w) = None"
    using no by (auto simp: leg_possible_def)
  then obtain e where e: "e \<in> set (pr_entries (leg_post c t dr cr key ty parent))"
    "find_account (ei_account_code e) (w_db w) = None" by blast
  obtain er where "PostTransaction (leg_post c t dr cr key ty parent) w = (Inl er, w\<lparr>w_tick := Suc (w_tick w)\<rparr>)"
    "errors_is er ErrUnknownAccount"
    using PostTransaction_unknown [OF None e healthyD(1) [OF h]] by blast
  then show ?thesis by (auto simp: postErrToStatus_def isTerminalLedgerError_def intro!: ticked_same_ids)
qed

text \<open>The same through the switch's ledger client.\<close>

lemma client_post_healthy:
  assumes h: "healthy w" and ok: "codec_ok (w_codec w)" "codec_nonempty (w_codec w)"
  shows "\<lbrakk>ledger_inv (w_db w); char3_columns (w_db w); leg_possible (w_db w) t dr cr; length (tf_currency t) = 3; key \<noteq> [];
      check_tx_type ty; find_tx_by_key key (w_db w) = None \<Longrightarrow> parent_free (w_db w) ty parent \<and> leg_room (w_db w) t\<rbrakk> \<Longrightarrow>
      \<exists>i w'. client_post t dr cr key ty parent w = (Inr i, w') \<and> ticked w w'"
    and "\<not> leg_possible (w_db w) t dr cr \<Longrightarrow>
      \<exists>e w'. client_post t dr cr key ty parent w = (Inl e, w') \<and> isTerminalLedgerError e \<and> ticked w w'"
proof -
  let ?w1 = "w\<lparr>w_tick := Suc (w_tick w)\<rparr>" and ?c = "w_codec w"
  have t1: "ticked w ?w1" by (rule ticked_same_ids) simp_all
  note h1 = healthy_ticked [OF h t1]
  have run: "client_post t dr cr key ty parent w =
    (case PostTransaction (leg_post ?c t dr cr key ty parent) ?w1 of
       (Inl e, w1) \<Rightarrow> (Inl (Wrap (''ledger post '' @ dr @ ''->'' @ cr @ '': '') (postErrToStatus e) []), w1)
     | (Inr i, w1) \<Rightarrow> (case uuid_Parse ?c (uuid_String ?c i) of
         None \<Rightarrow> (Inl (Wrap (''parse ledger tx id '' @ uuid_String ?c i @ '': '') (ErrMsg ''invalid UUID'') []), w1)
       | Some j \<Rightarrow> (Inr j, w1)))"
    using grpc_leg_post [of ?w1 ?c t dr cr key ty parent] ok healthyD(3) [OF h]
    by (simp add: client_post_def rpc_def take_env_def split: sum.split prod.split)
  show "\<exists>i w'. client_post t dr cr key ty parent w = (Inr i, w') \<and> ticked w w'"
    if "ledger_inv (w_db w)" "char3_columns (w_db w)" "leg_possible (w_db w) t dr cr" "length (tf_currency t) = 3" "key \<noteq> []"
      "check_tx_type ty" "find_tx_by_key key (w_db w) = None \<Longrightarrow> parent_free (w_db w) ty parent \<and> leg_room (w_db w) t"
  proof -
    have "\<exists>i w'. PostTransaction (leg_post ?c t dr cr key ty parent) ?w1 = (Inr i, w') \<and> ticked ?w1 w'"
      by (rule PostTransaction_leg_healthy [OF h1]) (use that in simp_all)
    then obtain i w' where p: "PostTransaction (leg_post ?c t dr cr key ty parent) ?w1 = (Inr i, w')" "ticked ?w1 w'" by blast
    show ?thesis using run p ticked_trans [OF t1] codec_parse [OF ok(1)] by simp
  qed
  show "\<exists>e w'. client_post t dr cr key ty parent w = (Inl e, w') \<and> isTerminalLedgerError e \<and> ticked w w'"
    if no: "\<not> leg_possible (w_db w) t dr cr"
  proof -
    obtain e w' where p: "PostTransaction (leg_post ?c t dr cr key ty parent) ?w1 = (Inl e, w')"
      "isTerminalLedgerError (postErrToStatus e)" "ticked ?w1 w'"
      using PostTransaction_leg_refused [OF h1, of t dr cr ?c key ty parent] no by auto
    then show ?thesis using run ticked_trans [OF t1] by (auto simp: isTerminalLedgerError_def)
  qed
qed

end
