(* ===== verification/HealthyState.thy ===== *)
theory HealthyState
  imports HealthyPost DriverOps
begin

text \<open>
  What a call of the driver does to the work that is left. \<open>workload\<close> counts undelivered events and the
  edges transfers still have before them; \<open>exposure\<close> is what the journal's debits can grow to when every
  open leg is posted. \<open>advances\<close> collects what every call keeps or lowers: a measure for the poller's
  termination and the room its leg posts need.
\<close>

section \<open>Sums over the transfers\<close>

lemma sum_list_replaced:
  fixes g h :: "'a \<Rightarrow> 'b::ab_group_add"
  assumes "distinct xs" "x \<in> set xs" "\<And>y. y \<in> set xs \<Longrightarrow> y \<noteq> x \<Longrightarrow> h y = g y"
  shows "sum_list (map h xs) = sum_list (map g xs) - g x + h x"
  using assms
proof (induction xs)
  case (Cons y ys)
  show ?case
  proof (cases "x = y")
    case True
    then have "map h ys = map g ys" using Cons.prems by auto
    then have "sum_list (map h ys) = sum_list (map g ys)" by (rule arg_cong)
    then show ?thesis using True by simp
  next
    case False
    then have "sum_list (map h ys) = sum_list (map g ys) - g x + h x" using Cons by auto
    then show ?thesis using False Cons.prems(3) [of y] by (simp add: algebra_simps)
  qed
qed simp

definition transfers :: "db \<Rightarrow> tx_row list" where
  "transfers d = filter lifecycle (transactions d)"

lemma transfers_mem: "t \<in> set (transfers d) \<longleftrightarrow> t \<in> set (transactions d) \<and> lifecycle t"
  by (simp add: transfers_def)

lemma transfers_distinct: "ledger_inv d \<Longrightarrow> distinct (transfers d)"
  using tx_unique_distinct [OF ledger_invD(2)] unfolding transfers_def by (auto simp: distinct_map)

definition identity_of :: "uuid_codec \<Rightarrow> tx_row \<Rightarrow> uuid \<times> string \<times> string \<times> amount \<times> (string \<Rightarrow> string \<times> string)" where
  "identity_of c t =
     (t_id t, t_reference t, t_currency t, td_amount (detailFromRow c t), leg_sides (detailFromRow c t))"

definition open_amount :: "uuid_codec \<Rightarrow> db \<Rightarrow> tx_row \<Rightarrow> int" where
  "open_amount c d t =
     sum_list (map (\<lambda>l. if leg_fact c d (t_id t) l = None then max 0 (sint (td_amount (detailFromRow c t))) else 0) leg_names)"

definition exposure :: "uuid_codec \<Rightarrow> db \<Rightarrow> int" where
  "exposure c d = dir_sum Debit (entries d) + sum_list (map (open_amount c d) (transfers d))"

definition workload :: "db \<Rightarrow> nat" where
  "workload d = length (filter (\<lambda>r. o_published_at r = None) (outbox d))
     + sum_list (map (\<lambda>t. status_rank (t_status t)) (transfers d))"

lemma open_amount_nonneg: "0 \<le> open_amount c d t"
  by (simp add: open_amount_def leg_names_def)

lemma summand_le:
  fixes g :: "'a \<Rightarrow> int"
  shows "(\<And>y. 0 \<le> g y) \<Longrightarrow> x \<in> set xs \<Longrightarrow> g x \<le> sum_list (map g xs)"
proof (induction xs)
  case (Cons y ys)
  have "0 \<le> sum_list (map g ys)" by (rule sum_list_nonneg) (use Cons.prems(1) in auto)
  then show ?case using Cons Cons.prems(1) [of y] by fastforce
qed simp

lemma open_amount_le: "t \<in> set (transfers d) \<Longrightarrow> dir_sum Debit (entries d) + open_amount c d t \<le> exposure c d"
  unfolding exposure_def using summand_le [of "open_amount c d", OF open_amount_nonneg] by simp

text \<open>A leg that is still open has room, if the exposure has.\<close>

lemma open_leg_room:
  assumes t: "t \<in> set (transfers d)" and l: "l \<in> set leg_names" and none: "leg_fact c d (t_id t) l = None"
    and ex: "exposure c d < 2 ^ 63" and amt: "tf_amount tf = td_amount (detailFromRow c t)"
  shows "leg_room d tf"
proof -
  have "sint (tf_amount tf) \<le> open_amount c d t"
    using l none unfolding amt open_amount_def leg_names_def by auto
  then show ?thesis using open_amount_le [OF t, of c] ex unfolding leg_room_def by linarith
qed

section \<open>A leg post\<close>

lemma transfers_post: "post_frame k d d' u added \<Longrightarrow> transfers d' = transfers d"
  using not_lifecycle_Nil by (auto simp: post_frame_def transfers_def)

lemma exposure_post:
  assumes c: "codec_ok c" and inv: "ledger_inv d" and t: "t \<in> set (transfers d)" and l: "l \<in> set leg_names"
    and f: "post_frame (legKey c (t_id t) l) d d' u added"
    and lp: "leg_posts d added dr cr (td_amount (detailFromRow c t))" and pos: "0 < sint (td_amount (detailFromRow c t))"
  shows "exposure c d' = exposure c d"
proof -
  let ?a = "sint (td_amount (detailFromRow c t))"
  have other: "leg_fact c d' j m = leg_fact c d j m" if "m \<in> set leg_names" "j \<noteq> t_id t \<or> m \<noteq> l" for j m
    by (rule leg_fact_other [OF f]) (use legKey_inj [OF c that(1) l] that(2) in blast)
  have new: "leg_fact c d (t_id t) l = None" "leg_fact c d' (t_id t) l = Some (t_id u, added)"
    using leg_fact_new [OF f inv] by simp_all
  have own: "leg_fact c d' (t_id t) m = leg_fact c d (t_id t) m" if "m \<in> set leg_names" "m \<noteq> l" for m
    by (rule other) (use that in simp_all)
  have "open_amount c d' t = open_amount c d t - ?a"
  proof -
    from l consider "l = ''debit''" | "l = ''settle''" | "l = ''reversal''" by (auto simp: leg_names_def)
    then show ?thesis
      using own [of "''debit''"] own [of "''settle''"] own [of "''reversal''"] new pos
      by cases (simp_all add: open_amount_def leg_names_def)
  qed
  moreover have "open_amount c d' x = open_amount c d x" if x: "x \<in> set (transfers d)" "x \<noteq> t" for x
  proof -
    have "t_id x \<noteq> t_id t" using row_by_id [OF inv, of x t] x t by (auto simp: transfers_mem)
    then show ?thesis using other [of _ "t_id x"] by (simp add: open_amount_def leg_names_def)
  qed
  ultimately have "sum_list (map (open_amount c d') (transfers d)) = sum_list (map (open_amount c d) (transfers d)) - ?a"
    using sum_list_replaced [OF transfers_distinct [OF inv] t, of "open_amount c d'" "open_amount c d"] by simp
  moreover have "dir_sum Debit (entries d') = dir_sum Debit (entries d) + ?a"
    using lp f by (auto simp: leg_posts_def post_frame_def entry_amount_def)
  ultimately show ?thesis by (simp add: exposure_def transfers_post [OF f])
qed

section \<open>A status advance\<close>

lemma transfers_update:
  assumes f: "row_update f"
  shows "transfers (update_tx i f d) = map (\<lambda>t. if t_id t = i then f t else t) (transfers d)"
proof -
  have "lifecycle (if t_id t = i then f t else t) = lifecycle t" for t by (simp add: row_updateD [OF f])
  then show ?thesis by (simp add: transfers_def transactions_update_tx update_where_def filter_map comp_def)
qed

lemma advance_measures:
  assumes inv: "ledger_inv d" and t: "t \<in> set (transfers d)" and f: "row_update f"
    and same: "\<And>x. td_amount (detailFromRow c (f x)) = td_amount (detailFromRow c x)"
      "\<And>x. leg_sides (detailFromRow c (f x)) = leg_sides (detailFromRow c x)"
    and edge: "canTransitionStatus (t_status t) (t_status (f t))"
    and d': "d' = (update_tx (t_id t) f d)\<lparr>outbox := os, outbox_seq := n\<rparr>"
  shows "map (identity_of c) (transfers d') = map (identity_of c) (transfers d)"
    and "exposure c d' = exposure c d"
    and "sum_list (map (\<lambda>t. status_rank (t_status t)) (transfers d'))
       < sum_list (map (\<lambda>t. status_rank (t_status t)) (transfers d))"
proof -
  let ?g = "\<lambda>x. if t_id x = t_id t then f x else x"
  have tr: "transfers d' = map ?g (transfers d)"
    unfolding d' using transfers_update [OF f, of "t_id t" d] by (simp add: transfers_def)
  have id: "identity_of c (?g x) = identity_of c x" for x
    by (simp add: identity_of_def row_updateD [OF f] same)
  show "map (identity_of c) (transfers d') = map (identity_of c) (transfers d)"
    unfolding tr map_map comp_def id ..
  have legs: "leg_fact c d' j l = leg_fact c d j l" for j l
    using leg_fact_update [OF f, of c "t_id t" d j l] leg_fact_cong [of d' "update_tx (t_id t) f d" c j l]
    by (simp add: d')
  have "open_amount c d' (?g x) = open_amount c d x" for x
    by (simp add: open_amount_def legs row_updateD [OF f] same cong: if_cong)
  then show "exposure c d' = exposure c d"
    by (simp add: exposure_def tr comp_def) (simp add: d')
  let ?r = "\<lambda>x. int (status_rank (t_status x))"
  have "?r (?g x) = ?r x" if "x \<in> set (transfers d)" "x \<noteq> t" for x
    using row_by_id [OF inv, of x t] that t by (auto simp: transfers_mem)
  then have "sum_list (map (?r \<circ> ?g) (transfers d)) = sum_list (map ?r (transfers d)) - ?r t + ?r (f t)"
    using sum_list_replaced [OF transfers_distinct [OF inv] t, of "?r \<circ> ?g" ?r] by (simp only: comp_apply if_True simp_thms)
  moreover have "?r (f t) < ?r t" using edge_decreases_rank [OF edge] by simp
  moreover have "sum_list (map ?r (transfers d')) = sum_list (map (?r \<circ> ?g) (transfers d))" by (simp add: tr)
  ultimately have less: "sum_list (map ?r (transfers d')) < sum_list (map ?r (transfers d))" by linarith
  have "int (sum_list (map (\<lambda>t. status_rank (t_status t)) xs)) = sum_list (map ?r xs)" for xs
    by (induction xs) simp_all
  then have "int (sum_list (map (\<lambda>t. status_rank (t_status t)) (transfers d')))
       < int (sum_list (map (\<lambda>t. status_rank (t_status t)) (transfers d)))" using less by metis
  then show "sum_list (map (\<lambda>t. status_rank (t_status t)) (transfers d'))
       < sum_list (map (\<lambda>t. status_rank (t_status t)) (transfers d))" by (rule of_nat_less_imp_less)
qed

section \<open>What a call does\<close>

definition event_types :: "string set" where
  "event_types = {EventDebitRequested, EventDebited, EventInDoubt, EventReversalRequested}"

text \<open>An event appended between two points of the script is due at the later one.\<close>

definition appended :: "world \<Rightarrow> world \<Rightarrow> outbox_row \<Rightarrow> bool" where
  "appended w w' r \<longleftrightarrow> o_published_at r = None \<and> \<not> o_dead_letter r \<and> o_event_type r \<in> event_types
     \<and> (\<exists>m. w_tick w \<le> m \<and> m < w_tick w' \<and> o_next_attempt_at r = e_now (w_env w m))"

text \<open>The event that takes a transfer on from its status, and a set of appended events that has one for each
  transfer whose status is new.\<close>

definition drives :: "outbox_row \<Rightarrow> tx_row \<Rightarrow> bool" where
  "drives r t \<longleftrightarrow> o_aggregate_id r = t_id t \<and> o_event_type r = eventForStatus (t_status t)"

definition covered :: "db \<Rightarrow> outbox_row list \<Rightarrow> db \<Rightarrow> bool" where
  "covered d new d' \<longleftrightarrow> (\<forall>t' \<in> set (transfers d'). eventForStatus (t_status t') = []
     \<or> (\<exists>t \<in> set (transfers d). t_id t = t_id t' \<and> t_status t = t_status t') \<or> (\<exists>r \<in> set new. drives r t'))"

lemma covered_same [simp]: "transfers d' = transfers d \<Longrightarrow> covered d new d'"
  by (auto simp: covered_def)

lemma covered_trans:
  assumes a: "covered d1 n1 d2" and b: "covered d2 n2 d3"
  shows "covered d1 (n1 @ n2) d3"
  unfolding covered_def
proof
  fix t' assume t': "t' \<in> set (transfers d3)"
  consider "eventForStatus (t_status t') = []" | "\<exists>r \<in> set n2. drives r t'"
    | t where "t \<in> set (transfers d2)" "t_id t = t_id t'" "t_status t = t_status t'"
    using b t' unfolding covered_def by blast
  then show "eventForStatus (t_status t') = [] \<or> (\<exists>t \<in> set (transfers d1). t_id t = t_id t' \<and> t_status t = t_status t')
      \<or> (\<exists>r \<in> set (n1 @ n2). drives r t')"
  proof cases
    case 3
    then have "eventForStatus (t_status t) = [] \<or> (\<exists>u \<in> set (transfers d1). t_id u = t_id t \<and> t_status u = t_status t)
        \<or> (\<exists>r \<in> set n1. drives r t)"
      using a unfolding covered_def by blast
    then show ?thesis using 3(2,3) by (auto simp: drives_def)
  qed auto
qed

definition advances :: "world \<Rightarrow> world \<Rightarrow> bool" where
  "advances w w' \<longleftrightarrow> ticked w w'
     \<and> accounts (w_db w') = accounts (w_db w)
     \<and> map (identity_of (w_codec w)) (transfers (w_db w')) = map (identity_of (w_codec w)) (transfers (w_db w))
     \<and> exposure (w_codec w) (w_db w') \<le> exposure (w_codec w) (w_db w)
     \<and> workload (w_db w') \<le> workload (w_db w)
     \<and> (\<exists>new. outbox (w_db w') = outbox (w_db w) @ new \<and> (\<forall>r \<in> set new. appended w w' r)
          \<and> covered (w_db w) new (w_db w'))"

lemma appended_mono:
  "w_env w1 = w_env w \<Longrightarrow> w_tick w \<le> w_tick w1 \<Longrightarrow> w_tick w2 \<le> w_tick w3 \<Longrightarrow> appended w1 w2 r \<Longrightarrow> appended w w3 r"
  unfolding appended_def by (metis order_trans order_less_le_trans)

lemma advances_refl [simp]: "advances w w"
  by (simp add: advances_def)

lemma advances_trans:
  assumes a: "advances w1 w2" and b: "advances w2 w3"
  shows "advances w1 w3"
proof -
  have t: "ticked w1 w2" "ticked w2 w3" using a b by (simp_all add: advances_def)
  then have le: "w_env w2 = w_env w1" "w_tick w1 \<le> w_tick w2" "w_tick w2 \<le> w_tick w3" "w_codec w2 = w_codec w1"
    by (simp_all add: ticked_def)
  obtain n1 where n1: "outbox (w_db w2) = outbox (w_db w1) @ n1" "\<forall>r \<in> set n1. appended w1 w2 r"
    "covered (w_db w1) n1 (w_db w2)"
    using a by (auto simp: advances_def)
  obtain n2 where n2: "outbox (w_db w3) = outbox (w_db w2) @ n2" "\<forall>r \<in> set n2. appended w2 w3 r"
    "covered (w_db w2) n2 (w_db w3)"
    using b by (auto simp: advances_def)
  have "\<forall>r \<in> set (n1 @ n2). appended w1 w3 r"
    using n1(2) n2(2) appended_mono [OF refl order_refl le(3)] appended_mono [OF le(1,2) order_refl] by auto
  then have "\<exists>new. outbox (w_db w3) = outbox (w_db w1) @ new \<and> (\<forall>r \<in> set new. appended w1 w3 r)
      \<and> covered (w_db w1) new (w_db w3)"
    using n1(1) n2(1) covered_trans [OF n1(3) n2(3)] by (intro exI [of _ "n1 @ n2"]) simp
  then show ?thesis using a b ticked_trans [OF t] le(4) unfolding advances_def by (auto intro: order_trans)
qed

lemma advances_same_db:
  "w_db w' = w_db w \<Longrightarrow> w_env w' = w_env w \<Longrightarrow> w_codec w' = w_codec w \<Longrightarrow> w_tick w \<le> w_tick w' \<Longrightarrow> advances w w'"
  by (auto simp: advances_def intro: ticked_same_ids)

text \<open>Calls that differ only in counters and logs.\<close>

lemma advances_cong:
  "advances w w1 \<Longrightarrow> w_db w2 = w_db w1 \<Longrightarrow> w_env w2 = w_env w1 \<Longrightarrow> w_codec w2 = w_codec w1 \<Longrightarrow> w_tick w1 \<le> w_tick w2 \<Longrightarrow>
   advances w w2"
  using advances_trans advances_same_db by metis

lemma leg_advances:
  assumes c: "codec_ok (w_codec w)" and inv: "ledger_inv (w_db w)" and t: "t \<in> set (transfers (w_db w))"
    and l: "l \<in> set leg_names" and tk: "ticked w w'" and tf: "tf_amount tf = td_amount (detailFromRow (w_codec w) t)"
    and lw: "leg_written (w_codec w) tf dr cr (legKey (w_codec w) (t_id t) l) ty parent (w_db w) (w_db w')"
  shows "advances w w'"
proof (cases "w_db w' = w_db w")
  case True
  then show ?thesis using tk by (auto simp: ticked_def intro!: advances_same_db)
next
  case False
  then obtain u added where f: "post_frame (legKey (w_codec w) (t_id t) l) (w_db w) (w_db w') u added"
    and lp: "leg_posts (w_db w) added dr cr (td_amount (detailFromRow (w_codec w) t))" and inv': "ledger_inv (w_db w')"
    using lw tf by (auto simp: leg_written_def)
  have "0 < sint (td_amount (detailFromRow (w_codec w) t))"
  proof -
    have "\<exists>e1 \<in> set added. e_amount_minor e1 = td_amount (detailFromRow (w_codec w) t)"
      using lp by (auto simp: leg_posts_def)
    then obtain e1 where e: "e1 \<in> set added" "e_amount_minor e1 = td_amount (detailFromRow (w_codec w) t)" ..
    then have "e1 \<in> set (entries (w_db w'))" using f by (simp add: post_frame_def)
    from ledger_invD(3) [OF inv' this] show ?thesis using e(2) by (simp add: entry_wf_def entry_amount_def)
  qed
  from exposure_post [OF c inv t l f lp this] show ?thesis
    using tk transfers_post [OF f] f by (simp add: advances_def post_frame_def workload_def)
qed

end
