(* ===== verification/HealthyDriver.thy ===== *)
theory HealthyDriver
  imports HealthyState
begin

text \<open>
  In a healthy world every handler of the driver reports success: it moves its transfer on and leaves
  the measures of \<open>HealthyState\<close> no worse.
\<close>

section \<open>The state healthy calls run in\<close>

text \<open>\<open>workable\<close>: the invariant and a truthful rail, a healthy script, room in the journal for every leg
  still open, and a known destination for every transfer.\<close>

definition workable :: "(string \<Rightarrow> rail_status) \<Rightarrow> world \<Rightarrow> bool" where
  "workable truth w \<longleftrightarrow> sw_inv truth (w_codec w) (w_db w) \<and> driver_env truth w \<and> healthy w
     \<and> char3_columns (w_db w) \<and> exposure (w_codec w) (w_db w) < 2 ^ 63
     \<and> (\<forall>t \<in> set (transfers (w_db w)). length (t_currency t) = 3
          \<and> find_account (td_destination (detailFromRow (w_codec w) t)) (w_db w) \<noteq> None)"

lemma workableD:
  assumes "workable truth w"
  shows "sw_inv truth (w_codec w) (w_db w)" "driver_env truth w" "healthy w" "char3_columns (w_db w)"
    "exposure (w_codec w) (w_db w) < 2 ^ 63" "codec_ok (w_codec w)" "codec_nonempty (w_codec w)" "ledger_inv (w_db w)"
    "transfer_row (w_db w) i t \<Longrightarrow> length (t_currency t) = 3"
    "transfer_row (w_db w) i t \<Longrightarrow> find_account (td_destination (detailFromRow (w_codec w) t)) (w_db w) \<noteq> None"
proof -
  show inv: "sw_inv truth (w_codec w) (w_db w)" and env: "driver_env truth w" and "healthy w" "char3_columns (w_db w)"
    "exposure (w_codec w) (w_db w) < 2 ^ 63"
    using assms unfolding workable_def by blast+
  show "codec_ok (w_codec w)" "codec_nonempty (w_codec w)" using env by (simp_all add: driver_env_def world_ok_def)
  show "ledger_inv (w_db w)" by (rule sw_invD(2) [OF inv])
  show "transfer_row (w_db w) i t \<Longrightarrow> length (t_currency t) = 3"
    "transfer_row (w_db w) i t \<Longrightarrow> find_account (td_destination (detailFromRow (w_codec w) t)) (w_db w) \<noteq> None"
    using assms by (simp_all add: workable_def transfer_row_def transfers_mem)
qed

lemma workable_advances:
  assumes w: "workable truth w" and a: "advances w w'" and inv: "sw_inv truth (w_codec w) (w_db w')"
  shows "workable truth w'"
proof -
  have tk: "ticked w w'" using a by (simp add: advances_def)
  then have env: "w_env w' = w_env w" "w_codec w' = w_codec w" by (simp_all add: ticked_def)
  have acc: "accounts (w_db w') = accounts (w_db w)" using a by (simp add: advances_def)
  have "length (t_currency t') = 3 \<and> find_account (td_destination (detailFromRow (w_codec w) t')) (w_db w') \<noteq> None"
    if "t' \<in> set (transfers (w_db w'))" for t'
  proof -
    have "identity_of (w_codec w) t' \<in> set (map (identity_of (w_codec w)) (transfers (w_db w')))" using that by simp
    then have "identity_of (w_codec w) t' \<in> set (map (identity_of (w_codec w)) (transfers (w_db w)))"
      using a by (simp only: advances_def)
    then obtain t where t: "t \<in> set (transfers (w_db w))" "identity_of (w_codec w) t' = identity_of (w_codec w) t" by auto
    have "snd (leg_sides (detailFromRow (w_codec w) t') ''settle'') = snd (leg_sides (detailFromRow (w_codec w) t) ''settle'')"
      using t(2) by (simp add: identity_of_def)
    then have "td_destination (detailFromRow (w_codec w) t') = td_destination (detailFromRow (w_codec w) t)"
      by (simp add: leg_sides_def)
    then show ?thesis using w t acc by (simp add: workable_def identity_of_def find_account_def)
  qed
  then show ?thesis
    using w inv env acc a healthy_ticked [OF workableD(3) [OF w] tk] driver_env_same [OF workableD(2) [OF w] env]
    by (simp add: workable_def char3_columns_def advances_def)
qed

text \<open>A call that succeeds and advances, and one that keeps the invariant as well.\<close>

definition healthy_act :: "world \<Rightarrow> 'a act \<Rightarrow> bool" where
  "healthy_act w m \<longleftrightarrow> (\<exists>a w'. m w = (Inr a, w') \<and> advances w w')"

section \<open>Reads and marks\<close>

lemma store_load_healthy:
  assumes w: "workable truth w" and t: "transfer_row (w_db w) i t"
  obtains w1 where "store_load i w = (Inr (detailFromRow (w_codec w) t), w1)" "w_db w1 = w_db w" "w_env w1 = w_env w"
    "w_codec w1 = w_codec w" "advances w w1"
proof -
  let ?w1 = "w\<lparr>w_tick := Suc (w_tick w)\<rparr>"
  have f: "find_tx i (w_db w) = Some t"
    using find_tx_row [OF workableD(8) [OF w], of t] t by (auto simp: transfer_row_def)
  have g: "run_stmt (GetTransferByID i) w = (Inr t, ?w1)"
    unfolding run_stmt_def
    by (subst run_tx_no_fault [OF healthyD(1) [OF workableD(3) [OF w]]]) (auto simp: GetTransferByID_Inr f no_triggers_def)
  show thesis
    by (rule that [of ?w1]) (auto simp: store_load_def g intro: advances_same_db)
qed

text \<open>What a mark writes: the row, and at most one due event.\<close>

definition writes :: "uuid \<Rightarrow> string \<Rightarrow> (env \<Rightarrow> tx_row \<Rightarrow> tx_row) \<Rightarrow> unit tx \<Rightarrow> bool" where
  "writes i to F app \<longleftrightarrow>
     (\<forall>ev d. \<exists>new n. app ev d = Inr ((), (update_tx i (F ev) d)\<lparr>outbox := outbox d @ new, outbox_seq := n\<rparr>)
        \<and> length new \<le> 1
        \<and> (\<forall>r \<in> set new. o_published_at r = None \<and> \<not> o_dead_letter r \<and> o_event_type r \<in> event_types
             \<and> o_next_attempt_at r = e_now ev)
        \<and> (eventForStatus to \<noteq> [] \<longrightarrow> (\<exists>r \<in> set new. o_aggregate_id r = i \<and> o_event_type r = eventForStatus to)))
     \<and> (\<forall>ev x. row_update (F ev) \<and> t_status (F ev x) = to)
     \<and> (\<forall>ev c x. td_amount (detailFromRow c (F ev x)) = td_amount (detailFromRow c x)
          \<and> leg_sides (detailFromRow c (F ev x)) = leg_sides (detailFromRow c x))"

lemma used_ids_update: "row_update f \<Longrightarrow> used_ids ((update_tx i f d)\<lparr>outbox := os, outbox_seq := n\<rparr>) = used_ids d"
  using ids_update [of f i d] by (simp add: used_ids_def)

lemma advance_healthy:
  assumes w: "workable truth w" and t: "transfer_row (w_db w) i t" and wr: "writes i to F app"
  shows "healthy_act w (advance i to app)"
proof -
  let ?d = "w_db w" and ?ev = "w_env w (w_tick w)" and ?c = "w_codec w"
  note nf = healthyD(1) [OF workableD(3) [OF w]] and inv = workableD(8) [OF w]
  have f: "find_tx i ?d = Some t" and tr: "t \<in> set (transfers ?d)" and i: "t_id t = i"
    using find_tx_row [OF inv, of t] t by (auto simp: transfer_row_def transfers_mem)
  obtain new n where app: "app ?ev ?d = Inr ((), (update_tx i (F ?ev) ?d)\<lparr>outbox := outbox ?d @ new, outbox_seq := n\<rparr>)"
    and len: "length new \<le> 1" and new: "\<forall>r \<in> set new. o_published_at r = None \<and> \<not> o_dead_letter r
      \<and> o_event_type r \<in> event_types \<and> o_next_attempt_at r = e_now ?ev"
    and drv: "eventForStatus to \<noteq> [] \<longrightarrow> (\<exists>r \<in> set new. o_aggregate_id r = i \<and> o_event_type r = eventForStatus to)"
    and F: "row_update (F ?ev)" "\<And>x. t_status (F ?ev x) = to"
      "\<And>x. td_amount (detailFromRow ?c (F ?ev x)) = td_amount (detailFromRow ?c x)"
      "\<And>x. leg_sides (detailFromRow ?c (F ?ev x)) = leg_sides (detailFromRow ?c x)"
    using wr unfolding writes_def by blast
  let ?d' = "(update_tx i (F ?ev) ?d)\<lparr>outbox := outbox ?d @ new, outbox_seq := n\<rparr>"
  show ?thesis
  proof (cases "canTransitionStatus (t_status t) to")
    case False
    then have "advance_body i to app ?ev ?d = Inr (False, ?d)"
      by (simp add: advance_body_def GetTransferForUpdate_def f)
    moreover have "commit_triggers ?d ?d = None" by (simp add: commit_triggers_def)
    ultimately have "advance i to app w = (Inr False, w\<lparr>w_tick := Suc (w_tick w), w_db := ?d\<rparr>)"
      unfolding advance_def WithTx_def by (rule run_tx_no_fault [OF nf])
    then show ?thesis unfolding healthy_act_def by (auto intro: advances_same_db)
  next
    case True
    let ?w' = "w\<lparr>w_tick := Suc (w_tick w), w_db := ?d'\<rparr>"
    have "advance_body i to app ?ev ?d = Inr (True, ?d')"
      using True app by (simp add: advance_body_def GetTransferForUpdate_def f)
    moreover have "commit_triggers ?d ?d' = None" by (simp add: commit_triggers_def)
    ultimately have run: "advance i to app w = (Inr True, ?w')"
      unfolding advance_def WithTx_def by (rule run_tx_no_fault [OF nf])
    have d': "?d' = (update_tx (t_id t) (F ?ev) ?d)\<lparr>outbox := outbox ?d @ new, outbox_seq := n\<rparr>" using i by simp
    have edge: "canTransitionStatus (t_status t) (t_status (F ?ev t))" using True F(2) by simp
    note m = advance_measures [OF inv tr F(1) F(3,4) edge d']
    have "length (filter (\<lambda>r. o_published_at r = None) new) \<le> 1" by (rule order_trans [OF length_filter_le len])
    then have "workload ?d' \<le> workload ?d" using m(3) by (simp add: workload_def)
    moreover have "\<forall>r \<in> set new. appended w ?w' r" using new by (auto simp: appended_def)
    moreover have "covered ?d new ?d'"
      using F(1,2) drv
      by (fastforce simp: covered_def drives_def transfers_def update_tx_def update_where_def row_update_def split: if_splits)
    ultimately have "advances w ?w'"
      using m(1,2) used_ids_update [OF F(1)] by (auto simp: advances_def intro!: ticked_same_ids)
    then show ?thesis unfolding healthy_act_def using run by blast
  qed
qed

lemma outbox_Append_writes:
  "outbox_Append i ty p ev d = Inr ((), d\<lparr>outbox := outbox d @ [\<lparr>o_id = outbox_seq d, o_aggregate_type = AggregateTransfer,
     o_aggregate_id = i, o_event_type = ty, o_payload = p, o_created_at = e_now ev, o_published_at = None, o_attempts = 0,
     o_next_attempt_at = e_now ev, o_last_error = None, o_dead_letter = False\<rparr>], outbox_seq := Suc (outbox_seq d)\<rparr>)"
  by (simp add: outbox_Append_def InsertOutboxEvent_def Let_def)

lemma writes_event:
  assumes "\<And>ev d. app ev d = outbox_Append i ty p ev (update_tx i (F ev) d)" and "ty \<in> event_types"
    and "ty = eventForStatus to"
    and "\<And>ev x. row_update (F ev) \<and> t_status (F ev x) = to"
    and "\<And>ev c x. td_amount (detailFromRow c (F ev x)) = td_amount (detailFromRow c x)
          \<and> leg_sides (detailFromRow c (F ev x)) = leg_sides (detailFromRow c x)"
  shows "writes i to F app"
  unfolding writes_def using assms(2-) by (auto simp: assms(1) outbox_Append_writes intro!: exI)

lemma writes_row:
  assumes "\<And>ev d. app ev d = Inr ((), update_tx i (F ev) d)" and "eventForStatus to = []"
    and "\<And>ev x. row_update (F ev) \<and> t_status (F ev x) = to"
    and "\<And>ev c x. td_amount (detailFromRow c (F ev x)) = td_amount (detailFromRow c x)
          \<and> leg_sides (detailFromRow c (F ev x)) = leg_sides (detailFromRow c x)"
  shows "writes i to F app"
proof -
  have "update_tx i (F ev) d = (update_tx i (F ev) d)\<lparr>outbox := outbox d @ [], outbox_seq := outbox_seq d\<rparr>" for ev d
    by (simp add: update_tx_def)
  then have "\<exists>new n. app ev d = Inr ((), (update_tx i (F ev) d)\<lparr>outbox := outbox d @ new, outbox_seq := n\<rparr>)
        \<and> length new \<le> 1 \<and> (\<forall>r \<in> set new. o_published_at r = None \<and> \<not> o_dead_letter r \<and> o_event_type r \<in> event_types
             \<and> o_next_attempt_at r = e_now ev)
        \<and> (eventForStatus to \<noteq> [] \<longrightarrow> (\<exists>r \<in> set new. o_aggregate_id r = i \<and> o_event_type r = eventForStatus to))" for ev d
    unfolding assms(1) using assms(2) by (intro exI [of _ "[]"] exI [of _ "outbox_seq d"]) simp
  then show ?thesis unfolding writes_def using assms(3,4) by blast
qed

lemma status_row: "(\<lambda>t. t\<lparr>t_status := s\<rparr>) = upd_status s"
  by (simp add: upd_status_def fun_eq_iff)

lemma apply_status_writes:
  "check_tx_status s \<Longrightarrow> apply_status pre s i ev d = Inr ((), update_tx i (upd_status s) d)"
  by (simp add: apply_status_def SetTransferStatus_def status_row)

lemma status_checks [simp]:
  "check_tx_status statusDebited" "check_tx_status statusSettled" "check_tx_status statusInDoubt"
  "check_tx_status statusReversalPending" "check_tx_status statusReversed" "check_tx_status statusManualReview"
  "check_tx_status statusFailed"
  by (simp_all add: check_tx_status_def go_const)

lemma event_types_mem [simp]:
  "EventDebitRequested \<in> event_types" "EventDebited \<in> event_types" "EventInDoubt \<in> event_types"
  "EventReversalRequested \<in> event_types"
  by (simp_all add: event_types_def)

lemma marks_write:
  "writes i statusDebited (\<lambda>_. upd_debited leg) (apply_debited i leg p)"
  "writes i statusSettled upd_settled (apply_settled i)"
  "writes i statusInDoubt (\<lambda>_. upd_status statusInDoubt) (apply_in_doubt i p)"
  "writes i statusReversalPending (\<lambda>_. upd_status statusReversalPending) (apply_reversal_pending i p)"
  "check_tx_status s \<Longrightarrow> eventForStatus s = [] \<Longrightarrow> writes i s (\<lambda>_. upd_status s) (apply_status pre s i)"
proof -
  have deb: "(\<lambda>t. t\<lparr>t_status := statusDebited, t_metadata := json_concat (t_metadata t) [(''debit_leg_tx_id'', JStr leg)]\<rparr>)
      = upd_debited leg"
    by (simp add: upd_debited_def fun_eq_iff)
  have stl: "(\<lambda>t. t\<lparr>t_status := ''settled'', t_settled_at := Some (e_now ev)\<rparr>) = upd_settled ev" for ev
    by (simp add: upd_settled_def fun_eq_iff)
  show "writes i statusDebited (\<lambda>_. upd_debited leg) (apply_debited i leg p)"
    by (rule writes_event) (auto simp: apply_debited_def SetTransferStatusAndDebitLeg_def deb)
  show "writes i statusSettled upd_settled (apply_settled i)"
    by (rule writes_row) (auto simp: apply_settled_def SetTransferSettled_def stl)
  show "writes i statusInDoubt (\<lambda>_. upd_status statusInDoubt) (apply_in_doubt i p)"
    by (rule writes_event) (auto simp: apply_in_doubt_def apply_status_writes)
  show "writes i statusReversalPending (\<lambda>_. upd_status statusReversalPending) (apply_reversal_pending i p)"
    by (rule writes_event) (auto simp: apply_reversal_pending_def apply_status_writes)
  show "writes i s (\<lambda>_. upd_status s) (apply_status pre s i)" if "check_tx_status s" "eventForStatus s = []"
    by (rule writes_row) (auto simp: apply_status_writes that)
qed

text \<open>The seven marks, and the ways a handler ends with one.\<close>

lemma marks_healthy:
  assumes w: "workable truth w" and t: "transfer_row (w_db w) i t"
  shows "healthy_act w (markDebited i leg p)" "healthy_act w (markSettled i)" "healthy_act w (markInDoubt i p)"
    "healthy_act w (markReversalPending i p)" "healthy_act w (markReversed i)" "healthy_act w (markManualReview i)"
    "healthy_act w (markFailed i)"
proof -
  note adv = advance_healthy [OF w t]
  show "healthy_act w (markDebited i leg p)"
    using adv [OF marks_write(1) [of i "uuid_String (w_codec w) leg" p]] by (simp add: healthy_act_def markDebited_def)
  show "healthy_act w (markSettled i)" unfolding markSettled_def by (rule adv [OF marks_write(2)])
  show "healthy_act w (markInDoubt i p)" unfolding markInDoubt_def by (rule adv [OF marks_write(3)])
  show "healthy_act w (markReversalPending i p)" unfolding markReversalPending_def by (rule adv [OF marks_write(4)])
  show "healthy_act w (markReversed i)" unfolding markReversed_def by (rule adv [OF marks_write(5)]) simp_all
  show "healthy_act w (markManualReview i)" unfolding markManualReview_def by (rule adv [OF marks_write(5)]) simp_all
  show "healthy_act w (markFailed i)" unfolding markFailed_def by (rule adv [OF marks_write(5)]) simp_all
qed

lemma finish_healthy:
  "healthy_act w m \<Longrightarrow> healthy_act w (discard m)"
  "healthy_act w m \<Longrightarrow> healthy_act w (on_terminal oc m)"
proof -
  show "healthy_act w m \<Longrightarrow> healthy_act w (discard m)" by (auto simp: healthy_act_def discard_def)
  show "healthy_act w m \<Longrightarrow> healthy_act w (on_terminal oc m)"
  proof -
    assume "healthy_act w m"
    then obtain a w' where m: "m w = (Inr a, w')" "advances w w'" by (auto simp: healthy_act_def)
    have "advances w (recordOutcome oc w')"
      by (rule advances_cong [OF m(2)]) (simp_all add: recordOutcome_def)
    then show ?thesis using m by (auto simp: healthy_act_def on_terminal_def)
  qed
qed

text \<open>One call after another.\<close>

lemma healthy_after:
  "advances w w1 \<Longrightarrow> healthy_act w1 k \<Longrightarrow> m w = k w1 \<Longrightarrow> healthy_act w m"
  unfolding healthy_act_def using advances_trans by metis


section \<open>Leg posts\<close>

lemma refund_parent_free:
  assumes inv: "sw_inv truth c d" and debit: "leg_fact c d i ''debit'' = Some (p, es)"
    and none: "find_tx_by_key (legKey c i ''reversal'') d = None"
  shows "parent_free d ty (Some p)"
proof -
  note c = sw_invD(1) [OF inv] and l = sw_invD(2) [OF inv] and own = sw_invD(8) [OF inv]
  obtain x where x: "find_tx_by_key (legKey c i ''debit'') d = Some x" "t_id x = p" using debit by (auto simp: leg_fact_def)
  have "t_parent u \<noteq> Some p" if u: "u \<in> set (transactions d)" "t_type u = ''reversal''" for u
  proof
    assume p: "t_parent u = Some p"
    obtain j where j: "t_idempotency_key u = Some (legKey c j ''reversal'')"
      using own u p unfolding refunds_owned_def by blast
    have "\<exists>q es'. t_parent u = Some q \<and> leg_fact c d j ''debit'' = Some (q, es')"
      using own u(1) j unfolding refunds_owned_def by blast
    then obtain y where y: "find_tx_by_key (legKey c j ''debit'') d = Some y" "t_id y = p" using p by (auto simp: leg_fact_def)
    have "x = y" using row_by_id [OF l] find_tx_by_key_mem [OF x(1)] find_tx_by_key_mem [OF y(1)] x(2) y(2) by auto
    then have "legKey c i ''debit'' = legKey c j ''debit''"
      using find_tx_by_key_mem [OF x(1)] find_tx_by_key_mem [OF y(1)] by simp
    from legKey_inj [OF c _ _ this] have "i = j" by (simp add: leg_names_def)
    then show False using none j u(1) by (simp add: find_tx_by_key_def find_None_all)
  qed
  then show ?thesis using find_tx_by_key_mem [OF x(1)] x(2) by (auto simp: parent_free_def)
qed

lemma leg_post_healthy:
  assumes w: "workable truth w" and t: "transfer_row (w_db w) i t" and l: "l \<in> set leg_names"
    and kind: "leg_kind (w_codec w) (w_db w) i l ty parent" "l \<noteq> ''reversal'' \<Longrightarrow> parent = None"
    and dr: "dr = fst (leg_sides (detailFromRow (w_codec w) t) l)" and cr: "cr = snd (leg_sides (detailFromRow (w_codec w) t) l)"
  shows "leg_possible (w_db w) (td_transfer (detailFromRow (w_codec w) t)) dr cr \<Longrightarrow>
      healthy_act w (client_post (td_transfer (detailFromRow (w_codec w) t)) dr cr (legKey (w_codec w) i l) ty parent)"
    and "\<not> leg_possible (w_db w) (td_transfer (detailFromRow (w_codec w) t)) dr cr \<Longrightarrow>
      \<exists>e w'. client_post (td_transfer (detailFromRow (w_codec w) t)) dr cr (legKey (w_codec w) i l) ty parent w = (Inl e, w')
        \<and> isTerminalLedgerError e \<and> advances w w'"
proof -
  let ?c = "w_codec w" and ?d = "w_db w" and ?tf = "td_transfer (detailFromRow (w_codec w) t)"
  let ?post = "client_post ?tf dr cr (legKey ?c i l) ty parent"
  note W = workableD [OF w] and inv = sw_invD [OF workableD(1) [OF w]]
  have tr: "t \<in> set (transfers ?d)" and i: "t_id t = i" using t by (auto simp: transfer_row_def transfers_mem)
  have ok: "world_ok w" using W(2) by (simp add: driver_env_def)
  have adv: "advances w w'" if run: "?post w = (r, w')" and tk: "ticked w w'" for r w'
    by (rule leg_advances [OF W(6,8) tr l tk, where tf = ?tf])
      (use client_post_spec [OF ok W(8) legKey_not_Nil run] i in auto)
  have new: "parent_free ?d ty parent \<and> leg_room ?d ?tf" if none: "find_tx_by_key (legKey ?c i l) ?d = None"
  proof
    show "leg_room ?d ?tf"
      by (rule open_leg_room [OF tr l _ W(5)]) (use none i in \<open>simp_all add: leg_fact_def\<close>)
    show "parent_free ?d ty parent"
    proof (cases "l = ''reversal''")
      case True
      then show ?thesis using kind(1) refund_parent_free [OF W(1)] none by (auto simp: leg_kind_def)
    next
      case False
      then show ?thesis using kind(2) by (simp add: parent_free_def)
    qed
  qed
  have ty: "check_tx_type ty" using kind(1) by (auto simp: leg_kind_def check_tx_type_def go_const split: if_splits)
  have cur: "length (tf_currency ?tf) = 3" using W(9) [OF t] by (simp add: td_transfer_def detailFromRow_def)
  show "healthy_act w ?post" if lp: "leg_possible ?d ?tf dr cr"
    using client_post_healthy(1) [OF W(3,6,7,8,4) lp cur legKey_not_Nil ty new] adv unfolding healthy_act_def by blast
  show "\<exists>e w'. ?post w = (Inl e, w') \<and> isTerminalLedgerError e \<and> advances w w'" if no: "\<not> leg_possible ?d ?tf dr cr"
    using client_post_healthy(2) [OF W(3,6,7) no] adv by blast
qed

text \<open>The debit may be refused for good; a debited transfer's other legs are not.\<close>

lemma PostDebitLeg_healthy:
  assumes w: "workable truth w" and t: "transfer_row (w_db w) i t"
  shows "healthy_act w (PostDebitLeg (td_transfer (detailFromRow (w_codec w) t)))
    \<or> (\<exists>e w'. PostDebitLeg (td_transfer (detailFromRow (w_codec w) t)) w = (Inl e, w') \<and> isTerminalLedgerError e \<and> advances w w')"
proof -
  let ?det = "detailFromRow (w_codec w) t"
  have i: "t_id t = i" using t by (simp add: transfer_row_def)
  have dr: "td_source ?det = fst (leg_sides ?det ''debit'')" "settlementAccount = snd (leg_sides ?det ''debit'')"
    by (simp_all add: leg_sides_def)
  note p = leg_post_healthy [OF w t, of "''debit''" TypeTransfer None, OF _ _ _ dr]
  show ?thesis
    using p by (cases "leg_possible (w_db w) (td_transfer ?det) (td_source ?det) settlementAccount")
      (simp_all add: healthy_act_def PostDebitLeg_def leg_names_def leg_kind_def i)
qed

lemma debited_possible:
  assumes w: "workable truth w" and t: "transfer_row (w_db w) i t" and st: "t_status t \<notin> {statusPending, statusFailed}"
  shows "leg_possible (w_db w) (td_transfer (detailFromRow (w_codec w) t)) settlementAccount (td_destination (detailFromRow (w_codec w) t))"
    "leg_possible (w_db w) (td_transfer (detailFromRow (w_codec w) t)) settlementAccount (td_source (detailFromRow (w_codec w) t))"
proof -
  obtain v es where "leg_fact (w_codec w) (w_db w) i ''debit'' = Some (v, es)"
    using statuses_of [OF workableD(1) [OF w] t] st by (auto simp: statuses_match_def)
  from leg_exists_possible [OF workableD(1) [OF w] t _ this]
  have "leg_possible (w_db w) (td_transfer (detailFromRow (w_codec w) t)) (td_source (detailFromRow (w_codec w) t)) settlementAccount"
    by (simp add: leg_names_def leg_sides_def)
  then show "leg_possible (w_db w) (td_transfer (detailFromRow (w_codec w) t)) settlementAccount (td_destination (detailFromRow (w_codec w) t))"
    "leg_possible (w_db w) (td_transfer (detailFromRow (w_codec w) t)) settlementAccount (td_source (detailFromRow (w_codec w) t))"
    using workableD(10) [OF w t] by (auto simp: leg_possible_def)
qed

lemma PostSettlementLeg_healthy:
  assumes w: "workable truth w" and t: "transfer_row (w_db w) i t" and st: "t_status t \<notin> {statusPending, statusFailed}"
  shows "healthy_act w (PostSettlementLeg (td_transfer (detailFromRow (w_codec w) t)))"
proof -
  let ?det = "detailFromRow (w_codec w) t"
  have i: "t_id t = i" using t by (simp add: transfer_row_def)
  have dr: "settlementAccount = fst (leg_sides ?det ''settle'')" "td_destination ?det = snd (leg_sides ?det ''settle'')"
    by (simp_all add: leg_sides_def)
  have "healthy_act w (client_post (td_transfer ?det) settlementAccount (td_destination ?det) (legKey (w_codec w) i ''settle'') TypeTransfer None)"
    by (rule leg_post_healthy(1) [OF w t _ _ _ dr debited_possible(1) [OF w t st]]) (simp_all add: leg_names_def leg_kind_def)
  then show ?thesis by (auto simp: healthy_act_def PostSettlementLeg_def i)
qed

lemma PostReversal_healthy:
  assumes w: "workable truth w" and t: "transfer_row (w_db w) i t" and st: "t_status t \<notin> {statusPending, statusFailed}"
    and debit: "leg_fact (w_codec w) (w_db w) i ''debit'' = Some (parent, es)"
  shows "healthy_act w (PostReversal (td_transfer (detailFromRow (w_codec w) t)) parent)"
proof -
  let ?det = "detailFromRow (w_codec w) t"
  have i: "t_id t = i" using t by (simp add: transfer_row_def)
  have dr: "settlementAccount = fst (leg_sides ?det ''reversal'')" "td_source ?det = snd (leg_sides ?det ''reversal'')"
    by (simp_all add: leg_sides_def)
  have "healthy_act w (client_post (td_transfer ?det) settlementAccount (td_source ?det) (legKey (w_codec w) i ''reversal'') TypeReversal (Some parent))"
    by (rule leg_post_healthy(1) [OF w t _ _ _ dr debited_possible(2) [OF w t st]])
      (use debit in \<open>simp_all add: leg_names_def leg_kind_def\<close>)
  then show ?thesis by (auto simp: healthy_act_def PostReversal_def i)
qed

section \<open>Rail calls\<close>

lemma rail_call_healthy:
  assumes w: "workable truth w"
  shows "\<exists>v w'. rail_call pre ref w = (Inr v, w') \<and> advances w w' \<and> w_db w' = w_db w"
proof -
  let ?w1 = "w\<lparr>w_tick := Suc (w_tick w)\<rparr>"
  have "advances w ?w1" by (rule advances_same_db) simp_all
  then show ?thesis
    using healthyD(4) [OF workableD(3) [OF w], of ref]
    by (cases "e_rail (w_env w (w_tick w)) ref") (auto simp: rail_call_def take_env_def)
qed

lemma rail_call_advances: "rail_call pre ref w = (r, w') \<Longrightarrow> advances w w'"
  by (rule advances_same_db) (auto simp: rail_call_def take_env_def split: sum.splits if_splits)

lemma tsq_loop_advances: "tsq_loop n first_try b ref w = (v, w') \<Longrightarrow> advances w w'"
proof (induction n arbitrary: first_try w)
  case (Suc n)
  obtain x w1 where wt: "(if \<not> first_try \<and> b > 0 then backoff_wait b w else (Inr (), w)) = (x, w1)" by force
  have a1: "advances w w1"
    using wt by (intro advances_same_db) (auto simp: backoff_wait_def take_env_def split: if_splits)
  obtain y w2 where q: "rail_QueryStatus ref w1 = (y, w2)" by force
  have a2: "advances w w2"
    using advances_trans [OF a1] rail_call_advances q by (simp add: rail_QueryStatus_def)
  consider "w' = w1" | "w' = w2" | f where "tsq_loop n f b ref w2 = (v, w')"
    using Suc.prems wt q by (auto split: sum.splits if_splits)
  then show ?case using a1 a2 Suc.IH advances_trans by cases blast+
qed simp


section \<open>The handlers\<close>

lemma handler_healthyI:
  assumes h: "\<And>w. h w = (case store_load i w of (Inl e, w1) \<Rightarrow> (Inl e, w1)
      | (Inr det, w1) \<Rightarrow> if td_status det \<noteq> st then (Inr (), w1) else k det w1)"
    and k: "\<And>w t. workable truth w \<Longrightarrow> transfer_row (w_db w) i t \<Longrightarrow> t_status t = st \<Longrightarrow>
      healthy_act w (k (detailFromRow (w_codec w) t))"
    and w: "workable truth w" and t: "transfer_row (w_db w) i t"
  shows "healthy_act w h"
proof -
  obtain w1 where l: "store_load i w = (Inr (detailFromRow (w_codec w) t), w1)" and s: "w_db w1 = w_db w"
    "w_codec w1 = w_codec w" and a: "advances w w1"
    by (rule store_load_healthy [OF w t])
  show ?thesis
  proof (cases "t_status t = st")
    case False
    then show ?thesis using l a by (auto simp: healthy_act_def h)
  next
    case True
    have w1: "workable truth w1" by (rule workable_advances [OF w a]) (use workableD(1) [OF w] s in simp)
    have "healthy_act w1 (k (detailFromRow (w_codec w) t))" using k [OF w1 _ True] t s by simp
    then show ?thesis by (rule healthy_after [OF a]) (simp add: h l True)
  qed
qed

text \<open>The world after a leg post, from what the post keeps.\<close>

lemma workable_keeps: "workable truth w \<Longrightarrow> advances w w' \<Longrightarrow> keeps truth w w' \<Longrightarrow> workable truth w' \<and> w_codec w' = w_codec w"
  using workable_advances workableD(1) by (auto simp: keeps_def)

lemma handleDebitRequested_healthy:
  assumes w: "workable truth w" and t: "transfer_row (w_db w) i t"
  shows "healthy_act w (handleDebitRequested i)"
proof (rule handler_healthyI [OF _ _ w t])
  show "handleDebitRequested i w = (case store_load i w of (Inl e, w1) \<Rightarrow> (Inl e, w1)
      | (Inr det, w1) \<Rightarrow> if td_status det \<noteq> statusPending then (Inr (), w1)
          else (case PostDebitLeg (td_transfer det) w1 of
      (Inl e, w2) \<Rightarrow> if isTerminalLedgerError e then discard (on_terminal statusFailed (markFailed i)) w2
        else (Inl (Wrap ''post debit leg: '' e []), w2)
    | (Inr leg, w2) \<Rightarrow> discard (markDebited i leg (eventPayload det)) w2))" for w
    by (simp add: handleDebitRequested_def)
  fix w :: world and t
  let ?det = "detailFromRow (w_codec w) t"
  assume w: "workable truth w" and t: "transfer_row (w_db w) i t" and st: "t_status t = statusPending"
  obtain x w2 where p: "PostDebitLeg (td_transfer ?det) w = (x, w2)" by force
  have a: "advances w w2" and x: "(\<exists>leg. x = Inr leg) \<or> (\<exists>e. x = Inl e \<and> isTerminalLedgerError e)"
    using PostDebitLeg_healthy [OF w t] p by (auto simp: healthy_act_def)
  have k: "keeps truth w w2" "transfer_row (w_db w2) i t"
    using PostDebitLeg_keeps [OF workableD(1,2) [OF w] t _ p] st by simp_all
  have w2: "workable truth w2" using workable_keeps [OF w a k(1)] by simp
  note m = marks_healthy [OF w2 k(2)]
  from x show "healthy_act w (\<lambda>w. case PostDebitLeg (td_transfer ?det) w of
      (Inl e, w2) \<Rightarrow> if isTerminalLedgerError e then discard (on_terminal statusFailed (markFailed i)) w2
        else (Inl (Wrap ''post debit leg: '' e []), w2)
    | (Inr leg, w2) \<Rightarrow> discard (markDebited i leg (eventPayload ?det)) w2)"
  proof
    assume "\<exists>leg. x = Inr leg"
    then obtain leg where "x = Inr leg" ..
    then show ?thesis by (intro healthy_after [OF a finish_healthy(1) [OF m(1)]]) (simp add: p)
  next
    assume "\<exists>e. x = Inl e \<and> isTerminalLedgerError e"
    then obtain e where "x = Inl e" "isTerminalLedgerError e" by blast
    then show ?thesis by (intro healthy_after [OF a finish_healthy(1) [OF finish_healthy(2) [OF m(7)]]]) (simp add: p)
  qed
qed

lemma settle_healthy:
  assumes w: "workable truth w" and t: "transfer_row (w_db w) i t" and st: "t_status t \<in> {statusDebited, statusInDoubt}"
    and tr: "truth (t_reference t) = RAIL_STATUS_SUCCESS"
  shows "healthy_act w (settle_transfer (detailFromRow (w_codec w) t) i)"
proof -
  let ?det = "detailFromRow (w_codec w) t"
  have st': "t_status t \<notin> {statusPending, statusFailed}" using st by auto
  obtain x w2 where p: "PostSettlementLeg (td_transfer ?det) w = (Inr x, w2)" and a: "advances w w2"
    using PostSettlementLeg_healthy [OF w t st'] by (auto simp: healthy_act_def)
  have k: "keeps truth w w2" "transfer_row (w_db w2) i t"
    using PostSettlementLeg_keeps [OF workableD(1,2) [OF w] t st' tr p] by simp_all
  have w2: "workable truth w2" using workable_keeps [OF w a k(1)] by simp
  show ?thesis
    by (rule healthy_after [OF a finish_healthy(1) [OF finish_healthy(2) [OF marks_healthy(2) [OF w2 k(2)]]]])
      (simp add: settle_transfer_def p)
qed

text \<open>What follows a verdict, whoever gave it.\<close>

lemma route_healthy:
  assumes w: "workable truth w" and t: "transfer_row (w_db w) i t" and st: "t_status t \<in> {statusDebited, statusInDoubt}"
    and v: "v = VerdictSuccess \<Longrightarrow> truth (t_reference t) = RAIL_STATUS_SUCCESS"
    and u: "healthy_act w u"
  shows "healthy_act w (case v of VerdictSuccess \<Rightarrow> settle_transfer (detailFromRow (w_codec w) t) i
    | VerdictDeclined \<Rightarrow> discard (markReversalPending i p) | VerdictUnknown \<Rightarrow> u)"
  using settle_healthy [OF w t st v] finish_healthy(1) [OF marks_healthy(4) [OF w t]] u by (cases v) simp_all

lemma handleDebited_healthy:
  assumes w: "workable truth w" and t: "transfer_row (w_db w) i t"
  shows "healthy_act w (handleDebited i)"
proof (rule handler_healthyI [OF _ _ w t])
  show "handleDebited i w = (case store_load i w of (Inl e, w1) \<Rightarrow> (Inl e, w1)
      | (Inr det, w1) \<Rightarrow> if td_status det \<noteq> statusDebited then (Inr (), w1)
          else (case rail_Send (td_transfer det) w1 of
              (Inl e, w2) \<Rightarrow> (Inl (Wrap ''rail send: '' e []), w2)
            | (Inr v, w2) \<Rightarrow> (case v of VerdictSuccess \<Rightarrow> settle_transfer det i w2
                 | VerdictDeclined \<Rightarrow> discard (markReversalPending i (eventPayload det)) w2
                 | VerdictUnknown \<Rightarrow> discard (markInDoubt i (eventPayload det)) w2)))" for w
    by (simp add: handleDebited_def)
  fix w :: world and t
  let ?det = "detailFromRow (w_codec w) t"
  assume w: "workable truth w" and t: "transfer_row (w_db w) i t" and st: "t_status t = statusDebited"
  obtain v w2 where p: "rail_Send (td_transfer ?det) w = (Inr v, w2)" and a: "advances w w2" and d: "w_db w2 = w_db w"
    using rail_call_healthy [OF w, of "''rail send: ''" "t_reference t"] by (auto simp: rail_Send_def)
  have sp: "keeps truth w w2" "v = VerdictSuccess \<Longrightarrow> truth (t_reference t) = RAIL_STATUS_SUCCESS"
    using rail_call_spec [OF _ workableD(2) [OF w], of "''rail send: ''" "t_reference t" "Inr v" w2] p by (auto simp: rail_Send_def)
  have w2: "workable truth w2" and c2: "w_codec w2 = w_codec w" using workable_keeps [OF w a sp(1)] by simp_all
  have t2: "transfer_row (w_db w2) i t" using t d by simp
  have "healthy_act w2 (case v of VerdictSuccess \<Rightarrow> settle_transfer (detailFromRow (w_codec w2) t) i
    | VerdictDeclined \<Rightarrow> discard (markReversalPending i (eventPayload ?det))
    | VerdictUnknown \<Rightarrow> discard (markInDoubt i (eventPayload ?det)))"
    by (rule route_healthy [OF w2 t2 _ sp(2) finish_healthy(1) [OF marks_healthy(3) [OF w2 t2]]]) (use st in simp_all)
  then show "healthy_act w (\<lambda>w1. case rail_Send (td_transfer ?det) w1 of
      (Inl e, w2) \<Rightarrow> (Inl (Wrap ''rail send: '' e []), w2)
    | (Inr v, w2) \<Rightarrow> (case v of VerdictSuccess \<Rightarrow> settle_transfer ?det i w2
         | VerdictDeclined \<Rightarrow> discard (markReversalPending i (eventPayload ?det)) w2
         | VerdictUnknown \<Rightarrow> discard (markInDoubt i (eventPayload ?det)) w2))"
    by (rule healthy_after [OF a]) (cases v; simp add: p c2)
qed

lemma handleInDoubt_healthy:
  assumes w: "workable truth w" and t: "transfer_row (w_db w) i t"
  shows "healthy_act w (handleInDoubt q i)"
proof (rule handler_healthyI [OF _ _ w t])
  show "handleInDoubt q i w = (case store_load i w of (Inl e, w1) \<Rightarrow> (Inl e, w1)
      | (Inr det, w1) \<Rightarrow> if td_status det \<noteq> statusInDoubt then (Inr (), w1)
          else (case queryStatusWithRetry q (td_reference det) w1 of (v, w2) \<Rightarrow>
              (case v of VerdictSuccess \<Rightarrow> settle_transfer det i w2
                 | VerdictDeclined \<Rightarrow> discard (markReversalPending i (eventPayload det)) w2
                 | VerdictUnknown \<Rightarrow> discard (on_terminal statusManualReview (markManualReview i)) w2)))" for w
    by (simp add: handleInDoubt_def)
  fix w :: world and t
  let ?det = "detailFromRow (w_codec w) t"
  assume w: "workable truth w" and t: "transfer_row (w_db w) i t" and st: "t_status t = statusInDoubt"
  obtain v w2 where p: "queryStatusWithRetry q (td_reference ?det) w = (v, w2)" by force
  have loop: "tsq_loop (nat (q_attempts q)) True (q_backoff q) (t_reference t) w = (v, w2)"
    using p by (simp add: queryStatusWithRetry_def)
  have p': "queryStatusWithRetry q (t_reference t) w = (v, w2)" using p by simp
  note a = tsq_loop_advances [OF loop] and sp = tsq_loop_spec [OF loop workableD(2) [OF w]]
  have w2: "workable truth w2" and c2: "w_codec w2 = w_codec w" using workable_keeps [OF w a] sp by simp_all
  have t2: "transfer_row (w_db w2) i t" using t sp by simp
  have "healthy_act w2 (case v of VerdictSuccess \<Rightarrow> settle_transfer (detailFromRow (w_codec w2) t) i
    | VerdictDeclined \<Rightarrow> discard (markReversalPending i (eventPayload ?det))
    | VerdictUnknown \<Rightarrow> discard (on_terminal statusManualReview (markManualReview i)))"
    by (rule route_healthy [OF w2 t2 _ _ finish_healthy(1) [OF finish_healthy(2) [OF marks_healthy(6) [OF w2 t2]]]])
      (use st sp in simp_all)
  then show "healthy_act w (\<lambda>w1. case queryStatusWithRetry q (td_reference ?det) w1 of (v, w2) \<Rightarrow>
      (case v of VerdictSuccess \<Rightarrow> settle_transfer ?det i w2
         | VerdictDeclined \<Rightarrow> discard (markReversalPending i (eventPayload ?det)) w2
         | VerdictUnknown \<Rightarrow> discard (on_terminal statusManualReview (markManualReview i)) w2))"
    by (rule healthy_after [OF a]) (cases v; simp add: p' c2)
qed

lemma handleReversal_healthy:
  assumes w: "workable truth w" and t: "transfer_row (w_db w) i t"
  shows "healthy_act w (handleReversal i)"
proof -
  obtain w1 where l: "store_load i w = (Inr (detailFromRow (w_codec w) t), w1)" and s: "w_db w1 = w_db w"
    "w_codec w1 = w_codec w" and a1: "advances w w1"
    by (rule store_load_healthy [OF w t])
  have w1: "workable truth w1" by (rule workable_advances [OF w a1]) (use workableD(1) [OF w] s in simp)
  have t1: "transfer_row (w_db w1) i t" using t s by simp
  let ?det = "detailFromRow (w_codec w1) t"
  show ?thesis
  proof (cases "t_status t = statusReversalPending")
    case False
    then show ?thesis using l a1 by (auto simp: healthy_act_def handleReversal_def)
  next
    case True
    obtain leg es where leg: "td_debit_leg ?det = Some leg" and debit: "leg_fact (w_codec w1) (w_db w1) i ''debit'' = Some (leg, es)"
      using statuses_of [OF workableD(1) [OF w1] t1] True by (auto simp: statuses_match_def)
    obtain x w2 where p: "PostReversal (td_transfer ?det) leg w1 = (Inr x, w2)" and a2: "advances w1 w2"
      using PostReversal_healthy [OF w1 t1 _ debit] True by (auto simp: healthy_act_def)
    have k: "keeps truth w1 w2" "transfer_row (w_db w2) i t"
      using PostReversal_keeps [OF workableD(1,2) [OF w1] t1 _ debit p] True by simp_all
    have w2: "workable truth w2" using workable_keeps [OF w1 a2 k(1)] by simp
    obtain adv w3 where m: "on_terminal statusReversed (markReversed i) w2 = (Inr adv, w3)" and a3: "advances w2 w3"
      using finish_healthy(2) [OF marks_healthy(5) [OF w2 k(2)], where oc = statusReversed] unfolding healthy_act_def by blast
    have a: "advances w w3" using advances_trans [OF advances_trans [OF a1 a2] a3] .
    have st: "td_status (detailFromRow (w_codec w) t) = statusReversalPending" using True by simp
    have "\<exists>w4. handleReversal i w = (Inr (), w4) \<and> w_db w4 = w_db w3 \<and> w_env w4 = w_env w3 \<and> w_codec w4 = w_codec w3
        \<and> w_tick w3 \<le> w_tick w4"
      using l st leg p m s by (auto simp: handleReversal_def take_env_def observeReversalLatency_def)
    then show ?thesis using advances_cong [OF a] unfolding healthy_act_def by blast
  qed
qed

text \<open>A delivery of an event the switch writes.\<close>

lemma driver_Handle_healthy:
  assumes w: "workable truth w" and n: "names_event e (w_db w)" and ty: "v_type e \<in> event_types"
  shows "\<exists>w'. driver_Handle q e w = (Inr (), w') \<and> advances w w' \<and> workable truth w' \<and> event_settled e (w_db w')"
proof -
  obtain t where t: "transfer_row (w_db w) (v_aggregate_id e) t"
    using n sw_invD(4) [OF workableD(1) [OF w]] by (fastforce simp: names_event_def outbox_wf_def transfer_row_def)
  have "healthy_act w (driver_Handle q e)"
    using ty handleDebitRequested_healthy [OF w t] handleDebited_healthy [OF w t] handleInDoubt_healthy [OF w t, of q]
      handleReversal_healthy [OF w t]
    unfolding event_types_def driver_Handle_def [abs_def] by auto
  then obtain u w' where run: "driver_Handle q e w = (Inr u, w')" and a: "advances w w'" by (auto simp: healthy_act_def)
  have "keeps truth w w' \<and> event_settled e (w_db w')"
    using driver_Handle_ok [OF workableD(1,2) [OF w] n run] by simp
  then show ?thesis using run a workable_keeps [OF w a] by auto
qed

end
