(* ===== verification/HealthyPoll.thy ===== *)
theory HealthyPoll
  imports HealthyDriver SwitchSystem
begin

text \<open>
  Draining the outbox in a healthy world: every delivery lowers the workload, so the poller comes to an
  end, and it ends only when no live event is left. Every unfinished transfer has one, so all are finished then.
\<close>

section \<open>The backlog\<close>

text \<open>Every live event is one the driver knows, due now or among \<open>held\<close>, the ids the current batch has
  under its lease; dead letters may lie around. Every unfinished transfer has a live event of the type its
  status calls for.\<close>

definition live_driven :: "db \<Rightarrow> bool" where
  "live_driven d \<longleftrightarrow> (\<forall>t \<in> set (transfers d). eventForStatus (t_status t) \<noteq> [] \<longrightarrow>
     (\<exists>r \<in> set (outbox d). drives r t \<and> live r))"

definition backlog :: "nat set \<Rightarrow> (string \<Rightarrow> rail_status) \<Rightarrow> world \<Rightarrow> bool" where
  "backlog held truth w \<longleftrightarrow> workable truth w \<and> live_driven (w_db w)
     \<and> (\<forall>r \<in> set (outbox (w_db w)). live r \<longrightarrow>
          o_event_type r \<in> event_types
          \<and> (o_id r \<in> held \<or> o_next_attempt_at r \<le> e_now (w_env w (w_tick w))))"

lemma workable_outbox:
  assumes w: "workable truth w" and inv: "sw_inv truth (w_codec w) (w_db w')" and tk: "ticked w w'"
    and same: "accounts (w_db w') = accounts (w_db w)" "transactions (w_db w') = transactions (w_db w)"
      "entries (w_db w') = entries (w_db w)"
  shows "workable truth w'"
proof -
  have env: "w_env w' = w_env w" "w_codec w' = w_codec w" using tk by (simp_all add: ticked_def)
  have "open_amount c (w_db w') t = open_amount c (w_db w) t" for c t
    using leg_fact_cong [OF same(2,3)] by (simp add: open_amount_def)
  then have "open_amount c (w_db w') = open_amount c (w_db w)" for c by (simp add: fun_eq_iff)
  then have "exposure (w_codec w) (w_db w') = exposure (w_codec w) (w_db w)"
    by (simp add: exposure_def transfers_def same)
  then show ?thesis
    using w inv env same healthy_ticked [OF workableD(3) [OF w] tk] driver_env_same [OF workableD(2) [OF w] env]
    by (simp add: workable_def char3_columns_def transfers_def find_account_def)
qed

lemma live_driven_extended:
  assumes d: "live_driven d" and ob: "outbox d' = outbox d @ new" and new: "\<forall>r \<in> set new. live r" and c: "covered d new d'"
  shows "live_driven d'"
  unfolding live_driven_def
proof (intro ballI impI)
  fix t' assume t': "t' \<in> set (transfers d')" and e: "eventForStatus (t_status t') \<noteq> []"
  consider t where "t \<in> set (transfers d)" "t_id t = t_id t'" "t_status t = t_status t'" | r where "r \<in> set new" "drives r t'"
    using c t' e unfolding covered_def by blast
  then show "\<exists>r \<in> set (outbox d'). drives r t' \<and> live r"
  proof cases
    case 1
    then obtain r where "r \<in> set (outbox d)" "drives r t" "live r" using d e by (auto simp: live_driven_def)
    then show ?thesis using 1 ob by (auto simp: drives_def)
  next
    case 2
    then show ?thesis using new ob by auto
  qed
qed

lemma live_drivenI:
  assumes inv: "sw_inv truth c d" and none: "\<forall>r \<in> set (outbox d). o_published_at r = None \<longrightarrow> \<not> o_dead_letter r"
  shows "live_driven d"
  unfolding live_driven_def
proof (intro ballI impI)
  fix t assume "t \<in> set (transfers d)" "eventForStatus (t_status t) \<noteq> []"
  then show "\<exists>r \<in> set (outbox d). drives r t \<and> live r"
    using sw_invD(6) [OF inv, of t] none by (auto simp: driven_def drives_def live_def transfers_mem)
qed

text \<open>Events may be marked or moved as long as each live one that drives a transfer stays so.\<close>

lemma live_driven_update:
  assumes "live_driven d" and "transactions d' = transactions d" and "outbox d' = update_where P f (outbox d)"
    and "\<And>r t. r \<in> set (outbox d) \<Longrightarrow> P r \<Longrightarrow> t \<in> set (transfers d) \<Longrightarrow> eventForStatus (t_status t) \<noteq> [] \<Longrightarrow>
      drives r t \<Longrightarrow> live r \<Longrightarrow> drives (f r) t \<and> live (f r)"
  shows "live_driven d'"
  unfolding live_driven_def
proof (intro ballI impI)
  fix t assume "t \<in> set (transfers d')" and e: "eventForStatus (t_status t) \<noteq> []"
  then have t: "t \<in> set (transfers d)" using assms(2) by (simp add: transfers_def)
  then obtain r where r: "r \<in> set (outbox d)" "drives r t" "live r" using assms(1) e by (auto simp: live_driven_def)
  have "(if P r then f r else r) \<in> set (outbox d')" using r(1) assms(3) by (auto simp: update_where_def)
  moreover have "drives (if P r then f r else r) t \<and> live (if P r then f r else r)" using assms(4) [OF r(1) _ t e] r(2,3) by simp
  ultimately show "\<exists>r \<in> set (outbox d'). drives r t \<and> live r" by blast
qed

lemma unpublished_update_where:
  "(\<And>r. o_published_at (f r) = o_published_at r) \<Longrightarrow>
   length (filter (\<lambda>r. o_published_at r = None) (update_where P f rs)) = length (filter (\<lambda>r. o_published_at r = None) rs)"
  by (induction rs) (auto simp: update_where_def)

text \<open>Publishing an undelivered event takes one off the workload.\<close>

lemma unpublished_publish:
  "distinct (map o_id rs) \<Longrightarrow> r \<in> set rs \<Longrightarrow> o_published_at r = None \<Longrightarrow>
   Suc (length (filter (\<lambda>r. o_published_at r = None)
      (update_where (\<lambda>s. o_id s = o_id r) (\<lambda>s. s\<lparr>o_published_at := Some now\<rparr>) rs)))
   = length (filter (\<lambda>r. o_published_at r = None) rs)"
proof (induction rs)
  case (Cons s rs)
  show ?case
  proof (cases "s = r")
    case True
    then have "o_id x \<noteq> o_id r" if "x \<in> set rs" for x using Cons.prems(1) that by (metis True distinct.simps(2) image_eqI list.simps(9) set_map)
    then have "update_where (\<lambda>s. o_id s = o_id r) (\<lambda>s. s\<lparr>o_published_at := Some now\<rparr>) rs = rs"
      unfolding update_where_def by (intro map_idI) auto
    then show ?thesis using True Cons.prems(3) by simp
  next
    case False
    then have "r \<in> set rs" "o_id s \<noteq> o_id r" using Cons.prems by auto
    then show ?thesis using Cons by auto
  qed
qed simp

section \<open>One delivery\<close>

lemma deliver_healthy:
  assumes b: "backlog (insert (o_id r) held) truth w" and r: "r \<in> set (outbox (w_db w))" "live r"
    and w': "w' = deliver (driver_Handle q) cfg r w"
  shows "backlog held truth w'" and "Suc (workload (w_db w')) \<le> workload (w_db w)"
    and "s \<in> set (outbox (w_db w)) \<Longrightarrow> o_id s \<noteq> o_id r \<Longrightarrow> s \<in> set (outbox (w_db w'))"
proof -
  have w: "workable truth w" and ty: "o_event_type r \<in> event_types" using b r by (auto simp: backlog_def)
  have n: "names_event (event_of r) (w_db w)" using r(1) by (auto simp: names_event_def event_of_def)
  obtain w1 where run: "driver_Handle q (event_of r) w = (Inr (), w1)" and a: "advances w w1"
    and w1: "workable truth w1" and settled: "event_settled (event_of r) (w_db w1)"
    using driver_Handle_healthy [OF w n, of q] ty by (auto simp: event_of_def)
  obtain new where ob: "outbox (w_db w1) = outbox (w_db w) @ new" and new: "\<forall>x \<in> set new. appended w w1 x"
    and cov: "covered (w_db w) new (w_db w1)"
    using a by (auto simp: advances_def)
  have env: "w_env w1 = w_env w" "w_codec w1 = w_codec w" "w_tick w \<le> w_tick w1" using a by (simp_all add: advances_def ticked_def)
  let ?now = "e_now (w_env w1 (w_tick w1))"
  let ?d = "publish (o_id r) ?now (w_db w1)"
  have fault: "e_fault (w_env w1 (w_tick w1)) = NoFault" by (rule healthyD(1) [OF workableD(3) [OF w1]])
  have "run_stmt (MarkOutboxPublished (o_id r)) w1 = (Inr (), w1\<lparr>w_tick := Suc (w_tick w1), w_db := ?d\<rparr>)"
    unfolding run_stmt_def
    by (rule run_tx_no_fault [OF fault]) (simp_all add: MarkOutboxPublished_def publish_def no_triggers_def)
  then have eq: "w' = w1\<lparr>w_tick := Suc (w_tick w1), w_db := ?d\<rparr>" using run w' by (simp add: deliver_def)
  have same: "accounts ?d = accounts (w_db w1)" "transactions ?d = transactions (w_db w1)" "entries ?d = entries (w_db w1)"
    and outb: "outbox ?d = update_where (\<lambda>s. o_id s = o_id r) (\<lambda>s. s\<lparr>o_published_at := Some ?now\<rparr>) (outbox (w_db w1))"
    by (simp_all add: publish_def)
  have n1: "names_event (event_of r) (w_db w1)" by (rule names_event_mono [OF n]) (simp add: ob)
  have "sw_inv truth (w_codec w1) ?d"
    using sw_inv_publish [OF workableD(1) [OF w1] n1 settled, of ?now] by (simp add: event_of_def)
  then have wk: "workable truth w'"
    unfolding eq by (intro workable_outbox [OF w1]) (auto simp: same used_ids_def intro!: ticked_same_ids)
  have wf: "distinct (map o_id (outbox (w_db w1)))"
    using sw_invD(4) [OF workableD(1) [OF w1]] by (simp add: outbox_wf_def)
  have r1: "r \<in> set (outbox (w_db w1))" using r(1) ob by simp
  show "Suc (workload (w_db w')) \<le> workload (w_db w)"
  proof -
    have "Suc (workload ?d) = workload (w_db w1)"
      using unpublished_publish [OF wf r1, of ?now] r(2) by (simp add: workload_def outb transfers_def same live_def)
    then show ?thesis using a by (simp add: eq advances_def)
  qed
  show "s \<in> set (outbox (w_db w'))" if "s \<in> set (outbox (w_db w))" "o_id s \<noteq> o_id r"
    using that unfolding eq by (auto simp: outb ob update_where_def intro!: image_eqI [of _ _ s])
  have mono: "e_now (w_env w m) \<le> e_now (w_env w (Suc (w_tick w1)))" if "w_tick w \<le> m" "m \<le> w_tick w1" for m
    using healthyD(7) [OF workableD(3) [OF w] that(1), of "Suc (w_tick w1)"] that(2) by simp
  have "live_driven (w_db w1)"
    by (rule live_driven_extended [OF _ ob _ cov]) (use b new in \<open>auto simp: backlog_def appended_def live_def\<close>)
  then have driven: "live_driven ?d"
  proof (rule live_driven_update [OF _ same(2) outb])
    fix x t assume x: "x \<in> set (outbox (w_db w1))" "o_id x = o_id r" "drives x t"
      and t: "t \<in> set (transfers (w_db w1))" "eventForStatus (t_status t) \<noteq> []"
    have "x = r" using wf r1 x(1,2) by (metis distinct_map inj_onD)
    then show "drives (x\<lparr>o_published_at := Some ?now\<rparr>) t \<and> live (x\<lparr>o_published_at := Some ?now\<rparr>)"
      using settled x(3) t by (auto simp: event_settled_def event_of_def drives_def transfers_mem)
  qed
  have "o_event_type x \<in> event_types
      \<and> (o_id x \<in> held \<or> o_next_attempt_at x \<le> e_now (w_env w (Suc (w_tick w1))))"
    if x: "x \<in> set (outbox ?d)" "live x" for x
  proof -
    have x1: "x \<in> set (outbox (w_db w1))" and ne: "o_id x \<noteq> o_id r"
      using x unfolding outb update_where_def by (auto simp: live_def split: if_splits)
    then consider "x \<in> set (outbox (w_db w))" | "appended w w1 x" using ob new by auto
    then show ?thesis
    proof cases
      case 1
      then show ?thesis
        using b x(2) ne mono [OF order_refl env(3)] unfolding backlog_def by (auto intro: order_trans)
    next
      case 2
      then show ?thesis using mono by (auto simp: appended_def)
    qed
  qed
  then show "backlog held truth w'" using wk driven by (simp add: backlog_def eq env)
qed

section \<open>A batch\<close>

lemma deliver_all_healthy:
  "backlog (o_id ` set rs) truth w \<Longrightarrow> distinct (map o_id rs) \<Longrightarrow>
   (\<And>r. r \<in> set rs \<Longrightarrow> r \<in> set (outbox (w_db w)) \<and> live r) \<Longrightarrow>
   w' = deliver_all (driver_Handle q) cfg rs w \<Longrightarrow>
   backlog {} truth w' \<and> workload (w_db w') + length rs \<le> workload (w_db w)"
proof (induction rs arbitrary: w)
  case (Cons r rs)
  define w1 where "w1 = deliver (driver_Handle q) cfg r w"
  have b: "backlog (insert (o_id r) (o_id ` set rs)) truth w" using Cons.prems(1) by simp
  have r: "r \<in> set (outbox (w_db w))" "live r" using Cons.prems(3) by auto
  note d = deliver_healthy [OF b r w1_def]
  have "backlog {} truth w' \<and> workload (w_db w') + length rs \<le> workload (w_db w1)"
  proof (rule Cons.IH)
    show "s \<in> set (outbox (w_db w1)) \<and> live s" if "s \<in> set rs" for s
    proof -
      have "o_id s \<noteq> o_id r" using Cons.prems(2) that by (metis distinct.simps(2) image_eqI list.simps(9) set_map)
      then show ?thesis using d(3) Cons.prems(3) that by simp
    qed
  qed (use d(1) Cons.prems in \<open>simp_all add: w1_def\<close>)
  then show ?case using d(2) by simp
qed simp

lemma claimed_due:
  assumes "distinct (map o_id rs)" "r \<in> set rs" "o_id r \<in> set (claimed_ids now n rs)"
  shows "due now r"
proof -
  obtain s where s: "s \<in> set (take n (sort_key o_created_at (filter (due now) rs)))" "o_id s = o_id r"
    using assms(3) by (auto simp: claimed_ids_def)
  then have "s \<in> set (sort_key o_created_at (filter (due now) rs))" by (meson in_set_takeD)
  then have "s \<in> set rs" "due now s" by auto
  moreover have "inj_on o_id (set rs)" using assms(1) by (simp add: distinct_map)
  ultimately show ?thesis using assms(2) s(2) by (metis inj_onD)
qed

lemma claimed_none: "0 < n \<Longrightarrow> claimed_ids now n rs = [] \<Longrightarrow> r \<in> set rs \<Longrightarrow> \<not> due now r"
proof -
  assume n: "0 < n" and none: "claimed_ids now n rs = []" and r: "r \<in> set rs"
  have "sort_key o_created_at (filter (due now) rs) = []" using n none by (auto simp: claimed_ids_def)
  then have "set (filter (due now) rs) = {}" by (metis set_sort list.set(1))
  then have "filter (due now) rs = []" by simp
  then show ?thesis using r by (simp add: filter_empty_conv)
qed

text \<open>A tick claims without error, delivers all it claimed, and claims nothing only when no event is
  left.\<close>

lemma tick_healthy:
  assumes b: "backlog {} truth w" and n: "0 < sint (c_batch cfg)"
  shows "\<exists>k w'. poller_tick (driver_Handle q) cfg w = (Inr k, w') \<and> backlog {} truth w'
    \<and> workload (w_db w') + k \<le> workload (w_db w)
    \<and> (k = 0 \<longrightarrow> (\<forall>r \<in> set (outbox (w_db w')). \<not> live r))
    \<and> ((\<forall>r \<in> set (outbox (w_db w)). \<not> live r) \<longrightarrow> k = 0)"
proof -
  have w: "workable truth w" using b by (simp add: backlog_def)
  let ?ev = "w_env w (w_tick w)" and ?d = "w_db w" and ?n = "nat (sint (c_batch cfg))"
  let ?ids = "claimed_ids (e_now ?ev) ?n (outbox ?d)"
  define rows where "rows = update_where (\<lambda>r. o_id r \<in> set ?ids) (\<lambda>r. r\<lparr>o_next_attempt_at := e_now ?ev + c_lease cfg\<rparr>) (outbox ?d)"
  define batch where "batch = filter (\<lambda>r. o_id r \<in> set ?ids) rows"
  define w1 where "w1 = w\<lparr>w_tick := Suc (w_tick w), w_db := ?d\<lparr>outbox := rows\<rparr>\<rparr>"
  have claim: "ClaimOutboxBatch (c_lease cfg) ?n ?ev ?d = Inr (batch, ?d\<lparr>outbox := rows\<rparr>)"
    by (simp add: ClaimOutboxBatch_def Let_def rows_def batch_def)
  have "run_stmt (ClaimOutboxBatch (c_lease cfg) ?n) w = (Inr batch, w1)"
    unfolding run_stmt_def w1_def
    by (rule run_tx_no_fault [OF healthyD(1) [OF workableD(3) [OF w]]]) (simp_all add: claim no_triggers_def)
  then have tick: "poller_tick (driver_Handle q) cfg w = (Inr (length batch), deliver_all (driver_Handle q) cfg batch w1)"
    by (simp add: poller_tick_def)
  have wf: "distinct (map o_id (outbox ?d))" using sw_invD(4) [OF workableD(1) [OF w]] by (simp add: outbox_wf_def)
  have ids: "map o_id rows = map o_id (outbox ?d)" unfolding rows_def by (simp add: map_update_where)
  have "bookkeeping ?d (?d\<lparr>outbox := rows\<rparr>)" by (rule outbox_statements(1) [OF claim])
  then have "sw_inv truth (w_codec w) (?d\<lparr>outbox := rows\<rparr>)" by (rule sw_inv_bookkeeping [OF workableD(1) [OF w]])
  then have wk1: "workable truth w1"
    by (intro workable_outbox [OF w]) (auto simp: w1_def used_ids_def intro!: ticked_same_ids)
  have later: "e_now ?ev \<le> e_now (w_env w (Suc (w_tick w)))" by (rule healthyD(7) [OF workableD(3) [OF w]]) simp_all
  have row: "o_event_type r \<in> event_types
      \<and> (o_id r \<in> o_id ` set batch \<or> o_next_attempt_at r \<le> e_now (w_env w (Suc (w_tick w))))"
    if r: "r \<in> set rows" "live r" for r
  proof -
    obtain s where s: "s \<in> set (outbox ?d)"
      "r = (if o_id s \<in> set ?ids then s\<lparr>o_next_attempt_at := e_now ?ev + c_lease cfg\<rparr> else s)"
      using r(1) unfolding rows_def update_where_def by auto
    then have ok: "o_event_type s \<in> event_types" "o_next_attempt_at s \<le> e_now ?ev"
      using b r(2) by (auto simp: backlog_def live_def split: if_splits)
    show ?thesis
    proof (cases "o_id s \<in> set ?ids")
      case True
      then have "r \<in> set batch" using r(1) s(2) by (simp add: batch_def)
      then have "o_id r \<in> o_id ` set batch" by (rule imageI)
      moreover have "o_event_type r \<in> event_types" using ok s(2) by simp_all
      ultimately show ?thesis by blast
    next
      case False
      then show ?thesis using ok s(2) later by simp
    qed
  qed
  have batch: "r \<in> set rows \<and> live r" if "r \<in> set batch" for r
  proof -
    have rr: "r \<in> set rows" "o_id r \<in> set ?ids" using that by (simp_all add: batch_def)
    then obtain s where s: "s \<in> set (outbox ?d)" "o_id s = o_id r" "live s = live r"
      unfolding rows_def update_where_def by (auto simp: live_def split: if_splits)
    then have "due (e_now ?ev) s" using claimed_due [OF wf s(1)] rr(2) by simp
    then show ?thesis using rr(1) s(3) by (simp add: due_def)
  qed
  have "live_driven (?d\<lparr>outbox := rows\<rparr>)"
    by (rule live_driven_update [of ?d, OF _ _ rows_def [THEN trans [rotated]]])
      (use b in \<open>auto simp: backlog_def drives_def live_def\<close>)
  then have driven1: "live_driven (w_db w1)" by (simp add: w1_def)
  have b1: "backlog (o_id ` set batch) truth w1"
    unfolding backlog_def using wk1 driven1 row by (simp add: w1_def)
  have b2: "distinct (map o_id batch)"
    using wf ids unfolding batch_def by (metis distinct_map_filter)
  have b3: "r \<in> set (outbox (w_db w1)) \<and> live r" if "r \<in> set batch" for r
    using batch [OF that] by (simp add: w1_def)
  have all: "backlog {} truth (deliver_all (driver_Handle q) cfg batch w1)
      \<and> workload (w_db (deliver_all (driver_Handle q) cfg batch w1)) + length batch \<le> workload (w_db w1)"
    by (rule deliver_all_healthy [OF b1 b2 b3 refl])
  have load: "workload (w_db w1) = workload ?d"
    using unpublished_update_where [of "\<lambda>r. r\<lparr>o_next_attempt_at := e_now ?ev + c_lease cfg\<rparr>" "\<lambda>r. o_id r \<in> set ?ids" "outbox ?d"]
    by (simp add: workload_def w1_def rows_def transfers_def)
  have rest: "\<not> live r" if none: "length batch = 0" and r: "r \<in> set (outbox (w_db w1))" for r
  proof
    assume u: "live r"
    have "?ids = []"
    proof (rule ccontr)
      assume "?ids \<noteq> []"
      then obtain i where i: "i \<in> set ?ids" using hd_in_set by blast
      then have "i \<in> o_id ` set (outbox ?d)" by (auto simp: claimed_ids_def dest!: in_set_takeD)
      then have "i \<in> set (map o_id rows)" unfolding ids by simp
      then obtain x where "x \<in> set rows" "o_id x = i" by auto
      then have "x \<in> set batch" using i by (simp add: batch_def)
      then show False using none by simp
    qed
    then have "rows = outbox ?d" by (simp add: rows_def update_where_def)
    then have r': "r \<in> set (outbox ?d)" using r by (simp add: w1_def)
    then have "due (e_now ?ev) r" using b u by (auto simp: due_def backlog_def)
    moreover have "\<not> due (e_now ?ev) r"
      by (rule claimed_none [OF _ \<open>?ids = []\<close> r']) (use n in simp)
    ultimately show False by simp
  qed
  have idle: "length batch = 0" if none: "\<forall>r \<in> set (outbox ?d). \<not> live r"
  proof -
    have "filter (due (e_now ?ev)) (outbox ?d) = []" using none by (auto simp: filter_empty_conv due_def)
    then show ?thesis by (simp add: batch_def claimed_ids_def)
  qed
  show ?thesis
  proof (intro exI conjI)
    show "(\<forall>r \<in> set (outbox ?d). \<not> live r) \<longrightarrow> length batch = 0" using idle by blast
    show "poller_tick (driver_Handle q) cfg w = (Inr (length batch), deliver_all (driver_Handle q) cfg batch w1)" by (rule tick)
    show "length batch = 0 \<longrightarrow> (\<forall>r \<in> set (outbox (w_db (deliver_all (driver_Handle q) cfg batch w1))). \<not> live r)"
      using rest by auto
  qed (use all load in simp_all)
qed

section \<open>Draining\<close>

lemma drain_healthy:
  "backlog {} truth w \<Longrightarrow> 0 < sint (c_batch cfg) \<Longrightarrow> workload (w_db w) < fuel \<Longrightarrow>
   \<exists>w'. poller_drain fuel (driver_Handle q) cfg w = Some (Inr (), w') \<and> backlog {} truth w'
     \<and> (\<forall>r \<in> set (outbox (w_db w')). \<not> live r)"
proof (induction fuel arbitrary: w)
  case (Suc fuel)
  obtain k w1 where t: "poller_tick (driver_Handle q) cfg w = (Inr k, w1)" and b: "backlog {} truth w1"
    and l: "workload (w_db w1) + k \<le> workload (w_db w)"
    and z: "k = 0 \<longrightarrow> (\<forall>r \<in> set (outbox (w_db w1)). \<not> live r)"
    using tick_healthy [OF Suc.prems(1,2), of q] by blast
  show ?case
  proof (cases "k = 0")
    case True
    then show ?thesis using t b z by simp
  next
    case False
    then have "workload (w_db w1) < fuel" using l Suc.prems(3) by simp
    from Suc.IH [OF b Suc.prems(2) this] show ?thesis using t False by simp
  qed
qed simp

text \<open>So does the loop of the service: an idle tick changes nothing that matters, and there are at most
  as many busy ones as there is work.\<close>

lemma ticks_healthy:
  "backlog {} truth w \<Longrightarrow> 0 < sint (c_batch cfg) \<Longrightarrow> workload (w_db w) < n \<or> (\<forall>r \<in> set (outbox (w_db w)). \<not> live r) \<Longrightarrow>
   poller_Run (driver_Handle q) cfg (replicate n TickerFired) w = (b, w') \<Longrightarrow>
   backlog {} truth w' \<and> (\<forall>r \<in> set (outbox (w_db w')). \<not> live r)"
proof (induction n arbitrary: w)
  case (Suc n)
  obtain k w1 where t: "poller_tick (driver_Handle q) cfg w = (Inr k, w1)" and b: "backlog {} truth w1"
    and l: "workload (w_db w1) + k \<le> workload (w_db w)"
    and z: "k = 0 \<longrightarrow> (\<forall>r \<in> set (outbox (w_db w1)). \<not> live r)"
    and i: "(\<forall>r \<in> set (outbox (w_db w)). \<not> live r) \<longrightarrow> k = 0"
    using tick_healthy [OF Suc.prems(1,2), of q] by blast
  have "workload (w_db w1) < n \<or> (\<forall>r \<in> set (outbox (w_db w1)). \<not> live r)"
    using l z i Suc.prems(3) by (cases "k = 0") auto
  from Suc.IH [OF b Suc.prems(2) this] show ?case using Suc.prems(4) t by simp
qed auto

text \<open>With no live event left, every transfer has ended.\<close>

lemma drained_finished:
  assumes b: "backlog {} truth w" and none: "\<forall>r \<in> set (outbox (w_db w)). \<not> live r"
    and t: "t \<in> set (transactions (w_db w))" "lifecycle t"
  shows "isTerminalStatus (t_status t)"
proof -
  have w: "workable truth w" and d: "live_driven (w_db w)" using b by (simp_all add: backlog_def)
  have st: "t_status t \<in> set switch_statuses"
    using sw_invD(5) [OF workableD(1) [OF w] t] by (simp add: transfer_ok_def statuses_match_def)
  have "eventForStatus (t_status t) = []" using d none t by (auto simp: live_driven_def transfers_mem)
  then have "t_status t \<notin> {statusPending, statusDebited, statusInDoubt, statusReversalPending}"
    by (auto simp: eventForStatus_def split: if_splits)
  then show ?thesis using terminal_switch_status [OF st] by simp
qed

end
