(* ===== verification/ProgressClaims.thy ===== *)
theory ProgressClaims
  imports HealthyPoll SwitchClaims
begin

text \<open>
  What becomes of transfers: in a healthy world all of them end; one whose destination the ledger does
  not know never does; a refund mirrors its debit; a leased event is not delivered twice at once.
\<close>

section \<open>Everything ends in a healthy world\<close>

text \<open>C4. When the faults stop, the switch finishes its work: if from now on the database and the network
  answer, the rail answers or leaves a call undecided, drawn identifiers are new and the clock does not go
  back, and if every transfer's destination is an account, the journal has room for the open legs, every
  live event is due and every unfinished transfer has one (dead letters may lie around), then draining the
  outbox returns, no live event is left and every transfer has reached a terminal status. Fuel for one tick
  more than the workload (undelivered events plus status ranks) is enough.\<close>

theorem healthy_outbox_drains:
  assumes "backlog {} truth w" and "0 < sint (c_batch cfg)" and "workload (w_db w) < fuel"
  shows "\<exists>w'. poller_drain fuel (driver_Handle q) cfg w = Some (Inr (), w')
    \<and> sane truth w' \<and> db_evolves (w_codec w) (w_db w) (w_db w')
    \<and> (\<forall>r \<in> set (outbox (w_db w')). \<not> live r)
    \<and> (\<forall>t \<in> set (transactions (w_db w')). lifecycle t \<longrightarrow> isTerminalStatus (t_status t))"
proof -
  obtain w' where run: "poller_drain fuel (driver_Handle q) cfg w = Some (Inr (), w')" and b: "backlog {} truth w'"
    and none: "\<forall>r \<in> set (outbox (w_db w')). \<not> live r"
    using drain_healthy [OF assms, of q] by blast
  have w: "workable truth w" and w': "workable truth w'" using assms(1) b by (simp_all add: backlog_def)
  have "(driver_env truth w' \<and> w_codec w' = w_codec w)
      \<and> sw_inv truth (w_codec w) (w_db w') \<and> db_evolves (w_codec w) (w_db w) (w_db w')"
    by (rule drv.drain_inv [OF _ _ run]) (use workableD(1,2) [OF w] in simp_all)
  then show ?thesis
    using run none drained_finished [OF b none] by (auto simp: sane_def)
qed

section \<open>An unknown destination\<close>

text \<open>C14. The one way a debit is stranded: once the source of a transfer is debited, if the rail accepted
  the payment but the ledger has no account for its destination, then whatever happens afterwards,
  retries, recovery sweeps and restarts included, the transfer is neither paid out nor refunded: it stays
  debited, in doubt or under manual review with its debit leg posted and no other.\<close>

theorem unknown_destination_strands_the_debit:
  assumes "fresh_db (w_db w0)" and "driver_env truth w0" and "sw_runs q cfg sha truth w0 w1"
    and "t \<in> set (transactions (w_db w1))" and "lifecycle t"
    and "t_status t \<notin> {statusPending, statusFailed}" and "truth (t_reference t) = RAIL_STATUS_SUCCESS"
    and "find_account (td_destination (detailFromRow (w_codec w0) t)) (w_db w1) = None"
    and "sw_runs q cfg sha truth w1 w2"
  shows "\<exists>t' \<in> set (transactions (w_db w2)). evolves (w_codec w0) t t'
    \<and> t_status t' \<in> {statusDebited, statusInDoubt, statusManualReview}
    \<and> leg_posted (w_codec w0) (w_db w2) t' ''debit''
    \<and> \<not> leg_posted (w_codec w0) (w_db w2) t' ''settle'' \<and> \<not> leg_posted (w_codec w0) (w_db w2) t' ''reversal''"
proof -
  let ?c = "w_codec w0"
  have "sane truth w0" using assms(1,2) fresh_inv by (simp add: sane_def driver_env_def world_ok_def)
  then have f1: "follows truth w0 w1" by (rule runs_follow [OF assms(3)])
  then have f2: "follows truth w1 w2" using runs_follow [OF assms(9)] by (simp add: follows_def)
  have c: "w_codec w1 = ?c" "w_codec w2 = ?c" using f1 f2 by (simp_all add: follows_def)
  have inv: "sw_inv truth ?c (w_db w2)" using f2 c by (simp add: follows_def sane_def)
  have ev: "db_evolves ?c (w_db w1) (w_db w2)" using f2 c by (simp add: follows_def)
  then obtain t' where t': "t' \<in> set (transactions (w_db w2))" "evolves ?c t t'" using assms(4) by (auto simp: db_evolves_def)
  have lc: "lifecycle t'" and sides: "leg_sides (detailFromRow ?c t') = leg_sides (detailFromRow ?c t)"
    and ref: "t_reference t' = t_reference t" using t'(2) assms(5) by (simp_all add: evolves_def)
  have row: "transfer_row (w_db w2) (t_id t') t'" using t'(1) lc by (simp add: transfer_row_def)
  note sm = statuses_of [OF inv row]
  have "canTransitionStatus\<^sup>*\<^sup>* s s' \<Longrightarrow> s \<notin> {statusPending, statusFailed} \<Longrightarrow> s' \<notin> {statusPending, statusFailed}" for s s'
    by (induction rule: rtranclp_induct) (auto simp: canTransitionStatus_iff)
  then have moved: "t_status t' \<notin> {statusPending, statusFailed}" using t'(2) assms(6) unfolding evolves_def by blast
  have settle: "\<not> leg_posted ?c (w_db w2) t' ''settle''"
  proof
    assume "leg_posted ?c (w_db w2) t' ''settle''"
    then have "find_account (snd (leg_sides (detailFromRow ?c t') ''settle'')) (w_db w2) \<noteq> None"
      by (auto simp: leg_posted_def leg_posts_def split: option.splits)
    then have "find_account (td_destination (detailFromRow ?c t)) (w_db w2) \<noteq> None" using sides by (simp add: leg_sides_def)
    then show False using assms(8) ev by (simp add: db_evolves_def find_account_def)
  qed
  then have none: "leg_fact ?c (w_db w2) (t_id t') ''settle'' = None"
    using leg_posted_iff [OF inv row leg_names_mem(2)] by (cases "leg_fact ?c (w_db w2) (t_id t') ''settle''") auto
  have truth: "truth (t_reference t') \<noteq> RAIL_STATUS_DECLINED" using ref assms(7) by simp
  have st: "t_status t' \<in> {statusDebited, statusInDoubt, statusManualReview}"
  proof -
    have "t_status t' \<in> set switch_statuses" using sm by (simp add: statuses_match_def)
    moreover have "t_status t' \<noteq> statusSettled" using sm none unfolding statuses_match_def by blast
    moreover have "t_status t' \<notin> {statusReversalPending, statusReversed}" using sm truth unfolding statuses_match_def by blast
    ultimately show ?thesis using moved by (auto simp: switch_statuses_def)
  qed
  have "leg_fact ?c (w_db w2) (t_id t') ''debit'' \<noteq> None" using sm moved unfolding statuses_match_def by fastforce
  then have "leg_posted ?c (w_db w2) t' ''debit''" using leg_posted_iff [OF inv row leg_names_mem(1)] by simp
  moreover have "\<not> leg_posted ?c (w_db w2) t' ''reversal''"
    using legs_truth(2) [OF sm] truth leg_posted_iff [OF inv row leg_names_mem(3)] by blast
  ultimately show ?thesis using t' st settle by blast
qed

section \<open>Refunds\<close>

text \<open>C8. In every reachable world each reversal that names a parent is the refund of one transfer: the
  parent is that transfer's debit leg, the refund moves the same amount back from the settlement account
  to the source, the rail declined the transfer, and no second reversal names the same debit.\<close>

theorem refunds_mirror_their_debit:
  assumes "fresh_db (w_db w0)" and "driver_env truth w0" and "sw_runs q cfg sha truth w0 w"
    and "u \<in> set (transactions (w_db w))" and "t_type u = ''reversal''" and "t_parent u = Some p"
  shows "\<exists>t \<in> set (transactions (w_db w)). lifecycle t \<and> truth (t_reference t) = RAIL_STATUS_DECLINED
      \<and> (\<exists>es es'. leg_fact (w_codec w0) (w_db w) (t_id t) ''debit'' = Some (p, es)
          \<and> leg_fact (w_codec w0) (w_db w) (t_id t) ''reversal'' = Some (t_id u, es')
          \<and> leg_posts (w_db w) es (td_source (detailFromRow (w_codec w0) t)) settlementAccount (td_amount (detailFromRow (w_codec w0) t))
          \<and> leg_posts (w_db w) es' settlementAccount (td_source (detailFromRow (w_codec w0) t)) (td_amount (detailFromRow (w_codec w0) t)))
    \<and> (\<forall>x \<in> set (transactions (w_db w)). t_type x = ''reversal'' \<and> t_parent x = Some p \<longrightarrow> x = u)"
proof -
  let ?c = "w_codec w0" and ?d = "w_db w"
  have inv: "sw_inv truth ?c ?d" by (rule runs_inv [OF assms(1-3)])
  note own = sw_invD(8) [OF inv] and l = sw_invD(2) [OF inv]
  obtain i where k: "t_idempotency_key u = Some (legKey ?c i ''reversal'')"
    using own assms(4-6) unfolding refunds_owned_def by blast
  have "\<exists>q es. t_parent u = Some q \<and> leg_fact ?c ?d i ''debit'' = Some (q, es)"
    using own assms(4) k unfolding refunds_owned_def by blast
  then obtain es where debit: "leg_fact ?c ?d i ''debit'' = Some (p, es)" using assms(6) by auto
  obtain t where t: "t \<in> set (transactions ?d)" "lifecycle t" "t_id t = i"
    using sw_invD(3) [OF inv] assms(4) k unfolding legs_owned_def by (metis leg_names_mem(3))
  have row: "transfer_row ?d i t" using t by (simp add: transfer_row_def)
  obtain v where v: "find_tx_by_key (legKey ?c i ''reversal'') ?d = Some v"
    using assms(4) k by (cases "find_tx_by_key (legKey ?c i ''reversal'') ?d") (auto simp: find_tx_by_key_def find_None_all)
  have same_key: "x = y" if "x \<in> set (transactions ?d)" "y \<in> set (transactions ?d)" "t_idempotency_key x = Some key"
    "t_idempotency_key y = Some key" for x y key
  proof (rule ccontr)
    assume "x \<noteq> y"
    moreover have "tx_clash x y" "tx_clash y x" using that(3,4) by (simp_all add: tx_clash_def)
    ultimately show False
      using ledger_invD(2) [OF l] that(1,2) unfolding tx_unique_def sorted_wrt_iff_nth_less in_set_conv_nth
      by (metis linorder_neqE_nat)
  qed
  have "v = u" using same_key [OF _ assms(4) _ k] find_tx_by_key_mem [OF v] by blast
  then obtain es' where rev: "leg_fact ?c ?d i ''reversal'' = Some (t_id u, es')" using v by (auto simp: leg_fact_def)
  have lm: "legs_match ?c ?d t" using sw_invD(5) [OF inv t(1,2)] by (simp add: transfer_ok_def)
  have posts: "leg_posts ?d es (td_source (detailFromRow ?c t)) settlementAccount (td_amount (detailFromRow ?c t))"
    "leg_posts ?d es' settlementAccount (td_source (detailFromRow ?c t)) (td_amount (detailFromRow ?c t))"
    using lm debit rev t(3) unfolding legs_match_def by (auto simp: leg_sides_def leg_names_def)
  have truth: "truth (t_reference t) = RAIL_STATUS_DECLINED"
    using legs_truth(2) [OF statuses_of [OF inv row]] rev by simp
  have once: "x = u" if x: "x \<in> set (transactions ?d)" "t_type x = ''reversal''" "t_parent x = Some p" for x
  proof (rule ccontr)
    assume "x \<noteq> u"
    moreover have "tx_clash x u" "tx_clash u x" using x(2,3) assms(5,6) by (simp_all add: tx_clash_def)
    ultimately show False
      using ledger_invD(2) [OF l] x(1) assms(4) unfolding tx_unique_def sorted_wrt_iff_nth_less in_set_conv_nth
      by (metis linorder_neqE_nat)
  qed
  show ?thesis using t truth debit rev posts once by blast
qed

section \<open>Leases\<close>

text \<open>The statements on the outbox that may run between two claims, each its own transaction at its own
  time; one that fails changes nothing.\<close>

datatype outbox_op =
    OpAppend uuid string jsonb
  | OpClaim time nat
  | OpPublish nat
  | OpDeadLetter nat string
  | OpReschedule nat time string

definition effect_on :: "'a tx \<Rightarrow> env \<Rightarrow> db \<Rightarrow> db" where
  "effect_on f ev d = (case f ev d of Inl _ \<Rightarrow> d | Inr (_, d') \<Rightarrow> d')"

fun run_outbox_op :: "outbox_op \<Rightarrow> env \<Rightarrow> db \<Rightarrow> db" where
  "run_outbox_op (OpAppend i ty p) ev d = effect_on (outbox_Append i ty p) ev d"
| "run_outbox_op (OpClaim lease n) ev d = effect_on (ClaimOutboxBatch lease n) ev d"
| "run_outbox_op (OpPublish i) ev d = effect_on (MarkOutboxPublished i) ev d"
| "run_outbox_op (OpDeadLetter i msg) ev d = effect_on (DeadLetterOutbox i msg) ev d"
| "run_outbox_op (OpReschedule i delay msg) ev d = effect_on (RescheduleOutbox i delay msg) ev d"

fun outbox_ops :: "(outbox_op \<times> env) list \<Rightarrow> db \<Rightarrow> db" where
  "outbox_ops [] d = d"
| "outbox_ops ((x, ev) # xs) d = outbox_ops xs (run_outbox_op x ev d)"

fun reschedules :: "nat \<Rightarrow> outbox_op \<Rightarrow> bool" where
  "reschedules i (OpReschedule j delay msg) \<longleftrightarrow> i = j"
| "reschedules i _ \<longleftrightarrow> False"

text \<open>The event \<open>i\<close> is in the outbox and under a lease that ends at \<open>until\<close>.\<close>

definition leased :: "nat \<Rightarrow> time \<Rightarrow> db \<Rightarrow> bool" where
  "leased i until d \<longleftrightarrow> i < outbox_seq d \<and> i \<in> o_id ` set (outbox d)
     \<and> (\<forall>r \<in> set (outbox d). o_id r = i \<longrightarrow> o_next_attempt_at r = until)"

lemma leased_not_claimed:
  assumes "leased i until d" "now < until"
  shows "i \<notin> set (claimed_ids now n (outbox d))"
proof
  assume "i \<in> set (claimed_ids now n (outbox d))"
  then obtain s where s: "s \<in> set (take n (sort_key o_created_at (filter (due now) (outbox d))))" "o_id s = i"
    by (auto simp: claimed_ids_def)
  have "s \<in> set (outbox d)" "due now s" using in_set_takeD [OF s(1)] by simp_all
  then show False using assms s(2) by (auto simp: leased_def due_def)
qed

lemma leased_update:
  assumes "leased i until d" and "\<And>r. o_id (f r) = o_id r" and "\<And>r. P r \<Longrightarrow> o_id r = i \<Longrightarrow> o_next_attempt_at (f r) = o_next_attempt_at r"
  shows "leased i until (d\<lparr>outbox := update_where P f (outbox d)\<rparr>)"
proof -
  have "o_id ` set (update_where P f (outbox d)) = o_id ` set (outbox d)"
    using map_update_where [where P = P and g = o_id and f = f and xs = "outbox d"] assms(2) by (metis set_map)
  then show ?thesis using assms by (auto simp: leased_def update_where_def)
qed

lemma leased_op:
  assumes l: "leased i until d" and now: "e_now ev < until" and x: "\<not> reschedules i x"
  shows "leased i until (run_outbox_op x ev d)"
proof (cases x)
  case (OpAppend a ty p)
  then show ?thesis
    using l by (auto simp: effect_on_def outbox_Append_writes leased_def)
next
  case (OpClaim lease n)
  have "i \<notin> set (claimed_ids (e_now ev) n (outbox d))" by (rule leased_not_claimed [OF l now])
  then show ?thesis
    using OpClaim leased_update [OF l, of "\<lambda>r. r\<lparr>o_next_attempt_at := e_now ev + lease\<rparr>" "\<lambda>r. o_id r \<in> set (claimed_ids (e_now ev) n (outbox d))"]
    by (auto simp: effect_on_def ClaimOutboxBatch_def Let_def)
next
  case (OpPublish j)
  then show ?thesis by (auto simp: effect_on_def MarkOutboxPublished_def intro: leased_update [OF l])
next
  case (OpDeadLetter j msg)
  then show ?thesis using l by (auto simp: effect_on_def DeadLetterOutbox_def intro: leased_update [OF l])
next
  case (OpReschedule j delay msg)
  then have "i \<noteq> j" using x by simp
  then show ?thesis using OpReschedule l by (auto simp: effect_on_def RescheduleOutbox_def intro!: leased_update [OF l])
qed

lemma leased_ops:
  "leased i until d \<Longrightarrow> \<forall>(x, ev) \<in> set xs. e_now ev < until \<and> \<not> reschedules i x \<Longrightarrow> leased i until (outbox_ops xs d)"
proof (induction xs arbitrary: d)
  case (Cons p xs)
  obtain x ev where p: "p = (x, ev)" by force
  then show ?case using Cons leased_op by auto
qed simp

lemma claim_leases:
  assumes "ClaimOutboxBatch lease n ev d = Inr (batch, d1)" and "r \<in> set batch" and "\<forall>r \<in> set (outbox d). o_id r < outbox_seq d"
  shows "leased (o_id r) (e_now ev + lease) d1"
proof -
  let ?ids = "claimed_ids (e_now ev) n (outbox d)"
  have d1: "d1 = d\<lparr>outbox := update_where (\<lambda>r. o_id r \<in> set ?ids) (\<lambda>r. r\<lparr>o_next_attempt_at := e_now ev + lease\<rparr>) (outbox d)\<rparr>"
    and b: "batch = filter (\<lambda>r. o_id r \<in> set ?ids) (outbox d1)"
    using assms(1) by (auto simp: ClaimOutboxBatch_def Let_def)
  have r: "r \<in> set (outbox d1)" "o_id r \<in> set ?ids" using assms(2) b by auto
  then obtain s where "s \<in> set (outbox d)" "o_id s = o_id r" unfolding d1 by (auto simp: update_where_def split: if_splits)
  then have "o_id r < outbox_seq d1" using assms(3) d1 by auto
  moreover have "o_next_attempt_at x = e_now ev + lease" if "x \<in> set (outbox d1)" "o_id x = o_id r" for x
    using that r(2) unfolding d1 by (auto simp: update_where_def split: if_splits)
  ultimately show ?thesis using r(1) by (auto simp: leased_def)
qed

text \<open>C10. An event under a lease is not delivered by a second poller, unless its delivery failed: whatever
  statements on the outbox, other pollers' claims included, run after a batch was claimed and before its
  lease is over, a claim then shares no event with the batch except one that \<open>MarkFailed\<close> has rescheduled
  in between (with the zero backoff \<open>switchd\<close> runs with, it is due again at once); and an event of the
  batch that is still live and was not rescheduled is due again when the lease is over, so a poller that
  died holding it does not lose it.\<close>

theorem leases_keep_batches_apart:
  assumes "ClaimOutboxBatch lease n1 ev1 d = Inr (batch1, d1)" and "\<forall>r \<in> set (outbox d). o_id r < outbox_seq d"
    and "\<forall>(x, ev) \<in> set xs. e_now ev < e_now ev1 + lease"
    and "ClaimOutboxBatch lease2 n2 ev2 (outbox_ops xs d1) = Inr (batch2, d2)" and "e_now ev2 < e_now ev1 + lease"
  shows "(\<forall>i \<in> o_id ` set batch1 \<inter> o_id ` set batch2. \<exists>(x, ev) \<in> set xs. reschedules i x)
    \<and> (\<forall>r \<in> set (outbox (outbox_ops xs d1)). o_id r \<in> o_id ` set batch1 \<longrightarrow> live r \<longrightarrow>
         (\<forall>(x, ev) \<in> set xs. \<not> reschedules (o_id r) x) \<longrightarrow> (\<forall>now. due now r \<longleftrightarrow> e_now ev1 + lease \<le> now))"
proof -
  have held: "leased i (e_now ev1 + lease) (outbox_ops xs d1)"
    if i: "i \<in> o_id ` set batch1" "\<forall>(x, ev) \<in> set xs. \<not> reschedules i x" for i
  proof -
    have "leased i (e_now ev1 + lease) d1" using claim_leases [OF assms(1) _ assms(2)] i(1) by auto
    then show ?thesis by (rule leased_ops) (use assms(3) i(2) in fastforce)
  qed
  have "\<exists>(x, ev) \<in> set xs. reschedules i x" if i: "i \<in> o_id ` set batch1" "i \<in> o_id ` set batch2" for i
  proof (rule ccontr)
    assume "\<not> (\<exists>(x, ev) \<in> set xs. reschedules i x)"
    then have "leased i (e_now ev1 + lease) (outbox_ops xs d1)" using held [OF i(1)] by fastforce
    from leased_not_claimed [OF this assms(5)] show False
      using i(2) assms(4) by (auto simp: ClaimOutboxBatch_def Let_def)
  qed
  moreover have "due now r \<longleftrightarrow> e_now ev1 + lease \<le> now"
    if "r \<in> set (outbox (outbox_ops xs d1))" "o_id r \<in> o_id ` set batch1" "live r" "\<forall>(x, ev) \<in> set xs. \<not> reschedules (o_id r) x" for r now
    using held [OF that(2,4)] that(1,3) by (auto simp: leased_def due_def)
  ultimately show ?thesis by blast
qed

section \<open>Closed instances\<close>

text \<open>The world after the accepted post of \<open>SwitchDemo\<close>: debited, with two events to deliver.\<close>

lemma demo_work_evaluated:
  "(let d = w_db (after_post RAIL_STATUS_SUCCESS) in
     (w_tick (after_post RAIL_STATUS_SUCCESS), map (\<lambda>t. (t_id t, t_currency t, lifecycle t)) (transactions d), map e_id (entries d),
      map (\<lambda>r. (o_published_at r, o_dead_letter r, o_event_type r, o_next_attempt_at r)) (outbox d), exposure tally_codec d, workload d,
      map (\<lambda>t. td_destination (detailFromRow tally_codec t)) (transfers d)))
   = (8, [(3, ''NGN'', True), (12, ''NGN'', False)], [13, 14],
      [(None, False, ''transfer.debit_requested'', 1), (None, False, ''transfer.debited'', 5)], 21, 5, [''CUST:B''])"
  unfolding after_post_eq by code_simp

lemma demo_work:
  "(w_tick (after_post RAIL_STATUS_SUCCESS),
    map (\<lambda>t. (t_id t, t_currency t, lifecycle t)) (transactions (w_db (after_post RAIL_STATUS_SUCCESS))),
    map e_id (entries (w_db (after_post RAIL_STATUS_SUCCESS)))) = (8, [(3, ''NGN'', True), (12, ''NGN'', False)], [13, 14])"
  "map (\<lambda>r. (o_published_at r, o_dead_letter r, o_event_type r, o_next_attempt_at r)) (outbox (w_db (after_post RAIL_STATUS_SUCCESS)))
    = [(None, False, ''transfer.debit_requested'', 1), (None, False, ''transfer.debited'', 5)]"
  "exposure tally_codec (w_db (after_post RAIL_STATUS_SUCCESS)) = 21"
  "workload (w_db (after_post RAIL_STATUS_SUCCESS)) = 5"
  "map (\<lambda>t. td_destination (detailFromRow tally_codec t)) (transfers (w_db (after_post RAIL_STATUS_SUCCESS))) = [''CUST:B'']"
  using demo_work_evaluated unfolding Let_def prod.inject by (simp_all only: simp_thms prod.inject)

lemma demo_post_follows:
  assumes "s \<noteq> RAIL_STATUS_UNSPECIFIED"
  shows "follows (\<lambda>_. s) (sw_world s) (after_post s)" and "w_env (after_post s) = small_env s"
    and "w_codec (after_post s) = tally_codec"
proof -
  have sane: "sane (\<lambda>_. s) (sw_world s)" by (rule sw_world_sane [OF assms])
  show "follows (\<lambda>_. s) (sw_world s) (after_post s)"
    by (rule runs_follow [OF runs_post [of default_tsq demo_config] sane])
  then show "w_codec (after_post s) = tally_codec" by (simp add: follows_def sw_world_def)
  obtain r w' where "idempotent_Create demo_sha defaultIdempotencyLease ''K'' demo_creq (sw_world s) = (r, w')" by force
  with idempotent_Create_keeps [OF _ _ demo_customer_key this, of "\<lambda>_. s"] sane
  show "w_env (after_post s) = small_env s" unfolding after_post_eq by (simp add: keeps_def sane_def sw_world_def world_of_def)
qed

lemma demo_workable:
  "workable (\<lambda>_. RAIL_STATUS_SUCCESS) (after_post RAIL_STATUS_SUCCESS)" "w_tick (after_post RAIL_STATUS_SUCCESS) = 8"
proof -
  let ?w = "after_post RAIL_STATUS_SUCCESS" and ?truth = "\<lambda>_ :: string. RAIL_STATUS_SUCCESS"
  note f = demo_post_follows [of RAIL_STATUS_SUCCESS, simplified]
  have sane: "sane ?truth ?w" using f(1) by (simp add: follows_def)
  have ids: "t_id ` set (transactions (w_db ?w)) = {3, 12}" "e_id ` set (entries (w_db ?w)) = {13, 14}"
    and cur: "\<forall>t \<in> set (transactions (w_db ?w)). t_currency t = ''NGN''" and tick: "w_tick ?w = 8"
  proof -
    have m: "map t_id ts = map fst (map (\<lambda>t. (t_id t, t_currency t, lifecycle t)) ts)"
      "map t_currency ts = map (fst \<circ> snd) (map (\<lambda>t. (t_id t, t_currency t, lifecycle t)) ts)" for ts
      by simp_all
    have "map t_id (transactions (w_db ?w)) = [3, 12]" "map t_currency (transactions (w_db ?w)) = [''NGN'', ''NGN'']"
      "map e_id (entries (w_db ?w)) = [13, 14]"
      using demo_work(1) unfolding m by simp_all
    then have "set (map t_id (transactions (w_db ?w))) = {3, 12}" "set (map t_currency (transactions (w_db ?w))) = {''NGN''}"
      "set (map e_id (entries (w_db ?w))) = {13, 14}" by auto
    then show "t_id ` set (transactions (w_db ?w)) = {3, 12}" "e_id ` set (entries (w_db ?w)) = {13, 14}"
      "\<forall>t \<in> set (transactions (w_db ?w)). t_currency t = ''NGN''" by auto
    show "w_tick ?w = 8" using demo_work(1) by simp
  qed
  have split3: "3 * m + k = 3 * n + l \<Longrightarrow> k < 3 \<Longrightarrow> l < 3 \<Longrightarrow> m = n \<and> k = l" for m n k l :: nat by presburger
  have healthy: "healthy ?w"
    unfolding healthy_def f(2) used_ids_def ids tick
    by (auto simp: small_env_def healthy_env_def dest: split3)
  have accts: "accounts (w_db ?w) = accounts demo_db" using f(1) by (simp add: follows_def db_evolves_def sw_world_def world_of_def)
  have dest: "td_destination (detailFromRow tally_codec t) = ''CUST:B''" if "t \<in> set (transfers (w_db ?w))" for t
  proof -
    have "set (map (\<lambda>t. td_destination (detailFromRow tally_codec t)) (transfers (w_db ?w))) = {''CUST:B''}"
      unfolding demo_work(5) by simp
    then show ?thesis using that by auto
  qed
  show "workable ?truth ?w"
    unfolding workable_def
    using sane healthy cur dest
    by (auto simp: sane_def f(3) demo_work(3) char3_columns_def accts demo_db_def demo_account_def transfers_mem find_account_def)
  show "w_tick ?w = 8" by (rule tick)
qed

lemma demo_backlog: "backlog {} (\<lambda>_. RAIL_STATUS_SUCCESS) (after_post RAIL_STATUS_SUCCESS)"
proof -
  let ?w = "after_post RAIL_STATUS_SUCCESS" and ?truth = "\<lambda>_ :: string. RAIL_STATUS_SUCCESS"
  note f = demo_post_follows [of RAIL_STATUS_SUCCESS, simplified]
  have "set (map (\<lambda>r. (o_published_at r, o_dead_letter r, o_event_type r, o_next_attempt_at r)) (outbox (w_db ?w)))
      = {(None, False, ''transfer.debit_requested'', 1), (None, False, ''transfer.debited'', 5)}"
    unfolding demo_work(2) by auto
  then have rows: "(o_published_at r, o_dead_letter r, o_event_type r, o_next_attempt_at r)
      \<in> {(None, False, ''transfer.debit_requested'', 1), (None, False, ''transfer.debited'', 5)}" if "r \<in> set (outbox (w_db ?w))" for r
    using that unfolding set_map by (metis (no_types, lifting) image_eqI)
  moreover have "live_driven (w_db ?w)"
    by (rule live_drivenI [OF workableD(1) [OF demo_workable(1)]]) (use rows in auto)
  ultimately show ?thesis
    unfolding backlog_def using demo_workable rows
    by (fastforce simp: f(2) small_env_def event_types_def go_const)
qed

lemma healthy_outbox_drains_witness:
  "\<exists>w'. poller_drain 6 (driver_Handle default_tsq) demo_config (after_post RAIL_STATUS_SUCCESS) = Some (Inr (), w')
    \<and> (\<forall>t \<in> set (transactions (w_db w')). lifecycle t \<longrightarrow> isTerminalStatus (t_status t))"
  using healthy_outbox_drains [OF demo_backlog, of demo_config 6 default_tsq] demo_work(4) by (auto simp: demo_config_def)

text \<open>A transfer to an account the ledger does not have.\<close>

definition lost_body :: rest_body where
  "lost_body = BodyObject [(''source'', TokString ''CUST:A''), (''destination'', TokString ''CUST:Z''),
     (''amount_minor'', TokNumber ''7''), (''currency'', TokString ''NGN''), (''reference'', TokString ''R'')]"

definition lost_creq :: create_request where
  "lost_creq = demo_creq\<lparr>cr_destination := ''CUST:Z''\<rparr>"

definition lost_post :: world where
  "lost_post = snd (rest_create demo_sha defaultIdempotencyLease ''cid'' ''K'' lost_body (sw_world RAIL_STATUS_SUCCESS))"

lemma lost_post_eq:
  "lost_post = snd (idempotent_Create demo_sha defaultIdempotencyLease ''K'' lost_creq (sw_world RAIL_STATUS_SUCCESS))"
proof -
  have "decode_body lost_body = Some lost_creq"
    by (simp add: lost_body_def lost_creq_def demo_creq_def empty_request_def decode_member_def match_field_def body_fields_def
        decode_amount_def amount_UnmarshalJSON_def ParseInt_def is_digit_def digit_val_def)
  then show ?thesis by (simp add: lost_post_def rest_create_def split: sum.split prod.split)
qed

lemma lost_runs:
  "sw_runs default_tsq demo_config demo_sha truth (sw_world RAIL_STATUS_SUCCESS) lost_post"
  "sw_runs default_tsq demo_config demo_sha truth lost_post (snd (poller_tick (driver_Handle default_tsq) demo_config lost_post))"
proof -
  obtain r w' where "rest_create demo_sha defaultIdempotencyLease ''cid'' ''K'' lost_body (sw_world RAIL_STATUS_SUCCESS) = (r, w')" by force
  then show "sw_runs default_tsq demo_config demo_sha truth (sw_world RAIL_STATUS_SUCCESS) lost_post"
    using runs_step [OF post_transfer [OF demo_customer_key]] by (simp add: lost_post_def)
  have "sw_runs default_tsq demo_config demo_sha truth lost_post lost_post" by (simp add: sw_runs_def)
  then show "sw_runs default_tsq demo_config demo_sha truth lost_post (snd (poller_tick (driver_Handle default_tsq) demo_config lost_post))"
    by (rule runs_tick)
qed

lemma lost_facts:
  "map row_facts (transactions (w_db lost_post)) = [(True, ''debited'', ''CUST:A'', ''CUST:Z'', 7), (False, ''settled'', [], [], 0)]"
  unfolding lost_post_eq by code_simp

lemma unknown_destination_strands_the_debit_witness:
  "\<exists>t' \<in> set (transactions (w_db (snd (poller_tick (driver_Handle default_tsq) demo_config lost_post)))).
     t_status t' \<in> {statusDebited, statusInDoubt, statusManualReview}
     \<and> leg_posted tally_codec (w_db (snd (poller_tick (driver_Handle default_tsq) demo_config lost_post))) t' ''debit''
     \<and> \<not> leg_posted tally_codec (w_db (snd (poller_tick (driver_Handle default_tsq) demo_config lost_post))) t' ''reversal''"
proof -
  let ?truth = "\<lambda>_ :: string. RAIL_STATUS_SUCCESS"
  have "(True, ''debited'', ''CUST:A'', ''CUST:Z'', 7) \<in> set (map row_facts (transactions (w_db lost_post)))"
    unfolding lost_facts by simp
  then obtain t where t: "t \<in> set (transactions (w_db lost_post))" "lifecycle t" "t_status t = statusDebited"
    "td_destination (detailFromRow tally_codec t) = ''CUST:Z''"
    by (auto simp: row_facts_def Let_def go_const)
  have c: "w_codec (sw_world s) = tally_codec" for s by (simp add: sw_world_def)
  have env: "driver_env ?truth (sw_world RAIL_STATUS_SUCCESS)" by (rule demo_env) simp
  have "follows ?truth (sw_world RAIL_STATUS_SUCCESS) lost_post"
    by (rule runs_follow [OF lost_runs(1) sw_world_sane]) simp
  then have "accounts (w_db lost_post) = accounts demo_db" by (simp add: follows_def db_evolves_def sw_world_def world_of_def)
  then have "find_account ''CUST:Z'' (w_db lost_post) = None" by (simp add: find_account_def demo_db_def demo_account_def)
  then have none: "find_account (td_destination (detailFromRow (w_codec (sw_world RAIL_STATUS_SUCCESS)) t)) (w_db lost_post) = None"
    using t(4) c by simp
  have "t_status t \<notin> {statusPending, statusFailed}" using t(3) by simp
  from unknown_destination_strands_the_debit [OF demo_fresh env lost_runs(1) t(1,2) this refl none lost_runs(2)]
  show ?thesis unfolding c by blast
qed

lemma refunds_mirror_their_debit_witness:
  "\<exists>u \<in> set (transactions (w_db (after_poll2 RAIL_STATUS_DECLINED))). t_id u = 54 \<and> t_type u = ''reversal''
    \<and> (\<exists>t \<in> set (transactions (w_db (after_poll2 RAIL_STATUS_DECLINED))). lifecycle t
        \<and> (\<exists>es. leg_fact tally_codec (w_db (after_poll2 RAIL_STATUS_DECLINED)) (t_id t) ''debit'' = Some (12, es)))"
proof -
  let ?d = "w_db (after_poll2 RAIL_STATUS_DECLINED)"
  have "(54, ''reversal'', Some 12) \<in> set (map (\<lambda>t. (t_id t, t_type t, t_parent t)) (transactions ?d))"
    unfolding demo_refund_rows by simp
  then obtain u where u: "u \<in> set (transactions ?d)" "t_id u = 54" "t_type u = ''reversal''" "t_parent u = Some 12" by auto
  have env: "driver_env (\<lambda>_. RAIL_STATUS_DECLINED) (sw_world RAIL_STATUS_DECLINED)" by (rule demo_env) simp
  have c: "w_codec (sw_world s) = tally_codec" for s by (simp add: sw_world_def)
  from refunds_mirror_their_debit [OF demo_fresh env runs_poll(2) u(1,3,4)] u(1-3)
  show ?thesis unfolding c by blast
qed

text \<open>A batch of two events, one of which fails and is rescheduled without a wait, and the next claim.\<close>

definition two_events :: db where
  "two_events = demo_db\<lparr>outbox := [
     \<lparr>o_id = 1, o_aggregate_type = ''transfer'', o_aggregate_id = 3, o_event_type = ''transfer.debit_requested'', o_payload = [],
       o_created_at = 1, o_published_at = None, o_attempts = 0, o_next_attempt_at = 1, o_last_error = None, o_dead_letter = False\<rparr>,
     \<lparr>o_id = 2, o_aggregate_type = ''transfer'', o_aggregate_id = 3, o_event_type = ''transfer.debited'', o_payload = [],
       o_created_at = 5, o_published_at = None, o_attempts = 0, o_next_attempt_at = 5, o_last_error = None, o_dead_letter = False\<rparr>],
     outbox_seq := 3\<rparr>"

definition first_claim :: "outbox_row list \<times> db" where
  "first_claim = (case ClaimOutboxBatch 30 2 (small_env RAIL_STATUS_SUCCESS 8) two_events of Inr x \<Rightarrow> x | Inl _ \<Rightarrow> ([], two_events))"

definition one_failure :: "(outbox_op \<times> env) list" where
  "one_failure = [(OpReschedule 1 0 ''unavailable'', small_env RAIL_STATUS_SUCCESS 9)]"

definition second_claim :: "outbox_row list \<times> db" where
  "second_claim = (case ClaimOutboxBatch 30 2 (small_env RAIL_STATUS_SUCCESS 10) (outbox_ops one_failure (snd first_claim)) of
     Inr x \<Rightarrow> x | Inl _ \<Rightarrow> ([], two_events))"

lemma claims_evaluated: "map o_id (fst first_claim) = [1, 2]" "map o_id (fst second_claim) = [1]" by code_simp+

lemma leases_keep_batches_apart_witness:
  "2 \<notin> o_id ` set (fst second_claim) \<and> map o_id (fst first_claim) = [1, 2] \<and> map o_id (fst second_claim) = [1]"
proof -
  have "ClaimOutboxBatch 30 2 (small_env RAIL_STATUS_SUCCESS 8) two_events = Inr (fst first_claim, snd first_claim)"
    by (simp add: first_claim_def ClaimOutboxBatch_def Let_def)
  moreover have "ClaimOutboxBatch 30 2 (small_env RAIL_STATUS_SUCCESS 10) (outbox_ops one_failure (snd first_claim)) = Inr (fst second_claim, snd second_claim)"
    by (simp add: second_claim_def ClaimOutboxBatch_def Let_def)
  moreover have "\<forall>r \<in> set (outbox two_events). o_id r < outbox_seq two_events" by (simp add: two_events_def)
  moreover have "\<forall>(x, ev) \<in> set one_failure. e_now ev < e_now (small_env RAIL_STATUS_SUCCESS 8) + 30"
    "e_now (small_env RAIL_STATUS_SUCCESS 10) < e_now (small_env RAIL_STATUS_SUCCESS 8) + 30"
    by (simp_all add: one_failure_def small_env_def)
  ultimately have "\<forall>i \<in> o_id ` set (fst first_claim) \<inter> o_id ` set (fst second_claim). \<exists>(x, ev) \<in> set one_failure. reschedules i x"
    using leases_keep_batches_apart by blast
  moreover have "2 \<in> o_id ` set (fst first_claim)"
  proof -
    have "2 \<in> set (map o_id (fst first_claim))" unfolding claims_evaluated by simp
    then show ?thesis by simp
  qed
  ultimately show ?thesis using claims_evaluated by (auto simp: one_failure_def)
qed

section \<open>An early callback\<close>

text \<open>Why the step relation asks that no success callback meets a pending transfer: references are not unique,
  so a callback for one transfer can find another that has not been debited yet; the settlement leg is
  posted, paying the destination, and the status stays pending.\<close>

definition pending_world :: world where
  "pending_world = snd (CreatePending ''K'' demo_creq (sw_world RAIL_STATUS_SUCCESS))"

lemma early_callback_pays_undebited:
  "fst (HandleRailCallback ''R'' VerdictSuccess pending_world) = Inr (stateForStatus statusPending)"
  "map row_facts (transactions (w_db (snd (HandleRailCallback ''R'' VerdictSuccess pending_world))))
    = [(True, ''pending'', ''CUST:A'', ''CUST:B'', 7), (False, ''settled'', [], [], 0)]"
  "map (\<lambda>e. (e_account_id e, e_direction e, e_amount_minor e)) (entries (w_db (snd (HandleRailCallback ''R'' VerdictSuccess pending_world))))
    = [(1, ''debit'', 7), (3, ''credit'', 7)]"
  unfolding pending_world_def by code_simp+

section \<open>A client key that is a leg key\<close>

text \<open>Why the step relation asks that clients' keys are not leg keys: keys of clients and keys of legs share
  the column \<open>idempotency_key\<close>, and \<open>rest.go\<close> takes any non-empty key. A client who posts under
  \<open><transfer id>:settle\<close>, the id being in the answer to the first post, holds the key of the settlement leg.\<close>

lemma client_post_taken:
  assumes "find_tx_by_key key (w_db w) = Some u" "key \<noteq> []" "codec_ok (w_codec w)" "codec_nonempty (w_codec w)"
    and "client_post t dr cr key ty parent w = (r, w')"
  shows "w_db w' = w_db w"
proof -
  let ?w1 = "w\<lparr>w_tick := Suc (w_tick w)\<rparr>"
  obtain r1 w1 where p: "PostTransaction (leg_post (w_codec w) t dr cr key ty parent) ?w1 = (r1, w1)" by force
  have "w_db w1 = w_db w" using PostTransaction_taken [OF p] assms(1,2) by simp
  then show ?thesis
    using assms(5) p grpc_leg_post [of ?w1 "w_codec w" t dr cr key ty parent] assms(3,4)
    by (auto simp: client_post_def rpc_def take_env_def split: rpc_fault.splits sum.splits option.splits prod.splits)
qed

lemma markSettled_healthy:
  assumes "healthy w" and "find_tx i (w_db w) = Some t" and "t_status t = statusDebited"
  shows "\<exists>w'. markSettled i w = (Inr True, w') \<and> entries (w_db w') = entries (w_db w)
    \<and> (\<exists>t'. find_tx i (w_db w') = Some t' \<and> t_status t' = statusSettled)"
proof -
  let ?ev = "w_env w (w_tick w)" and ?d = "w_db w"
  let ?d' = "update_tx i (\<lambda>t. t\<lparr>t_status := ''settled'', t_settled_at := Some (e_now ?ev)\<rparr>) ?d"
  have "advance_body i statusSettled (apply_settled i) ?ev ?d = Inr (True, ?d')"
    using assms(2,3) by (simp add: advance_body_def GetTransferForUpdate_def canTransitionStatus_iff apply_settled_def SetTransferSettled_def)
  moreover have "commit_triggers ?d ?d' = None" by (simp add: commit_triggers_def update_tx_def)
  ultimately have "markSettled i w = (Inr True, w\<lparr>w_tick := Suc (w_tick w), w_db := ?d'\<rparr>)"
    unfolding markSettled_def advance_def WithTx_def by (rule run_tx_no_fault [OF healthyD(1) [OF assms(1)]])
  moreover have "find_tx i ?d' = Some (t\<lparr>t_status := ''settled'', t_settled_at := Some (e_now ?ev)\<rparr>)"
  proof -
    have "t_id t = i" using find_Some_mem [OF assms(2) [unfolded find_tx_def]] by simp
    moreover have "List.find (\<lambda>t. t_id t = i) (update_where (\<lambda>t. t_id t = i) f xs) = map_option (\<lambda>t. if t_id t = i then f t else t) (List.find (\<lambda>t. t_id t = i) xs)"
      if "\<And>t. t_id (f t) = t_id t" for f :: "tx_row \<Rightarrow> tx_row" and xs by (rule find_update_where) (simp add: that)
    ultimately show ?thesis using assms(2) by (simp add: find_tx_def transactions_update_tx)
  qed
  ultimately show ?thesis by (auto simp: go_const update_tx_def)
qed

text \<open>C39. The ledger cannot tell a client's key from a leg's: when a transfer is debited and another row
  of the table holds its settlement key, for instance a second transfer posted under
  \<open><transfer id>:settle\<close>, then in a healthy environment where the rail accepts the payment the driver
  takes that row's id for the settlement leg: it reports success and marks the transfer settled, a
  status without a way out, and no entry is posted: the destination is never paid.\<close>

theorem taken_leg_key_settles_unpaid:
  assumes "healthy w" and "codec_ok (w_codec w)" and "codec_nonempty (w_codec w)" and "ledger_inv (w_db w)" and "char3_columns (w_db w)"
    and "find_tx i (w_db w) = Some t" and "t_status t = statusDebited" and "length (t_currency t) = 3"
    and "\<forall>n. e_rail (w_env w n) (t_reference t) = Inr RAIL_STATUS_SUCCESS"
    and "leg_possible (w_db w) (td_transfer (detailFromRow (w_codec w) t)) settlementAccount (td_destination (detailFromRow (w_codec w) t))"
    and "u \<in> set (transactions (w_db w))" and "t_idempotency_key u = Some (legKey (w_codec w) i ''settle'')"
  shows "\<exists>w'. handleDebited i w = (Inr (), w') \<and> entries (w_db w') = entries (w_db w)
    \<and> (\<exists>t'. find_tx i (w_db w') = Some t' \<and> t_status t' = statusSettled)"
proof -
  let ?c = "w_codec w" and ?det = "detailFromRow (w_codec w) t"
  let ?w1 = "w\<lparr>w_tick := Suc (w_tick w)\<rparr>" and ?w2 = "w\<lparr>w_tick := Suc (Suc (w_tick w))\<rparr>"
  have "run_stmt (GetTransferByID i) w = (Inr t, ?w1)"
    unfolding run_stmt_def
    by (subst run_tx_no_fault [OF healthyD(1) [OF assms(1)]]) (auto simp: GetTransferByID_Inr assms(6) no_triggers_def)
  then have load: "store_load i w = (Inr ?det, ?w1)" by (simp add: store_load_def)
  have send: "rail_Send (td_transfer ?det) ?w1 = (Inr VerdictSuccess, ?w2)"
    using assms(9) by (simp add: rail_Send_def rail_call_def take_env_def td_transfer_def detailFromRow_def)
  have h2: "healthy ?w2" by (rule healthy_ticked [OF assms(1) ticked_same_ids]) simp_all
  obtain v where v: "find_tx_by_key (legKey ?c i ''settle'') (w_db ?w2) = Some v"
    using assms(11,12) by (cases "find_tx_by_key (legKey ?c i ''settle'') (w_db w)") (auto simp: find_tx_by_key_def find_None_all)
  have cur: "length (tf_currency (td_transfer ?det)) = 3" using assms(8) by (simp add: td_transfer_def detailFromRow_def)
  have lp: "leg_possible (w_db ?w2) (td_transfer ?det) settlementAccount (td_destination ?det)" using assms(10) by simp
  have "\<exists>j w3. client_post (td_transfer ?det) settlementAccount (td_destination ?det) (legKey ?c i ''settle'') TypeTransfer None ?w2 = (Inr j, w3)
      \<and> ticked ?w2 w3"
    by (rule client_post_healthy(1) [OF h2 _ _ _ _ lp cur]) (use assms(2-5) v in \<open>simp_all add: check_tx_type_def go_const\<close>)
  then obtain j w3 where post: "client_post (td_transfer ?det) settlementAccount (td_destination ?det) (legKey ?c i ''settle'') TypeTransfer None ?w2 = (Inr j, w3)"
    and tk: "ticked ?w2 w3" by blast
  have db: "w_db w3 = w_db w" using client_post_taken [OF v _ _ _ post] assms(2,3) by simp
  have "t_id t = i" using find_Some_mem [OF assms(6) [unfolded find_tx_def]] by simp
  then have leg: "PostSettlementLeg (td_transfer ?det) ?w2 = (Inr (), w3)"
    using post by (simp add: PostSettlementLeg_def td_transfer_def detailFromRow_def)
  obtain w4 where w4: "markSettled i w3 = (Inr True, w4)" "entries (w_db w4) = entries (w_db w)"
    "\<exists>t'. find_tx i (w_db w4) = Some t' \<and> t_status t' = statusSettled"
    using markSettled_healthy [OF healthy_ticked [OF h2 tk], of i t] assms(6,7) unfolding db by blast
  have st: "td_status ?det = statusDebited" using assms(7) by (simp add: detailFromRow_def)
  have "handleDebited i w = (Inr (), recordOutcome statusSettled w4)"
    using load send leg w4(1) st by (simp add: handleDebited_def settle_transfer_def on_terminal_def discard_def)
  moreover have "w_db (recordOutcome statusSettled w4) = w_db w4" by (simp add: recordOutcome_def)
  ultimately show ?thesis using w4(2,3) by auto
qed

text \<open>The client of the accepted transfer, still debited, posts another one under its settlement key.\<close>

definition key_taken :: world where
  "key_taken = snd (CreatePending (legKey tally_codec 3 ''settle'') demo_creq (after_post RAIL_STATUS_SUCCESS))"

lemma key_taken_state:
  "(w_tick key_taken, map (\<lambda>t. (t_id t, t_currency t, t_idempotency_key t, row_facts t)) (transactions (w_db key_taken)),
     map e_id (entries (w_db key_taken)))
   = (9, [(3, ''NGN'', Some ''K'', True, ''debited'', ''CUST:A'', ''CUST:B'', 7), (12, ''NGN'', Some ''iiii:debit'', False, ''settled'', [], [], 0),
       (24, ''NGN'', Some ''iiii:settle'', True, ''pending'', ''CUST:A'', ''CUST:B'', 7)], [13, 14])"
  unfolding key_taken_def after_post_eq by code_simp

lemma key_taken_frame:
  "w_env key_taken = small_env RAIL_STATUS_SUCCESS" "w_codec key_taken = tally_codec"
  "ledger_inv (w_db key_taken)" "accounts (w_db key_taken) = accounts demo_db"
proof -
  let ?w = "after_post RAIL_STATUS_SUCCESS"
  note f = demo_post_follows [of RAIL_STATUS_SUCCESS, simplified]
  obtain r w' where run: "CreatePending (legKey tally_codec 3 ''settle'') demo_creq ?w = (r, w')" by force
  then have w': "key_taken = w'" by (simp add: key_taken_def)
  show "w_env key_taken = small_env RAIL_STATUS_SUCCESS" "w_codec key_taken = tally_codec"
    using act_frameD [OF act_frame_run_tx(1) run [unfolded CreatePending_def WithTx_def]] f w' by simp_all
  have accts: "accounts (w_db ?w) = accounts demo_db" using f(1) by (simp add: follows_def db_evolves_def sw_world_def world_of_def)
  have inv: "ledger_inv (w_db ?w)" by (rule workableD(8) [OF demo_workable(1)])
  have "ledger_inv (w_db w') \<and> accounts (w_db w') = accounts (w_db ?w)"
    using run unfolding CreatePending_def WithTx_def
  proof (cases rule: run_tx_cases)
    case (committed i d)
    from create_body_Inr [OF committed(1)] obtain t x where
      clash: "list_all (\<lambda>v. \<not> tx_clash t v) (transactions (w_db ?w))"
      and d: "d = (w_db ?w)\<lparr>transactions := transactions (w_db ?w) @ [t], outbox := outbox (w_db ?w) @ [x],
          outbox_seq := Suc (outbox_seq (w_db ?w))\<rparr>" .
    have "tx_unique d"
      using ledger_invD(2) [OF inv] clash by (auto simp: d tx_unique_def sorted_wrt_append list_all_iff)
    then have "ledger_inv d"
      using inv unfolding d by (auto simp: ledger_inv_def accounts_wf_def journal_balanced_def cache_coherent_def balance_current_def
          sums_fit_def journal_balance_def entry_wf_def)
    then show ?thesis using committed(3) by (simp add: d)
  qed (use inv in simp)
  then show "ledger_inv (w_db key_taken)" "accounts (w_db key_taken) = accounts demo_db" using w' accts by simp_all
qed

lemma key_taken_rows:
  obtains t v u where "transactions (w_db key_taken) = [t, v, u]" "t_id t = 3" "t_id v = 12" "t_id u = 24" "t_currency t = ''NGN''"
    "row_facts t = (True, ''debited'', ''CUST:A'', ''CUST:B'', 7)" "t_idempotency_key u = Some ''iiii:settle''"
  using key_taken_state by (auto simp: map_eq_Cons_conv)

lemma key_taken_healthy: "healthy key_taken"
proof -
  have ids: "t_id ` set (transactions (w_db key_taken)) = {3, 12, 24}" by (rule key_taken_rows) simp
  have "map e_id (entries (w_db key_taken)) = [13, 14]" and tick: "w_tick key_taken = 9" using key_taken_state by simp_all
  then have "set (map e_id (entries (w_db key_taken))) = {13, 14}" by simp
  then have es: "e_id ` set (entries (w_db key_taken)) = {13, 14}" by simp
  have split3: "3 * m + k = 3 * n + l \<Longrightarrow> k < 3 \<Longrightarrow> l < 3 \<Longrightarrow> m = n \<and> k = l" for m n k l :: nat by presburger
  show ?thesis
    unfolding healthy_def key_taken_frame used_ids_def ids es tick
    by (auto simp: small_env_def healthy_env_def dest: split3)
qed

lemma key_taken_transfers:
  obtains t u where "find_tx 3 (w_db key_taken) = Some t" "row_facts t = (True, ''debited'', ''CUST:A'', ''CUST:B'', 7)" "t_currency t = ''NGN''"
    "u \<in> set (transactions (w_db key_taken))" "t_idempotency_key u = Some ''iiii:settle''"
  by (rule key_taken_rows) (auto simp: find_tx_def intro: that)

lemma taken_leg_key_settles_unpaid_witness:
  "\<exists>w'. handleDebited 3 key_taken = (Inr (), w') \<and> entries (w_db w') = entries (w_db key_taken)
    \<and> (\<exists>t'. find_tx 3 (w_db w') = Some t' \<and> t_status t' = statusSettled)"
proof -
  obtain t u where t: "find_tx 3 (w_db key_taken) = Some t" "row_facts t = (True, ''debited'', ''CUST:A'', ''CUST:B'', 7)" "t_currency t = ''NGN''"
    and u: "u \<in> set (transactions (w_db key_taken))" "t_idempotency_key u = Some ''iiii:settle''" by (rule key_taken_transfers)
  have key: "legKey tally_codec 3 ''settle'' = ''iiii:settle''" by code_simp
  have st: "t_status t = statusDebited" and lp: "leg_possible (w_db key_taken) (td_transfer (detailFromRow tally_codec t)) settlementAccount
      (td_destination (detailFromRow tally_codec t))"
    using t(2) key_taken_frame(4)
    by (auto simp: row_facts_def Let_def go_const leg_possible_def td_transfer_def find_account_def demo_db_def demo_account_def)
  have cols: "char3_columns (w_db key_taken)"
    using key_taken_frame(4) workableD(4) [OF demo_workable(1)] demo_post_follows(1) [of RAIL_STATUS_SUCCESS]
    by (simp add: char3_columns_def follows_def db_evolves_def sw_world_def world_of_def)
  have codec: "codec_ok tally_codec" "codec_nonempty tally_codec"
    using workableD(6,7) [OF demo_workable(1)] demo_post_follows(3) [of RAIL_STATUS_SUCCESS] by simp_all
  show ?thesis
    by (rule taken_leg_key_settles_unpaid [OF key_taken_healthy _ _ key_taken_frame(3) cols t(1) st _ _ _ u(1)])
      (use codec lp u(2) t(3) key in \<open>simp_all add: key_taken_frame small_env_def\<close>)
qed

end
