(* ===== verification/Boot.thy ===== *)
theory Boot
  imports SwitchSystem Mockrail
begin

text \<open>
  The processes around the services: \<open>serviceboot.Run\<close> with its start and its shutdown, the health
  server's routes, tracing and the pool as far as they decide the boot, and the \<open>main\<close> functions of
  \<open>switchd\<close>, \<open>ledger\<close> and \<open>mockrail\<close>. What the operating system and the network answer is a record;
  what a boot does is the list of its effects. While \<open>Run\<close> blocks, \<open>switchd\<close> serves: its inputs are REST
  and gRPC calls and the two tickers, in any order.
\<close>

section \<open>Environment variables\<close>

type_synonym getenv = "string \<Rightarrow> string"

definition EnvOr :: "getenv \<Rightarrow> string \<Rightarrow> string \<Rightarrow> string" where
  "EnvOr env key dflt = (if env key \<noteq> [] then env key else dflt)"

section \<open>Effects\<close>

datatype shutdown_func = ShutdownNoop | ShutdownProvider

datatype effect =
    PoolOpened
  | PoolClosed
  | TracingWarned err
  | HealthServing string "string list"
  | GrpcListening string
  | GrpcRegistered
  | GrpcServing
  | ServiceStarted string
  | ShutdownSignal
  | ServerError err
  | HealthShutdown
  | GrpcStopped
  | CleanupRan
  | TracingShutdown

text \<open>What ends the wait of \<open>Run\<close>: a signal, or the error of one of its servers.\<close>

datatype stop_event = SignalReceived | ServerFailed err

record os_env =
  os_getenv :: getenv
  os_exporter :: "err option"
  os_resource :: "err option"
  os_listen :: "err option"
  os_stop :: stop_event
  os_health_shutdown :: "err option"
  os_tracing_shutdown :: "err option"
  os_pool_new :: "err option"
  os_pool_ping :: "err option"
  os_grpc_client :: "string \<Rightarrow> err option"

section \<open>Tracing, the pool, the health server\<close>

text \<open>\<open>Init\<close> without an endpoint installs nothing; a failure leaves the no-op shutdown.\<close>

definition tracing_Init :: "os_env \<Rightarrow> shutdown_func \<times> err option" where
  "tracing_Init os =
     (if os_getenv os ''OTEL_EXPORTER_OTLP_ENDPOINT'' = [] then (ShutdownNoop, None)
      else case os_exporter os of
          Some e \<Rightarrow> (ShutdownNoop, Some e)
        | None \<Rightarrow> (case os_resource os of Some e \<Rightarrow> (ShutdownNoop, Some e) | None \<Rightarrow> (ShutdownProvider, None)))"

definition NewPool :: "os_env \<Rightarrow> (err + unit) \<times> effect list" where
  "NewPool os =
     (case os_pool_new os of
        Some e \<Rightarrow> (Inl (Wrap ''postgres: new pool: '' e []), [])
      | None \<Rightarrow>
          (case os_pool_ping os of
             Some e \<Rightarrow> (Inl (Wrap ''postgres: ping: '' e []), [PoolOpened, PoolClosed])
           | None \<Rightarrow> (Inr (), [PoolOpened])))"

text \<open>The patterns of the mux, in the order they are registered. \<open>http.ServeMux\<close>: a pattern that ends in
  a slash matches the paths below it, the longest matching pattern wins.\<close>

definition NewServer_routes :: "bool \<Rightarrow> string list \<Rightarrow> string list" where
  "NewServer_routes metrics register = [''/healthz''] @ (if metrics then [''/metrics''] else []) @ register"

definition pattern_matches :: "string \<Rightarrow> string \<Rightarrow> bool" where
  "pattern_matches path pat \<longleftrightarrow> path = pat \<or> pat \<noteq> [] \<and> last pat = CHR ''/'' \<and> take (length pat) path = pat"

definition mux_route :: "string list \<Rightarrow> string \<Rightarrow> string option" where
  "mux_route pats path =
     (case sort_key (\<lambda>p. - int (length p)) (filter (pattern_matches path) pats) of [] \<Rightarrow> None | p # _ \<Rightarrow> Some p)"

section \<open>serviceboot.Run\<close>

record options =
  opt_ServiceName :: string
  opt_HealthAddr :: string
  opt_GRPCAddr :: string
  opt_RegisterGRPC :: bool
  opt_RegisterHTTP :: "string list"
  opt_Cleanup :: bool

definition first_error :: "err option \<Rightarrow> err option \<Rightarrow> err option" where
  "first_error a b = (case a of Some e \<Rightarrow> Some e | None \<Rightarrow> b)"

text \<open>\<open>shutdown\<close>: the health server, the gRPC server if there is one, the cleanup, tracing.\<close>

definition shutdown :: "os_env \<Rightarrow> bool \<Rightarrow> shutdown_func \<Rightarrow> bool \<Rightarrow> err option \<times> effect list" where
  "shutdown os grpc tracing cleanup =
     (first_error (os_health_shutdown os)
        (case tracing of ShutdownNoop \<Rightarrow> None | ShutdownProvider \<Rightarrow> os_tracing_shutdown os),
      [HealthShutdown] @ (if grpc then [GrpcStopped] else []) @ (if cleanup then [CleanupRan] else []) @ [TracingShutdown])"

text \<open>The first half of \<open>Run\<close>, up to the wait: the tracing, the health server and the gRPC listener, whose
  failure is the error \<open>Run\<close> returns at once.\<close>

definition start_servers :: "options \<Rightarrow> os_env \<Rightarrow> err option \<times> effect list" where
  "start_servers opts os =
     (let pre = (case snd (tracing_Init os) of Some e \<Rightarrow> [TracingWarned e] | None \<Rightarrow> [])
                @ [HealthServing (opt_HealthAddr opts) (NewServer_routes True (opt_RegisterHTTP opts))]
      in if opt_GRPCAddr opts = [] then (None, pre @ [ServiceStarted (opt_ServiceName opts)])
         else case os_listen os of
             Some e \<Rightarrow> (Some e, pre)
           | None \<Rightarrow> (None, pre @ [GrpcListening (opt_GRPCAddr opts)]
               @ (if opt_RegisterGRPC opts then [GrpcRegistered] else []) @ [GrpcServing, ServiceStarted (opt_ServiceName opts)]))"

definition stop_effect :: "os_env \<Rightarrow> effect" where
  "stop_effect os = (case os_stop os of SignalReceived \<Rightarrow> ShutdownSignal | ServerFailed e \<Rightarrow> ServerError e)"

definition serviceboot_Run :: "options \<Rightarrow> os_env \<Rightarrow> err option \<times> effect list" where
  "serviceboot_Run opts os =
     (case start_servers opts os of
        (Some e, es) \<Rightarrow> (Some e, es)
      | (None, es) \<Rightarrow>
          (case shutdown os (opt_GRPCAddr opts \<noteq> []) (fst (tracing_Init os)) (opt_Cleanup opts) of
             (r, ss) \<Rightarrow> (r, es @ [stop_effect os] @ ss)))"

text \<open>\<open>main\<close> ends with \<open>log.Fatalf\<close> on an error, which exits with status 1.\<close>

definition exit_status :: "err option \<Rightarrow> nat" where
  "exit_status r = (case r of None \<Rightarrow> 0 | Some _ \<Rightarrow> 1)"

section \<open>cmd/ledger and cmd/mockrail\<close>

definition ledger_options :: "os_env \<Rightarrow> options" where
  "ledger_options os = \<lparr>opt_ServiceName = ''ledger'', opt_HealthAddr = EnvOr (os_getenv os) ''LEDGER_HTTP_ADDR'' '':8081'',
     opt_GRPCAddr = EnvOr (os_getenv os) ''LEDGER_GRPC_ADDR'' '':50051'',
     opt_RegisterGRPC = True, opt_RegisterHTTP = [], opt_Cleanup = True\<rparr>"

definition ledger_main :: "os_env \<Rightarrow> nat \<times> effect list" where
  "ledger_main os =
     (case NewPool os of
        (Inl e, es) \<Rightarrow> (1, es)
      | (Inr _, es) \<Rightarrow> (case serviceboot_Run (ledger_options os) os of (r, es') \<Rightarrow> (exit_status r, es @ es')))"

text \<open>\<open>strconv.Atoi\<close> of the variable or the rendered default; \<open>strconv.ParseFloat\<close> is a parameter.\<close>

definition envInt :: "getenv \<Rightarrow> string \<Rightarrow> i64 \<Rightarrow> i64" where
  "envInt env key dflt =
     (case ParseInt (EnvOr env key (FormatInt dflt)) of Inr v \<Rightarrow> v | Inl _ \<Rightarrow> dflt)"

text \<open>\<open>time.Duration\<close> wraps at 64 bits. A float variable is read through \<open>parse_float\<close>, its default through no
  text at all (\<open>FormatFloat\<close> with precision -1 is read back as the same number).\<close>

definition envFloat :: "(string \<Rightarrow> rat option) \<Rightarrow> getenv \<Rightarrow> string \<Rightarrow> rat \<Rightarrow> rat" where
  "envFloat parse_float env key dflt =
     (if env key = [] then dflt else case parse_float (env key) of Some v \<Rightarrow> v | None \<Rightarrow> dflt)"

definition mockrail_config :: "(string \<Rightarrow> rat option) \<Rightarrow> getenv \<Rightarrow> rail_config" where
  "mockrail_config parse_float env =
     \<lparr>rl_latency = sint (envInt env ''MOCKRAIL_LATENCY_MS'' 0 * 1000000), rl_seed = envInt env ''MOCKRAIL_SEED'' 1,
      rl_p_timeout = envFloat parse_float env ''MOCKRAIL_P_TIMEOUT'' 0,
      rl_p_decline = envFloat parse_float env ''MOCKRAIL_P_DECLINE'' 0,
      rl_p_duplicate = envFloat parse_float env ''MOCKRAIL_P_DUPLICATE'' 0,
      rl_p_tsq_timeout = envFloat parse_float env ''MOCKRAIL_P_TSQ_TIMEOUT'' 0,
      rl_callback = EnvOr env ''SWITCH_CALLBACK_TARGET'' [] \<noteq> []\<rparr>"

definition mockrail_options :: "os_env \<Rightarrow> options" where
  "mockrail_options os = \<lparr>opt_ServiceName = ''mockrail'', opt_HealthAddr = EnvOr (os_getenv os) ''MOCKRAIL_HTTP_ADDR'' '':8082'',
     opt_GRPCAddr = EnvOr (os_getenv os) ''MOCKRAIL_ADDR'' '':50053'',
     opt_RegisterGRPC = True, opt_RegisterHTTP = [], opt_Cleanup = EnvOr (os_getenv os) ''SWITCH_CALLBACK_TARGET'' [] \<noteq> []\<rparr>"

definition mockrail_main :: "os_env \<Rightarrow> nat \<times> effect list" where
  "mockrail_main os =
     (let target = EnvOr (os_getenv os) ''SWITCH_CALLBACK_TARGET'' []
      in if target \<noteq> [] \<and> os_grpc_client os target \<noteq> None then (1, [])
         else case serviceboot_Run (mockrail_options os) os of (r, es) \<Rightarrow> (exit_status r, es))"

text \<open>\<open>SendCallback\<close>: one RPC to the switch, its answer ignored.\<close>

definition SendCallback :: "string \<Rightarrow> bool \<Rightarrow> world \<Rightarrow> world" where
  "SendCallback ref declined w =
     snd (rpc (grpc_RailCallback ref (if declined then CALLBACK_STATUS_DECLINED else CALLBACK_STATUS_SUCCESS)) w)"

section \<open>cmd/switchd\<close>

text \<open>\<open>outbox.Config{}\<close> with the defaults filled in.\<close>

definition switchd_config :: poll_config where
  "switchd_config = withDefaults \<lparr>c_interval = 0, c_batch = 0, c_lease = 0, c_max_attempts = 0, c_base_backoff = 0, c_max_backoff = 0\<rparr>"

definition switchd_options :: "os_env \<Rightarrow> options" where
  "switchd_options os = \<lparr>opt_ServiceName = ''switchd'', opt_HealthAddr = EnvOr (os_getenv os) ''SWITCHD_HTTP_ADDR'' '':8080'',
     opt_GRPCAddr = EnvOr (os_getenv os) ''SWITCHD_GRPC_ADDR'' '':50052'',
     opt_RegisterGRPC = True, opt_RegisterHTTP = [''/''], opt_Cleanup = True\<rparr>"

definition switchd_clients :: "os_env \<Rightarrow> err option" where
  "switchd_clients os =
     first_error (os_grpc_client os (EnvOr (os_getenv os) ''LEDGER_GRPC_TARGET'' ''localhost:50051''))
       (os_grpc_client os (EnvOr (os_getenv os) ''MOCKRAIL_GRPC_TARGET'' ''localhost:50053''))"

text \<open>What the running process reacts to.\<close>

datatype switchd_input =
    PostTransfer string string rest_body
  | GetTransfer string string
  | PollerTick
  | LagTick
  | CallbackCall string callback_status
  | CorrectiveCall string

fun switchd_serve :: "(string \<Rightarrow> string) \<Rightarrow> switchd_input \<Rightarrow> world \<Rightarrow> world" where
  "switchd_serve sha (PostTransfer cid key body) w = snd (rest_create sha defaultIdempotencyLease cid key body w)"
| "switchd_serve sha (GetTransfer cid i) w = snd (rest_get cid i w)"
| "switchd_serve sha PollerTick w = snd (poller_Run (driver_Handle default_tsq) switchd_config [TickerFired] w)"
| "switchd_serve sha LagTick w = snd (run_stmt OutboxLagSeconds w)"
| "switchd_serve sha (CallbackCall ref st) w = snd (grpc_RailCallback ref st w)"
| "switchd_serve sha (CorrectiveCall ref) w = snd (grpc_CorrectiveReversal ref w)"

text \<open>Without the listener no gRPC call arrives.\<close>

fun is_grpc :: "switchd_input \<Rightarrow> bool" where
  "is_grpc (CallbackCall ref st) = True"
| "is_grpc (CorrectiveCall ref) = True"
| "is_grpc _ = False"

definition arrives :: "os_env \<Rightarrow> switchd_input \<Rightarrow> bool" where
  "arrives os i \<longleftrightarrow> is_grpc i \<longrightarrow> os_listen os = None"

text \<open>A new process starts its counters at zero.\<close>

definition NewMetrics :: metrics where
  "NewMetrics = \<lparr>m_retries = 0, m_exhausted = 0, m_outcomes = (\<lambda>_. 0), m_reversal_latency = [], m_dead_letters = 0\<rparr>"

text \<open>\<open>main\<close>: the pool, the clients, the recovery sweep whose error is only logged, then the pollers and \<open>Run\<close>.\<close>

definition switchd_main :: "(string \<Rightarrow> string) \<Rightarrow> os_env \<Rightarrow> switchd_input list \<Rightarrow> world \<Rightarrow> (nat \<times> effect list) \<times> world" where
  "switchd_main sha os inputs w =
     (case NewPool os of
        (Inl e, es) \<Rightarrow> ((1, es), w)
      | (Inr _, es) \<Rightarrow>
          (case switchd_clients os of
             Some e \<Rightarrow> ((1, es), w)
           | None \<Rightarrow>
               (let w1 = snd (Recover (w\<lparr>w_metrics := NewMetrics, w_slept := []\<rparr>));
                    w2 = fold (switchd_serve sha) (filter (arrives os) inputs) w1
                in case serviceboot_Run (switchd_options os) os of
                    (r, es') \<Rightarrow> ((exit_status r, es @ es'), w2))))"

text \<open>The lives of the process: each ends by itself, by a failed boot, or is cut off after its last input.\<close>

fun switchd_lives :: "(string \<Rightarrow> string) \<Rightarrow> (os_env \<times> switchd_input list) list \<Rightarrow> world \<Rightarrow> world" where
  "switchd_lives sha [] w = w"
| "switchd_lives sha ((os, inputs) # ls) w = switchd_lives sha ls (snd (switchd_main sha os inputs w))"

text \<open>The REST router at the root leaves the two operational routes alone.\<close>

lemma root_handler_keeps_operational_routes:
  "mux_route (NewServer_routes True [''/'']) ''/healthz'' = Some ''/healthz''"
  "mux_route (NewServer_routes True [''/'']) ''/metrics'' = Some ''/metrics''"
  "mux_route (NewServer_routes True [''/'']) ''/v1/transfers'' = Some ''/''"
  by code_simp+

section \<open>Lives are runs\<close>

text \<open>What a run of \<open>sw_step\<close> asks of its inputs: client keys that are not leg keys, truthful callbacks.\<close>

fun input_ok :: "(string \<Rightarrow> rail_status) \<Rightarrow> switchd_input \<Rightarrow> world \<Rightarrow> bool" where
  "input_ok truth (PostTransfer cid key body) w \<longleftrightarrow> customer_key (w_codec w) key"
| "input_ok truth (CallbackCall ref st) w \<longleftrightarrow> callback_ok truth (w_db w) ref (verdictFromCallback st)"
| "input_ok truth _ w \<longleftrightarrow> True"

fun inputs_ok :: "(string \<Rightarrow> rail_status) \<Rightarrow> (string \<Rightarrow> string) \<Rightarrow> switchd_input list \<Rightarrow> world \<Rightarrow> bool" where
  "inputs_ok truth sha [] w \<longleftrightarrow> True"
| "inputs_ok truth sha (i # is) w \<longleftrightarrow> input_ok truth i w \<and> inputs_ok truth sha is (switchd_serve sha i w)"

fun lives_ok :: "(string \<Rightarrow> rail_status) \<Rightarrow> (string \<Rightarrow> string) \<Rightarrow> (os_env \<times> switchd_input list) list \<Rightarrow> world \<Rightarrow> bool" where
  "lives_ok truth sha [] w \<longleftrightarrow> True"
| "lives_ok truth sha ((os, inputs) # ls) w \<longleftrightarrow>
     inputs_ok truth sha (filter (arrives os) inputs) (snd (Recover (restarted w)))
     \<and> lives_ok truth sha ls (snd (switchd_main sha os inputs w))"

lemma restarted_metrics: "w\<lparr>w_metrics := NewMetrics, w_slept := []\<rparr> = restarted w"
  by (simp add: restarted_def NewMetrics_def)

lemma serve_step:
  "input_ok truth i w \<Longrightarrow> sw_step default_tsq switchd_config sha truth w (switchd_serve sha i w)"
proof (cases i)
  case (PostTransfer cid key body)
  obtain r w' where "rest_create sha defaultIdempotencyLease cid key body w = (r, w')" by force
  then show "input_ok truth i w \<Longrightarrow> ?thesis" using PostTransfer by (auto intro: post_transfer)
next
  case (GetTransfer cid n)
  obtain r w' where "rest_get cid n w = (r, w')" by force
  then show ?thesis using GetTransfer by (auto intro: get_transfer)
next
  case PollerTick
  obtain r w' where "poller_tick (driver_Handle default_tsq) switchd_config w = (r, w')" by force
  then show ?thesis using PollerTick by (auto intro: poll)
next
  case LagTick
  obtain r w' where "run_stmt OutboxLagSeconds w = (r, w')" by force
  then show ?thesis using LagTick by (auto intro: lag_gauge)
next
  case (CallbackCall ref st)
  obtain r w' where "grpc_RailCallback ref st w = (r, w')" by force
  then show "input_ok truth i w \<Longrightarrow> ?thesis" using CallbackCall by (auto intro: rail_callback)
next
  case (CorrectiveCall ref)
  obtain r w' where "grpc_CorrectiveReversal ref w = (r, w')" by force
  then show ?thesis using CorrectiveCall by (auto intro: corrective)
qed

lemma serve_runs:
  "inputs_ok truth sha is w \<Longrightarrow> sw_runs default_tsq switchd_config sha truth w (fold (switchd_serve sha) is w)"
proof (induction "is" arbitrary: w)
  case (Cons i "is")
  then have "sw_step default_tsq switchd_config sha truth w (switchd_serve sha i w)" by (auto intro: serve_step)
  then show ?case using Cons runs_trans [OF runs_step] by simp
qed (simp add: sw_runs_def)

lemma main_runs:
  assumes "inputs_ok truth sha (filter (arrives os) is) (snd (Recover (restarted w)))"
  shows "sw_runs default_tsq switchd_config sha truth w (snd (switchd_main sha os is w))"
proof -
  have stay: "sw_runs default_tsq switchd_config sha truth w w" by (simp add: sw_runs_def)
  obtain m w1 where rec: "Recover (restarted w) = (m, w1)" by force
  have "sw_runs default_tsq switchd_config sha truth w w1"
    using runs_trans [OF runs_step [OF restart] runs_step [OF boot_recovery [OF rec]]] .
  then have "sw_runs default_tsq switchd_config sha truth w (fold (switchd_serve sha) (filter (arrives os) is) w1)"
    using serve_runs assms rec runs_trans by simp
  moreover have "snd (switchd_main sha os is w) = w
      \<or> snd (switchd_main sha os is w) = fold (switchd_serve sha) (filter (arrives os) is) w1"
  proof (cases "NewPool os")
    case (Pair r es)
    obtain x es' where run: "serviceboot_Run (switchd_options os) os = (x, es')" by force
    show ?thesis
      by (cases r; cases "switchd_clients os") (simp_all only: switchd_main_def Pair restarted_metrics rec run Let_def prod.case
          sum.case option.case unit.case snd_conv simp_thms)
  qed
  ultimately show ?thesis using stay by metis
qed

end
