(* ===== verification/HealthyRestart.thy ===== *)
theory HealthyRestart
  imports HealthyPoll
begin

text \<open>
  The start-up sweep in a healthy world: every unfinished transfer without a live event gets one that is
  due at once, so the poller that starts next has all the work in its outbox.
\<close>

section \<open>The sweep\<close>

lemma recover_rows_healthy:
  "workable truth w \<Longrightarrow> (\<And>t. t \<in> set ts \<Longrightarrow> transfer_row (w_db w) (t_id t) t \<and> resumable t) \<Longrightarrow>
   \<exists>w' new. recover_rows ts n w = (n + length ts, w') \<and> workable truth w' \<and> ticked w w'
     \<and> transactions (w_db w') = transactions (w_db w) \<and> outbox (w_db w') = outbox (w_db w) @ new
     \<and> length new = length ts \<and> (\<forall>r \<in> set new. appended w w' r) \<and> (\<forall>t \<in> set ts. \<exists>r \<in> set new. drives r t)"
proof (induction ts arbitrary: n w)
  case Nil
  then show ?case by (auto intro!: exI [of _ w] exI [of _ "[]"])
next
  case (Cons t ts)
  let ?ev = "w_env w (w_tick w)" and ?d = "w_db w" and ?ty = "eventForStatus (t_status t)"
  let ?p = "eventPayload (detailFromRow (w_codec w) t)"
  have t: "transfer_row ?d (t_id t) t" and ty: "?ty \<in> event_types" "?ty \<noteq> []"
    using Cons.prems(2) by (auto simp: resumable_def eventForStatus_def go_const event_types_def)
  define r where "r = \<lparr>o_id = outbox_seq ?d, o_aggregate_type = AggregateTransfer, o_aggregate_id = t_id t, o_event_type = ?ty,
     o_payload = ?p, o_created_at = e_now ?ev, o_published_at = None, o_attempts = 0, o_next_attempt_at = e_now ?ev,
     o_last_error = None, o_dead_letter = False\<rparr>"
  define w1 where "w1 = w\<lparr>w_tick := Suc (w_tick w), w_db := ?d\<lparr>outbox := outbox ?d @ [r], outbox_seq := Suc (outbox_seq ?d)\<rparr>\<rparr>"
  have run: "run_stmt (outbox_Append (t_id t) ?ty ?p) w = (Inr (), w1)"
    unfolding run_stmt_def w1_def
    by (rule run_tx_no_fault [OF healthyD(1) [OF workableD(3) [OF Cons.prems(1)]]])
      (simp_all add: outbox_Append_writes r_def no_triggers_def)
  have k: "keeps truth w w1" using append_keeps [OF workableD(1) [OF Cons.prems(1)] t run [unfolded run_stmt_def]] by blast
  have tk: "ticked w w1" by (intro ticked_same_ids) (simp_all add: w1_def used_ids_def)
  have inv1: "sw_inv truth (w_codec w) (w_db w1)" using keeps_inv [OF k workableD(1) [OF Cons.prems(1)]] by (simp add: w1_def)
  have wk: "workable truth w1" by (rule workable_outbox [OF Cons.prems(1) inv1 tk]) (simp_all add: w1_def)
  have rows: "\<And>u. u \<in> set ts \<Longrightarrow> transfer_row (w_db w1) (t_id u) u \<and> resumable u"
    using Cons.prems(2) by (simp add: w1_def transfer_row_def)
  obtain w' new where ih: "recover_rows ts (Suc n) w1 = (Suc n + length ts, w')" "workable truth w'" "ticked w1 w'"
    "transactions (w_db w') = transactions (w_db w1)" "outbox (w_db w') = outbox (w_db w1) @ new" "length new = length ts"
    "\<forall>r \<in> set new. appended w1 w' r" "\<forall>t \<in> set ts. \<exists>r \<in> set new. drives r t"
    using Cons.IH [OF wk rows, of "Suc n"] by - (drule meta_mp, assumption, elim exE conjE, rule that)
  have le: "w_tick w1 \<le> w_tick w'" using ih(3) by (simp add: ticked_def)
  have r: "appended w w' r" using ty(1) le by (auto simp: appended_def r_def w1_def intro!: exI [of _ "w_tick w"])
  have new: "\<forall>x \<in> set new. appended w w' x"
    using ih(7) appended_mono [of w1 w] by (auto simp: w1_def)
  have d: "drives r t" by (simp add: drives_def r_def)
  show ?case
  proof (intro exI conjI)
    show "recover_rows (t # ts) n w = (n + length (t # ts), w')" using run ty(2) ih(1) by (simp add: Let_def)
    show "outbox (w_db w') = outbox ?d @ r # new" using ih(5) by (simp add: w1_def)
    show "ticked w w'" by (rule ticked_trans [OF tk ih(3)])
    show "transactions (w_db w') = transactions ?d" using ih(4) by (simp add: w1_def)
  qed (use ih(2,6,8) r new d in auto)
qed

text \<open>Each stuck transfer weighs in the workload, so the sweep at most doubles it.\<close>

lemma length_filter_sum: "(\<And>x. P x \<Longrightarrow> 1 \<le> f x) \<Longrightarrow> length (filter P xs) \<le> sum_list (map f xs)" for f :: "'a \<Rightarrow> nat"
proof (induction xs)
  case (Cons x xs)
  then have "P x \<Longrightarrow> 1 \<le> f x" "length (filter P xs) \<le> sum_list (map f xs)" by blast+
  then show ?case by (cases "P x") auto
qed simp

lemma stuck_workload:
  assumes inv: "sw_inv truth c d" and ts: "ListStuckTransfers ev d = Inr (ts, d')"
  shows "length ts \<le> workload d"
proof -
  let ?P = "\<lambda>t. resumable t \<and> \<not> list_ex (\<lambda>r. o_aggregate_id r = t_id t \<and> live r) (outbox d)"
  have "length ts = length (filter ?P (transactions d))" using ts by (auto simp: ListStuckTransfers_def)
  also have "\<dots> = length (filter ?P (transfers d))"
  proof -
    have "filter ?P (transactions d) = filter ?P (transfers d)"
      using resumable_row [OF inv] unfolding transfers_def filter_filter
      by (intro filter_cong) (auto simp: transfer_row_def)
    then show ?thesis by simp
  qed
  also have "\<dots> \<le> sum_list (map (\<lambda>t. status_rank (t_status t)) (transfers d))"
    by (rule length_filter_sum) (auto simp: resumable_def status_rank_def go_const)
  finally show ?thesis by (simp add: workload_def)
qed

text \<open>What the sweep finds after a crash: each live event is of a known type and due, and a transfer that has
  live events has one its status calls for.\<close>

definition sweepable :: "world \<Rightarrow> bool" where
  "sweepable w \<longleftrightarrow>
     (\<forall>r \<in> set (outbox (w_db w)). live r \<longrightarrow> o_event_type r \<in> event_types \<and> o_next_attempt_at r \<le> e_now (w_env w (w_tick w)))
     \<and> (\<forall>t \<in> set (transfers (w_db w)). eventForStatus (t_status t) \<noteq> [] \<longrightarrow>
          (\<exists>r \<in> set (outbox (w_db w)). o_aggregate_id r = t_id t \<and> live r) \<longrightarrow>
          (\<exists>r \<in> set (outbox (w_db w)). drives r t \<and> live r))"

lemma Recover_healthy:
  assumes w: "workable truth w" and s: "sweepable w"
  shows "\<exists>n w'. Recover w = (Inr n, w') \<and> backlog {} truth w' \<and> workload (w_db w') \<le> 2 * workload (w_db w)"
proof -
  let ?ev = "w_env w (w_tick w)" and ?d = "w_db w" and ?w1 = "w\<lparr>w_tick := Suc (w_tick w)\<rparr>"
  note inv = workableD(1) [OF w]
  obtain ts where ts: "ListStuckTransfers ?ev ?d = Inr (ts, ?d)" by (simp add: ListStuckTransfers_def)
  note mem = ListStuckTransfers_Inr [OF ts, THEN conjunct2, rule_format]
  have list: "run_stmt ListStuckTransfers w = (Inr ts, ?w1)"
    unfolding run_stmt_def
    by (subst run_tx_no_fault [OF healthyD(1) [OF workableD(3) [OF w]]]) (simp_all add: ts no_triggers_def, cases w, simp)
  have tk1: "ticked w ?w1" by (intro ticked_same_ids) simp_all
  have w1: "workable truth ?w1" by (rule workable_outbox [OF w _ tk1]) (simp_all add: inv)
  have rows: "\<And>t. t \<in> set ts \<Longrightarrow> transfer_row (w_db ?w1) (t_id t) t \<and> resumable t"
    using mem resumable_row [OF inv] by simp
  obtain w' new where run: "recover_rows ts 0 ?w1 = (0 + length ts, w')" and wk: "workable truth w'" and tk: "ticked ?w1 w'"
    and tx: "transactions (w_db w') = transactions (w_db ?w1)" and ob: "outbox (w_db w') = outbox (w_db ?w1) @ new"
    and len: "length new = length ts" and new: "\<forall>r \<in> set new. appended ?w1 w' r"
    and drv: "\<forall>t \<in> set ts. \<exists>r \<in> set new. drives r t"
    using recover_rows_healthy [OF w1 rows, of ts 0] by simp blast
  have env: "w_env w' = w_env w" "w_tick w \<le> w_tick w'" using tk by (simp_all add: ticked_def)
  have later: "e_now (w_env w m) \<le> e_now (w_env w (w_tick w'))" if "w_tick w \<le> m" "m \<le> w_tick w'" for m
    using healthyD(7) [OF workableD(3) [OF w] that] .
  have driven: "live_driven (w_db w')"
    unfolding live_driven_def
  proof (intro ballI impI)
    fix t assume "t \<in> set (transfers (w_db w'))" and e: "eventForStatus (t_status t) \<noteq> []"
    then have t: "t \<in> set (transfers ?d)" using tx by (simp add: transfers_def)
    have res: "resumable t"
      using sw_invD(5) [OF inv] t e by (auto simp: transfers_mem transfer_ok_def resumable_def eventForStatus_def go_const split: if_splits)
    show "\<exists>r \<in> set (outbox (w_db w')). drives r t \<and> live r"
    proof (cases "\<exists>r \<in> set (outbox ?d). o_aggregate_id r = t_id t \<and> live r")
      case True
      then show ?thesis using s t e ob unfolding sweepable_def by auto
    next
      case False
      then have "t \<in> set ts" using mem t res by (auto simp: transfers_mem)
      then show ?thesis using drv new ob by (fastforce simp: appended_def live_def)
    qed
  qed
  have "o_event_type r \<in> event_types \<and> o_next_attempt_at r \<le> e_now (w_env w (w_tick w'))"
    if r: "r \<in> set (outbox (w_db w'))" "live r" for r
  proof (cases "r \<in> set (outbox ?d)")
    case True
    then show ?thesis using s r(2) later [OF order_refl env(2)] unfolding sweepable_def by (auto intro: order_trans)
  next
    case False
    then have "appended ?w1 w' r" using r(1) ob new by auto
    then show ?thesis using later by (auto simp: appended_def)
  qed
  then have b: "backlog {} truth w'" using wk driven env(1) by (simp add: backlog_def)
  have "workload (w_db w') \<le> workload ?d + length ts"
    using len by (auto simp: workload_def ob transfers_def tx intro: le_trans [OF length_filter_le])
  then have "workload (w_db w') \<le> 2 * workload ?d" using stuck_workload [OF inv ts] by simp
  then show ?thesis using b list run by (simp add: Recover_def)
qed

end
