(* ===== verification/BootClaims.thy ===== *)
theory BootClaims
  imports Boot HealthyRestart ProgressClaims
begin

text \<open>
  Properties of the process: its lives as runs of the step relation, a restart finishes the work, what a
  boot and a shutdown do and which exit status they leave.
\<close>

section \<open>Lives\<close>

text \<open>The inputs of a process, under the premises of the step relation (clients' keys are not leg keys,
  callbacks are truthful and early for no transfer), make its lives a run of that relation.\<close>

theorem lives_are_runs:
  assumes "lives_ok truth sha ls w"
  shows "sw_runs default_tsq switchd_config sha truth w (switchd_lives sha ls w)"
  using assms
proof (induction ls arbitrary: w)
  case Nil
  then show ?case by (simp add: sw_runs_def)
next
  case (Cons l ls)
  obtain os "is" where l: "l = (os, is)" by force
  have "sw_runs default_tsq switchd_config sha truth w (snd (switchd_main sha os is w))"
    by (rule main_runs) (use Cons.prems l in simp)
  moreover have "sw_runs default_tsq switchd_config sha truth (snd (switchd_main sha os is w))
      (switchd_lives sha ls (snd (switchd_main sha os is w)))"
    by (rule Cons.IH) (use Cons.prems l in simp)
  ultimately show ?case using l runs_trans by simp
qed

section \<open>A restart finishes the work\<close>

lemma fold_ticks:
  "fold (switchd_serve sha) (replicate n PollerTick) w
    = snd (poller_Run (driver_Handle default_tsq) switchd_config (replicate n TickerFired) w)"
  by (induction n arbitrary: w) auto

text \<open>C3. A restart ends in no debit left behind: start \<open>switchd\<close> on any database the switch can leave, with
  dead letters and missing events, in an environment that is healthy from then on (as for draining the
  outbox), where the leases of the crashed process have run out and no transfer has live events of past
  statuses only; then the recovery sweep and a number of poller ticks bounded by twice the workload bring
  every transfer to a terminal status.\<close>

theorem restart_finishes_everything:
  assumes "workable truth w" and "sweepable w" and "fst (NewPool os) = Inr ()" and "switchd_clients os = None"
    and "2 * workload (w_db w) < n"
  shows "\<forall>t \<in> set (transactions (w_db (snd (switchd_main sha os (replicate n PollerTick) w)))).
    lifecycle t \<longrightarrow> isTerminalStatus (t_status t)"
proof -
  have same: "w_db (restarted w) = w_db w" "w_env (restarted w) = w_env w" "w_tick (restarted w) = w_tick w"
    "w_codec (restarted w) = w_codec w" by (simp_all add: restarted_def)
  have tk: "ticked w (restarted w)" by (intro ticked_same_ids) (simp_all add: same)
  have w: "workable truth (restarted w)"
    by (rule workable_outbox [OF assms(1) _ tk]) (simp_all add: same workableD(1) [OF assms(1)])
  have s: "sweepable (restarted w)" using assms(2) by (simp add: sweepable_def same)
  obtain m w1 where rec: "Recover (restarted w) = (Inr m, w1)" and b: "backlog {} truth w1"
    and l: "workload (w_db w1) \<le> 2 * workload (w_db w)"
    using Recover_healthy [OF w s] by (auto simp: same)
  have load: "workload (w_db w1) < n" using l assms(5) by simp
  obtain x w2 where run: "poller_Run (driver_Handle default_tsq) switchd_config (replicate n TickerFired) w1 = (x, w2)" by force
  have lim: "0 < sint (c_batch switchd_config)" by (simp add: switchd_config_def withDefaults_def)
  note done_ = ticks_healthy [OF b lim disjI1 [OF load] run]
  have "filter (arrives os) (replicate n PollerTick) = replicate n PollerTick" by (simp add: arrives_def)
  moreover obtain es where "NewPool os = (Inr (), es)" using assms(3) by (metis prod.collapse)
  ultimately have "snd (switchd_main sha os (replicate n PollerTick) w) = w2"
    using assms(4) rec run fold_ticks [of sha n w1]
    by (simp add: switchd_main_def restarted_metrics Let_def split: prod.split)
  then show ?thesis using drained_finished [OF conjunct1 [OF done_] conjunct2 [OF done_]] by simp
qed

section \<open>Boot and shutdown\<close>

text \<open>What the exit status of \<open>switchd\<close> tells: it is 0 exactly when the database and the clients could be set
  up, the gRPC listener came up and the shutdown of the health server and of tracing reported no error;
  whether a signal or the failure of a server ended the process does not show. The cleanup (which stops
  the poller and closes the pool) runs exactly once, after both servers stopped, unless the boot itself
  failed.\<close>

theorem switchd_exit_status:
  "fst (fst (switchd_main sha os is w)) =
     (if fst (NewPool os) = Inr () \<and> switchd_clients os = None \<and> os_listen os = None \<and> os_health_shutdown os = None
         \<and> (fst (tracing_Init os) = ShutdownProvider \<longrightarrow> os_tracing_shutdown os = None) then 0 else 1)
   \<and> (let es = snd (fst (switchd_main sha os is w)); boots = (fst (NewPool os) = Inr () \<and> switchd_clients os = None \<and> os_listen os = None)
      in count_list es CleanupRan = (if boots then 1 else 0)
         \<and> (boots \<longrightarrow> dropWhile (\<lambda>e. e \<noteq> HealthShutdown) es = [HealthShutdown, GrpcStopped, CleanupRan, TracingShutdown]))"
proof -
  have addr: "opt_GRPCAddr (switchd_options os) \<noteq> []" by (simp add: switchd_options_def EnvOr_def)
  have opts: "opt_Cleanup (switchd_options os)" by (simp add: switchd_options_def)
  show ?thesis
  proof (cases "fst (NewPool os) = Inr () \<and> switchd_clients os = None")
    case False
    then show ?thesis
      by (auto simp: switchd_main_def NewPool_def split: option.splits)
  next
    case True
    then obtain es where p: "NewPool os = (Inr (), es)" "es = [PoolOpened]"
      by (auto simp: NewPool_def split: option.splits)
    obtain x ys where run: "serviceboot_Run (switchd_options os) os = (x, ys)" by force
    have main: "fst (switchd_main sha os is w) = (exit_status x, es @ ys)"
      using True p run by (simp add: switchd_main_def Let_def)
    show ?thesis
      unfolding main using True run p addr opts
      by (auto simp: serviceboot_Run_def start_servers_def shutdown_def first_error_def exit_status_def stop_effect_def Let_def
          split: option.splits stop_event.splits shutdown_func.splits if_splits prod.splits)
  qed
qed

section \<open>Closed instances\<close>

definition demo_os :: os_env where
  "demo_os = \<lparr>os_getenv = (\<lambda>_. []), os_exporter = None, os_resource = None, os_listen = None, os_stop = SignalReceived,
     os_health_shutdown = None, os_tracing_shutdown = None, os_pool_new = None, os_pool_ping = None, os_grpc_client = (\<lambda>_. None)\<rparr>"

lemma demo_boots: "fst (NewPool demo_os) = Inr ()" "switchd_clients demo_os = None"
  by (simp_all add: NewPool_def switchd_clients_def demo_os_def first_error_def)

text \<open>A life that accepts a transfer and is cut off, and one that delivers.\<close>

lemma lives_are_runs_witness:
  "sw_runs default_tsq switchd_config demo_sha (\<lambda>_. RAIL_STATUS_SUCCESS) (sw_world RAIL_STATUS_SUCCESS)
     (switchd_lives demo_sha [(demo_os, [PostTransfer ''cid'' ''K'' demo_body]), (demo_os, [PollerTick, LagTick])] (sw_world RAIL_STATUS_SUCCESS))"
proof -
  let ?w = "sw_world RAIL_STATUS_SUCCESS"
  have "w_codec (snd (Recover (restarted ?w))) = w_codec ?w"
  proof -
    obtain m w1 where rec: "Recover (restarted ?w) = (m, w1)" by force
    have "sw_inv (\<lambda>_. RAIL_STATUS_SUCCESS) (w_codec (restarted ?w)) (w_db (restarted ?w))"
      using sw_world_sane [of RAIL_STATUS_SUCCESS] by (simp add: sane_def restarted_def)
    from Recover_keeps [OF this rec] have "w_codec w1 = w_codec (restarted ?w)" by (simp add: keeps_def)
    then show ?thesis unfolding rec by (simp add: restarted_def)
  qed
  then have "customer_key (w_codec (snd (Recover (restarted ?w)))) ''K''" using demo_customer_key by simp
  then have "lives_ok (\<lambda>_. RAIL_STATUS_SUCCESS) demo_sha
      [(demo_os, [PostTransfer ''cid'' ''K'' demo_body]), (demo_os, [PollerTick, LagTick])] ?w"
    by (simp add: arrives_def)
  then show ?thesis by (rule lives_are_runs)
qed

text \<open>The accepted transfer with all its events dead-lettered: the restart delivers it.\<close>

definition dead_letters :: world where
  "dead_letters = (after_post RAIL_STATUS_SUCCESS)\<lparr>w_db := (w_db (after_post RAIL_STATUS_SUCCESS))
     \<lparr>outbox := update_where (\<lambda>_. True) (\<lambda>r. r\<lparr>o_dead_letter := True\<rparr>) (outbox (w_db (after_post RAIL_STATUS_SUCCESS)))\<rparr>\<rparr>"

lemma restart_finishes_everything_witness:
  "list_all (\<lambda>t. isTerminalStatus (t_status t))
    (filter lifecycle (transactions (w_db (snd (switchd_main demo_sha demo_os (replicate 11 PollerTick) dead_letters)))))"
proof -
  let ?w = "after_post RAIL_STATUS_SUCCESS" and ?truth = "\<lambda>_ :: string. RAIL_STATUS_SUCCESS"
  have "bookkeeping (w_db ?w) (w_db dead_letters)"
    unfolding dead_letters_def by (simp, rule bookkeeping_update) (simp add: same_event_def)
  then have inv: "sw_inv ?truth (w_codec ?w) (w_db dead_letters)"
    by (rule sw_inv_bookkeeping [OF workableD(1) [OF demo_workable(1)]])
  have wk: "workable ?truth dead_letters"
    by (rule workable_outbox [OF demo_workable(1) inv]) (auto simp: dead_letters_def used_ids_def intro!: ticked_same_ids)
  have none: "\<not> live r" if "r \<in> set (outbox (w_db dead_letters))" for r
    using that by (auto simp: dead_letters_def update_where_def live_def)
  then have "sweepable dead_letters" by (auto simp: sweepable_def)
  moreover have "workload (w_db dead_letters) = 5"
    using unpublished_update_where [of "\<lambda>r. r\<lparr>o_dead_letter := True\<rparr>" "\<lambda>_. True" "outbox (w_db ?w)"] demo_work(4)
    by (simp add: workload_def dead_letters_def transfers_def)
  ultimately have "\<forall>t \<in> set (transactions (w_db (snd (switchd_main demo_sha demo_os (replicate 11 PollerTick) dead_letters)))).
      lifecycle t \<longrightarrow> isTerminalStatus (t_status t)"
    by (intro restart_finishes_everything [OF wk _ demo_boots]) simp_all
  then show ?thesis by (simp add: list_all_iff)
qed

end
