(* ===== verification/OutboxClaims.thy ===== *)
theory OutboxClaims
  imports Boot SwitchEntry SwitchDemo
begin

text \<open>
  What the poller of \<open>switchd\<close> does to an event whose handler keeps failing. Its configuration leaves the
  base backoff at zero, which the defaults keep, so a failed event is due again at the next tick.
\<close>

section \<open>Failing deliveries\<close>

text \<open>A handler that reports an error every time and leaves the database alone, as the driver does while the
  ledger cannot be reached.\<close>

definition keeps_failing :: "handler \<Rightarrow> bool" where
  "keeps_failing h \<longleftrightarrow> (\<forall>e w. \<exists>err w'. h e w = (Inl err, w') \<and> w_db w' = w_db w \<and> w_env w' = w_env w \<and> w_tick w \<le> w_tick w')"

lemma switchd_backoff: "poller_backoff switchd_config n = 0"
proof -
  have "backoff_loop k mx 0 = 0" for k mx by (induction k) auto
  then show ?thesis by (simp add: poller_backoff_def switchd_config_def withDefaults_def Let_def)
qed

lemma switchd_limits:
  "nat (sint (c_batch switchd_config)) = 64" "c_max_attempts switchd_config = 8" "0 < sint (c_batch switchd_config)"
  by (simp_all add: switchd_config_def withDefaults_def)

lemma run_stmt_tick: "run_stmt f w = (r, w') \<Longrightarrow> w_tick w \<le> w_tick w'"
  unfolding run_stmt_def
  by (auto simp: run_tx_def take_env_def split: tx_fault.splits sum.splits prod.splits option.splits)

text \<open>A failed delivery only touches the row it names.\<close>

lemma fail_outbox:
  "\<exists>f. (\<forall>x. o_id (f x) = o_id x)
     \<and> outbox (w_db (poller_fail cfg e err w)) = update_where (\<lambda>r. o_id r = v_id e) f (outbox (w_db w))"
proof -
  have id: "update_where P (\<lambda>x. x) rs = rs" for P and rs :: "outbox_row list" by (simp add: update_where_def)
  have "\<exists>f. (\<forall>x. o_id (f x) = o_id x) \<and> outbox (w_db w') = update_where (\<lambda>r. o_id r = v_id e) f (outbox (w_db w))"
    if "run_stmt s w = (x, w')" "s = DeadLetterOutbox (v_id e) m \<or> s = RescheduleOutbox (v_id e) d m" for s x w' m d
    using that(1) unfolding run_stmt_def
  proof (cases rule: run_tx_cases)
    case (unchanged e')
    then show ?thesis by (intro exI [of _ "\<lambda>x. x"]) (simp add: id)
  next
    case (committed a d')
    from that(2) show ?thesis
    proof
      assume "s = DeadLetterOutbox (v_id e) m"
      then show ?thesis using committed(1) unfolding committed(3)
        by (intro exI [of _ "\<lambda>r. r\<lparr>o_attempts := o_attempts r + 1, o_dead_letter := True, o_last_error := Some m\<rparr>"])
          (auto simp: DeadLetterOutbox_def split: if_splits)
    next
      assume "s = RescheduleOutbox (v_id e) d m"
      then show ?thesis using committed(1) unfolding committed(3)
        by (intro exI [of _ "\<lambda>r. r\<lparr>o_attempts := o_attempts r + 1,
              o_next_attempt_at := e_now (w_env w (w_tick w)) + d, o_last_error := Some m\<rparr>"])
          (auto simp: RescheduleOutbox_def split: if_splits)
    qed
  qed
  note step = this
  obtain x1 w1 where d: "run_stmt (DeadLetterOutbox (v_id e) (err_text err)) w = (x1, w1)" by force
  obtain x2 w2 where s: "run_stmt (RescheduleOutbox (v_id e) (poller_backoff cfg (v_attempts e + 1)) (err_text err)) w = (x2, w2)"
    by force
  show ?thesis
    using step [OF d disjI1 [OF refl]] step [OF s disjI2 [OF refl]] d s by (auto simp: poller_fail_def Let_def incDeadLetter_def split: sum.split)
qed

lemma fail_frame: "w_env (poller_fail cfg e err w) = w_env w" "w_tick w \<le> w_tick (poller_fail cfg e err w)"
proof -
  obtain x1 w1 where d: "run_stmt (DeadLetterOutbox (v_id e) (err_text err)) w = (x1, w1)" by force
  obtain x2 w2 where s: "run_stmt (RescheduleOutbox (v_id e) (poller_backoff cfg (v_attempts e + 1)) (err_text err)) w = (x2, w2)"
    by force
  show "w_tick w \<le> w_tick (poller_fail cfg e err w)"
    using run_stmt_tick [OF d] run_stmt_tick [OF s] d s by (auto simp: poller_fail_def Let_def incDeadLetter_def split: sum.split)
qed (simp add: poller_fail_frame)

lemma deliver_failing:
  assumes "keeps_failing h"
  obtains err w1 where "deliver h cfg r w = poller_fail cfg (event_of r) err w1" "w_db w1 = w_db w" "w_env w1 = w_env w" "w_tick w \<le> w_tick w1"
  using assms unfolding keeps_failing_def deliver_def by (metis (no_types, lifting) case_prod_conv old.sum.simps(5))

text \<open>The other rows of the batch leave row \<open>i\<close> and the ids as they are.\<close>

definition row_kept :: "nat \<Rightarrow> world \<Rightarrow> world \<Rightarrow> bool" where
  "row_kept i w w' \<longleftrightarrow> w_env w' = w_env w \<and> w_tick w \<le> w_tick w' \<and> map o_id (outbox (w_db w')) = map o_id (outbox (w_db w))
     \<and> (\<forall>x \<in> set (outbox (w_db w)). o_id x = i \<longrightarrow> x \<in> set (outbox (w_db w')))"

lemma row_kept_trans: "row_kept i w1 w2 \<Longrightarrow> row_kept i w2 w3 \<Longrightarrow> row_kept i w1 w3"
  unfolding row_kept_def by (metis order_trans)

lemma deliver_other:
  assumes "keeps_failing h" "o_id r \<noteq> i"
  shows "row_kept i w (deliver h cfg r w)"
proof -
  obtain err w1 where d: "deliver h cfg r w = poller_fail cfg (event_of r) err w1" "w_db w1 = w_db w" "w_env w1 = w_env w" "w_tick w \<le> w_tick w1"
    using deliver_failing [OF assms(1)] .
  obtain f where f: "\<forall>x. o_id (f x) = o_id x"
    "outbox (w_db (deliver h cfg r w)) = update_where (\<lambda>x. o_id x = o_id r) f (outbox (w_db w))"
    using fail_outbox [where cfg = cfg and e = "event_of r" and err = err and w = w1] d by (auto simp: event_of_def)
  show ?thesis
    unfolding row_kept_def f(2) using d fail_frame [where cfg = cfg and e = "event_of r" and err = err and w = w1] f(1) assms(2)
    by (auto simp: set_update_where map_update_where intro: order_trans)
qed

lemma deliver_others:
  "keeps_failing h \<Longrightarrow> \<forall>r \<in> set rs. o_id r \<noteq> i \<Longrightarrow> row_kept i w (deliver_all h cfg rs w)"
proof (induction rs arbitrary: w)
  case Nil
  then show ?case by (simp add: row_kept_def)
next
  case (Cons r rs)
  then show ?case using deliver_other row_kept_trans by fastforce
qed

lemma deliver_all_append: "deliver_all h cfg (xs @ ys) w = deliver_all h cfg ys (deliver_all h cfg xs w)"
  by (induction xs arbitrary: w) auto

section \<open>One tick of an outage\<close>

text \<open>The event \<open>i\<close> is live and due after \<open>k\<close> failed attempts.\<close>

definition failed_attempts :: "nat \<Rightarrow> nat \<Rightarrow> world \<Rightarrow> bool" where
  "failed_attempts i k w \<longleftrightarrow> distinct (map o_id (outbox (w_db w))) \<and> length (outbox (w_db w)) \<le> 64
     \<and> (\<exists>r \<in> set (outbox (w_db w)). o_id r = i \<and> live r \<and> o_attempts r = of_nat k
          \<and> o_next_attempt_at r \<le> e_now (w_env w (w_tick w)))"

definition dead_lettered :: "nat \<Rightarrow> world \<Rightarrow> bool" where
  "dead_lettered i w \<longleftrightarrow> (\<exists>r \<in> set (outbox (w_db w)). o_id r = i \<and> o_dead_letter r \<and> o_published_at r = None)"

definition steady_clock :: "world \<Rightarrow> bool" where
  "steady_clock w \<longleftrightarrow> no_faults w \<and> (\<forall>m n. m \<le> n \<longrightarrow> e_now (w_env w m) \<le> e_now (w_env w n))"

lemma small_attempts:
  "k < 8 \<Longrightarrow> sint (of_nat k + 1 :: i32) = int k + 1"
proof -
  assume "k < 8"
  then consider "k = 0" | "k = 1" | "k = 2" | "k = 3" | "k = 4" | "k = 5" | "k = 6" | "k = 7" by linarith
  then show ?thesis by cases simp_all
qed

text \<open>The delivery of the event itself.\<close>

lemma deliver_own:
  assumes h: "keeps_failing h" and c: "steady_clock w" and k: "k < 8"
    and r: "o_attempts r = of_nat k"
    and x: "x \<in> set (outbox (w_db w))" "o_id x = o_id r" "live x" "o_attempts x = of_nat k"
    and d: "distinct (map o_id (outbox (w_db w)))"
    and w': "w' = deliver h switchd_config r w"
  shows "w_env w' = w_env w \<and> w_tick w \<le> w_tick w' \<and> map o_id (outbox (w_db w')) = map o_id (outbox (w_db w))
    \<and> (\<exists>y \<in> set (outbox (w_db w')). o_id y = o_id r \<and> o_published_at y = None \<and> o_attempts y = of_nat (Suc k)
        \<and> (if k = 7 then o_dead_letter y else live y \<and> o_next_attempt_at y \<le> e_now (w_env w' (w_tick w'))))"
proof -
  obtain err w1 where f: "w' = poller_fail switchd_config (event_of r) err w1" "w_db w1 = w_db w" "w_env w1 = w_env w" "w_tick w \<le> w_tick w1"
    using deliver_failing [OF h, of switchd_config r w] w' by metis
  have nf: "e_fault (w_env w1 (w_tick w1)) = NoFault" using c f(3) by (simp add: steady_clock_def no_faults_def)
  have no: "\<not> attempts_overflow (o_id r) (w_db w)"
  proof
    assume "attempts_overflow (o_id r) (w_db w)"
    then obtain z where z: "z \<in> set (outbox (w_db w))" "o_id z = o_id r" "2 ^ 31 \<le> sint (o_attempts z) + 1"
      by (auto simp: attempts_overflow_def list_ex_iff)
    then have "z = x" using x(1,2) d by (metis distinct_map inj_onD)
    moreover have "sint (of_nat k :: i32) < 8"
    proof -
      consider "k = 0" | "k = 1" | "k = 2" | "k = 3" | "k = 4" | "k = 5" | "k = 6" | "k = 7" using k by linarith
      then show ?thesis by cases simp_all
    qed
    ultimately show False using z(3) x(4) by simp
  qed
  note next_ = small_attempts [OF k]
  show ?thesis
  proof (cases "k = 7")
    case True
    have "run_stmt (DeadLetterOutbox (o_id r) (err_text err)) w1 = (Inr (), w1\<lparr>w_tick := Suc (w_tick w1),
        w_db := (w_db w)\<lparr>outbox := update_where (\<lambda>s. o_id s = o_id r)
          (\<lambda>s. s\<lparr>o_attempts := o_attempts s + 1, o_dead_letter := True, o_last_error := Some (err_text err)\<rparr>) (outbox (w_db w))\<rparr>\<rparr>)"
      unfolding run_stmt_def by (rule run_tx_no_fault [OF nf]) (simp_all add: DeadLetterOutbox_def no f(2) no_triggers_def)
    then have w2: "w_env w' = w_env w" "w_tick w' = Suc (w_tick w1)" "outbox (w_db w') = update_where (\<lambda>s. o_id s = o_id r)
          (\<lambda>s. s\<lparr>o_attempts := o_attempts s + 1, o_dead_letter := True, o_last_error := Some (err_text err)\<rparr>) (outbox (w_db w))"
      using True r next_ f(1,3) by (simp_all add: poller_fail_def Let_def event_of_def incDeadLetter_def switchd_limits)
    let ?y = "x\<lparr>o_attempts := o_attempts x + 1, o_dead_letter := True, o_last_error := Some (err_text err)\<rparr>"
    have "?y \<in> set (outbox (w_db w'))" unfolding w2(3) using x(1,2) by (auto simp: set_update_where)
    then show ?thesis
      using x True f(4) w2(1,2) by (auto simp: w2(3) map_update_where live_def intro!: bexI [of _ ?y])
  next
    case False
    have "run_stmt (RescheduleOutbox (o_id r) 0 (err_text err)) w1 = (Inr (), w1\<lparr>w_tick := Suc (w_tick w1),
        w_db := (w_db w)\<lparr>outbox := update_where (\<lambda>s. o_id s = o_id r)
          (\<lambda>s. s\<lparr>o_attempts := o_attempts s + 1, o_next_attempt_at := e_now (w_env w1 (w_tick w1)) + 0,
             o_last_error := Some (err_text err)\<rparr>) (outbox (w_db w))\<rparr>\<rparr>)"
      unfolding run_stmt_def by (rule run_tx_no_fault [OF nf]) (simp_all add: RescheduleOutbox_def no f(2) no_triggers_def)
    then have w2: "w_env w' = w_env w" "w_tick w' = Suc (w_tick w1)" "outbox (w_db w') = update_where (\<lambda>s. o_id s = o_id r)
          (\<lambda>s. s\<lparr>o_attempts := o_attempts s + 1, o_next_attempt_at := e_now (w_env w1 (w_tick w1)) + 0,
             o_last_error := Some (err_text err)\<rparr>) (outbox (w_db w))"
      using False r next_ k f(1,3) by (simp_all add: poller_fail_def Let_def event_of_def switchd_limits switchd_backoff)
    have later: "e_now (w_env w (w_tick w1)) \<le> e_now (w_env w (Suc (w_tick w1)))" using c by (simp add: steady_clock_def)
    let ?y = "x\<lparr>o_attempts := o_attempts x + 1, o_next_attempt_at := e_now (w_env w1 (w_tick w1)) + 0, o_last_error := Some (err_text err)\<rparr>"
    have "?y \<in> set (outbox (w_db w'))" unfolding w2(3) using x(1,2) by (auto simp: set_update_where)
    then show ?thesis
      using x False later f(3,4) w2(1,2) by (auto simp: w2(3) map_update_where live_def intro!: bexI [of _ ?y])
  qed
qed

lemma outage_tick:
  assumes h: "keeps_failing h" and c: "steady_clock w" and k: "k < 8" and a: "failed_attempts i k w"
    and w': "w' = snd (poller_tick h switchd_config w)"
  shows "steady_clock w' \<and> (if k = 7 then dead_lettered i w' else failed_attempts i (Suc k) w')"
proof -
  let ?ev = "w_env w (w_tick w)" and ?d = "w_db w"
  let ?ids = "claimed_ids (e_now ?ev) 64 (outbox ?d)"
  define rows where "rows = update_where (\<lambda>r. o_id r \<in> set ?ids) (\<lambda>r. r\<lparr>o_next_attempt_at := e_now ?ev + c_lease switchd_config\<rparr>) (outbox ?d)"
  define batch where "batch = filter (\<lambda>r. o_id r \<in> set ?ids) rows"
  define w1 where "w1 = w\<lparr>w_tick := Suc (w_tick w), w_db := ?d\<lparr>outbox := rows\<rparr>\<rparr>"
  obtain r where r: "r \<in> set (outbox ?d)" "o_id r = i" "live r" "o_attempts r = of_nat k" "o_next_attempt_at r \<le> e_now ?ev"
    and d: "distinct (map o_id (outbox ?d))" and len: "length (outbox ?d) \<le> 64"
    using a by (auto simp: failed_attempts_def)
  have "run_stmt (ClaimOutboxBatch (c_lease switchd_config) 64) w = (Inr batch, w1)"
    unfolding run_stmt_def w1_def
    by (rule run_tx_no_fault) (use c in \<open>simp_all add: steady_clock_def no_faults_def ClaimOutboxBatch_def Let_def rows_def batch_def no_triggers_def\<close>)
  then have tick: "w' = deliver_all h switchd_config batch w1" unfolding w' by (simp add: poller_tick_def switchd_limits)
  have ids: "map o_id rows = map o_id (outbox ?d)" unfolding rows_def by (simp add: map_update_where)
  have all: "length (sort_key o_created_at (filter (due (e_now ?ev)) (outbox ?d))) \<le> 64"
    using le_trans [OF length_filter_le len] by simp
  have "i \<in> set ?ids" using r all by (auto simp: claimed_ids_def due_def intro!: image_eqI [of _ _ r])
  moreover define x where "x = r\<lparr>o_next_attempt_at := e_now ?ev + c_lease switchd_config\<rparr>"
  ultimately have x: "x \<in> set batch" "x \<in> set rows" "o_id x = i" "live x" "o_attempts x = of_nat k"
    using r unfolding batch_def rows_def by (auto simp: set_update_where live_def)
  have db: "distinct (map o_id batch)" using d ids unfolding batch_def by (metis distinct_map_filter)
  obtain xs ys where split: "batch = xs @ x # ys" using split_list [OF x(1)] by blast
  have others: "\<forall>s \<in> set xs. o_id s \<noteq> i" "\<forall>s \<in> set ys. o_id s \<noteq> i" using db x(3) unfolding split by (force simp: image_iff)+
  define w2 where "w2 = deliver_all h switchd_config xs w1"
  define w3 where "w3 = deliver h switchd_config x w2"
  have w4: "w' = deliver_all h switchd_config ys w3" unfolding tick split w2_def w3_def by (simp add: deliver_all_append)
  have k1: "row_kept i w1 w2" unfolding w2_def by (rule deliver_others [OF h others(1)])
  have k2: "row_kept i w3 w'" unfolding w4 by (rule deliver_others [OF h others(2)])
  have c2: "steady_clock w2" using c k1 by (simp add: steady_clock_def no_faults_def row_kept_def w1_def)
  have x2: "x \<in> set (outbox (w_db w2))" using k1 x(2,3) by (simp add: row_kept_def w1_def)
  have d2: "distinct (map o_id (outbox (w_db w2)))" using k1 d ids by (simp add: row_kept_def w1_def)
  note own = deliver_own [OF h c2 k x(5) x2 refl x(4,5) d2 w3_def]
  then obtain y where y: "y \<in> set (outbox (w_db w3))" "o_id y = i" "o_published_at y = None" "o_attempts y = of_nat (Suc k)"
    "if k = 7 then o_dead_letter y else live y \<and> o_next_attempt_at y \<le> e_now (w_env w3 (w_tick w3))"
    using x(3) by auto
  have env: "w_env w' = w_env w" "w_env w3 = w_env w" using own k1 k2 by (auto simp: row_kept_def w1_def)
  have y': "y \<in> set (outbox (w_db w'))" using k2 y by (simp add: row_kept_def)
  have c': "steady_clock w'" using c env by (simp add: steady_clock_def no_faults_def)
  have m: "map o_id (outbox (w_db w')) = map o_id (outbox ?d)" using own k1 k2 ids by (simp add: row_kept_def w1_def)
  show ?thesis
  proof (cases "k = 7")
    case True
    then show ?thesis using y y' c' by (auto simp: dead_lettered_def)
  next
    case False
    have "e_now (w_env w (w_tick w3)) \<le> e_now (w_env w (w_tick w'))"
      using c k2 by (simp add: steady_clock_def row_kept_def)
    then have "o_next_attempt_at y \<le> e_now (w_env w' (w_tick w'))" using y(5) False env by auto
    moreover have "length (outbox (w_db w')) \<le> 64" using m len by (metis length_map)
    ultimately have "failed_attempts i (Suc k) w'"
      using y y' False m d by (auto simp: failed_attempts_def)
    then show ?thesis using c' False by simp
  qed
qed

lemma outage_ticks:
  assumes h: "keeps_failing h" and k: "k + Suc n = 8"
  shows "steady_clock w \<Longrightarrow> failed_attempts i k w \<Longrightarrow> dead_lettered i (snd (poller_Run h switchd_config (replicate (Suc n) TickerFired) w))"
  using k
proof (induction n arbitrary: k w)
  case 0
  then show ?case using outage_tick [OF h, of w k i "snd (poller_tick h switchd_config w)"] by simp
next
  case (Suc n)
  have "steady_clock (snd (poller_tick h switchd_config w)) \<and> failed_attempts i (Suc k) (snd (poller_tick h switchd_config w))"
    using outage_tick [OF h Suc.prems(1) _ Suc.prems(2) refl] Suc.prems(3) by simp
  then show ?case using Suc.IH [of "snd (poller_tick h switchd_config w)" "Suc k"] Suc.prems(3) by simp
qed

text \<open>C11. Under \<open>switchd\<close>'s own configuration eight failed ticks are the end of an event: there is no wait
  between attempts, so while a handler keeps failing, an event that is due is claimed by each of the next
  eight ticks of the poller, four seconds at the default interval, and is a dead letter afterwards.\<close>

theorem eight_ticks_dead_letter:
  assumes "keeps_failing h" and "steady_clock w" and "failed_attempts i 0 w"
  shows "c_interval switchd_config = 500 * 1000000
    \<and> dead_lettered i (snd (poller_Run h switchd_config (replicate 8 TickerFired) w))"
  using outage_ticks [OF assms(1) _ assms(2,3), of 7] by (simp add: switchd_config_def withDefaults_def eval_nat_numeral)

text \<open>The two events of the accepted post, against a ledger that cannot be reached.\<close>

definition unreachable_ledger :: handler where
  "unreachable_ledger e w = (Inl (GrpcStatus GrpcUnavailable ''connection refused''), w)"

lemma eight_ticks_dead_letter_witness:
  "\<exists>i. dead_lettered i (snd (poller_Run unreachable_ledger switchd_config (replicate 8 TickerFired) (after_post RAIL_STATUS_SUCCESS)))"
proof -
  let ?w = "after_post RAIL_STATUS_SUCCESS"
  have rows: "map (\<lambda>r. (o_id r, o_published_at r, o_dead_letter r, o_attempts r, o_next_attempt_at r)) (outbox (w_db ?w))
      = [(0, None, False, 0, 1), (1, None, False, 0, 5)]" and tick: "w_tick ?w = 8"
    unfolding after_post_eq by code_simp+
  obtain r s where o: "outbox (w_db ?w) = [r, s]" "o_id r = 0" "o_id s = 1" "o_published_at r = None" "\<not> o_dead_letter r"
    "o_attempts r = 0" "o_next_attempt_at r = 1"
    using rows by (auto simp: map_eq_Cons_conv)
  have env: "w_env ?w = small_env RAIL_STATUS_SUCCESS"
  proof -
    obtain x w' where "idempotent_Create demo_sha defaultIdempotencyLease ''K'' demo_creq (sw_world RAIL_STATUS_SUCCESS) = (x, w')" by force
    with idempotent_Create_keeps [OF _ _ demo_customer_key this, of "\<lambda>_. RAIL_STATUS_SUCCESS"] sw_world_sane [of RAIL_STATUS_SUCCESS]
    show ?thesis unfolding after_post_eq by (simp add: keeps_def sane_def sw_world_def world_of_def)
  qed
  have "steady_clock ?w" by (simp add: steady_clock_def no_faults_def env small_env_def)
  moreover have "failed_attempts 0 0 ?w" using o tick by (simp add: failed_attempts_def env small_env_def live_def)
  moreover have "keeps_failing unreachable_ledger" by (auto simp: keeps_failing_def unreachable_ledger_def)
  ultimately show ?thesis using eight_ticks_dead_letter by blast
qed

end
