(* ===== verification/GenSettlement.thy ===== *)
theory GenSettlement
  imports Fixture
begin

text \<open>
  \<open>scripts/gen_settlement/main.go\<close>: generate a fixture and write its two sides to two files. The file
  system is a map from paths to contents; its errors, the sequence of \<open>math/rand\<close> under a seed and the byte
  syntax of JSON are parameters.
\<close>

record gen_flags =
  gf_internal_out :: string
  gf_external_out :: string
  gf_spec :: fixture_spec
  gf_seed :: i64

record gen_env =
  ge_rng :: "i64 \<Rightarrow> fixture_rng"
  ge_print :: "ledger_value list \<Rightarrow> string"
  ge_mkdir :: "string \<Rightarrow> err option"
  ge_create :: "string \<Rightarrow> err option"
  ge_write :: "string \<Rightarrow> (string \<times> err) option"

type_synonym file_system = "string \<Rightarrow> string option"

text \<open>What a writer hands to its file: a text, and the error it ended with.\<close>

definition jsonl_text :: "gen_env \<Rightarrow> canonical_record list \<Rightarrow> string \<times> err option" where
  "jsonl_text env recs =
     (case WriteJSONL recs of
        Inr vs \<Rightarrow> (ge_print env vs, None)
      | Inl e \<Rightarrow> (ge_print env (map (LvObject \<circ> the) (takeWhile (\<lambda>m. m \<noteq> None) (map record_json recs))), Some e))"

text \<open>\<open>writeFile\<close>: the directory, the file (truncated), the content. A failing write leaves what was written
  before it.\<close>

definition writeFile :: "gen_env \<Rightarrow> string \<Rightarrow> string \<times> err option \<Rightarrow> file_system \<Rightarrow> err option \<times> file_system" where
  "writeFile env path content fs =
     (case ge_mkdir env path of
        Some e \<Rightarrow> (Some e, fs)
      | None \<Rightarrow>
          (case ge_create env path of
             Some e \<Rightarrow> (Some e, fs)
           | None \<Rightarrow>
               (case ge_write env path of
                  Some (written, e) \<Rightarrow> (Some e, fs(path \<mapsto> written))
                | None \<Rightarrow> (snd content, fs(path \<mapsto> fst content)))))"

text \<open>\<open>main\<close>: the error \<open>log.Fatalf\<close> reports, or the numbers of records it prints.\<close>

definition gen_settlement_main :: "gen_env \<Rightarrow> gen_flags \<Rightarrow> file_system \<Rightarrow> (err + nat \<times> nat) \<times> file_system" where
  "gen_settlement_main env flags fs =
     (let f = Generate (ge_rng env (gf_seed flags)) (gf_spec flags) in
      case writeFile env (gf_internal_out flags) (jsonl_text env (fx_internal f)) fs of
        (Some e, fs1) \<Rightarrow> (Inl (Wrap ''gen_settlement: write internal: '' e []), fs1)
      | (None, fs1) \<Rightarrow>
          (case writeFile env (gf_external_out flags) (WriteNIBSS (fx_external f), None) fs1 of
             (Some e, fs2) \<Rightarrow> (Inl (Wrap ''gen_settlement: write external: '' e []), fs2)
           | (None, fs2) \<Rightarrow> (Inr (length (fx_internal f), length (fx_external f)), fs2)))"

lemma writeFile_None:
  "writeFile env path content fs = (None, fs') \<Longrightarrow> snd content = None \<and> fs' = fs(path \<mapsto> fst content)"
  by (auto simp: writeFile_def split: option.splits)

text \<open>After a run that reports success the files hold the two sides; the external one wins if both have the
  same path.\<close>

lemma gen_settlement_files:
  assumes "gen_settlement_main env flags fs = (Inr n, fs')"
  defines "f \<equiv> Generate (ge_rng env (gf_seed flags)) (gf_spec flags)"
  obtains vs where "WriteJSONL (fx_internal f) = Inr vs" "n = (length (fx_internal f), length (fx_external f))"
    "fs' = fs(gf_internal_out flags \<mapsto> ge_print env vs, gf_external_out flags \<mapsto> WriteNIBSS (fx_external f))"
proof -
  obtain fs1 where w1: "writeFile env (gf_internal_out flags) (jsonl_text env (fx_internal f)) fs = (None, fs1)"
    and w2: "writeFile env (gf_external_out flags) (WriteNIBSS (fx_external f), None) fs1 = (None, fs')"
    and n: "n = (length (fx_internal f), length (fx_external f))"
    using assms(1) by (auto simp: gen_settlement_main_def f_def Let_def split: prod.splits option.splits)
  obtain vs where vs: "WriteJSONL (fx_internal f) = Inr vs"
    using writeFile_None [OF w1] by (auto simp: jsonl_text_def split: sum.splits)
  show thesis
    by (rule that [OF vs n]) (use writeFile_None [OF w1] writeFile_None [OF w2] vs in \<open>simp add: jsonl_text_def\<close>)
qed

end
