(* ===== verification/Pipeline.thy ===== *)
theory Pipeline
  imports ReconcileClaims GenSettlement
begin

text \<open>
  End to end: the files the generator writes, read back by the adapters, matched and reported.
\<close>

section \<open>Generated records survive their files\<close>

lemma plain_no_space: "list_all (\<lambda>c. \<not> is_space c) s \<Longrightarrow> plain_text s"
  by (cases s rule: rev_cases) (auto simp: plain_text_def trimmed_def list_all_iff is_space_def hd_append split: list.split)

lemma pad_zero_no_space: "list_all (\<lambda>c. \<not> is_space c) (pad_zero w (int n))"
  using dec_nat_digits digit_not_space by (auto simp: pad_zero_def list_all_iff is_space_def)

text \<open>What both file formats carry exactly.\<close>

definition portable :: "canonical_record \<Rightarrow> bool" where
  "portable r \<longleftrightarrow> r_transaction_id r = [] \<and> r_type r = TypeTransfer \<and> r_status r \<in> {StatusSettled, StatusFailed}
     \<and> r_settled_at r = None \<and> r_metadata r = [] \<and> nibss_writable r \<and> r_initiated_at r div second * second = r_initiated_at r"

lemma portable_exact:
  assumes "portable r"
  shows "nibss_normal r = r" "export_normal r = r" "record_json r \<noteq> None" "nibss_writable r"
  using assms
  by (auto simp: portable_def nibss_normal_def export_normal_def record_json_None nibss_writable_def nibss_status_def go_const)

lemma baseTime_eq: "baseTime = 1780218000 * second"
proof -
  have "day_number 2026 5 31 - epoch_days = 20604" by code_simp
  then show ?thesis by (simp add: baseTime_def algebra_simps)
qed

lemma fixture_ts_eq:
  assumes "int i < 10 ^ 8"
  shows "fixture_ts i = (1780218000 + int i * 60) * second"
proof -
  have "sint (word_of_int (int i * (60 * second)) :: i64) = int i * (60 * second)"
    using assms by (intro sint_of_int_i64) (simp add: in_i64_def second_def)
  then show ?thesis by (simp add: fixture_ts_def baseTime_eq algebra_simps)
qed

lemma fixture_times:
  assumes "int i < 10 ^ 8"
  shows "in_years (fixture_ts i)" "in_years (fixture_ts i + matchOffset)"
    "fixture_ts i div second * second = fixture_ts i"
    "(fixture_ts i + matchOffset) div second * second = fixture_ts i + matchOffset"
proof -
  have m: "fixture_ts i + matchOffset = (1780218030 + int i * 60) * second"
    unfolding fixture_ts_eq [OF assms] matchOffset_def by (simp add: algebra_simps)
  show "in_years (fixture_ts i)" unfolding fixture_ts_eq [OF assms] using assms by (simp add: in_years_def second_def)
  show "in_years (fixture_ts i + matchOffset)" unfolding m using assms by (simp add: in_years_def second_def)
  show "fixture_ts i div second * second = fixture_ts i" unfolding fixture_ts_eq [OF assms] by (simp add: second_def)
  show "(fixture_ts i + matchOffset) div second * second = fixture_ts i + matchOffset" unfolding m by (simp add: second_def)
qed

lemma fixture_record_portable:
  assumes "int i < 10 ^ 8" and "list_all (\<lambda>c. \<not> is_space c) name" and "status \<in> {StatusSettled, StatusFailed}"
  shows "portable (fixture_record (name @ pad_zero w (int k)) amt TypeTransfer status (fixture_ts i))"
    and "portable (shifted (fixture_record (name @ pad_zero w (int k)) amt TypeTransfer status (fixture_ts i)))"
    and "portable ((shifted (fixture_record (name @ pad_zero w (int k)) amt TypeTransfer status (fixture_ts i)))\<lparr>r_amount := a\<rparr>)"
proof -
  have "list_all (\<lambda>c. \<not> is_space c) (name @ pad_zero w (int k))" using assms(2) pad_zero_no_space by simp
  then have p: "plain_text (name @ pad_zero w (int k))" by (rule plain_no_space)
  have c: "plain_text ''CUST-001''" "plain_text ''CUST-002''" "plain_text ''NGN''"
    by (rule plain_no_space, simp add: is_space_def)+
  note all = portable_def fixture_record_def shifted_def nibss_writable_def p c fixture_times [OF assms(1)]
  show "portable (fixture_record (name @ pad_zero w (int k)) amt TypeTransfer status (fixture_ts i))"
    "portable (shifted (fixture_record (name @ pad_zero w (int k)) amt TypeTransfer status (fixture_ts i)))"
    "portable ((shifted (fixture_record (name @ pad_zero w (int k)) amt TypeTransfer status (fixture_ts i)))\<lparr>r_amount := a\<rparr>)"
    using assms(3) by (simp_all add: all)
qed

lemma section_portable:
  assumes "fs_per_category sp \<le> 10 ^ 8" and "list_all (\<lambda>c. \<not> is_space c) name" and "status \<in> {StatusSettled, StatusFailed}"
    and "r \<in> set (section_records sp draw k name status)"
  shows "portable r" "portable (shifted r)" "portable ((shifted r)\<lparr>r_amount := a\<rparr>)"
proof -
  obtain j amt where j: "j < nat (fs_per_category sp)" and r: "r = fixture_record (name @ pad_zero 4 (int j)) amt TypeTransfer status (fixture_ts j)"
    using assms(4) by (auto simp: section_records_def)
  have "int j < 10 ^ 8" using j assms(1) by linarith
  note fixture_record_portable [OF this assms(2,3), folded r]
  then show "portable r" "portable (shifted r)" "portable ((shifted r)\<lparr>r_amount := a\<rparr>)" unfolding r by blast+
qed

lemma clean_portable:
  assumes "fs_count sp \<le> 10 ^ 8" and "r \<in> set (clean_in sp draw)"
  shows "portable r" "portable (shifted r)"
proof -
  obtain j amt where j: "j < nat (fs_count sp)" and r: "r = fixture_record (''TXN-'' @ pad_zero 6 (int j)) amt TypeTransfer StatusSettled (fixture_ts j)"
    using assms(2) by (auto simp: clean_in_def settled_record_def)
  have j8: "int j < 10 ^ 8" using j assms(1) by linarith
  have n: "list_all (\<lambda>c. \<not> is_space c) ''TXN-''" by (simp add: is_space_def)
  show "portable r" "portable (shifted r)"
    unfolding r using fixture_record_portable(1,2) [OF j8 n, of StatusSettled] by blast+
qed

lemma fixture_portable:
  assumes "\<And>xs. mset (rng_shuffle_internal rng xs) = mset xs" and "\<And>xs. mset (rng_shuffle_external rng xs) = mset xs"
    and "fs_count sp \<le> 10 ^ 8" and "fs_per_category sp \<le> 10 ^ 8"
  shows "\<forall>r \<in> set (fx_internal (Generate rng sp)). portable r" "\<forall>r \<in> set (fx_external (Generate rng sp)). portable r"
proof -
  have sets: "set (rng_shuffle_internal rng xs) = set xs" "set (rng_shuffle_external rng xs) = set xs" for xs
    using assms(1,2) mset_eq_setD by metis+
  have names: "list_all (\<lambda>c. \<not> is_space c) ''AMIS-''" "list_all (\<lambda>c. \<not> is_space c) ''UINT-''" "list_all (\<lambda>c. \<not> is_space c) ''UEXT-''"
    "list_all (\<lambda>c. \<not> is_space c) ''DUP-''" "list_all (\<lambda>c. \<not> is_space c) ''PREV-''" by (simp_all add: is_space_def)
  note sec = section_portable [OF assms(4)]
  have st: "StatusSettled \<in> {StatusSettled, StatusFailed}" "StatusFailed \<in> {StatusSettled, StatusFailed}" by simp_all
  have parts: "r \<in> set (mismatch_in sp d) \<Longrightarrow> portable r" "r \<in> set (unmatched_in sp d) \<Longrightarrow> portable r" "r \<in> set (unmatched_ex sp d) \<Longrightarrow> portable r"
    "r \<in> set (duplicate_in sp d) \<Longrightarrow> portable r" "r \<in> set (duplicate_in sp d) \<Longrightarrow> portable (shifted r)" "r \<in> set (pending_in sp d) \<Longrightarrow> portable r" for r d
    unfolding mismatch_in_def unmatched_in_def unmatched_ex_def duplicate_in_def pending_in_def
    using sec(1) [OF names(1) st(1)] sec(1) [OF names(2) st(1)] sec(1) [OF names(3) st(1)] sec(1,2) [OF names(4) st(1)] sec(1) [OF names(5) st(2)]
    by blast+
  have mis: "portable r" if mem: "r \<in> set (mismatch_ex sp d)" for r d
  proof -
    obtain i where i: "i < nat (fs_per_category sp)"
      and r: "r = (shifted (mismatch_in sp d ! i))\<lparr>r_amount :=
        amount_Add (r_amount (mismatch_in sp d ! i)) (FromMinor (word_of_int (100 * (int i + 1))))\<rparr>"
      using mem by (auto simp: mismatch_ex_def set_zip)
    have "mismatch_in sp d ! i \<in> set (mismatch_in sp d)" using i by (intro nth_mem) (simp add: section_defs)
    then show ?thesis unfolding r using sec(3) [OF names(1) st(1)] unfolding mismatch_in_def by blast
  qed
  show "\<forall>r \<in> set (fx_internal (Generate rng sp)). portable r"
    using parts clean_portable(1) [OF assms(3)] by (auto simp: Generate_def Let_def sets)
  show "\<forall>r \<in> set (fx_external (Generate rng sp)). portable r"
    using parts mis clean_portable(2) [OF assms(3)] by (auto simp: Generate_def Let_def sets)
qed

section \<open>Reading them back\<close>

lemma read_internal_drain: "drain n ledger_Next vs = Some (map Inr rs) \<Longrightarrow> read_internal vs acc = Inr (acc @ rs)"
proof (induction n arbitrary: vs rs acc)
  case (Suc n)
  obtain x vs' where nx: "ledger_Next vs = (x, vs')" by force
  show ?case
  proof (cases x)
    case (Inl e)
    have "errors_is e ErrEOF \<and> rs = []" using Suc.prems nx Inl by (cases rs) (auto split: if_splits)
    moreover from this have "e = Sentinel ErrEOF"
      using nx Inl by (auto simp: ledger_Next_def split: list.splits ledger_value.splits option.splits)
    ultimately show ?thesis using nx Inl by (simp add: read_internal.simps [of vs])
  next
    case (Inr r)
    then obtain rs' where "rs = r # rs'" "drain n ledger_Next vs' = Some (map Inr rs')"
      using Suc.prems nx by (cases rs) auto
    then show ?thesis using Suc.IH [of vs' rs' "acc @ [r]"] nx Inr by (simp add: read_internal.simps [of vs])
  qed
qed simp

lemma map_ident: "\<forall>x \<in> set xs. f x = x \<Longrightarrow> map f xs = xs"
  by (simp add: map_idI)

lemma generated_inputs:
  assumes "\<forall>r \<in> set internal. portable r" and "\<forall>r \<in> set external. portable r"
    and "ce_open env ip = Inr ib" and "WriteJSONL internal = Inr (ce_json env ib)" and "ce_open env ep = Inr (WriteNIBSS external)"
  shows "readInternal env ip = Inr internal" and "openExternal env ep ''nibss'' = Inr (map Inr external)"
proof -
  have "\<forall>r \<in> set internal. distinct (map fst (r_metadata r))" using assms(1) by (auto simp: portable_def)
  from WriteJSONL_back [OF this assms(4)] have "drain (Suc (length (ce_json env ib))) ledger_Next (ce_json env ib) = Some (map Inr internal)"
    using map_ident [of internal export_normal] portable_exact(2) assms(1) by (auto simp del: drain.simps)
  from read_internal_drain [OF this, of "[]"] show "readInternal env ip = Inr internal"
    by (simp add: readInternal_def OpenLedgerFile_def open_file_def assms(3))
  obtain rd where rd: "NewNIBSSReader (WriteNIBSS external) = Inr rd" "drain (Suc (rows_left rd)) nibss_Next rd = Some (map Inr (map nibss_normal external))"
    using nibss_file_back [of external] portable_exact(4) assms(2) by blast
  then show "openExternal env ep ''nibss'' = Inr (map Inr external)"
    using map_ident [of external nibss_normal] portable_exact(1) assms(2)
    by (simp add: openExternal_def OpenNIBSSFile_def open_file_def assms(5) stream_of_def del: drain.simps)
qed

lemma files_reconcile:
  assumes "\<And>xs. mset (rng_shuffle_internal rng xs) = mset xs" and "\<And>xs. mset (rng_shuffle_external rng xs) = mset xs"
    and "fs_count sp \<le> 10 ^ 8" and "fs_per_category sp \<le> 10 ^ 8"
    and "ce_open env (cf_internal cfg) = Inr ib" and "WriteJSONL (fx_internal (Generate rng sp)) = Inr (ce_json env ib)"
    and "ce_open env (cf_external cfg) = Inr (WriteNIBSS (fx_external (Generate rng sp)))"
    and "enumerates (ce_order env (fx_internal (Generate rng sp))) (fx_internal (Generate rng sp))" and "ce_write env = None"
    and "cf_internal cfg \<noteq> []" and "cf_external cfg \<noteq> []" and "cf_ext_format cfg = ''nibss''" and "cf_format cfg = ''text''"
    and "cf_switch_addr cfg = []" and "cf_no_persist cfg" and "sint (cf_window cfg) \<le> 0 \<or> 30 * second \<le> sint (cf_window cfg)"
  shows "\<exists>res. runReconcile env cfg w
        = (Inr (), w\<lparr>cl_stdout := cl_stdout w @ [OutText (Text (NewReport (cf_internal cfg) (cf_external cfg) res))]\<rparr>)
    \<and> rp_matched_count (NewReport (cf_internal cfg) (cf_external cfg) res) = fx_matched (Generate rng sp)
    \<and> image_mset label_of (mset (rp_exceptions (NewReport (cf_internal cfg) (cf_external cfg) res))) = mset (fx_by_ref (Generate rng sp))
    \<and> (\<forall>c. count_of (rp_by_category (NewReport (cf_internal cfg) (cf_external cfg) res)) c = fx_by_category (Generate rng sp) c)"
proof -
  note ok = fixture_portable [OF assms(1-4)]
  note inp = generated_inputs [OF ok assms(5-7)]
  have small: "fs_per_category sp < 2 ^ 62" using assms(4) by simp
  obtain res where res: "Match (ce_order env (fx_internal (Generate rng sp))) (fx_internal (Generate rng sp)) (map Inr (fx_external (Generate rng sp)))
      (cf_window cfg) = Inr res" "mr_matched res = fx_matched (Generate rng sp)"
    "image_mset label_of (mset (mr_exceptions res)) = mset (fx_by_ref (Generate rng sp))"
    "\<forall>c. count_cat c (mr_exceptions res) = fx_by_category (Generate rng sp) c"
    using fixture_recalled [OF assms(1,2) small assms(16,8)] by blast
  have "run_inputs env cfg = Inr res" by (simp add: run_inputs_def inp assms(12) res(1))
  then have "runReconcile env cfg w
      = (Inr (), w\<lparr>cl_stdout := cl_stdout w @ [OutText (Text (NewReport (cf_internal cfg) (cf_external cfg) res))]\<rparr>)"
    using assms(9-15) by (simp add: runReconcile_def render_def write_out_def)
  moreover have "count_of (by_category (mr_exceptions res)) c = count_cat c (mr_exceptions res)" for c
    by (simp add: count_of_def by_category_count)
  ultimately show ?thesis using res by (intro exI [of _ res]) (simp add: NewReport_def)
qed

text \<open>C34. The two commands end to end, file formats included, recall what was injected: for every size up to a
  hundred million, draw and shuffle, when \<open>gen_settlement\<close> has written its two files, \<open>reconcile run\<close> on them
  reads them back, matches and prints exactly one report; it counts the promised matches, lists exactly the
  injected discrepancies under their labels, tallies them by category as promised, and the run changes
  nothing else.\<close>

theorem generated_files_reconcile:
  assumes "gen_settlement_main genv flags fs = (Inr n, fs')"
  defines "f \<equiv> Generate (ge_rng genv (gf_seed flags)) (gf_spec flags)"
  assumes "\<And>xs. mset (rng_shuffle_internal (ge_rng genv (gf_seed flags)) xs) = mset xs"
    and "\<And>xs. mset (rng_shuffle_external (ge_rng genv (gf_seed flags)) xs) = mset xs"
    and "fs_count (gf_spec flags) \<le> 10 ^ 8" and "fs_per_category (gf_spec flags) \<le> 10 ^ 8"
    and "cf_internal cfg = gf_internal_out flags" and "cf_external cfg = gf_external_out flags"
    and "cf_internal cfg \<noteq> []" and "cf_external cfg \<noteq> []" and "cf_internal cfg \<noteq> cf_external cfg"
    and "\<And>p t. fs' p = Some t \<Longrightarrow> ce_open env p = Inr t"
    and "\<And>vs. WriteJSONL (fx_internal f) = Inr vs \<Longrightarrow> ce_json env (ge_print genv vs) = vs"
    and "enumerates (ce_order env (fx_internal f)) (fx_internal f)" and "ce_write env = None"
    and "cf_ext_format cfg = ''nibss''" and "cf_format cfg = ''text''"
    and "cf_switch_addr cfg = []" and "cf_no_persist cfg" and "sint (cf_window cfg) \<le> 0 \<or> 30 * second \<le> sint (cf_window cfg)"
  shows "n = (length (fx_internal f), length (fx_external f))
    \<and> (\<exists>res. runReconcile env cfg w
        = (Inr (), w\<lparr>cl_stdout := cl_stdout w @ [OutText (Text (NewReport (cf_internal cfg) (cf_external cfg) res))]\<rparr>)
    \<and> rp_matched_count (NewReport (cf_internal cfg) (cf_external cfg) res) = fx_matched f
    \<and> image_mset label_of (mset (rp_exceptions (NewReport (cf_internal cfg) (cf_external cfg) res))) = mset (fx_by_ref f)
    \<and> (\<forall>c. count_of (rp_by_category (NewReport (cf_internal cfg) (cf_external cfg) res)) c = fx_by_category f c))"
proof -
  obtain vs where vs: "WriteJSONL (fx_internal f) = Inr vs" "n = (length (fx_internal f), length (fx_external f))"
    "fs' = fs(gf_internal_out flags \<mapsto> ge_print genv vs, gf_external_out flags \<mapsto> WriteNIBSS (fx_external f))"
    using gen_settlement_files [OF assms(1), folded f_def] .
  have ib: "ce_open env (cf_internal cfg) = Inr (ge_print genv vs)" by (rule assms(12)) (use vs(3) assms(7,8,11) in simp)
  have eb: "ce_open env (cf_external cfg) = Inr (WriteNIBSS (fx_external f))" by (rule assms(12)) (use vs(3) assms(8) in simp)
  have json: "WriteJSONL (fx_internal f) = Inr (ce_json env (ge_print genv vs))" using assms(13) [OF vs(1)] vs(1) by simp
  show ?thesis
    using vs(2) files_reconcile [OF assms(3-6) ib json [unfolded f_def] eb [unfolded f_def] assms(14) [unfolded f_def] assms(15,9,10,16-20), of w]
    by (simp add: f_def)
qed

section \<open>Witness\<close>

definition pipe_gen :: gen_env where
  "pipe_gen = \<lparr>ge_rng = (\<lambda>_. demo_rng), ge_print = (\<lambda>_. []), ge_mkdir = (\<lambda>_. None), ge_create = (\<lambda>_. None), ge_write = (\<lambda>_. None)\<rparr>"

definition pipe_flags :: gen_flags where
  "pipe_flags = \<lparr>gf_internal_out = ''i'', gf_external_out = ''e'', gf_spec = demo_spec, gf_seed = 1\<rparr>"

definition pipe_values :: "ledger_value list" where
  "pipe_values = (case WriteJSONL (fx_internal (Generate demo_rng demo_spec)) of Inr vs \<Rightarrow> vs | Inl _ \<Rightarrow> [])"

definition pipe_cli :: cli_env where
  "pipe_cli = demo_cli\<lparr>ce_open := (\<lambda>p. case snd (gen_settlement_main pipe_gen pipe_flags (\<lambda>_. None)) p of
       Some t \<Rightarrow> Inr t | None \<Rightarrow> Inl (ErrMsg ''no such file'')),
     ce_json := (\<lambda>_. pipe_values), ce_order := (\<lambda>_. demo_order)\<rparr>"

definition pipe_cfg :: config where
  "pipe_cfg = demo_cfg\<lparr>cf_ext_format := ''nibss'', cf_no_persist := True, cf_switch_addr := []\<rparr>"

lemma generated_files_reconcile_witness:
  "\<exists>res. cl_stdout (snd (runReconcile pipe_cli pipe_cfg (demo_cw []))) = [OutText (Text (NewReport ''i'' ''e'' res))] \<and> mr_matched res = 2"
proof -
  let ?f = "Generate demo_rng demo_spec"
  have shuffles: "mset (rng_shuffle_internal demo_rng xs) = mset xs" "mset (rng_shuffle_external demo_rng xs) = mset xs" for xs
    by (simp_all add: demo_rng_def)
  have sizes: "fs_count demo_spec \<le> 10 ^ 8" "fs_per_category demo_spec \<le> 10 ^ 8" by (simp_all add: demo_spec_def)
  have "\<forall>r \<in> set (fx_internal ?f). portable r" by (rule fixture_portable(1) [OF shuffles sizes])
  then have "WriteJSONL (fx_internal ?f) \<noteq> Inl e" for e using WriteJSONL_error [of "fx_internal ?f" e] portable_exact(3) by auto
  then have json: "WriteJSONL (fx_internal ?f) = Inr pipe_values" by (auto simp: pipe_values_def split: sum.splits)
  have matched: "fx_matched ?f = 2" by (simp add: Generate_def demo_spec_def Let_def)
  obtain fs' where gen: "gen_settlement_main pipe_gen pipe_flags (\<lambda>_. None)
      = (Inr (length (fx_internal ?f), length (fx_external ?f)), fs')"
    by (simp add: gen_settlement_main_def writeFile_def jsonl_text_def json pipe_gen_def pipe_flags_def Let_def)
  have "\<exists>res. runReconcile pipe_cli pipe_cfg (demo_cw [])
        = (Inr (), (demo_cw [])\<lparr>cl_stdout := cl_stdout (demo_cw []) @ [OutText (Text (NewReport (cf_internal pipe_cfg) (cf_external pipe_cfg) res))]\<rparr>)
    \<and> rp_matched_count (NewReport (cf_internal pipe_cfg) (cf_external pipe_cfg) res) = fx_matched ?f
    \<and> image_mset label_of (mset (rp_exceptions (NewReport (cf_internal pipe_cfg) (cf_external pipe_cfg) res))) = mset (fx_by_ref ?f)
    \<and> (\<forall>c. count_of (rp_by_category (NewReport (cf_internal pipe_cfg) (cf_external pipe_cfg) res)) c = fx_by_category ?f c)"
    using generated_files_reconcile [OF gen, of pipe_cfg pipe_cli "demo_cw []"] shuffles sizes json demo_fixture_order
    by (simp add: pipe_gen_def pipe_flags_def pipe_cli_def pipe_cfg_def demo_cli_def demo_cfg_def gen [unfolded pipe_gen_def pipe_flags_def])
  then obtain res where "cl_stdout (snd (runReconcile pipe_cli pipe_cfg (demo_cw [])))
      = cl_stdout (demo_cw []) @ [OutText (Text (NewReport (cf_internal pipe_cfg) (cf_external pipe_cfg) res))]"
    "mr_matched res = 2" by (auto simp: matched NewReport_def)
  moreover have "cl_stdout (demo_cw []) = []" "cf_internal pipe_cfg = ''i''" "cf_external pipe_cfg = ''e''"
    by (simp_all add: demo_cw_def pipe_cfg_def demo_cfg_def)
  ultimately show ?thesis by auto
qed

end
