(* ===== verification/Seed.thy ===== *)
theory Seed
  imports LedgerBalance SwitchLegs Demo
begin

text \<open>
  \<open>scripts/seed/main.go\<close>: the demo customers, created one by one unless their code exists. The result of
  \<open>main\<close> is its error (\<open>log.Fatalf\<close>) or unit.
\<close>

section \<open>main\<close>

definition demoAccounts :: "create_account_params list" where
  "demoAccounts =
     [\<lparr>ca_code = ''CUST-001'', ca_name = ''Demo Customer 001'', ca_type = ''asset'', ca_currency = ''NGN''\<rparr>,
      \<lparr>ca_code = ''CUST-002'', ca_name = ''Demo Customer 002'', ca_type = ''asset'', ca_currency = ''NGN''\<rparr>]"

definition seed_account :: "create_account_params \<Rightarrow> unit act" where
  "seed_account acct w =
     (case run_stmt (GetAccountByCode (ca_code acct)) w of
        (Inr _, w1) \<Rightarrow> (Inr (), w1)
      | (Inl e, w1) \<Rightarrow>
          if \<not> errors_is e ErrNoRows then (Inl (ErrMsg (''seed: lookup '' @ ca_code acct @ '': '' @ err_text e)), w1)
          else (case run_stmt (CreateAccount 0 acct) w1 of
              (Inl e', w2) \<Rightarrow> (Inl (ErrMsg (''seed: create '' @ ca_code acct @ '': '' @ err_text e')), w2)
            | (Inr _, w2) \<Rightarrow> (Inr (), w2)))"

fun seed_accounts :: "create_account_params list \<Rightarrow> unit act" where
  "seed_accounts [] w = (Inr (), w)"
| "seed_accounts (a # as) w =
     (case seed_account a w of (Inl e, w1) \<Rightarrow> (Inl e, w1) | (Inr _, w1) \<Rightarrow> seed_accounts as w1)"

definition seed_main :: "unit act" where
  "seed_main = seed_accounts demoAccounts"

section \<open>Facts\<close>

text \<open>Accounts are only appended, their keys stay unique, and nothing else is touched.\<close>

definition grows_accounts :: "string set \<Rightarrow> db \<Rightarrow> db \<Rightarrow> bool" where
  "grows_accounts codes d d' \<longleftrightarrow> (\<exists>new. d' = d\<lparr>accounts := accounts d @ new\<rparr> \<and> a_code ` set new \<subseteq> codes)
     \<and> (accounts_wf d \<longrightarrow> accounts_wf d')"

lemma grows_refl [simp]: "grows_accounts codes d d"
  by (auto simp: grows_accounts_def intro!: exI [of _ "[]"])

lemma grows_trans: "grows_accounts codes d1 d2 \<Longrightarrow> grows_accounts codes d2 d3 \<Longrightarrow> grows_accounts codes d1 d3"
proof -
  assume a: "grows_accounts codes d1 d2" and b: "grows_accounts codes d2 d3"
  obtain n1 n2 where "d2 = d1\<lparr>accounts := accounts d1 @ n1\<rparr>" "d3 = d2\<lparr>accounts := accounts d2 @ n2\<rparr>"
    "a_code ` set n1 \<subseteq> codes" "a_code ` set n2 \<subseteq> codes"
    using a b by (auto simp: grows_accounts_def)
  then have "d3 = d1\<lparr>accounts := accounts d1 @ n1 @ n2\<rparr>" "a_code ` set (n1 @ n2) \<subseteq> codes" by auto
  then show ?thesis using a b unfolding grows_accounts_def by blast
qed

lemma grows_mono: "grows_accounts codes d d' \<Longrightarrow> codes \<subseteq> codes' \<Longrightarrow> grows_accounts codes' d d'"
  by (auto simp: grows_accounts_def)

lemma grows_find: "grows_accounts codes d d' \<Longrightarrow> find_account c d = Some a \<Longrightarrow> find_account c d' = Some a"
  by (auto simp: grows_accounts_def find_account_def find_append)

lemma CreateAccount_grows:
  assumes "CreateAccount n p ev d = Inr (a, d')"
  shows "grows_accounts {ca_code p} d d' \<and> find_account (ca_code p) d' \<noteq> None"
proof -
  from assms obtain cur where cur: "char3 (ca_currency p) = Some cur" by (auto simp: CreateAccount_def split: option.splits)
  let ?a = "\<lparr>a_id = e_uuid ev n, a_code = ca_code p, a_name = ca_name p, a_type = ca_type p, a_currency = cur, a_created_at = e_now ev\<rparr>"
  obtain a where a: "a_code a = ca_code p" "d' = d\<lparr>accounts := accounts d @ [a]\<rparr>"
    "\<forall>b \<in> set (accounts d). a_id b \<noteq> a_id a \<and> a_code b \<noteq> a_code a"
    by (rule that [of ?a]) (use assms cur in \<open>auto simp: CreateAccount_def Let_def list_ex_iff split: if_splits\<close>)
  then show ?thesis
    by (force simp: grows_accounts_def accounts_wf_def find_account_def find_append find_None_all split: option.split)
qed

lemma seed_account_grows:
  assumes "seed_account acct w = (r, w')"
  shows "grows_accounts {ca_code acct} (w_db w) (w_db w')
    \<and> w_env w' = w_env w \<and> w_codec w' = w_codec w \<and> (r = Inr () \<longrightarrow> find_account (ca_code acct) (w_db w') \<noteq> None)"
proof -
  obtain x w1 where g: "run_stmt (GetAccountByCode (ca_code acct)) w = (x, w1)" by force
  obtain y w2 where c: "run_stmt (CreateAccount 0 acct) w1 = (y, w2)" by force
  have rd: "tx_reads (GetAccountByCode (ca_code acct))" by (auto simp: tx_reads_def GetAccountByCode_def split: option.splits)
  have f1: "w_db w1 = w_db w" "w_env w1 = w_env w" "w_codec w1 = w_codec w"
    using run_stmt_reads [OF rd g] act_frameD [OF act_frame_run_tx(2) g] by simp_all
  have f2: "w_env w2 = w_env w1" "w_codec w2 = w_codec w1" using act_frameD [OF act_frame_run_tx(2) c] by simp_all
  have found: "x = Inr a \<Longrightarrow> find_account (ca_code acct) (w_db w) \<noteq> None" for a
    using run_read_Inr(3) [OF _ rd] g by (fastforce simp: GetAccountByCode_Inr)
  have new: "grows_accounts {ca_code acct} (w_db w1) (w_db w2)
      \<and> (\<forall>a. y = Inr a \<longrightarrow> find_account (ca_code acct) (w_db w2) \<noteq> None)"
    using c unfolding run_stmt_def by (elim run_tx_cases) (auto dest: CreateAccount_grows)
  show ?thesis
    using assms g c f1 f2 found new by (auto simp: seed_account_def split: sum.splits if_splits)
qed

lemma seed_accounts_grow:
  "seed_accounts as w = (r, w') \<Longrightarrow> grows_accounts (ca_code ` set as) (w_db w) (w_db w')
    \<and> w_env w' = w_env w \<and> w_codec w' = w_codec w
    \<and> (r = Inr () \<longrightarrow> (\<forall>p \<in> set as. find_account (ca_code p) (w_db w') \<noteq> None))"
proof (induction as arbitrary: w)
  case (Cons a as)
  obtain x w1 where s: "seed_account a w = (x, w1)" by force
  note g = seed_account_grows [OF s]
  show ?case
  proof (cases x)
    case (Inl e)
    then show ?thesis using Cons.prems s g by (auto intro: grows_mono)
  next
    case (Inr u)
    then have "seed_accounts as w1 = (r, w')" using Cons.prems s by simp
    note ih = Cons.IH [OF this]
    have "grows_accounts (ca_code ` set (a # as)) (w_db w) (w_db w')"
      using grows_trans [OF grows_mono [OF conjunct1 [OF g]] grows_mono [OF conjunct1 [OF ih]]] by auto
    moreover have "find_account (ca_code a) (w_db w') \<noteq> None" if "r = Inr ()"
      using g grows_find [OF conjunct1 [OF ih]] Inr by (cases u) auto
    ultimately show ?thesis using g ih by auto
  qed
qed simp

text \<open>With both accounts there and a database that answers, nothing happens.\<close>

lemma seed_accounts_again:
  "(\<And>n. e_fault (w_env w n) = NoFault) \<Longrightarrow> \<forall>p \<in> set as. find_account (ca_code p) (w_db w) \<noteq> None \<Longrightarrow>
   \<exists>w'. seed_accounts as w = (Inr (), w') \<and> w_db w' = w_db w"
proof (induction as arbitrary: w)
  case (Cons p as)
  obtain a where a: "find_account (ca_code p) (w_db w) = Some a" using Cons.prems(2) by auto
  let ?w1 = "w\<lparr>w_tick := Suc (w_tick w)\<rparr>"
  have "run_stmt (GetAccountByCode (ca_code p)) w = (Inr a, ?w1)"
    unfolding run_stmt_def
    by (subst run_tx_no_fault [OF Cons.prems(1)]) (auto simp: GetAccountByCode_Inr a no_triggers_def)
  then have "seed_account p w = (Inr (), ?w1)" by (simp add: seed_account_def)
  moreover have "\<exists>w'. seed_accounts as ?w1 = (Inr (), w') \<and> w_db w' = w_db ?w1"
    by (rule Cons.IH) (use Cons.prems in auto)
  ultimately show ?case by auto
qed simp

section \<open>Properties\<close>

text \<open>Seeding is idempotent under every fault: however its calls fail, it only appends accounts with the demo
  codes and keeps the keys unique; when it reports success both customers exist, and running it again on a
  database that answers succeeds and changes nothing.\<close>

theorem seeding_is_idempotent:
  assumes "seed_main w = (r, w')"
  shows "grows_accounts {''CUST-001'', ''CUST-002''} (w_db w) (w_db w')
    \<and> (r = Inr () \<longrightarrow> find_account ''CUST-001'' (w_db w') \<noteq> None \<and> find_account ''CUST-002'' (w_db w') \<noteq> None
        \<and> ((\<forall>n. e_fault (w_env w n) = NoFault) \<longrightarrow> (\<exists>w''. seed_main w' = (Inr (), w'') \<and> w_db w'' = w_db w')))"
proof -
  note g = seed_accounts_grow [OF assms [unfolded seed_main_def]]
  have codes: "ca_code ` set demoAccounts = {''CUST-001'', ''CUST-002''}" by (simp add: demoAccounts_def)
  have found: "\<forall>p \<in> set demoAccounts. find_account (ca_code p) (w_db w') \<noteq> None" if "r = Inr ()" using g that by blast
  have again: "\<exists>w''. seed_main w' = (Inr (), w'') \<and> w_db w'' = w_db w'"
    if "r = Inr ()" "\<forall>n. e_fault (w_env w n) = NoFault"
    unfolding seed_main_def by (rule seed_accounts_again) (use g found that in simp_all)
  show ?thesis using g codes found again by (auto simp: demoAccounts_def)
qed

lemma demo_seeded: "fst (seed_main demo_world) = Inr ()"
  by code_simp

lemma seeding_is_idempotent_witness:
  "\<exists>w''. seed_main (snd (seed_main demo_world)) = (Inr (), w'') \<and> w_db w'' = w_db (snd (seed_main demo_world))"
proof -
  have "seed_main demo_world = (Inr (), snd (seed_main demo_world))" using demo_seeded by (metis prod.collapse)
  from seeding_is_idempotent [OF this] show ?thesis by (simp add: demo_world_def world_of_def calm_def)
qed

text \<open>A seeded customer gains by paying: the demo customers are created as asset accounts, whose normal side
  is debit, so the debit leg of a transfer raises the balance the ledger reports for the payer by the amount
  paid.\<close>

theorem paying_raises_a_seeded_balance:
  assumes "p \<in> set demoAccounts" and "find_account c d = Some a" and "a_type a = ca_type p" and "accounts_wf d"
    and "accounts d' = accounts d" and "entries d' = entries d @ es"
    and "leg_posts d' es c settlementAccount amt" and "c \<noteq> settlementAccount"
  shows "journal_balance d' a = journal_balance d a + sint amt"
proof -
  have ty: "IsDebitNormal (a_type a)" using assms(1,3) by (auto simp: demoAccounts_def IsDebitNormal_def)
  obtain e1 e2 b where e: "es = [e1, e2]" "e_direction e1 = Debit" "e_direction e2 = Credit" "e_amount_minor e1 = amt"
    "e_account_id e1 = a_id a" "find_account settlementAccount d = Some b" "e_account_id e2 = a_id b"
    using assms(2,5,7) by (auto simp: leg_posts_def find_account_def)
  have "a_id b \<noteq> a_id a"
  proof
    assume same: "a_id b = a_id a"
    have m: "a \<in> set (accounts d)" "a_code a = c" "b \<in> set (accounts d)" "a_code b = settlementAccount"
      using assms(2) e(6) by (auto simp: find_account_def dest: find_Some_mem)
    have "inj_on a_id (set (accounts d))" using assms(4) by (simp add: accounts_wf_def distinct_map)
    then show False using same m assms(8) by (metis inj_onD)
  qed
  then show ?thesis
    using ty e assms(6) by (simp add: journal_balance_def signed_balance_def account_entries_def entry_amount_def)
qed


end
