(* ===== verification/Correlation.thy ===== *)
theory Correlation
  imports Transport
begin

text \<open>
  \<open>pkg/logging\<close>: the correlation id on the context, the interceptors that move it to and from gRPC
  metadata, and the attribute on log records. A context holds the id, the outgoing and the incoming metadata; the metadata type and its
  operations are those of \<open>google.golang.org/grpc/metadata\<close>, a parameter, with what the documentation says
  of them in \<open>metadata_ok\<close>.
\<close>

section \<open>Contexts\<close>

record 'm gctx =
  cx_correlation :: "string option"
  cx_outgoing :: 'm
  cx_incoming :: "'m option"

record 'm metadata_api =
  md_empty :: 'm
  md_append :: "'m \<Rightarrow> string \<Rightarrow> string \<Rightarrow> 'm"
  md_Get :: "'m \<Rightarrow> string \<Rightarrow> string list"

definition CorrelationMetaKey :: string where "CorrelationMetaKey = ''x-correlation-id''"
definition CorrelationIDKey :: string where "CorrelationIDKey = ''correlation_id''"

text \<open>Keys are compared in lower case; the one key in use is.\<close>

definition metadata_ok :: "'m metadata_api \<Rightarrow> bool" where
  "metadata_ok api \<longleftrightarrow> md_Get api (md_empty api) CorrelationMetaKey = []
     \<and> (\<forall>m v. md_Get api (md_append api m CorrelationMetaKey v) CorrelationMetaKey = md_Get api m CorrelationMetaKey @ [v])"

definition background :: "'m metadata_api \<Rightarrow> 'm gctx" where
  "background api = \<lparr>cx_correlation = None, cx_outgoing = md_empty api, cx_incoming = None\<rparr>"

definition CorrelationID :: "'m gctx \<Rightarrow> string" where
  "CorrelationID ctx = (case cx_correlation ctx of None \<Rightarrow> [] | Some i \<Rightarrow> i)"

definition ContextWithCorrelationID :: "'m gctx \<Rightarrow> string \<Rightarrow> 'm gctx" where
  "ContextWithCorrelationID ctx i = ctx\<lparr>cx_correlation := Some i\<rparr>"

section \<open>Log records and interceptors\<close>

text \<open>The handler adds the id to the attributes of a record.\<close>

definition correlation_Handle :: "'m gctx \<Rightarrow> (string \<times> string) list \<Rightarrow> (string \<times> string) list" where
  "correlation_Handle ctx attrs = (if CorrelationID ctx \<noteq> [] then attrs @ [(CorrelationIDKey, CorrelationID ctx)] else attrs)"

definition UnaryClientInterceptor :: "'m metadata_api \<Rightarrow> ('m gctx \<Rightarrow> 'r) \<Rightarrow> 'm gctx \<Rightarrow> 'r" where
  "UnaryClientInterceptor api invoker ctx =
     invoker (if CorrelationID ctx \<noteq> []
              then ctx\<lparr>cx_outgoing := md_append api (cx_outgoing ctx) CorrelationMetaKey (CorrelationID ctx)\<rparr> else ctx)"

definition UnaryServerInterceptor :: "'m metadata_api \<Rightarrow> ('m gctx \<Rightarrow> 'r) \<Rightarrow> 'm gctx \<Rightarrow> 'r" where
  "UnaryServerInterceptor api handler ctx =
     handler (case cx_incoming ctx of
        None \<Rightarrow> ctx
      | Some md \<Rightarrow>
          (case md_Get api md CorrelationMetaKey of
             [] \<Rightarrow> ctx
           | v # _ \<Rightarrow> if v \<noteq> [] then ContextWithCorrelationID ctx v else ctx))"

text \<open>The REST middleware puts the header's id, or a fresh one, on the request's context.\<close>

definition correlationID_middleware :: "string \<Rightarrow> string \<Rightarrow> 'm gctx \<Rightarrow> 'm gctx" where
  "correlationID_middleware hdr fresh ctx = ContextWithCorrelationID ctx (correlation_id hdr fresh)"

section \<open>What each interceptor hands on\<close>

text \<open>The transport between the two is gRPC's, which refuses values that are not printable; it is not
  modelled, so nothing is said here of a whole call.\<close>

lemma client_interceptor_appends:
  assumes "metadata_ok api" and "CorrelationID ctx \<noteq> []"
  shows "UnaryClientInterceptor api (\<lambda>c. md_Get api (cx_outgoing c) CorrelationMetaKey) ctx
    = md_Get api (cx_outgoing ctx) CorrelationMetaKey @ [CorrelationID ctx]"
  using assms by (simp add: UnaryClientInterceptor_def metadata_ok_def)

lemma server_interceptor_takes_first:
  assumes "cx_incoming ctx = Some md" and "md_Get api md CorrelationMetaKey = v # vs" and "v \<noteq> []"
  shows "UnaryServerInterceptor api (\<lambda>c. correlation_Handle c attrs) ctx = attrs @ [(CorrelationIDKey, v)]"
  using assms by (simp add: UnaryServerInterceptor_def correlation_Handle_def ContextWithCorrelationID_def CorrelationID_def)

end
