(* ===== verification/Spec2Isabelle.thy ===== *)
theory Spec2Isabelle
  imports LedgerClaims SwitchClaims RestClaims IdempotencyClaims MatcherClaims RailClaims ReaderClaims FixtureClaims ReconcileClaims ProgressClaims
    BootClaims OutboxClaims Pipeline Seed Correlation
begin

text \<open>
  \<^bold>\<open>Invariant Core.\<close> A payment switch that moves money through a double-entry ledger and an unreliable
  external rail, and a reconciler that compares the ledger with the rail's settlement file. The program
  makes two promises. Prevention: whatever fails, a transfer debits once, pays out or refunds once, and
  never rests with money in limbo (\<open>internal/ledger\<close>, \<open>internal/switch\<close>). Detection: a settlement file
  that disagrees with the ledger is reported, category by category (\<open>internal/reconcile\<close>).

  \<^bold>\<open>How the parts interact.\<close> A REST post (\<open>transport/rest.go\<close>) passes the idempotency layer
  (\<open>idempotent.go\<close>) to the orchestrator, which writes a lifecycle row with status \<open>pending\<close> and an outbox
  event in one transaction. The outbox poller claims due events under a lease and hands each to the
  driver (\<open>driver.go\<close>). A handler loads the row, posts a leg over the ledger's gRPC surface or asks the
  rail, and advances the status by a guarded \<open>UPDATE\<close> that appends the next event. Rail callbacks and the
  reconciler's corrective calls enter through \<open>grpc.go\<close>, the start-up sweep through \<open>recovery.go\<close>. The
  ledger posts a leg as a serializable transaction with retries; its canonical export and the settlement
  file feed the matcher, whose report the reconcile command prints, feeds back to the switch and files.

  \<^bold>\<open>State.\<close> The ledger and the switch share one Postgres database: the record \<open>db\<close> of \<open>Tables\<close>, with
  the checks, unique keys and the deferred balance trigger of \<open>db/schema.sql\<close>; ledger transactions and
  lifecycle rows live in one table, as in the schema. The record \<open>world\<close> of \<open>World\<close> adds the process
  counters and a script of environment choices, consumed one per external call: faults of the database
  at begin, statement and commit, a commit whose acknowledgement is lost, drawn identifiers, the clock, a
  lost RPC request or reply, the rail's answer, a cancelled context. Handlers are deterministic functions
  of the world, so a theorem over all worlds covers every fault pattern; a crash is a script whose
  remaining calls all fail, followed by the \<open>restart\<close> step of \<open>SwitchSystem\<close>. The reconcile command has
  a database of its own (\<open>recon_db\<close>) and its own world.

  \<^bold>\<open>Processes.\<close> \<open>Boot\<close> models the \<open>main\<close> functions: what the operating system answers is the record
  \<open>os_env\<close>, what a boot and a shutdown do is a list of effects. A running \<open>switchd\<close> is a function of the
  list of its inputs (REST posts and reads, poller ticks, lag ticks, callbacks, corrective calls), a history
  of the deployment a list of such lives; under the premises of \<open>sw_step\<close> such a history is a run of it
  (\<open>lives_are_runs\<close>). Handlers of one life do not overlap in time, although \<open>switchd\<close> runs its servers and
  the poller concurrently: only the transactions are atomic in the code, and an interleaving of two
  handlers between their transactions is not in the model.

  \<^bold>\<open>What the safety properties assume of the inputs.\<close> Beside whole runs, two premises of \<open>sw_step\<close> that the
  code does not check: no client posts under the key of a leg (\<open>customer_key\<close>), and a callback says what the
  rail decided and reports no success for a transfer that is still pending (\<open>callback_ok\<close>). Both are needed:
  \<open>taken_leg_key_settles_unpaid\<close> shows a transfer settled without payment after a post under
  \<open><transfer id>:settle\<close>, \<open>early_callback_pays_undebited\<close> a destination paid without a debit.

  \<^bold>\<open>Theories and sources.\<close>
  \<^item> \<open>Prelude\<close>, \<open>GoError\<close>, \<open>Strconv\<close>, \<open>GoTime\<close>, \<open>GoCsv\<close>: words, lists, error chains, and the parts of the
    Go library the program leans on.
  \<^item> \<open>Money\<close>, \<open>Canonical\<close>: \<open>pkg/money\<close>, \<open>pkg/canonical\<close>.
  \<^item> \<open>Tables\<close>, \<open>World\<close>: the schema, database transactions (\<open>run_tx\<close>) and the environment.
  \<^item> \<open>LedgerDb\<close>, \<open>Ledger\<close>, \<open>LedgerGrpc\<close>: the queries, the service and the read side with the gRPC surface
    of \<open>internal/ledger\<close>. \<open>LedgerProps\<close>: the journal invariant, retries, idempotent posting.
    \<open>LedgerBalance\<close>: exact balances and conservation. \<open>LedgerPost\<close>: one keyed post as its caller sees it.
    \<open>LedgerClaims\<close>: the properties, among them what a post does to every balance and what an export says.
  \<^item> \<open>StateMachine\<close>, \<open>SwitchDb\<close>, \<open>Outbox\<close>, \<open>SwitchStore\<close>, \<open>SwitchClients\<close>, \<open>Driver\<close>, \<open>Idempotency\<close>,
    \<open>Transport\<close>: the files of \<open>internal/switch\<close>, its \<open>outbox\<close>, \<open>postgres\<close> and \<open>transport\<close> packages.
    \<open>SwitchLegs\<close>, \<open>SwitchInv\<close>, \<open>DriverInv\<close>, \<open>DriverHandlers\<close>, \<open>DriverOps\<close>, \<open>SwitchEntry\<close>,
    \<open>IdempotencyProps\<close>: every operation keeps the switch invariant \<open>sw_inv\<close> and only lets rows evolve
    along legal edges. \<open>SwitchSystem\<close>: the step relation \<open>sw_step\<close> with one rule per entry point.
    \<open>SwitchClaims\<close>, \<open>RestClaims\<close>, \<open>IdempotencyClaims\<close>: the properties of reachable worlds and of answers;
    as every journal entry is part of a leg (a clause of \<open>sw_inv\<close>), the settlement account holds the money in
    flight and nothing else (\<open>settlement_holds_money_in_flight\<close>).
    \<open>HealthyPost\<close>, \<open>HealthyState\<close>, \<open>HealthyDriver\<close>, \<open>HealthyPoll\<close>: what a ledger post, a status advance,
    a handler and a poll do when nothing fails; \<open>HealthyRestart\<close>: what the start-up sweep adds.
    \<open>ProgressClaims\<close>: transfers end then, the one way a debit is stranded, refunds, leases under any
    sequence of statements on the outbox, a client's key that is a leg's, an early callback. \<open>OutboxClaims\<close>: what the poller does to an event during an outage.
  \<^item> \<open>Boot\<close>: \<open>serviceboot.Run\<close>, the health server's routes (\<open>pkg/health\<close>), \<open>tracing.Init\<close>, \<open>NewPool\<close>, and
    \<open>main\<close> of \<open>cmd/switchd\<close>, \<open>cmd/ledger\<close>, \<open>cmd/mockrail\<close>. \<open>BootClaims\<close>: lives as runs, a restart
    finishes the work, exit statuses and the order of the shutdown.
  \<^item> \<open>Correlation\<close>: the context values, interceptors and log handler of \<open>pkg/logging\<close>, each by itself. \<open>Seed\<close>:
    \<open>scripts/seed\<close>.
  \<^item> \<open>Mockrail\<close>, \<open>RailClaims\<close>: \<open>internal/mockrail\<close>, and the switch run against it.
  \<^item> \<open>Matcher\<close>, \<open>Adapters\<close>, \<open>Fixture\<close>, \<open>Report\<close>, \<open>ReconStore\<close>, \<open>Reconcile\<close>: \<open>internal/reconcile\<close> and
    \<open>cmd/reconcile\<close>; \<open>GenSettlement\<close>: \<open>scripts/gen_settlement\<close>. \<open>MatcherProps\<close>, \<open>MatcherOrder\<close>, \<open>FixtureProps\<close>, \<open>ReconStoreProps\<close>,
    \<open>ReconcileProps\<close> carry the proofs of \<open>MatcherClaims\<close>, \<open>ReaderClaims\<close>, \<open>FixtureClaims\<close>,
    \<open>ReconcileClaims\<close> and \<open>Pipeline\<close> (generated files, read back, matched, reported).
  \<^item> \<open>Demo\<close>, \<open>SwitchDemo\<close>: concrete worlds and runs the closed instances are evaluated at.

  \<^bold>\<open>Interfaces.\<close> Locales state what one part relies on in another, each interpreted on the model's own
  definitions: \<open>outbox_handler\<close> (what the poller needs of a handler; the driver), \<open>record_stream\<close> (what
  draining needs of a reader; the three readers) and \<open>run_archive\<close> (what the command needs of the store
  of runs; the tables).

  \<^bold>\<open>Bounds and fuel.\<close> Amounts and counters are words that wrap, as in Go; balances are exact while the
  true sum fits. The posting retry loop makes at most \<open>maxSerializationRetries\<close> tries; the status query
  loop counts its tries down. Draining a reader, up to the end or the first malformed row, takes fuel: one
  more than its rows is enough and more changes nothing (\<open>settlement_files_read_exactly\<close>). \<open>poller_drain\<close> takes fuel because \<open>Drain\<close> may run forever when
  handlers keep events due; in a healthy world one tick more than the workload is enough
  (\<open>healthy_outbox_drains\<close>). \<open>Run\<close> blocks until it is cancelled, so it takes the list of its wake-ups;
  after a restart more of them than twice the workload are enough (\<open>restart_finishes_everything\<close>).

  \<^bold>\<open>Parameters.\<close> SHA-256, the sequence of \<open>math/rand\<close>, the iteration order of Go maps, the parser of
  JSON bytes into members, \<open>google/uuid\<close>, gRPC metadata, \<open>strconv.ParseFloat\<close> and the rendering of library
  error texts are arguments of the definitions that use them; what is assumed of them (a parser inverts the
  printer, an enumeration lists a map once, \<open>Get\<close> returns what was appended) is in the hypotheses.

  \<^bold>\<open>Not modelled.\<close> JSON as bytes (strings are kept as they are, so the JSON round trips hold for valid UTF-8
  only), gRPC as a transport, the white space beyond ASCII that \<open>strings.TrimSpace\<close> also removes, HTTP parsing and headers (chi), flag parsing (cobra, viper), the log
  output itself and its levels, spans, the Prometheus registry and its exposition (the counters are fields
  of the world, the value of the lag gauge is read and dropped), the body of \<open>/healthz\<close>, the code generated
  by sqlc (\<open>db.go\<close>, the row structs) and protoc, test support. They carry no state of the two promises.
  Durations are unbounded integers of nanoseconds where the code's 64 bits cannot be exceeded by its
  configuration; text columns may hold NUL; an error of a rollback, joined by the code to the error that
  caused it, is left out; the texts and positions of \<open>encoding/csv\<close> and \<open>time\<close> errors are abridged; reading
  a file does not fail half way.
\<close>

end
